(* ===== verification/Prelude.thy ===== *)
theory Prelude
  imports Complex_Main "HOL-Library.AList" "HOL-Library.Char_ord" "HOL-Library.List_Lexorder"
    "HOL-Library.Sublist"
begin

text \<open>
  Shared vocabulary of the development: Python values, the string operations of the
  standard library that the modelled code uses, insertion ordered dictionaries and a few
  generic facts on lists.

  A Python \<open>str\<close> is a list of characters; the character tables (\<open>py_is_space\<close>,
  \<open>py_lower_char\<close>) are those of the ASCII range.  A Python \<open>dict\<close> is an
  association list in insertion order: \<^const>\<open>AList.update\<close> overwrites in place or
  appends, \<^const>\<open>AList.delete\<close> removes, \<^const>\<open>map_of\<close> looks up.
  Times (Python floats) are rational numbers.
\<close>

named_theorems dict_simps \<open>facts on insertion ordered dictionaries\<close>
named_theorems strings_simps \<open>facts on the string operations\<close>

type_synonym time = rat
type_synonym ('k, 'v) dict = "('k \<times> 'v) list"

section \<open>Dynamically typed values\<close>

text \<open>The JSON shaped values that configuration blocks and payloads hold.\<close>

datatype pyval =
    PNone
  | PBool bool
  | PInt int
  | PFloat rat
  | PStr string
  | PList "pyval list"
  | PDict "(string \<times> pyval) list"

text \<open>Python truth value testing.\<close>

fun py_truthy :: "pyval \<Rightarrow> bool" where
  "py_truthy PNone = False"
| "py_truthy (PBool b) = b"
| "py_truthy (PInt i) = (i \<noteq> 0)"
| "py_truthy (PFloat r) = (r \<noteq> 0)"
| "py_truthy (PStr s) = (s \<noteq> [])"
| "py_truthy (PList xs) = (xs \<noteq> [])"
| "py_truthy (PDict d) = (d \<noteq> [])"

text \<open>\<open>dict.get(key)\<close>: \<open>None\<close> when the key is missing.\<close>

definition pget :: "(string \<times> pyval) list \<Rightarrow> string \<Rightarrow> pyval" where
  "pget d k = (case map_of d k of None \<Rightarrow> PNone | Some v \<Rightarrow> v)"

definition pget_default :: "(string \<times> pyval) list \<Rightarrow> string \<Rightarrow> pyval \<Rightarrow> pyval" where
  "pget_default d k v0 = (case map_of d k of None \<Rightarrow> v0 | Some v \<Rightarrow> v)"

text \<open>\<open>a or b\<close>.\<close>

definition py_or :: "pyval \<Rightarrow> pyval \<Rightarrow> pyval" where
  "py_or a b = (if py_truthy a then a else b)"

section \<open>Strings\<close>

definition py_is_space :: "char \<Rightarrow> bool" where
  "py_is_space c \<longleftrightarrow>
     (let n = (of_char c :: nat) in (9 \<le> n \<and> n \<le> 13) \<or> (28 \<le> n \<and> n \<le> 32))"

definition py_lower_char :: "char \<Rightarrow> char" where
  "py_lower_char c =
     (let n = (of_char c :: nat) in if 65 \<le> n \<and> n \<le> 90 then char_of (n + 32) else c)"

definition py_lower :: "string \<Rightarrow> string" where
  "py_lower = map py_lower_char"

definition py_lstrip :: "string \<Rightarrow> string" where
  "py_lstrip s = dropWhile py_is_space s"

definition py_rstrip :: "string \<Rightarrow> string" where
  "py_rstrip s = rev (dropWhile py_is_space (rev s))"

definition py_strip :: "string \<Rightarrow> string" where
  "py_strip s = py_rstrip (py_lstrip s)"

text \<open>\<open>s.split(c)\<close>: never empty, keeps empty fields.\<close>

fun split_on :: "char \<Rightarrow> string \<Rightarrow> string list" where
  "split_on c [] = [[]]"
| "split_on c (x # xs) =
     (if x = c then [] # split_on c xs
      else (case split_on c xs of [] \<Rightarrow> [[x]] | y # ys \<Rightarrow> (x # y) # ys))"

text \<open>\<open>s.split()\<close>: fields between runs of white space, no empty field.\<close>

fun split_ws_aux :: "string \<Rightarrow> string \<Rightarrow> string list" where
  "split_ws_aux acc [] = (if acc = [] then [] else [rev acc])"
| "split_ws_aux acc (x # xs) =
     (if py_is_space x
      then (if acc = [] then split_ws_aux [] xs else rev acc # split_ws_aux [] xs)
      else split_ws_aux (x # acc) xs)"

definition split_ws :: "string \<Rightarrow> string list" where
  "split_ws s = split_ws_aux [] s"

text \<open>\<open>sep.join(xs)\<close>.\<close>

fun join_with :: "string \<Rightarrow> string list \<Rightarrow> string" where
  "join_with sep [] = []"
| "join_with sep [x] = x"
| "join_with sep (x # y # ys) = x @ sep @ join_with sep (y # ys)"

text \<open>
  \<open>str.splitlines(keepends=True)\<close> for the ASCII line boundaries: line feed, carriage
  return, the pair of both, vertical tab, form feed and the three separators 28 to 30.
\<close>

definition is_line_end :: "char \<Rightarrow> bool" where
  "is_line_end c \<longleftrightarrow>
     (let n = (of_char c :: nat) in (10 \<le> n \<and> n \<le> 13) \<or> (28 \<le> n \<and> n \<le> 30))"

abbreviation (input) LF :: char where "LF \<equiv> CHR 0x0A"
abbreviation (input) CR :: char where "CR \<equiv> CHR 0x0D"

fun splitlines_keep_aux :: "string \<Rightarrow> string \<Rightarrow> string list" where
  "splitlines_keep_aux acc [] = (if acc = [] then [] else [rev acc])"
| "splitlines_keep_aux acc (x # xs) =
     (if x = CR then
        (case xs of
           [] \<Rightarrow> [rev (CR # acc)]
         | y # ys \<Rightarrow>
             if y = LF then rev (LF # CR # acc) # splitlines_keep_aux [] ys
             else rev (CR # acc) # splitlines_keep_aux [] (y # ys))
      else if is_line_end x then rev (x # acc) # splitlines_keep_aux [] xs
      else splitlines_keep_aux (x # acc) xs)"

definition splitlines_keep :: "string \<Rightarrow> string list" where
  "splitlines_keep s = splitlines_keep_aux [] s"

text \<open>\<open>str.splitlines()\<close>: the same lines without their terminators.\<close>

definition chop_line_end :: "string \<Rightarrow> string" where
  "chop_line_end l =
     (if suffix [CR, LF] l then butlast (butlast l)
      else if l \<noteq> [] \<and> is_line_end (last l) then butlast l else l)"

definition splitlines :: "string \<Rightarrow> string list" where
  "splitlines s = map chop_line_end (splitlines_keep s)"

text \<open>Decimal notation of integers, as \<open>str(int)\<close> prints it.\<close>

fun nat_str :: "nat \<Rightarrow> string" where
  "nat_str n =
     (if n < 10 then [char_of (48 + n)] else nat_str (n div 10) @ [char_of (48 + n mod 10)])"

declare nat_str.simps [simp del]

definition int_str :: "int \<Rightarrow> string" where
  "int_str i = (if i < 0 then CHR ''-'' # nat_str (nat (- i)) else nat_str (nat i))"

text \<open>Decimal digits, and the number a string of digits stands for.\<close>

definition is_digit :: "char \<Rightarrow> bool" where
  "is_digit c \<longleftrightarrow> (let n = (of_char c :: nat) in 48 \<le> n \<and> n \<le> 57)"

definition digits_value :: "string \<Rightarrow> nat" where
  "digits_value ds = foldl (\<lambda>n c. 10 * n + (of_char c - 48)) 0 ds"

lemma is_digit_char [simp]: "n < 10 \<Longrightarrow> is_digit (char_of (48 + n :: nat))"
  by (simp add: is_digit_def Let_def)

lemma nat_str_digits: "list_all is_digit (nat_str n) \<and> nat_str n \<noteq> []"
proof (induction n rule: nat_str.induct)
  case (1 n)
  then show ?case by (cases "n < 10") (simp_all add: nat_str.simps [of n])
qed

lemma digits_value_snoc: "digits_value (ds @ [d]) = 10 * digits_value ds + (of_char d - 48)"
  by (simp add: digits_value_def)

lemma digits_value_nat_str: "digits_value (nat_str n) = n"
proof (induction n rule: nat_str.induct)
  case (1 n)
  then show ?case
    by (cases "n < 10") (simp_all add: nat_str.simps [of n] digits_value_snoc, simp add: digits_value_def)
qed

lemma takeWhile_digits:
  assumes "list_all is_digit ds" and "rest = [] \<or> \<not> is_digit (hd rest)"
  shows "takeWhile is_digit (ds @ rest) = ds" "dropWhile is_digit (ds @ rest) = rest"
  using assms by (induction ds; cases rest; simp)+

lemma nat_str_inject [simp]: "nat_str m = nat_str n \<longleftrightarrow> m = n"
  by (metis digits_value_nat_str)

text \<open>Positional decimal notation of a float, at most seventeen fractional digits.\<close>

fun frac_digits :: "nat \<Rightarrow> rat \<Rightarrow> string" where
  "frac_digits 0 r = []"
| "frac_digits (Suc n) r =
     (let d = \<lfloor>10 * r\<rfloor>; rest = 10 * r - of_int d
      in char_of (48 + nat d) # (if rest = 0 then [] else frac_digits n rest))"

definition float_str :: "rat \<Rightarrow> string" where
  "float_str r =
     (let a = \<bar>r\<bar>
      in (if r < 0 then ''-'' else []) @ nat_str (nat \<lfloor>a\<rfloor>) @ ''.'' @
         frac_digits 17 (a - of_int \<lfloor>a\<rfloor>))"

text \<open>
  \<open>repr\<close> and \<open>str\<close> of a value.  Control characters are left as they are: the modelled
  code only builds lookup keys and messages from these strings.
\<close>

definition repr_string :: "string \<Rightarrow> string" where
  "repr_string s =
     (let q = (if CHR 0x27 \<in> set s \<and> CHR 0x22 \<notin> set s then CHR 0x22 else CHR 0x27)
      in q # concat (map (\<lambda>c. if c = CHR 0x5C \<or> c = q then [CHR 0x5C, c] else [c]) s) @ [q])"

fun py_repr :: "pyval \<Rightarrow> string" where
  "py_repr PNone = ''None''"
| "py_repr (PBool b) = (if b then ''True'' else ''False'')"
| "py_repr (PInt i) = int_str i"
| "py_repr (PFloat r) = float_str r"
| "py_repr (PStr s) = repr_string s"
| "py_repr (PList xs) = ''['' @ join_with '', '' (map py_repr xs) @ '']''"
| "py_repr (PDict d) =
     ''{'' @ join_with '', '' (map (\<lambda>(k, v). repr_string k @ '': '' @ py_repr v) d) @ ''}''"

definition py_str :: "pyval \<Rightarrow> string" where
  "py_str v = (case v of PStr s \<Rightarrow> s | _ \<Rightarrow> py_repr v)"

text \<open>\<open>xs.index(x)\<close>: the first position, \<^const>\<open>None\<close> where Python raises.\<close>

fun find_index_of :: "'a \<Rightarrow> 'a list \<Rightarrow> nat option" where
  "find_index_of x [] = None"
| "find_index_of x (y # ys) = (if x = y then Some 0 else map_option Suc (find_index_of x ys))"

section \<open>Paths\<close>

text \<open>\<open>str(Path(p))\<close> and \<open>str(Path(p).parent)\<close> of POSIX paths.\<close>

definition path_root :: "string \<Rightarrow> string" where
  "path_root p =
     (if prefix ''//'' p \<and> \<not> prefix ''///'' p then ''//'' else if prefix ''/'' p then ''/'' else [])"

definition path_parts :: "string \<Rightarrow> string list" where
  "path_parts p = filter (\<lambda>c. c \<noteq> [] \<and> c \<noteq> ''.'') (split_on CHR ''/'' p)"

definition path_make :: "string \<Rightarrow> string list \<Rightarrow> string" where
  "path_make start parts = (if start = [] \<and> parts = [] then ''.'' else start @ join_with ''/'' parts)"

definition path_text :: "string \<Rightarrow> string" where
  "path_text p = path_make (path_root p) (path_parts p)"

definition path_parent :: "string \<Rightarrow> string" where
  "path_parent p = path_make (path_root p) (butlast (path_parts p))"

definition path_name :: "string \<Rightarrow> string" where
  "path_name p = (if path_parts p = [] then [] else last (path_parts p))"

text \<open>\<open>Path(p).suffix\<close>: the name from its last dot, unless that dot is its first or last character.\<close>

definition path_suffix :: "string \<Rightarrow> string" where
  "path_suffix p =
     (let name = path_name p; ext = rev (takeWhile (\<lambda>c. c \<noteq> CHR ''.'') (rev name))
      in if CHR ''.'' \<in> set name \<and> ext \<noteq> [] \<and> length ext + 1 < length name then CHR ''.'' # ext else [])"

section \<open>Errors as values\<close>

text \<open>Sequencing of steps that may raise.\<close>

fun try_then :: "'e + 'a \<Rightarrow> ('a \<Rightarrow> 'e + 'b) \<Rightarrow> 'e + 'b" where
  "try_then (Inl e) f = Inl e"
| "try_then (Inr x) f = f x"

lemma try_then_Inr: "try_then x f = Inr y \<longleftrightarrow> (\<exists>z. x = Inr z \<and> f z = Inr y)"
  by (cases x) simp_all

section \<open>Facts on strings\<close>

lemma split_on_not_Nil [simp]: "split_on c s \<noteq> []"
  by (induction s) (auto split: list.splits)

lemma split_on_Cons_ex: "\<exists>y ys. split_on c s = y # ys"
  by (cases "split_on c s") auto

lemma split_on_no_sep [strings_simps]: "c \<notin> set s \<Longrightarrow> split_on c s = [s]"
  by (induction s) auto

lemma split_on_append [strings_simps]:
  "c \<notin> set s \<Longrightarrow> split_on c (s @ c # t) = s # split_on c t"
  by (induction s) auto

lemma hd_split_on: "hd (split_on c s) = takeWhile (\<lambda>x. x \<noteq> c) s"
  by (induction s) (auto split: list.splits dest: arg_cong [where f = hd])

lemma split_on_field: "f \<in> set (split_on c s) \<Longrightarrow> c \<notin> set f"
  by (induction s arbitrary: f) (auto split: if_splits list.splits)

lemma join_split_on: "join_with [c] (split_on c s) = s"
proof (induction s)
  case (Cons x xs)
  obtain y ys where "split_on c xs = y # ys" using split_on_Cons_ex by blast
  with Cons show ?case by (cases ys) auto
qed simp

lemma split_on_inject: "split_on c s = split_on c t \<longleftrightarrow> s = t"
  by (metis join_split_on)

lemma split_on_join:
  "xs \<noteq> [] \<Longrightarrow> \<forall>x \<in> set xs. c \<notin> set x \<Longrightarrow> split_on c (join_with [c] xs) = xs"
  by (induction "[c]" xs rule: join_with.induct) (auto simp: strings_simps)

lemma dropWhile_none: "\<forall>x \<in> set xs. \<not> P x \<Longrightarrow> dropWhile P xs = xs"
  by (cases xs) auto

lemma py_strip_no_space [strings_simps]:
  "\<forall>c \<in> set s. \<not> py_is_space c \<Longrightarrow> py_strip s = s"
  by (simp add: py_strip_def py_rstrip_def py_lstrip_def dropWhile_none)

lemma set_py_strip: "set (py_strip s) \<subseteq> set s"
  unfolding py_strip_def py_rstrip_def py_lstrip_def
  by (auto dest!: set_dropWhileD)

section \<open>Facts on dictionaries and lists\<close>

lemma map_of_update [dict_simps]: "map_of (AList.update k v d) = (map_of d)(k \<mapsto> v)"
  by (rule update_conv')

lemma map_of_delete [dict_simps]: "map_of (AList.delete k d) = (map_of d)(k := None)"
  by (rule delete_conv')

lemma update_new [dict_simps]: "k \<notin> fst ` set d \<Longrightarrow> AList.update k v d = d @ [(k, v)]"
  by (induction d) (auto simp: image_iff)

lemma keys_update_old [dict_simps]:
  "k \<in> fst ` set d \<Longrightarrow> map fst (AList.update k v d) = map fst d"
  by (simp add: update_keys)

lemma distinct_keys_update: "distinct (map fst d) \<Longrightarrow> distinct (map fst (AList.update k v d))"
  by (rule distinct_update)

lemma distinct_keys_delete: "distinct (map fst d) \<Longrightarrow> distinct (map fst (AList.delete k d))"
  by (rule distinct_delete)

lemma in_dict_iff_map_of:
  "distinct (map fst d) \<Longrightarrow> (k, v) \<in> set d \<longleftrightarrow> map_of d k = Some v"
  by simp

lemma update_same [dict_simps]: "map_of d k = Some v \<Longrightarrow> AList.update k v d = d"
  by (induction d) auto

lemma map_of_in_keys: "map_of d k = Some v \<Longrightarrow> k \<in> fst ` set d"
  by (force dest: map_of_SomeD)

lemma map_of_fold_update:
  "map_of (fold (\<lambda>p. AList.update p (f p)) ps d) q = (if q \<in> set ps then Some (f q) else map_of d q)"
  by (induction ps arbitrary: d) (auto simp: dict_simps)

lemma distinct_fold_update:
  "distinct (map fst d) \<Longrightarrow> distinct (map fst (fold (\<lambda>p. AList.update p (f p)) ps d))"
  by (induction ps arbitrary: d) (auto simp: distinct_keys_update)

lemma map_of_fold_entries:
  "map_of (fold (\<lambda>(k, v) d. AList.update k v d) xs d) = map_of d ++ map_of (rev xs)"
  by (induction xs arbitrary: d) (auto simp: dict_simps map_add_def fun_eq_iff split: option.splits)

lemma distinct_fold_entries:
  "distinct (map fst d) \<Longrightarrow> distinct (map fst (fold (\<lambda>(k, v) d. AList.update k v d) xs d))"
  by (induction xs arbitrary: d) (auto simp: distinct_keys_update)

section \<open>Facts on lines\<close>

lemma splitlines_aux_line:
  "\<forall>c \<in> set s. \<not> is_line_end c \<Longrightarrow>
   splitlines_keep_aux acc (s @ LF # t) = (rev acc @ s @ [LF]) # splitlines_keep_aux [] t"
proof (induction s arbitrary: acc)
  case Nil
  show ?case by (simp add: is_line_end_def)
next
  case (Cons x s)
  moreover from this have "x \<noteq> CR" by (auto simp: is_line_end_def)
  ultimately show ?case by simp
qed

lemma splitlines_aux_last:
  "\<forall>c \<in> set s. \<not> is_line_end c \<Longrightarrow>
   splitlines_keep_aux acc s = (if rev acc @ s = [] then [] else [rev acc @ s])"
proof (induction s arbitrary: acc)
  case (Cons x s)
  moreover from this have "x \<noteq> CR" by (auto simp: is_line_end_def)
  ultimately show ?case by simp
qed simp

lemma chop_line_end_simps:
  "\<forall>c \<in> set s. \<not> is_line_end c \<Longrightarrow> chop_line_end s = s"
  "\<forall>c \<in> set s. \<not> is_line_end c \<Longrightarrow> chop_line_end (s @ [LF]) = s"
proof -
  assume s: "\<forall>c \<in> set s. \<not> is_line_end c"
  have CR: "is_line_end CR" and LF: "is_line_end LF" by (simp_all add: is_line_end_def)
  have "\<not> suffix [CR, LF] s" using s CR by (auto simp: suffix_def)
  moreover have "\<not> (s \<noteq> [] \<and> is_line_end (last s))" using s by auto
  ultimately show "chop_line_end s = s" by (auto simp: chop_line_end_def)
  have "\<not> suffix [CR, LF] (s @ [LF])" using s CR by (auto simp: suffix_def)
  then show "chop_line_end (s @ [LF]) = s" using LF by (simp add: chop_line_end_def)
qed

lemma splitlines_join:
  "\<forall>l \<in> set ls. l \<noteq> [] \<and> (\<forall>c \<in> set l. \<not> is_line_end c) \<Longrightarrow>
   splitlines (join_with [LF] ls) = ls"
  unfolding splitlines_def splitlines_keep_def
  by (induction "[LF]" ls rule: join_with.induct)
    (auto simp: splitlines_aux_line splitlines_aux_last chop_line_end_simps)

end
