(* ===== verification/Models.thy ===== *)
theory Models
  imports Prelude
begin

text \<open>
  The enumerations and the event record of \<open>models.py\<close> that several components share.
  Each enumeration comes with its string values and the lookup by value, which raises
  \<open>ValueError\<close> (here \<^const>\<open>None\<close>) for any other string.
\<close>

datatype source_type = SRC_HUMAN | SRC_AI | SRC_WORKFLOW | SRC_SYSTEM | SRC_UNKNOWN

fun source_type_value :: "source_type \<Rightarrow> string" where
  "source_type_value SRC_HUMAN = ''human''"
| "source_type_value SRC_AI = ''ai''"
| "source_type_value SRC_WORKFLOW = ''workflow''"
| "source_type_value SRC_SYSTEM = ''system''"
| "source_type_value SRC_UNKNOWN = ''unknown''"

datatype risk_level = RISK_LOW | RISK_MEDIUM | RISK_HIGH | RISK_CRITICAL

fun risk_value :: "risk_level \<Rightarrow> string" where
  "risk_value RISK_LOW = ''low''"
| "risk_value RISK_MEDIUM = ''medium''"
| "risk_value RISK_HIGH = ''high''"
| "risk_value RISK_CRITICAL = ''critical''"

definition risk_of_string :: "string \<Rightarrow> risk_level option" where
  "risk_of_string s =
     find (\<lambda>r. risk_value r = s) [RISK_LOW, RISK_MEDIUM, RISK_HIGH, RISK_CRITICAL]"

datatype policy_action = ACT_AUTO | ACT_CONFIRM | ACT_DENY

fun action_value :: "policy_action \<Rightarrow> string" where
  "action_value ACT_AUTO = ''auto''"
| "action_value ACT_CONFIRM = ''confirm''"
| "action_value ACT_DENY = ''deny''"

definition action_of_string :: "string \<Rightarrow> policy_action option" where
  "action_of_string s = find (\<lambda>a. action_value a = s) [ACT_AUTO, ACT_CONFIRM, ACT_DENY]"

datatype severity = SEV_INFO | SEV_WARNING | SEV_ERROR | SEV_CRITICAL

fun severity_value :: "severity \<Rightarrow> string" where
  "severity_value SEV_INFO = ''info''"
| "severity_value SEV_WARNING = ''warning''"
| "severity_value SEV_ERROR = ''error''"
| "severity_value SEV_CRITICAL = ''critical''"

definition severity_of_string :: "string \<Rightarrow> severity option" where
  "severity_of_string s =
     find (\<lambda>v. severity_value v = s) [SEV_INFO, SEV_WARNING, SEV_ERROR, SEV_CRITICAL]"

record sys_event =
  ev_type :: string
  ev_source :: string
  ev_source_type :: source_type
  ev_severity :: severity
  ev_payload :: "(string, pyval) dict"
  ev_timestamp :: "time option"

text \<open>The members of \<open>TRMErrorCode\<close> that the modelled code raises.\<close>

datatype trm_error =
    WORKFLOW_NODE_NOT_FOUND
  | WORKFLOW_VALIDATION_FAILED
  | WORKFLOW_CIRCULAR_DEPENDENCY
  | EVENT_BUS_DISPATCH_FAILED
  | RESOURCE_LIMIT_EXCEEDED
  | FILE_NOT_FOUND
  | PATCH_REJECTED
  | CWD_JAIL_VIOLATION
  | TOOL_EXECUTION_FAILED
  | AGENT_TASK_FAILED
  | AGENT_TASK_TIMEOUT
  | RUNTIME_INIT_FAILED
  | WORKFLOW_PARSE_ERROR

text \<open>Exceptions of the standard library and the program's own \<open>TrimumError\<close>.\<close>

datatype py_error =
    TypeError | ValueError | KeyError | IndexError | AttributeError | UnboundLocalError | Trm trm_error

text \<open>\<open>float(raw)\<close>: \<^const>\<open>None\<close> where it raises.\<close>

definition to_float :: "(string \<Rightarrow> time option) \<Rightarrow> pyval \<Rightarrow> time option" where
  "to_float float_of raw =
     (case raw of
        PInt i \<Rightarrow> Some (of_int i) | PFloat r \<Rightarrow> Some r
      | PBool b \<Rightarrow> Some (if b then 1 else 0) | PStr s \<Rightarrow> float_of s | _ \<Rightarrow> None)"

lemma risk_of_value [simp]: "risk_of_string (risk_value r) = Some r"
  by (cases r) (simp_all add: risk_of_string_def)

lemma action_of_value [simp]: "action_of_string (action_value a) = Some a"
  by (cases a) (simp_all add: action_of_string_def)

lemma severity_of_value [simp]: "severity_of_string (severity_value v) = Some v"
  by (cases v) (simp_all add: severity_of_string_def)

end
