(* ===== verification/Llm_Router.thy ===== *)
theory Llm_Router
  imports Models
begin

text \<open>
  The routing of calls to language models (\<open>llm_router.py\<close>): which targets a role has, the rate limit
  per provider, cooling down after errors, and the fallback from one target to the next.
  The environment is a function, an attempt is a function of the target and of the number of calls
  made before; sleeping and attempts move the two clocks of the state.
\<close>

section \<open>Targets\<close>

record llm_target =
  lt_role :: string
  lt_tier :: string
  lt_model :: string
  lt_base_url :: string
  lt_api_key :: string
  lt_api_key_env :: string
  lt_rpm :: int
  lt_timeout :: time
  lt_max_retries :: int

text \<open>\<open>url.split("//", 1)[-1]\<close> and the text before the first occurrence of a character.\<close>

fun after_slashes :: "string \<Rightarrow> string option" where
  "after_slashes (c # d # cs) = (if c = CHR ''/'' \<and> d = CHR ''/'' then Some cs else after_slashes (d # cs))"
| "after_slashes _ = None"

definition before_char :: "char \<Rightarrow> string \<Rightarrow> string" where
  "before_char c s = takeWhile (\<lambda>x. x \<noteq> c) s"

definition url_host :: "string \<Rightarrow> string" where
  "url_host url =
     py_lower (before_char CHR ''/'' (case after_slashes url of None \<Rightarrow> url | Some t \<Rightarrow> t))"

definition short_host :: "string \<Rightarrow> string" where
  "short_host url = (let h = before_char CHR '':'' (url_host url) in if h = [] then ''?'' else h)"

definition is_local :: "string \<Rightarrow> bool" where
  "is_local url =
     (let h = before_char CHR '':'' (url_host url)
      in h \<in> set [''localhost'', ''127.0.0.1'', ''::1'', ''0.0.0.0''] \<or> suffix ''.local'' h)"

definition lt_provider :: "llm_target \<Rightarrow> string" where
  "lt_provider t = rev (dropWhile (\<lambda>c. c = CHR ''/'') (rev (lt_base_url t)))"

definition lt_label :: "llm_target \<Rightarrow> string" where
  "lt_label t = lt_tier t @ '':'' @ lt_model t @ ''@'' @ short_host (lt_base_url t)"

definition lt_usable :: "llm_target \<Rightarrow> bool" where
  "lt_usable t \<longleftrightarrow> lt_api_key t \<noteq> [] \<or> is_local (lt_base_url t)"

section \<open>Reading the environment\<close>

type_synonym environ = "string \<Rightarrow> string option"

definition env_first :: "environ \<Rightarrow> string list \<Rightarrow> string" where
  "env_first env names =
     (case find (\<lambda>n. case env n of None \<Rightarrow> False | Some v \<Rightarrow> py_strip v \<noteq> []) names of
        None \<Rightarrow> [] | Some n \<Rightarrow> py_strip (case env n of None \<Rightarrow> [] | Some v \<Rightarrow> v))"

definition env_bool :: "environ \<Rightarrow> string \<Rightarrow> bool \<Rightarrow> bool" where
  "env_bool env name d =
     (case env name of
        None \<Rightarrow> d
      | Some v \<Rightarrow> if py_strip v = [] then d
                  else py_lower (py_strip v) \<notin> set [''0'', ''false'', ''no'', ''off''])"

text \<open>\<open>int(float(text))\<close> truncates towards zero.\<close>

definition trunc :: "time \<Rightarrow> int" where
  "trunc r = (if r < 0 then - \<lfloor>- r\<rfloor> else \<lfloor>r\<rfloor>)"

definition env_int :: "(string \<Rightarrow> time option) \<Rightarrow> environ \<Rightarrow> string \<Rightarrow> int \<Rightarrow> int" where
  "env_int float_of env name d = (case float_of (env_first env [name]) of None \<Rightarrow> d | Some r \<Rightarrow> trunc r)"

definition env_float :: "(string \<Rightarrow> time option) \<Rightarrow> environ \<Rightarrow> string \<Rightarrow> time \<Rightarrow> time" where
  "env_float float_of env name d = (case float_of (env_first env [name]) of None \<Rightarrow> d | Some r \<Rightarrow> r)"

definition implied_key_envs :: "string \<Rightarrow> string list" where
  "implied_key_envs url =
     (let h = url_host url
      in if sublist ''sjtu.edu.cn'' h then [''JIAOWOISAN_API_KEY'', ''API_KEY'', ''TRIMUM_LLM_API_KEY'']
         else if sublist ''deepseek.com'' h then [''DEEPSEEK_API_KEY'', ''TRIMUM_LLM_API_KEY'']
         else [''TRIMUM_LLM_API_KEY''])"

definition implied_rpm :: "string \<Rightarrow> int" where
  "implied_rpm url = (if sublist ''sjtu.edu.cn'' (url_host url) then 9 else 0)"

text \<open>\<open>default not in (None, "")\<close>.\<close>

definition given :: "pyval \<Rightarrow> bool" where
  "given v \<longleftrightarrow> v \<noteq> PNone \<and> v \<noteq> PStr []"

definition pick :: "environ \<Rightarrow> string \<Rightarrow> string list \<Rightarrow> pyval \<Rightarrow> string \<Rightarrow> string" where
  "pick env field ps d builtin =
     (case find (\<lambda>p. env_first env [p @ ''_'' @ field] \<noteq> []) ps of
        Some p \<Rightarrow> env_first env [p @ ''_'' @ field]
      | None \<Rightarrow> if given d then py_str d else builtin)"

definition pick_int ::
    "(string \<Rightarrow> time option) \<Rightarrow> environ \<Rightarrow> string \<Rightarrow> string list \<Rightarrow> pyval \<Rightarrow> int \<Rightarrow> int" where
  "pick_int float_of env field ps d builtin =
     (case find (\<lambda>p. env_first env [p @ ''_'' @ field] \<noteq> []) ps of
        Some p \<Rightarrow> env_int float_of env (p @ ''_'' @ field) builtin
      | None \<Rightarrow> if given d then (case to_float float_of d of None \<Rightarrow> builtin | Some r \<Rightarrow> trunc r) else builtin)"

definition pick_float ::
    "(string \<Rightarrow> time option) \<Rightarrow> environ \<Rightarrow> string \<Rightarrow> string list \<Rightarrow> pyval \<Rightarrow> time \<Rightarrow> time" where
  "pick_float float_of env field ps d builtin =
     (case find (\<lambda>p. env_first env [p @ ''_'' @ field] \<noteq> []) ps of
        Some p \<Rightarrow> env_float float_of env (p @ ''_'' @ field) builtin
      | None \<Rightarrow> if given d then (case to_float float_of d of None \<Rightarrow> builtin | Some r \<Rightarrow> r) else builtin)"

definition pick_rpm ::
    "(string \<Rightarrow> time option) \<Rightarrow> environ \<Rightarrow> string \<Rightarrow> string \<Rightarrow> string \<Rightarrow> pyval \<Rightarrow> bool \<Rightarrow> int" where
  "pick_rpm float_of env pre global url d url_overridden =
     (let inherited =
            (if \<not> url_overridden \<and> env_first env [global @ ''_RPM''] \<noteq> []
             then env_int float_of env (global @ ''_RPM'') (implied_rpm url) else implied_rpm url)
      in if env_first env [pre @ ''_RPM''] \<noteq> [] then env_int float_of env (pre @ ''_RPM'') 0
         else if given d then (case to_float float_of d of Some r \<Rightarrow> trunc r | None \<Rightarrow> inherited)
         else inherited)"

definition EXPLICIT :: string where "EXPLICIT = ''(explicit)''"

text \<open>The key and where it comes from.\<close>

definition resolve_api_key :: "environ \<Rightarrow> string list \<Rightarrow> pyval \<Rightarrow> pyval \<Rightarrow> string \<Rightarrow> string \<times> string" where
  "resolve_api_key env ps direct key_env url =
     (if py_truthy direct then (py_strip (py_str direct), EXPLICIT)
      else
        (case find (\<lambda>p. env_first env [p @ ''_API_KEY''] \<noteq> []) ps of
           Some p \<Rightarrow> (env_first env [p @ ''_API_KEY''], p @ ''_API_KEY'')
         | None \<Rightarrow>
             (case find (\<lambda>p. env_first env [p @ ''_API_KEY_ENV''] \<noteq> []) ps of
                Some p \<Rightarrow>
                  (let name = env_first env [p @ ''_API_KEY_ENV''] in (env_first env [name], name))
              | None \<Rightarrow>
                  (let names = (if py_truthy key_env then [py_str key_env] else []) @ implied_key_envs url
                   in case find (\<lambda>n. env_first env [n] \<noteq> []) names of
                        Some n \<Rightarrow> (env_first env [n], n)
                      | None \<Rightarrow> ([], hd names)))))"

definition py_upper_char :: "char \<Rightarrow> char" where
  "py_upper_char c =
     (let n = (of_char c :: nat) in if 97 \<le> n \<and> n \<le> 122 then char_of (n - 32) else c)"

definition role_prefix :: "string \<Rightarrow> string" where
  "role_prefix role = map py_upper_char role @ ''_LLM''"

definition resolve_targets ::
    "(string \<Rightarrow> time option) \<Rightarrow> environ \<Rightarrow> string \<Rightarrow> (string, pyval) dict \<Rightarrow> bool option \<Rightarrow> llm_target list" where
  "resolve_targets float_of env role d fallback =
     (let rp = role_prefix role;
          ps = [rp, ''TRIMUM_LLM''];
          fps = [rp @ ''_FALLBACK'', ''TRIMUM_LLM_FALLBACK''];
          url = pick env ''BASE_URL'' ps (pget d ''base_url'') ''https://models.sjtu.edu.cn/api/v1'';
          key = resolve_api_key env ps (pget d ''api_key'') (pget d ''api_key_env'') url;
          primary =
            \<lparr>lt_role = role, lt_tier = ''primary'',
             lt_model = pick env ''MODEL'' ps (pget d ''model'') ''qwen3.8-27b'',
             lt_base_url = url, lt_api_key = fst key, lt_api_key_env = snd key,
             lt_rpm = pick_rpm float_of env rp ''TRIMUM_LLM'' url (pget d ''rpm'') (env_first env [rp @ ''_BASE_URL''] \<noteq> []),
             lt_timeout = pick_float float_of env ''TIMEOUT'' ps (pget d ''timeout'') 30,
             lt_max_retries = pick_int float_of env ''MAX_RETRIES'' ps (pget d ''max_retries'') 1\<rparr>;
          want = (case fallback of None \<Rightarrow> env_bool env ''TRIMUM_LLM_FALLBACK_ENABLED'' True | Some b \<Rightarrow> b);
          furl = pick env ''BASE_URL'' fps (pget d ''fallback_base_url'') ''https://api.deepseek.com/v1'';
          fkey = resolve_api_key env fps PNone (pget d ''fallback_api_key_env'') furl;
          secondary =
            \<lparr>lt_role = role, lt_tier = ''fallback'',
             lt_model = pick env ''MODEL'' fps (pget d ''fallback_model'') ''deepseek-flash'',
             lt_base_url = furl, lt_api_key = fst fkey, lt_api_key_env = snd fkey,
             lt_rpm = pick_rpm float_of env (rp @ ''_FALLBACK'') ''TRIMUM_LLM_FALLBACK'' furl PNone
                        (env_first env [rp @ ''_FALLBACK_BASE_URL''] \<noteq> []),
             lt_timeout = pick_float float_of env ''TIMEOUT'' fps (pget d ''timeout'') 30,
             lt_max_retries = pick_int float_of env ''MAX_RETRIES'' fps (pget d ''max_retries'') 1\<rparr>
      in if want \<and> (lt_provider secondary, lt_model secondary) \<noteq> (lt_provider primary, lt_model primary)
         then [primary, secondary] else [primary])"

section \<open>Rate limits\<close>

text \<open>
  A bucket in the shared file: the tokens left and the time of the last call.  \<open>bucket_take\<close> is the
  arithmetic of both bucket classes: what is left, and how long the caller has to wait.
\<close>

definition bucket_take :: "time \<Rightarrow> time \<Rightarrow> time \<Rightarrow> time \<times> time \<Rightarrow> (time \<times> time) \<times> time" where
  "bucket_take rate capacity now entry =
     (case entry of
        (tokens, since) \<Rightarrow>
          (let left = min capacity (tokens + max 0 (now - since) * rate) - 1
           in ((left, now), if 0 \<le> left then 0 else - left / rate)))"

text \<open>\<open>_coerce_entry\<close>: anything that is no pair of finite numbers counts as a full bucket.\<close>

definition coerce_entry :: "(string \<Rightarrow> time option) \<Rightarrow> time \<Rightarrow> time \<Rightarrow> pyval option \<Rightarrow> time \<times> time" where
  "coerce_entry float_of capacity now entry =
     (case entry of
        Some (PDict d) \<Rightarrow>
          (case (to_float float_of (pget_default d ''tokens'' (PFloat capacity)),
                 to_float float_of (pget_default d ''ts'' (PFloat now))) of
             (Some tokens, Some since) \<Rightarrow> (tokens, since)
           | _ \<Rightarrow> (capacity, now))
      | _ \<Rightarrow> (capacity, now))"

text \<open>
  The state file: \<^const>\<open>None\<close> where opening or writing it raises \<open>OSError\<close>; a damaged or missing file
  is an empty dictionary.
\<close>

type_synonym throttle_file = "(string, pyval) dict option"

definition file_consume ::
    "(string \<Rightarrow> time option) \<Rightarrow> int \<Rightarrow> string \<Rightarrow> time \<Rightarrow> throttle_file \<Rightarrow> time \<times> throttle_file" where
  "file_consume float_of rpm key now file =
     (if rpm \<le> 0 then (0, file)
      else
        (case file of
           None \<Rightarrow> (0, None)
         | Some d \<Rightarrow>
             (case bucket_take (of_int rpm / 60) 1 now (coerce_entry float_of 1 now (map_of d key)) of
                ((tokens, ts), wait) \<Rightarrow>
                  (wait, Some (AList.update key (PDict [(''tokens'', PFloat tokens), (''ts'', PFloat ts)]) d)))))"

section \<open>The state of a process\<close>

record router_stats =
  rs_calls :: nat
  rs_fallbacks :: nat
  rs_rate_limit_waits :: nat
  rs_rate_limit_seconds :: time
  rs_cooldowns :: nat
  rs_skipped_cooling :: nat
  rs_prompt_tokens :: int
  rs_completion_tokens :: int
  rs_total_tokens :: int

text \<open>\<open>ro_attempts\<close> is not in the code: the targets called so far with the time of the call.\<close>

record router =
  ro_buckets :: "(string, int) dict"
  ro_cooldowns :: "(string, time) dict"
  ro_stats :: router_stats
  ro_file :: throttle_file
  ro_mono :: time
  ro_wall :: time
  ro_attempts :: "(llm_target \<times> time) list"

definition empty_stats :: router_stats where
  "empty_stats =
     \<lparr>rs_calls = 0, rs_fallbacks = 0, rs_rate_limit_waits = 0, rs_rate_limit_seconds = 0, rs_cooldowns = 0,
      rs_skipped_cooling = 0, rs_prompt_tokens = 0, rs_completion_tokens = 0, rs_total_tokens = 0\<rparr>"

definition reset_state :: "router \<Rightarrow> router" where
  "reset_state s = s\<lparr>ro_buckets := [], ro_cooldowns := [], ro_stats := empty_stats\<rparr>"

definition pass_time :: "time \<Rightarrow> router \<Rightarrow> router" where
  "pass_time dt s = s\<lparr>ro_mono := ro_mono s + max 0 dt, ro_wall := ro_wall s + max 0 dt\<rparr>"

definition upd_stats :: "(router_stats \<Rightarrow> router_stats) \<Rightarrow> router \<Rightarrow> router" where
  "upd_stats f s = s\<lparr>ro_stats := f (ro_stats s)\<rparr>"

definition record_usage :: "int \<Rightarrow> int \<Rightarrow> router \<Rightarrow> router" where
  "record_usage p c =
     upd_stats (\<lambda>x. x\<lparr>rs_prompt_tokens := rs_prompt_tokens x + p, rs_completion_tokens := rs_completion_tokens x + c,
                      rs_total_tokens := rs_total_tokens x + (p + c)\<rparr>)"

definition set_cooldown :: "llm_target \<Rightarrow> time \<Rightarrow> router \<Rightarrow> router" where
  "set_cooldown t seconds s =
     (if seconds \<le> 0 then s
      else
        (let until = ro_mono s + seconds;
             old = (case map_of (ro_cooldowns s) (lt_provider t) of None \<Rightarrow> 0 | Some u \<Rightarrow> u)
         in upd_stats (\<lambda>x. x\<lparr>rs_cooldowns := rs_cooldowns x + 1\<rparr>)
              (if old < until then s\<lparr>ro_cooldowns := AList.update (lt_provider t) until (ro_cooldowns s)\<rparr> else s)))"

definition cooldown_remaining :: "llm_target \<Rightarrow> router \<Rightarrow> time" where
  "cooldown_remaining t s =
     max 0 ((case map_of (ro_cooldowns s) (lt_provider t) of None \<Rightarrow> 0 | Some u \<Rightarrow> u) - ro_mono s)"

text \<open>\<open>stats\<close>: the counters, the buckets and the providers that are cooling down.\<close>

definition cooling :: "router \<Rightarrow> (string, time) dict" where
  "cooling s = map (\<lambda>(k, u). (k, u - ro_mono s)) (filter (\<lambda>(k, u). ro_mono s < u) (ro_cooldowns s))"

text \<open>The bucket of a provider keeps the limit it was made with.\<close>

definition bucket_rpm :: "llm_target \<Rightarrow> router \<Rightarrow> int \<times> router" where
  "bucket_rpm t s =
     (case map_of (ro_buckets s) (lt_provider t) of
        Some rpm \<Rightarrow> (rpm, s)
      | None \<Rightarrow> (max 0 (lt_rpm t), s\<lparr>ro_buckets := AList.update (lt_provider t) (max 0 (lt_rpm t)) (ro_buckets s)\<rparr>))"

definition wait_for_slot :: "(string \<Rightarrow> time option) \<Rightarrow> llm_target \<Rightarrow> router \<Rightarrow> router" where
  "wait_for_slot float_of t s =
     (case bucket_rpm t s of
        (rpm, s1) \<Rightarrow>
          (case file_consume float_of rpm (lt_provider t) (ro_wall s1) (ro_file s1) of
             (wait, file) \<Rightarrow>
               (let s2 = s1\<lparr>ro_file := file\<rparr>
                in if 0 < wait
                   then pass_time wait (upd_stats (\<lambda>x. x\<lparr>rs_rate_limit_waits := rs_rate_limit_waits x + 1,
                          rs_rate_limit_seconds := rs_rate_limit_seconds x + wait\<rparr>) s2)
                   else s2)))"

section \<open>Errors\<close>

text \<open>
  What the router looks at in an exception: the HTTP status, the value of the header \<open>Retry-After\<close>,
  whether it is an \<open>OSError\<close> or \<open>TimeoutError\<close>, and the text of its type and message.
\<close>

record call_error =
  ce_status :: "int option"
  ce_retry_after :: "pyval option"
  ce_os_error :: bool
  ce_text :: string

definition NETWORK_HINTS :: "string list" where
  "NETWORK_HINTS = [''timeout'', ''timed out'', ''connect'', ''network'', ''unreachable'', ''reset'', ''httpcore'',
     ''urlerror'', ''socket'', ''temporarily'']"

definition is_network_error :: "call_error \<Rightarrow> bool" where
  "is_network_error e \<longleftrightarrow> ce_os_error e \<or> list_ex (\<lambda>h. sublist h (py_lower (ce_text e))) NETWORK_HINTS"

definition should_switch :: "call_error \<Rightarrow> bool" where
  "should_switch e =
     (case ce_status e of None \<Rightarrow> False | Some n \<Rightarrow> n \<in> set [400, 401, 403, 404, 429])"

definition is_retryable :: "call_error \<Rightarrow> bool" where
  "is_retryable e = (case ce_status e of None \<Rightarrow> True | Some n \<Rightarrow> 500 \<le> n \<or> n = 408 \<or> n = 429)"

text \<open>\<open>date_of\<close> is the distance to an HTTP date, not negative.\<close>

definition retry_after_seconds ::
    "(string \<Rightarrow> time option) \<Rightarrow> (string \<Rightarrow> time option) \<Rightarrow> call_error \<Rightarrow> time option" where
  "retry_after_seconds float_of date_of e =
     (case ce_retry_after e of
        Some (PInt i) \<Rightarrow> Some (of_int i)
      | Some (PFloat r) \<Rightarrow> Some r
      | Some (PStr raw) \<Rightarrow>
          (case float_of (py_strip raw) of Some r \<Rightarrow> Some r | None \<Rightarrow> date_of (py_strip raw))
      | _ \<Rightarrow> None)"

definition cooldown_seconds ::
    "(string \<Rightarrow> time option) \<Rightarrow> (string \<Rightarrow> time option) \<Rightarrow> call_error \<Rightarrow> time option" where
  "cooldown_seconds float_of date_of e =
     (case ce_status e of
        Some n \<Rightarrow>
          (if n = 429 then
             Some (max 1 (min 300 (case retry_after_seconds float_of date_of e of Some r \<Rightarrow> r | None \<Rightarrow> 60)))
           else if 500 \<le> n then Some 30
           else if 400 \<le> n then Some 120
           else if is_network_error e then Some 15 else None)
      | None \<Rightarrow> if is_network_error e then Some 15 else None)"

definition cooldown_for ::
    "(string \<Rightarrow> time option) \<Rightarrow> (string \<Rightarrow> time option) \<Rightarrow> llm_target \<Rightarrow> call_error \<Rightarrow> router \<Rightarrow> router" where
  "cooldown_for float_of date_of t e s =
     (case cooldown_seconds float_of date_of e of None \<Rightarrow> s | Some n \<Rightarrow> set_cooldown t n s)"

definition backoff_seconds :: "nat \<Rightarrow> time" where
  "backoff_seconds index = (of_nat index + 1) / 2"

section \<open>Calling with fallback\<close>

datatype target_error = Unusable | StillCooling time | Failed call_error

record 'v router_world =
  rw_float_of :: "string \<Rightarrow> time option"
  rw_date_of :: "string \<Rightarrow> time option"
  rw_attempt :: "llm_target \<Rightarrow> nat \<Rightarrow> (call_error + 'v) \<times> time"  \<comment> \<open>answer and duration\<close>
  rw_usage :: "'v \<Rightarrow> (int \<times> int) option"

definition charge_usage :: "(int \<times> int) option \<Rightarrow> router \<Rightarrow> router" where
  "charge_usage u s = (case u of None \<Rightarrow> s | Some (p, c) \<Rightarrow> record_usage p c s)"

definition one_attempt :: "'v router_world \<Rightarrow> llm_target \<Rightarrow> router \<Rightarrow> (call_error + 'v) \<times> router" where
  "one_attempt w t s =
     (let s1 = upd_stats (\<lambda>x. x\<lparr>rs_calls := rs_calls x + 1\<rparr>) (wait_for_slot (rw_float_of w) t s);
          s2 = s1\<lparr>ro_attempts := ro_attempts s1 @ [(t, ro_wall s1)]\<rparr>
      in case rw_attempt w t (length (ro_attempts s1)) of (answer, dt) \<Rightarrow> (answer, pass_time dt s2))"

text \<open>The retries of one target, \<open>left\<close> of them after this one.\<close>

fun try_target ::
    "'v router_world \<Rightarrow> llm_target \<Rightarrow> nat \<Rightarrow> nat \<Rightarrow> (llm_target \<times> target_error) list \<Rightarrow> router
       \<Rightarrow> ((llm_target \<times> target_error) list + 'v) \<times> router" where
  "try_target w t index left errs s =
     (case one_attempt w t s of
        (Inr v, s1) \<Rightarrow> (Inr v, charge_usage (rw_usage w v) s1)
      | (Inl e, s1) \<Rightarrow>
          (let errs' = errs @ [(t, Failed e)];
               s2 = cooldown_for (rw_float_of w) (rw_date_of w) t e s1
           in case left of
                0 \<Rightarrow> (Inl errs', s2)
              | Suc k \<Rightarrow>
                  (if is_retryable e \<and> \<not> should_switch e
                   then try_target w t (Suc index) k errs' (pass_time (backoff_seconds index) s2)
                   else (Inl errs', s2))))"

declare try_target.simps [simp del]

text \<open>The chain of targets; the error carries what went wrong with each of them.\<close>

fun run_chain ::
    "'v router_world \<Rightarrow> llm_target list \<Rightarrow> (llm_target \<times> target_error) list \<Rightarrow> router
       \<Rightarrow> ((llm_target \<times> target_error) list + 'v \<times> llm_target) \<times> router" where
  "run_chain w [] errs s = (Inl errs, s)"
| "run_chain w (t # ts) errs s =
     (if \<not> lt_usable t then run_chain w ts (errs @ [(t, Unusable)]) s
      else if 0 < cooldown_remaining t s then
        run_chain w ts (errs @ [(t, StillCooling (cooldown_remaining t s))])
          (upd_stats (\<lambda>x. x\<lparr>rs_skipped_cooling := rs_skipped_cooling x + 1\<rparr>) s)
      else
        (case try_target w t 0 (nat (lt_max_retries t - 1)) errs s of
           (Inr v, s1) \<Rightarrow> (Inr (v, t), s1)
         | (Inl errs', s1) \<Rightarrow>
             run_chain w ts errs'
               (if ts = [] then s1 else upd_stats (\<lambda>x. x\<lparr>rs_fallbacks := rs_fallbacks x + 1\<rparr>) s1)))"

definition run_with_fallback ::
    "'v router_world \<Rightarrow> llm_target list \<Rightarrow> router \<Rightarrow> ((llm_target \<times> target_error) list + 'v \<times> llm_target) \<times> router" where
  "run_with_fallback w chain s = run_chain w chain [] s"

end
