(* ===== verification/Llm_Router_Facts.thy ===== *)
theory Llm_Router_Facts
  imports Llm_Router
begin

text \<open>
  The two promises of the router: the shared bucket never hands out more calls per minute than the
  limit of the provider, and a run over a chain of targets makes boundedly many calls, only to usable
  targets that are not cooling down, and returns the answer of its last call.
\<close>

section \<open>The rate limit\<close>

text \<open>
  The calls for slots as they are served one after the other under the lock of the file, from
  whatever process: the key of the provider and the time of the clock.  A slot is the time at which
  the caller may go ahead.
\<close>

fun slots ::
    "(string \<Rightarrow> time option) \<Rightarrow> (string \<Rightarrow> int) \<Rightarrow> (string \<times> time) list \<Rightarrow> throttle_file \<Rightarrow> (string \<times> time) list" where
  "slots float_of rpm [] file = []"
| "slots float_of rpm ((key, now) # calls) file =
     (case file_consume float_of (rpm key) key now file of
        (wait, file') \<Rightarrow> (key, now + wait) # slots float_of rpm calls file')"

definition spaced :: "time \<Rightarrow> time list \<Rightarrow> bool" where
  "spaced d xs \<longleftrightarrow> sorted_wrt (\<lambda>x y. x + d \<le> y) xs"

lemma spaced_filter: "spaced d xs \<Longrightarrow> spaced d (filter P xs)"
  by (simp add: spaced_def sorted_wrt_filter)

lemma spaced_reach: "spaced d xs \<Longrightarrow> xs \<noteq> [] \<Longrightarrow> hd xs + of_nat (length xs - 1) * d \<le> last xs"
proof (induction xs)
  case (Cons x xs)
  show ?case
  proof (cases xs)
    case (Cons y ys)
    have "x + d \<le> y" using Cons.prems Cons by (simp add: spaced_def)
    moreover have "y + of_nat (length ys) * d \<le> last xs"
      using Cons.IH Cons.prems Cons by (simp add: spaced_def)
    ultimately show ?thesis using Cons by (simp add: algebra_simps)
  qed simp
qed simp

lemma spaced_window:
  assumes "spaced (60 / of_int rpm) xs" "0 < rpm"
  shows "length (filter (\<lambda>x. a \<le> x \<and> x < a + 60) xs) \<le> nat rpm"
proof (cases "filter (\<lambda>x. a \<le> x \<and> x < a + 60) xs = []")
  case False
  let ?ys = "filter (\<lambda>x. a \<le> x \<and> x < a + 60) xs"
  have "hd ?ys + of_nat (length ?ys - 1) * (60 / of_int rpm) \<le> last ?ys"
    by (rule spaced_reach [OF spaced_filter [OF assms(1)] False])
  moreover have "a \<le> hd ?ys" "last ?ys < a + 60"
    using hd_in_set [OF False] last_in_set [OF False] by auto
  ultimately have "of_nat (length ?ys - 1) * (60 / of_int rpm) < (60 :: rat)" by linarith
  then have "(of_nat (length ?ys - 1) :: rat) < of_int rpm" using assms(2) by (simp add: field_simps)
  then have "int (length ?ys - 1) < rpm" by (metis of_int_less_iff of_int_of_nat_eq)
  then show ?thesis by linarith
qed simp

text \<open>The entry that a call leaves: nothing is left over, and the debt is the time to the slot.\<close>

definition entry_slot :: "int \<Rightarrow> pyval option \<Rightarrow> time \<Rightarrow> time \<Rightarrow> bool" where
  "entry_slot rpm entry ts slot \<longleftrightarrow>
     (\<exists>tokens. entry = Some (PDict [(''tokens'', PFloat tokens), (''ts'', PFloat ts)]) \<and>
        tokens \<le> 0 \<and> slot = ts - tokens / (of_int rpm / 60))"

lemma file_consume_entry:
  assumes "0 < rpm" "file_consume float_of rpm key now (Some d) = (wait, file')"
  obtains d' where "file' = Some d'" "entry_slot rpm (map_of d' key) now (now + wait)"
    "\<And>k. k \<noteq> key \<Longrightarrow> map_of d' k = map_of d k"
proof -
  obtain tokens since where c: "coerce_entry float_of 1 now (map_of d key) = (tokens, since)" by (metis surj_pair)
  define left where "left = min 1 (tokens + max 0 (now - since) * (of_int rpm / 60)) - 1"
  have l: "left \<le> 0" by (simp add: left_def)
  have f: "file' = Some (AList.update key (PDict [(''tokens'', PFloat left), (''ts'', PFloat now)]) d)"
    and w: "wait = (if 0 \<le> left then 0 else - left / (of_int rpm / 60))"
    using assms by (auto simp: file_consume_def bucket_take_def c Let_def left_def)
  have "wait = - left / (of_int rpm / 60)" using w l by auto
  then have "entry_slot rpm (Some (PDict [(''tokens'', PFloat left), (''ts'', PFloat now)])) now (now + wait)"
    using l unfolding entry_slot_def by (intro exI [of _ left]) simp
  then show thesis using that f by (simp add: map_of_update)
qed

lemma next_slot:
  assumes "0 < rpm" "entry_slot rpm (map_of d key) ts slot" "ts \<le> now"
    and "file_consume float_of rpm key now (Some d) = (wait, file')"
  shows "slot + 60 / of_int rpm \<le> now + wait"
proof -
  obtain tokens where e: "map_of d key = Some (PDict [(''tokens'', PFloat tokens), (''ts'', PFloat ts)])"
    "tokens \<le> 0" "slot = ts - tokens / (of_int rpm / 60)" "ts \<le> now"
    using assms(2,3) by (auto simp: entry_slot_def)
  define rate :: rat where "rate = of_int rpm / 60"
  have rate: "0 < rate" "60 / of_int rpm = 1 / rate" using assms(1) by (simp_all add: rate_def)
  let ?full = "tokens + (now - ts) * rate"
  have c: "coerce_entry float_of 1 now (map_of d key) = (tokens, ts)"
    by (simp add: e(1) coerce_entry_def to_float_def pget_default_def)
  have w: "wait = (if 0 \<le> min 1 ?full - 1 then 0 else - (min 1 ?full - 1) / rate)"
    using assms(1,4) e(4) by (auto simp: file_consume_def bucket_take_def c Let_def rate_def max_def)
  show ?thesis
  proof (cases "1 \<le> ?full")
    case True
    then have "(1 - tokens) / rate \<le> now - ts" using rate(1) by (simp add: field_simps)
    then show ?thesis using True w e(3) rate by (simp add: rate_def [symmetric] field_simps)
  next
    case False
    then have "wait = (1 - ?full) / rate" using w by (simp add: min_def field_simps)
    then show ?thesis using e(3) rate by (simp add: rate_def [symmetric] field_simps)
  qed
qed

lemma slots_spaced_after:
  assumes "0 < rpm key" "sorted (ts # map snd calls)" "entry_slot (rpm key) (map_of d key) ts slot"
  shows "spaced (60 / of_int (rpm key)) (slot # map snd (filter (\<lambda>(k, _). k = key) (slots float_of rpm calls (Some d))))"
  using assms(2,3)
proof (induction calls arbitrary: ts d slot)
  case Nil
  then show ?case by (simp add: spaced_def)
next
  case (Cons c calls)
  obtain k now where c: "c = (k, now)" by (cases c)
  obtain wait file' where f: "file_consume float_of (rpm k) k now (Some d) = (wait, file')" by (metis surj_pair)
  show ?case
  proof (cases "k = key")
    case True
    obtain d' where d': "file' = Some d'" "entry_slot (rpm key) (map_of d' key) now (now + wait)"
      by (rule file_consume_entry [OF assms(1) f [unfolded True]])
    have IH: "spaced (60 / of_int (rpm key)) ((now + wait) # map snd (filter (\<lambda>(k, _). k = key) (slots float_of rpm calls (Some d'))))"
      by (rule Cons.IH) (use Cons.prems(1) d'(2) c in auto)
    have next_slot: "slot + 60 / of_int (rpm key) \<le> now + wait"
      by (rule next_slot [OF assms(1) Cons.prems(2) _ f [unfolded True]]) (use Cons.prems(1) c in simp)
    have d0: "(0 :: rat) \<le> 60 / of_int (rpm key)" using assms(1) by simp
    have "slot + 60 / of_int (rpm key) \<le> y"
      if "y \<in> set ((now + wait) # map snd (filter (\<lambda>(k, _). k = key) (slots float_of rpm calls (Some d'))))" for y
    proof -
      have "y = now + wait \<or> now + wait + 60 / of_int (rpm key) \<le> y"
        using IH that unfolding spaced_def sorted_wrt.simps by auto
      then show ?thesis using next_slot d0 by linarith
    qed
    then show ?thesis
      using IH f unfolding spaced_def by (simp add: c True d'(1))
  next
    case False
    have "\<exists>d'. file' = Some d' \<and> map_of d' key = map_of d key"
      using f False by (auto simp: file_consume_def map_of_update split: if_splits prod.splits)
    then obtain d' where d': "file' = Some d'" "map_of d' key = map_of d key" by blast
    have "sorted (ts # map snd calls)" using Cons.prems(1) c by auto
    then show ?thesis using Cons.IH [of ts d' slot] Cons.prems(2) f False d' by (simp add: c)
  qed
qed

text \<open>
  C12: The shared limit holds.  However many processes ask for slots of a provider, all with the limit
  \<open>rpm\<close>, whatever the shared file held before and whoever uses other keys of the file in between: as
  long as the clock does not run backwards and the file can be used, the slots they get are at least
  \<open>60 / rpm\<close> seconds apart, so that at most \<open>rpm\<close> of them lie in any minute.  (The comment at the head of
  the module and the routing document still describe one budget for each process; the code shares it.)
\<close>
theorem provider_limit_holds:
  fixes rpm key calls float_of d
  assumes "0 < rpm key" "sorted (map snd calls)"
  defines "granted \<equiv> map snd (filter (\<lambda>(k, _). k = key) (slots float_of rpm calls (Some d)))"
  shows "spaced (60 / of_int (rpm key)) granted \<and>
    length (filter (\<lambda>x. a \<le> x \<and> x < a + 60) granted) \<le> nat (rpm key)"
proof -
  have "spaced (60 / of_int (rpm key)) granted"
    using assms(2) unfolding granted_def
  proof (induction calls arbitrary: d)
    case (Cons c calls)
    obtain k now where c: "c = (k, now)" by (cases c)
    obtain wait file' where f: "file_consume float_of (rpm k) k now (Some d) = (wait, file')" by (metis surj_pair)
    show ?case
    proof (cases "k = key")
      case True
      obtain d' where d': "file' = Some d'" "entry_slot (rpm key) (map_of d' key) now (now + wait)"
        by (rule file_consume_entry [OF assms(1) f [unfolded True]])
      show ?thesis
        using slots_spaced_after [where rpm = rpm and key = key, OF assms(1) _ d'(2), of calls float_of] Cons.prems f by (simp add: c True d'(1))
    next
      case False
      have "\<exists>d'. file' = Some d'" using f by (auto simp: file_consume_def split: if_splits prod.splits)
      then show ?thesis using Cons.IH Cons.prems f False by (auto simp: c)
    qed
  qed (simp add: spaced_def)
  then show ?thesis using spaced_window [OF _ assms(1)] by blast
qed

section \<open>Runs over a chain\<close>

text \<open>
  What a call of the router may do to its state: time passes, cooling times are only extended, and
  the calls it makes are counted and recorded.  \<open>n\<close> bounds the number of calls.
\<close>

definition cooldown_until :: "router \<Rightarrow> string \<Rightarrow> time" where
  "cooldown_until s p = (case map_of (ro_cooldowns s) p of None \<Rightarrow> 0 | Some u \<Rightarrow> u)"

definition router_run :: "llm_target set \<Rightarrow> nat \<Rightarrow> router \<Rightarrow> router \<Rightarrow> bool" where
  "router_run ts n a b \<longleftrightarrow> ro_mono a \<le> ro_mono b \<and>
     (\<forall>p. cooldown_until a p \<le> cooldown_until b p) \<and>
     (\<exists>calls. ro_attempts b = ro_attempts a @ calls \<and> length calls \<le> n \<and> fst ` set calls \<subseteq> ts \<and>
        rs_calls (ro_stats b) = rs_calls (ro_stats a) + length calls)"

lemma router_run_refl [simp]: "router_run ts 0 a a" by (simp add: router_run_def)

lemma router_run_trans:
  assumes "router_run ts m a b" "router_run us n b c"
  shows "router_run (ts \<union> us) (m + n) a c"
proof -
  obtain xs ys where "ro_attempts b = ro_attempts a @ xs" "length xs \<le> m" "fst ` set xs \<subseteq> ts"
    "rs_calls (ro_stats b) = rs_calls (ro_stats a) + length xs"
    "ro_attempts c = ro_attempts b @ ys" "length ys \<le> n" "fst ` set ys \<subseteq> us"
    "rs_calls (ro_stats c) = rs_calls (ro_stats b) + length ys"
    using assms by (auto simp: router_run_def)
  then have "\<exists>calls. ro_attempts c = ro_attempts a @ calls \<and> length calls \<le> m + n \<and> fst ` set calls \<subseteq> ts \<union> us \<and>
      rs_calls (ro_stats c) = rs_calls (ro_stats a) + length calls"
    by (intro exI [of _ "xs @ ys"]) auto
  then show ?thesis using assms unfolding router_run_def by (meson order_trans)
qed

lemma router_run_mono: "router_run ts n a b \<Longrightarrow> ts \<subseteq> us \<Longrightarrow> n \<le> m \<Longrightarrow> router_run us m a b"
  by (auto simp: router_run_def intro: le_trans)

lemma quiet_runs:
  "router_run ts 0 s (pass_time dt s)"
  "(\<And>x. rs_calls (f x) = rs_calls x) \<Longrightarrow> router_run ts 0 s (upd_stats f s)"
  "router_run ts 0 s (s\<lparr>ro_file := file\<rparr>)"
  by (simp_all add: router_run_def pass_time_def upd_stats_def cooldown_until_def)

lemma charge_usage_run: "router_run ts 0 s (charge_usage u s)"
  by (auto simp: charge_usage_def record_usage_def quiet_runs(2) split: option.splits)

lemma wait_for_slot_run: "router_run ts 0 s (wait_for_slot float_of t s)"
proof -
  obtain rpm s1 where b: "bucket_rpm t s = (rpm, s1)" by (metis surj_pair)
  obtain wait fl where f: "file_consume float_of rpm (lt_provider t) (ro_wall s1) (ro_file s1) = (wait, fl)"
    by (metis surj_pair)
  have "router_run ts 0 s s1"
    using b by (auto simp: bucket_rpm_def router_run_def cooldown_until_def split: option.splits)
  then show ?thesis
    by (auto simp: wait_for_slot_def b f Let_def router_run_def pass_time_def upd_stats_def cooldown_until_def)
qed

lemma cooldown_for_run: "router_run ts 0 s (cooldown_for float_of date_of t e s)"
  by (auto simp: cooldown_for_def set_cooldown_def Let_def router_run_def upd_stats_def cooldown_until_def map_of_update
      split: option.splits)

lemma one_attempt_run:
  assumes "one_attempt w t s = (answer, s')"
  shows "router_run {t} 1 s s'"
    and "\<exists>clk. ro_attempts s' = ro_attempts s @ [(t, clk)] \<and> answer = fst (rw_attempt w t (length (ro_attempts s)))"
proof -
  have run: "router_run {} 0 s (wait_for_slot (rw_float_of w) t s)" by (rule wait_for_slot_run)
  then have same: "ro_attempts (wait_for_slot (rw_float_of w) t s) = ro_attempts s"
    by (auto simp: router_run_def)
  show "router_run {t} 1 s s'"
    using assms run
    by (auto simp: one_attempt_def Let_def upd_stats_def pass_time_def router_run_def cooldown_until_def split: prod.splits)
  show "\<exists>clk. ro_attempts s' = ro_attempts s @ [(t, clk)] \<and> answer = fst (rw_attempt w t (length (ro_attempts s)))"
    using assms same by (auto simp: one_attempt_def Let_def upd_stats_def pass_time_def split: prod.splits)
qed

text \<open>The state after the call that gave the answer: it was the last one.\<close>

definition answered :: "'v router_world \<Rightarrow> llm_target \<Rightarrow> 'v \<Rightarrow> router \<Rightarrow> bool" where
  "answered w t v s \<longleftrightarrow> ro_attempts s \<noteq> [] \<and> fst (last (ro_attempts s)) = t \<and>
     fst (rw_attempt w t (length (ro_attempts s) - 1)) = Inr v"

lemma try_target_spec:
  "try_target w t index left errs s = (r, s') \<Longrightarrow>
     router_run {t} (Suc left) s s' \<and>
     (case r of Inr v \<Rightarrow> answered w t v s' | Inl errs' \<Rightarrow> \<exists>es. errs' = errs @ es \<and> es \<noteq> [] \<and> fst ` set es = {t})"
proof (induction left arbitrary: index errs s)
  case (0 index errs s)
  obtain answer s1 where a: "one_attempt w t s = (answer, s1)" by (metis surj_pair)
  note run = one_attempt_run [OF a]
  show ?case
  proof (cases answer)
    case (Inl e)
    have "router_run ({t} \<union> {}) (1 + 0) s (cooldown_for (rw_float_of w) (rw_date_of w) t e s1)"
      by (rule router_run_trans [OF run(1) cooldown_for_run])
    then show ?thesis using 0 a Inl by (auto simp: try_target.simps [of _ _ _ 0] Let_def)
  next
    case (Inr v)
    have "router_run ({t} \<union> {}) (1 + 0) s (charge_usage (rw_usage w v) s1)"
      by (rule router_run_trans [OF run(1) charge_usage_run])
    moreover have "answered w t v (charge_usage (rw_usage w v) s1)"
      using run(2) Inr by (auto simp: answered_def charge_usage_def record_usage_def upd_stats_def split: option.splits)
    ultimately show ?thesis using 0 a Inr by (auto simp: try_target.simps [of _ _ _ 0] Let_def)
  qed
next
  case (Suc left index errs s)
  obtain answer s1 where a: "one_attempt w t s = (answer, s1)" by (metis surj_pair)
  note run = one_attempt_run [OF a]
  show ?case
  proof (cases answer)
    case (Inl e)
    let ?s2 = "cooldown_for (rw_float_of w) (rw_date_of w) t e s1"
    have run2: "router_run ({t} \<union> {}) (1 + 0) s ?s2" by (rule router_run_trans [OF run(1) cooldown_for_run])
    show ?thesis
    proof (cases "is_retryable e \<and> \<not> should_switch e")
      case True
      let ?s3 = "pass_time (backoff_seconds index) ?s2"
      have run3: "router_run ({t} \<union> {} \<union> {}) (1 + 0 + 0) s ?s3" by (rule router_run_trans [OF run2 quiet_runs(1)])
      have "try_target w t (Suc index) left (errs @ [(t, Failed e)]) ?s3 = (r, s')"
        using Suc.prems a Inl True by (simp add: try_target.simps [of _ _ _ "Suc left"] Let_def)
      from Suc.IH [OF this] have IH: "router_run {t} (Suc left) ?s3 s'"
        "case r of Inr v \<Rightarrow> answered w t v s'
         | Inl errs' \<Rightarrow> \<exists>es. errs' = (errs @ [(t, Failed e)]) @ es \<and> es \<noteq> [] \<and> fst ` set es = {t}" by simp_all
      have "router_run ({t} \<union> {} \<union> {} \<union> {t}) (1 + 0 + 0 + Suc left) s s'" by (rule router_run_trans [OF run3 IH(1)])
      moreover have "\<exists>es. errs' = errs @ es \<and> es \<noteq> [] \<and> fst ` set es = {t}"
        if "errs' = (errs @ [(t, Failed e)]) @ es" "fst ` set es = {t}" for errs' es
        using that by (intro exI [of _ "(t, Failed e) # es"]) auto
      ultimately show ?thesis using IH(2) by (auto split: sum.splits)
    next
      case False
      then have "r = Inl (errs @ [(t, Failed e)])" "s' = ?s2"
        using Suc.prems a Inl by (auto simp: try_target.simps [of _ _ _ "Suc left"] Let_def)
      then show ?thesis using router_run_mono [OF run2, of "{t}" "Suc (Suc left)"] by simp
    qed
  next
    case (Inr v)
    have "router_run ({t} \<union> {}) (1 + 0) s (charge_usage (rw_usage w v) s1)"
      by (rule router_run_trans [OF run(1) charge_usage_run])
    then have "router_run {t} (Suc (Suc left)) s (charge_usage (rw_usage w v) s1)"
      by (rule router_run_mono) auto
    moreover have "answered w t v (charge_usage (rw_usage w v) s1)"
      using run(2) Inr by (auto simp: answered_def charge_usage_def record_usage_def upd_stats_def split: option.splits)
    ultimately show ?thesis using Suc.prems a Inr by (auto simp: try_target.simps [of _ _ _ "Suc left"] Let_def)
  qed
qed

lemma try_target_calls:
  assumes "try_target w t index left errs s = (r, s')"
  shows "ro_attempts s' \<noteq> ro_attempts s"
proof -
  obtain answer s1 where a: "one_attempt w t s = (answer, s1)" by (metis surj_pair)
  obtain clk where one: "ro_attempts s1 = ro_attempts s @ [(t, clk)]" using one_attempt_run(2) [OF a] by blast
  have more: "\<exists>zs. ro_attempts s' = ro_attempts s1 @ zs"
    using assms a
    by (auto simp: try_target.simps [of w t index left] Let_def split: sum.splits nat.splits if_splits
        dest!: try_target_spec)
      (use charge_usage_run cooldown_for_run quiet_runs in \<open>auto simp: router_run_def\<close>)
  then show ?thesis using one by auto
qed

text \<open>The bound on the calls of one target.\<close>

definition max_tries :: "llm_target \<Rightarrow> nat" where
  "max_tries t = Suc (nat (lt_max_retries t - 1))"

lemma router_run_calls:
  assumes "router_run {t} n a b"
  obtains calls where "ro_attempts b = ro_attempts a @ calls" "length calls \<le> n" "fst ` set calls \<subseteq> {t}"
    "rs_calls (ro_stats b) = rs_calls (ro_stats a) + length calls"
  using assms by (auto simp: router_run_def)

text \<open>
  The calls of a run, one group for each target of the chain: the bound of the target, its own calls
  only, and for a target that is called at all, that it is usable and that nothing was left of its
  cooling time in the state in which its turn came; the rest of the run starts from that state.
\<close>

definition turn_of ::
    "'v router_world \<Rightarrow> llm_target list \<Rightarrow> router \<Rightarrow> (llm_target \<times> time) list list
       \<Rightarrow> ((llm_target \<times> target_error) list + 'v \<times> llm_target) \<times> router \<Rightarrow> nat \<Rightarrow> bool" where
  "turn_of w ts s groups res i \<longleftrightarrow>
     length (groups ! i) \<le> max_tries (ts ! i) \<and> fst ` set (groups ! i) \<subseteq> {ts ! i} \<and>
     (groups ! i = [] \<or> lt_usable (ts ! i) \<and>
        (\<exists>errs st. run_chain w (drop i ts) errs st = res \<and> ro_attempts st = ro_attempts s @ concat (take i groups) \<and>
           cooldown_remaining (ts ! i) st = 0))"

lemma turn_of_later:
  assumes "turn_of w ts s1 groups res i" "ro_attempts s1 = ro_attempts s @ g"
  shows "turn_of w (t # ts) s (g # groups) res (Suc i)"
  using assms by (simp add: turn_of_def)

definition ends_well :: "'v router_world \<Rightarrow> llm_target list \<Rightarrow> (llm_target \<times> time) list list \<Rightarrow> 'v \<times> llm_target \<Rightarrow> router \<Rightarrow> bool" where
  "ends_well w ts groups vt s' \<longleftrightarrow>
     (\<exists>i < length ts. snd vt = ts ! i \<and> groups ! i \<noteq> [] \<and> concat (drop (Suc i) groups) = []) \<and>
     answered w (snd vt) (fst vt) s'"

lemma run_chain_spec:
  "run_chain w ts errs s = (r, s') \<Longrightarrow>
     \<exists>groups. length groups = length ts \<and> ro_attempts s' = ro_attempts s @ concat groups \<and>
       rs_calls (ro_stats s') = rs_calls (ro_stats s) + length (concat groups) \<and>
       (\<forall>i < length ts. turn_of w ts s groups (r, s') i) \<and>
       (case r of Inr vt \<Rightarrow> ends_well w ts groups vt s' | Inl errs' \<Rightarrow> \<exists>es. errs' = errs @ es \<and> fst ` set es = set ts)"
proof (induction ts arbitrary: errs s)
  case Nil
  then show ?case by auto
next
  case (Cons t ts)
  text \<open>The rest of the chain after the turn of \<open>t\<close>.\<close>
  have later: ?case
    if step: "ro_attempts s1 = ro_attempts s @ g" "rs_calls (ro_stats s1) = rs_calls (ro_stats s) + length g"
      and g: "turn_of w (t # ts) s [g] (r, s') 0"
      and chain: "run_chain w ts (errs @ es) s1 = (r, s')" and es: "fst ` set es = {t}" for g s1 es
  proof -
    obtain groups where IH: "length groups = length ts" "ro_attempts s' = ro_attempts s1 @ concat groups"
      "rs_calls (ro_stats s') = rs_calls (ro_stats s1) + length (concat groups)"
      "\<forall>i < length ts. turn_of w ts s1 groups (r, s') i"
      "case r of Inr vt \<Rightarrow> ends_well w ts groups vt s' | Inl errs' \<Rightarrow> \<exists>es'. errs' = (errs @ es) @ es' \<and> fst ` set es' = set ts"
      using Cons.IH [OF chain] by blast
    have "turn_of w (t # ts) s (g # groups) (r, s') i" if "i < length (t # ts)" for i
    proof (cases i)
      case 0
      then show ?thesis using g by (simp add: turn_of_def)
    next
      case (Suc k)
      then have "turn_of w ts s1 groups (r, s') k" using that IH(4) by simp
      then show ?thesis unfolding Suc by (rule turn_of_later [OF _ step(1)])
    qed
    moreover have "case r of Inr vt \<Rightarrow> ends_well w (t # ts) (g # groups) vt s'
        | Inl errs' \<Rightarrow> \<exists>es'. errs' = errs @ es' \<and> fst ` set es' = set (t # ts)"
    proof (cases r)
      case (Inl errs')
      then obtain es' where "errs' = (errs @ es) @ es'" "fst ` set es' = set ts" using IH(5) by auto
      then show ?thesis using Inl es by (auto simp: image_Un intro!: exI [of _ "es @ es'"])
    next
      case (Inr vt)
      then show ?thesis using IH(5) by (auto simp: ends_well_def intro: exI [of _ "Suc _"])
    qed
    ultimately show ?thesis using IH(1,2,3) step by (intro exI [of _ "g # groups"]) simp
  qed
  show ?case
  proof (cases "lt_usable t")
    case False
    then have "run_chain w ts (errs @ [(t, Unusable)]) s = (r, s')" using Cons.prems by simp
    then show ?thesis by (intro later [of s "[]" "[(t, Unusable)]"]) (simp_all add: turn_of_def)
  next
    case usable: True
    show ?thesis
    proof (cases "0 < cooldown_remaining t s")
      case True
      let ?s1 = "upd_stats (\<lambda>x. x\<lparr>rs_skipped_cooling := rs_skipped_cooling x + 1\<rparr>) s"
      have "run_chain w ts (errs @ [(t, StillCooling (cooldown_remaining t s))]) ?s1 = (r, s')"
        using Cons.prems usable True by simp
      then show ?thesis
        by (intro later [of ?s1 "[]" "[(t, StillCooling (cooldown_remaining t s))]"]) (simp_all add: upd_stats_def turn_of_def)
    next
      case False
      then have cold: "cooldown_remaining t s = 0" by (simp add: cooldown_remaining_def)
      obtain x s1 where x: "try_target w t 0 (nat (lt_max_retries t - 1)) errs s = (x, s1)" by (metis surj_pair)
      note spec = try_target_spec [OF x]
      then have "router_run {t} (max_tries t) s s1" by (simp add: max_tries_def)
      then obtain g where g: "ro_attempts s1 = ro_attempts s @ g" "length g \<le> max_tries t" "fst ` set g \<subseteq> {t}"
          "rs_calls (ro_stats s1) = rs_calls (ro_stats s) + length g"
        by (rule router_run_calls)
      have turn: "turn_of w (t # ts) s (g # gs) (r, s') 0" for gs
        using g(2,3) usable cold Cons.prems by (auto simp: turn_of_def intro!: exI [of _ errs] exI [of _ s])
      show ?thesis
      proof (cases x)
        case (Inr v)
        then have r: "r = Inr (v, t)" "s' = s1" using Cons.prems usable False x by auto
        let ?groups = "g # replicate (length ts) []"
        have a: "answered w t v s1" using spec Inr by simp
        have "g \<noteq> []"
          using try_target_calls [OF x] g(1) by simp
        then have "ends_well w (t # ts) ?groups (v, t) s1" using a by (auto simp: ends_well_def)
        moreover have "turn_of w (t # ts) s ?groups (r, s') i" if "i < length (t # ts)" for i
          using that turn by (cases i) (simp_all add: turn_of_def)
        ultimately show ?thesis using r g by (intro exI [of _ ?groups]) simp
      next
        case (Inl errs')
        then obtain es where es: "errs' = errs @ es" "fst ` set es = {t}" using spec by auto
        let ?s2 = "if ts = [] then s1 else upd_stats (\<lambda>x. x\<lparr>rs_fallbacks := rs_fallbacks x + 1\<rparr>) s1"
        have "run_chain w ts (errs @ es) ?s2 = (r, s')" using Cons.prems usable False x Inl es(1) by simp
        then show ?thesis
          by (intro later [of ?s2 g es] turn) (use g es(2) in \<open>simp_all add: upd_stats_def\<close>)
      qed
    qed
  qed
qed

text \<open>
  C13: A run over a chain of targets takes the targets in their order.  Each is called at most
  \<open>max(1, max_retries)\<close> times, a target without a key or an address not at all, and neither is one whose
  provider is cooling down when its turn comes; every call is counted.  The run returns the answer of
  its last call, after which no further target is called; when it fails, its error accounts for every
  target of the chain.
\<close>
theorem fallback_chain_sound:
  assumes "run_with_fallback w chain s = (r, s')"
  shows "\<exists>groups. length groups = length chain \<and> ro_attempts s' = ro_attempts s @ concat groups \<and>
    rs_calls (ro_stats s') = rs_calls (ro_stats s) + length (concat groups) \<and>
    (\<forall>i < length chain.
       length (groups ! i) \<le> nat (max 1 (lt_max_retries (chain ! i))) \<and> fst ` set (groups ! i) \<subseteq> {chain ! i} \<and>
       (groups ! i = [] \<or> lt_usable (chain ! i) \<and>
          (\<exists>errs st. run_chain w (drop i chain) errs st = (r, s') \<and>
             ro_attempts st = ro_attempts s @ concat (take i groups) \<and> cooldown_remaining (chain ! i) st = 0))) \<and>
    (case r of
       Inr (v, t) \<Rightarrow>
         (\<exists>i < length chain. t = chain ! i \<and> groups ! i \<noteq> [] \<and> concat (drop (Suc i) groups) = []) \<and> answered w t v s'
     | Inl errs \<Rightarrow> fst ` set errs = set chain)"
proof -
  have n: "max_tries t = nat (max 1 (lt_max_retries t))" for t unfolding max_tries_def by arith
  obtain groups where g: "length groups = length chain" "ro_attempts s' = ro_attempts s @ concat groups"
    "rs_calls (ro_stats s') = rs_calls (ro_stats s) + length (concat groups)"
    "\<forall>i < length chain. turn_of w chain s groups (r, s') i"
    "case r of Inr vt \<Rightarrow> ends_well w chain groups vt s' | Inl errs \<Rightarrow> \<exists>es. errs = [] @ es \<and> fst ` set es = set chain"
    using run_chain_spec [OF assms [unfolded run_with_fallback_def]] by blast
  have "case r of
       Inr (v, t) \<Rightarrow>
         (\<exists>i < length chain. t = chain ! i \<and> groups ! i \<noteq> [] \<and> concat (drop (Suc i) groups) = []) \<and> answered w t v s'
     | Inl errs \<Rightarrow> fst ` set errs = set chain"
    using g(5) by (cases r) (auto simp: ends_well_def split: prod.splits)
  then show ?thesis using g(1-4) unfolding turn_of_def n by blast
qed

section \<open>Examples\<close>

definition ex_env_vars :: environ where
  "ex_env_vars n = (if n = ''JIAOWOISAN_API_KEY'' then Some ''k1'' else if n = ''DEEPSEEK_API_KEY'' then Some ''k2''
     else if n = ''TRIMUM_LLM_MAX_RETRIES'' then Some ''2'' else None)"

definition ex_number :: "string \<Rightarrow> time option" where
  "ex_number s = (if s \<noteq> [] \<and> list_all is_digit s then Some (of_nat (digits_value s)) else None)"

definition ex_chain :: "llm_target list" where
  "ex_chain = resolve_targets ex_number ex_env_vars ''policy'' [] None"

lemma ex_chain_targets:
  "map (\<lambda>t. (lt_label t, lt_api_key t, lt_api_key_env t, lt_rpm t, lt_max_retries t)) ex_chain =
     [(''primary:qwen3.8-27b@models.sjtu.edu.cn'', ''k1'', ''JIAOWOISAN_API_KEY'', 9, 2),
      (''fallback:deepseek-flash@api.deepseek.com'', ''k2'', ''DEEPSEEK_API_KEY'', 0, 1)]"
  by code_simp

definition ex_router :: router where
  "ex_router =
     \<lparr>ro_buckets = [], ro_cooldowns = [], ro_stats = empty_stats, ro_file = Some [], ro_mono = 0,
      ro_wall = 1000, ro_attempts = []\<rparr>"

text \<open>The primary target answers with the status 500, the other one with a text.\<close>

definition ex_world :: "string router_world" where
  "ex_world =
     \<lparr>rw_float_of = ex_number, rw_date_of = (\<lambda>_. None),
      rw_attempt = (\<lambda>t _. (if lt_tier t = ''primary''
         then Inl \<lparr>ce_status = Some 500, ce_retry_after = None, ce_os_error = False, ce_text = ''HTTPStatusError''\<rparr>
         else Inr ''ok'', 1)),
      rw_usage = (\<lambda>_. Some (3, 4))\<rparr>"

definition ex_twice :: llm_target where
  "ex_twice =
     \<lparr>lt_role = ''policy'', lt_tier = ''primary'', lt_model = ''m'', lt_base_url = ''http://localhost'', lt_api_key = [],
      lt_api_key_env = [], lt_rpm = 0, lt_timeout = 30, lt_max_retries = 2\<rparr>"

text \<open>
  After an answer with a status of 500 or more the provider cools down for half a minute; the next call
  of the same target follows without a look at it.
\<close>

lemma retry_ignores_cooldown:
  assumes "one_attempt w t s = (Inl e, s1)" "ce_status e = Some n" "500 \<le> n"
  shows "30 \<le> cooldown_remaining t (cooldown_for (rw_float_of w) (rw_date_of w) t e s1)"
    and "try_target w t index (Suc k) errs s =
      try_target w t (Suc index) k (errs @ [(t, Failed e)])
        (pass_time (backoff_seconds index) (cooldown_for (rw_float_of w) (rw_date_of w) t e s1))"
proof -
  show "30 \<le> cooldown_remaining t (cooldown_for (rw_float_of w) (rw_date_of w) t e s1)"
    using assms(2,3)
    by (auto simp: cooldown_for_def cooldown_seconds_def set_cooldown_def upd_stats_def cooldown_remaining_def
        Let_def dict_simps split: option.splits)
  show "try_target w t index (Suc k) errs s =
      try_target w t (Suc index) k (errs @ [(t, Failed e)])
        (pass_time (backoff_seconds index) (cooldown_for (rw_float_of w) (rw_date_of w) t e s1))"
    using assms by (simp add: try_target.simps [of _ _ _ "Suc k"] is_retryable_def should_switch_def)
qed

text \<open>A host that merely contains the name of a provider is given that provider's key.\<close>

lemma lookalike_host_gets_key:
  "resolve_api_key ex_env_vars [''POLICY_LLM'', ''TRIMUM_LLM''] PNone PNone ''http://sjtu.edu.cn.example.org/v1'' =
     (''k1'', ''JIAOWOISAN_API_KEY'')"
  by code_simp

theorem provider_limit_holds_witness:
  "length (filter (\<lambda>x. 0 \<le> x \<and> x < 0 + 60)
     (map snd (filter (\<lambda>(k, _). k = ''p'') (slots ex_number (\<lambda>_. 9) (replicate 20 (''p'', 5)) (Some []))))) \<le> nat 9"
proof -
  have "sorted (map snd (replicate 20 (''p'', 5 :: time)))" "0 < (9 :: int)" by (simp_all add: sorted_replicate)
  from provider_limit_holds [where rpm = "\<lambda>_. 9" and key = "''p''", OF this(2,1)] show ?thesis by blast
qed

theorem fallback_chain_sound_witness:
  "\<exists>groups. length groups = 2 \<and> ro_attempts (snd (run_with_fallback ex_world ex_chain ex_router)) = concat groups \<and>
     length (groups ! 0) \<le> 2 \<and> length (groups ! 1) \<le> 1"
proof -
  have n: "map (\<lambda>t. nat (max 1 (lt_max_retries t))) ex_chain = [2, 1]" and e: "ro_attempts ex_router = []"
    by code_simp+
  have len: "length ex_chain = 2" using arg_cong [OF n, of length] by simp
  have m: "nat (max 1 (lt_max_retries (ex_chain ! 0))) = 2" "nat (max 1 (lt_max_retries (ex_chain ! 1))) = 1"
    using arg_cong [OF n, of "\<lambda>l. l ! 0"] arg_cong [OF n, of "\<lambda>l. l ! 1"] len by simp_all
  obtain r s' where run: "run_with_fallback ex_world ex_chain ex_router = (r, s')" by (metis surj_pair)
  obtain groups where g: "length groups = length ex_chain" "ro_attempts s' = ro_attempts ex_router @ concat groups"
      "\<forall>i < length ex_chain. length (groups ! i) \<le> nat (max 1 (lt_max_retries (ex_chain ! i)))"
    using fallback_chain_sound [OF run] by blast
  have "length (groups ! 0) \<le> 2" "length (groups ! 1) \<le> 1" using g(3) m len by (metis one_less_numeral_iff semiring_norm(76) zero_less_numeral)+
  then show ?thesis using g(1,2) len e run by (intro exI [of _ groups]) simp
qed

end
