(* ===== verification/Policy_Engine.thy ===== *)
theory Policy_Engine
  imports Models
begin

text \<open>
  The rule based policy (\<open>policy_engine.py\<close>).  Rules are the dictionaries of the YAML
  file; the regular expression search, case insensitive, is the parameter \<open>re_search\<close> (pattern,
  text), of which nothing is assumed.
\<close>

type_synonym re_search = "string \<Rightarrow> string \<Rightarrow> bool"
type_synonym policy_rule = "(string, pyval) dict"
type_synonym verdict = "risk_level \<times> policy_action \<times> string"

definition normalize_command :: "string \<Rightarrow> string" where
  "normalize_command cmd = join_with '' '' (split_ws (py_lower cmd))"

definition source_excluded :: "source_type option \<Rightarrow> policy_rule \<Rightarrow> bool" where
  "source_excluded source rule =
     (let rule_source = pget rule ''source''
      in case source of
           None \<Rightarrow> False
         | Some s \<Rightarrow> rule_source \<noteq> PNone \<and> rule_source \<noteq> PStr (source_type_value s))"

definition risk_or_medium :: "pyval \<Rightarrow> risk_level" where
  "risk_or_medium v =
     (case v of PStr s \<Rightarrow> (case risk_of_string s of Some r \<Rightarrow> r | None \<Rightarrow> RISK_MEDIUM) | _ \<Rightarrow> RISK_MEDIUM)"

definition action_or_confirm :: "pyval \<Rightarrow> policy_action" where
  "action_or_confirm v =
     (case v of PStr s \<Rightarrow> (case action_of_string s of Some a \<Rightarrow> a | None \<Rightarrow> ACT_CONFIRM) | _ \<Rightarrow> ACT_CONFIRM)"

definition rule_verdict :: "source_type option \<Rightarrow> string \<Rightarrow> policy_rule \<Rightarrow> verdict" where
  "rule_verdict source pat rule =
     (risk_or_medium (pget_default rule ''risk'' (PStr ''medium'')),
      action_or_confirm (pget_default rule ''action'' (PStr ''confirm'')),
      ''Matched rule: '' @ pat @ '' (src='' @
        (case source of None \<Rightarrow> ''none'' | Some s \<Rightarrow> source_type_value s) @ '')'')"

text \<open>A pattern that is neither empty nor a string makes \<open>re.search\<close> raise.\<close>

fun search_rules ::
    "re_search \<Rightarrow> string \<Rightarrow> source_type option \<Rightarrow> policy_rule list \<Rightarrow> py_error + verdict option" where
  "search_rules re_search cmd source [] = Inr None"
| "search_rules re_search cmd source (rule # rules) =
     (let pat = pget_default rule ''pattern'' (PStr [])
      in if \<not> py_truthy pat then search_rules re_search cmd source rules
         else case pat of
           PStr p \<Rightarrow>
             if \<not> re_search p cmd then search_rules re_search cmd source rules
             else if source_excluded source rule then search_rules re_search cmd source rules
             else Inr (Some (rule_verdict source p rule))
         | _ \<Rightarrow> Inl TypeError)"

definition policy_evaluate ::
    "re_search \<Rightarrow> policy_rule list \<Rightarrow> string \<Rightarrow> source_type option \<Rightarrow> py_error + verdict" where
  "policy_evaluate re_search rules command source =
     (case search_rules re_search (normalize_command command) source rules of
        Inl e \<Rightarrow> Inl e
      | Inr (Some v) \<Rightarrow> Inr v
      | Inr None \<Rightarrow>
          Inr (RISK_MEDIUM, ACT_CONFIRM,
               if source = Some SRC_AI then ''No rule matched, AI default''
               else ''No rule matched, default''))"

definition evaluate_args ::
    "re_search \<Rightarrow> policy_rule list \<Rightarrow> string list \<Rightarrow> py_error + verdict" where
  "evaluate_args re_search rules args = policy_evaluate re_search rules (join_with '' '' args) None"

section \<open>The verdict is that of the first applicable rule\<close>

definition applies :: "re_search \<Rightarrow> string \<Rightarrow> source_type option \<Rightarrow> policy_rule \<Rightarrow> bool" where
  "applies re_search command source rule \<longleftrightarrow>
     (\<exists>p. pget_default rule ''pattern'' (PStr []) = PStr p \<and> p \<noteq> [] \<and>
        re_search p (normalize_command command) \<and> \<not> source_excluded source rule)"

definition string_pattern :: "policy_rule \<Rightarrow> bool" where
  "string_pattern rule \<longleftrightarrow> (\<exists>p. pget_default rule ''pattern'' (PStr []) = PStr p)"

lemma search_rules_find:
  "list_all string_pattern rules \<Longrightarrow>
   search_rules re_search (normalize_command command) source rules =
   Inr (map_option
     (\<lambda>rule. rule_verdict source (case pget_default rule ''pattern'' (PStr []) of PStr p \<Rightarrow> p | _ \<Rightarrow> []) rule)
     (find (applies re_search command source) rules))"
  by (induction rules) (auto simp: applies_def string_pattern_def Let_def)

text \<open>A rule with a source filter applies to every caller whose source is not given.\<close>

lemma unknown_source_applies: "\<not> source_excluded None rule"
  by (simp add: source_excluded_def)

text \<open>Without a rule that permits it, nothing is executed automatically.\<close>

lemma policy_auto_needs_rule:
  assumes "policy_evaluate re_search rules command source = Inr (r, ACT_AUTO, why)"
  shows "\<exists>rule \<in> set rules. pget rule ''action'' = PStr ''auto'' \<and> applies re_search command source rule"
proof -
  have "search_rules re_search (normalize_command command) source rules = Inr (Some (r, ACT_AUTO, why)) \<Longrightarrow>
      \<exists>rule \<in> set rules. pget rule ''action'' = PStr ''auto'' \<and> applies re_search command source rule"
  proof (induction rules)
    case (Cons rule rules)
    show ?case
    proof (cases "applies re_search command source rule")
      case True
      then have "action_or_confirm (pget_default rule ''action'' (PStr ''confirm'')) = ACT_AUTO"
        using Cons.prems by (auto simp: applies_def Let_def rule_verdict_def)
      then have "pget rule ''action'' = PStr ''auto''"
        by (auto simp: action_or_confirm_def pget_default_def pget_def action_of_string_def
            split: pyval.splits option.splits if_splits)
      then show ?thesis using True by auto
    next
      case False
      then have "search_rules re_search (normalize_command command) source rules = Inr (Some (r, ACT_AUTO, why))"
        using Cons.prems by (auto simp: applies_def Let_def split: if_splits pyval.splits)
      then show ?thesis using Cons.IH by auto
    qed
  qed simp
  then show ?thesis using assms
    by (auto simp: policy_evaluate_def split: sum.splits option.splits)
qed

end
