(* ===== verification/Security_Config.thy ===== *)
theory Security_Config
  imports Models
begin

text \<open>
  The security levels: \<open>security_config.py\<close> (defaults merged with the user's file, the mode of an
  agent, the write grants) and \<open>file_trust.py\<close> (the trust in a file grows with the time since it
  was first seen).
\<close>

section \<open>The configuration\<close>

datatype security_mode = MODE_REGEX | MODE_BALANCED | MODE_SANDBOX

fun mode_value :: "security_mode \<Rightarrow> string" where
  "mode_value MODE_REGEX = ''regex''"
| "mode_value MODE_BALANCED = ''balanced''"
| "mode_value MODE_SANDBOX = ''sandbox''"

definition mode_of :: "pyval \<Rightarrow> security_mode option" where
  "mode_of v = (case v of
     PStr s \<Rightarrow> find (\<lambda>m. mode_value m = s) [MODE_REGEX, MODE_BALANCED, MODE_SANDBOX]
   | _ \<Rightarrow> None)"

text \<open>\<open>_merge\<close>: dictionaries are merged key by key, anything else is replaced.\<close>

function merge :: "(string, pyval) dict \<Rightarrow> (string, pyval) dict \<Rightarrow> (string, pyval) dict" where
  "merge base [] = base"
| "merge base ((k, v) # override) =
     merge
       (AList.update k
         (case (map_of base k, v) of
            (Some (PDict b), PDict d) \<Rightarrow> PDict (merge b d)
          | _ \<Rightarrow> v) base)
       override"
  by pat_completeness auto
termination by (relation "measure (\<lambda>(base, override). size_list (size_prod (\<lambda>_. 0) size) override)") auto

text \<open>
  \<open>load\<close>: \<open>user\<close> is the parsed file, if there is one; a file that does not load, or whose content
  is no dictionary, leaves the defaults (with a warning).
\<close>

definition load_config :: "(string, pyval) dict \<Rightarrow> pyval option \<Rightarrow> (string, pyval) dict" where
  "load_config defaults user =
     (case user of Some (PDict d) \<Rightarrow> merge defaults d | _ \<Rightarrow> defaults)"

text \<open>\<open>v.get(key, default)\<close> on a value that need not be a dictionary.\<close>

definition attr_get :: "pyval \<Rightarrow> string \<Rightarrow> pyval \<Rightarrow> py_error + pyval" where
  "attr_get v k v0 = (case v of PDict d \<Rightarrow> Inr (pget_default d k v0) | _ \<Rightarrow> Inl AttributeError)"

definition default_mode :: "(string, pyval) dict \<Rightarrow> py_error + security_mode" where
  "default_mode raw =
     (case attr_get (pget_default raw ''defaults'' (PDict [])) ''mode'' (PStr ''balanced'') of
        Inl err \<Rightarrow> Inl err
      | Inr v \<Rightarrow> Inr (case mode_of v of Some m \<Rightarrow> m | None \<Rightarrow> MODE_BALANCED))"

text \<open>\<open>name in agents\<close> and \<open>agents[name]\<close> for the value of the key \<open>agents\<close>.\<close>

definition agent_entry :: "pyval \<Rightarrow> string \<Rightarrow> py_error + pyval option" where
  "agent_entry agents name =
     (case agents of
        PDict d \<Rightarrow> Inr (map_of d name)
      | PList xs \<Rightarrow> if PStr name \<in> set xs then Inl TypeError else Inr None
      | PStr s \<Rightarrow> if sublist name s then Inl TypeError else Inr None
      | _ \<Rightarrow> Inl TypeError)"

definition get_mode :: "(string, pyval) dict \<Rightarrow> string \<Rightarrow> py_error + security_mode" where
  "get_mode raw name =
     (if name = [] then default_mode raw
      else
        (case agent_entry (py_or (pget raw ''agents'') (PDict [])) name of
           Inl err \<Rightarrow> Inl err
         | Inr None \<Rightarrow> default_mode raw
         | Inr (Some entry) \<Rightarrow>
             (case attr_get entry ''mode'' (PStr []) of
                Inl err \<Rightarrow> Inl err
              | Inr v \<Rightarrow>
                  (if \<not> py_truthy v then default_mode raw
                   else (case mode_of v of Some m \<Rightarrow> Inr m | None \<Rightarrow> default_mode raw)))))"

definition get_level_config :: "(string, pyval) dict \<Rightarrow> security_mode \<Rightarrow> py_error + pyval" where
  "get_level_config raw mode = attr_get (pget_default raw ''levels'' (PDict [])) (mode_value mode) (PDict [])"

definition get_section :: "(string, pyval) dict \<Rightarrow> string \<Rightarrow> pyval" where
  "get_section raw key = py_or (pget raw key) (PDict [])"

text \<open>Path objects do not occur in parsed YAML, so that only strings count as paths.\<close>

definition get_agent_allow_write :: "(string, pyval) dict \<Rightarrow> string \<Rightarrow> string list" where
  "get_agent_allow_write raw name =
     (if name = [] then []
      else
        (case py_or (pget raw ''agents'') (PDict []) of
           PDict agents \<Rightarrow>
             (case pget agents name of
                PDict entry \<Rightarrow>
                  (let items = (case pget entry ''allow_write'' of
                                  PStr s \<Rightarrow> [PStr s] | PList xs \<Rightarrow> xs | _ \<Rightarrow> [])
                   in concat (map (\<lambda>v. case v of
                        PStr s \<Rightarrow> if py_strip s = [] then [] else [py_strip s] | _ \<Rightarrow> []) items))
              | _ \<Rightarrow> [])
         | _ \<Rightarrow> []))"

record agent_security =
  sec_mode :: security_mode
  sec_llm_threshold :: pyval
  sec_file_trust_enabled :: pyval
  sec_cache_ttl :: pyval
  sec_cache_max :: pyval
  sec_resource_limits :: pyval

text \<open>\<open>get_agent_security\<close>, before the record is validated.\<close>

definition get_agent_security :: "(string, pyval) dict \<Rightarrow> string \<Rightarrow> py_error + agent_security" where
  "get_agent_security raw name =
     (case get_mode raw name of
        Inl err \<Rightarrow> Inl err
      | Inr mode \<Rightarrow>
          (case get_level_config raw mode of
             Inl err \<Rightarrow> Inl err
           | Inr (PDict level) \<Rightarrow>
               (let cache = pget_default level ''cache'' (PDict [])
                in case (attr_get cache ''ttl_seconds'' (PInt 300), attr_get cache ''max_entries'' (PInt 1000)) of
                     (Inr ttl, Inr entries) \<Rightarrow>
                       Inr \<lparr>sec_mode = mode, sec_llm_threshold = pget_default level ''llm_threshold'' (PStr ''suspicious''),
                            sec_file_trust_enabled = pget_default level ''file_trust_enabled'' (PBool True),
                            sec_cache_ttl = ttl, sec_cache_max = entries,
                            sec_resource_limits = pget_default level ''resource_limits'' (PDict [])\<rparr>
                   | _ \<Rightarrow> Inl AttributeError)
           | Inr _ \<Rightarrow> Inl AttributeError))"

text \<open>The built in defaults that decide about the mode and the language model.\<close>

definition DEFAULT_LEVELS :: "(string, pyval) dict" where
  "DEFAULT_LEVELS =
     [(''defaults'', PDict [(''mode'', PStr ''balanced'')]),
      (''levels'', PDict
        [(''regex'', PDict [(''llm_threshold'', PStr ''never''), (''file_trust_enabled'', PBool False)]),
         (''balanced'', PDict
            [(''llm_threshold'', PStr ''suspicious''),
             (''file_trust'', PDict [(''enabled'', PBool True), (''strict_hours'', PInt 1), (''medium_days'', PInt 1),
                                     (''trusted_days'', PInt 30)]),
             (''cache'', PDict [(''ttl_seconds'', PInt 300), (''max_entries'', PInt 1000)])]),
         (''sandbox'', PDict
            [(''llm_threshold'', PStr ''always''),
             (''file_trust'', PDict [(''enabled'', PBool True), (''strict_hours'', PInt 24), (''medium_days'', PInt 7),
                                     (''trusted_days'', PInt 90)]),
             (''cache'', PDict [(''ttl_seconds'', PInt 60), (''max_entries'', PInt 200)])])]),
      (''agents'', PNone)]"

section \<open>What merging does\<close>

definition merged_value :: "pyval option \<Rightarrow> pyval option \<Rightarrow> pyval option" where
  "merged_value b v =
     (case v of
        None \<Rightarrow> b
      | Some x \<Rightarrow> Some (case (b, x) of (Some (PDict c), PDict d) \<Rightarrow> PDict (merge c d) | _ \<Rightarrow> x))"

lemma merge_map_of:
  "distinct (map fst override) \<Longrightarrow>
    map_of (merge base override) k = merged_value (map_of base k) (map_of override k)"
proof (induction override arbitrary: base)
  case (Cons kv override)
  obtain k' v where kv: "kv = (k', v)" by (cases kv)
  have "k' \<notin> fst ` set override" using Cons.prems by (simp add: kv)
  then have "map_of override k' = None" by (simp add: map_of_eq_None_iff)
  then show ?case
    using Cons by (cases "k = k'") (simp_all add: kv merged_value_def map_of_update split: option.splits)
qed (simp add: merged_value_def)

lemma merge_keys: "fst ` set (merge base override) = fst ` set base \<union> fst ` set override"
  by (induction base override rule: merge.induct) (auto simp: dom_update)

text \<open>The value at a path of keys.\<close>

fun at_path :: "(string, pyval) dict \<Rightarrow> string list \<Rightarrow> pyval option" where
  "at_path d [] = Some (PDict d)"
| "at_path d [k] = map_of d k"
| "at_path d (k # ks) = (case map_of d k of Some (PDict e) \<Rightarrow> at_path e ks | _ \<Rightarrow> None)"

fun distinct_keys :: "pyval \<Rightarrow> bool" where
  "distinct_keys (PDict d) = (distinct (map fst d) \<and> (\<forall>(k, v) \<in> set d. distinct_keys v))"
| "distinct_keys _ = True"

text \<open>The user's file says nothing about a path: some key on the way is missing.\<close>

fun untouched :: "(string, pyval) dict \<Rightarrow> string list \<Rightarrow> bool" where
  "untouched d [] = False"
| "untouched d [k] = (map_of d k = None)"
| "untouched d (k # ks) =
     (case map_of d k of None \<Rightarrow> True | Some (PDict e) \<Rightarrow> untouched e ks | _ \<Rightarrow> False)"

lemma distinct_keys_entry: "distinct_keys (PDict d) \<Longrightarrow> map_of d k = Some v \<Longrightarrow> distinct_keys v"
  by (auto dest: map_of_SomeD)

text \<open>
  C14: Loading the user's file over the built in levels: every value the user gives (other than a
  dictionary) is the one in force at its path, and every path the user does not mention keeps its
  default, however deep it is.
\<close>
theorem merge_respects_settings:
  assumes "distinct_keys (PDict user)" "ks \<noteq> []"
  shows "(at_path user ks = Some v \<and> (\<nexists>d. v = PDict d) \<longrightarrow> at_path (load_config base (Some (PDict user))) ks = Some v) \<and>
    (untouched user ks \<longrightarrow> at_path (load_config base (Some (PDict user))) ks = at_path base ks)"
proof -
  have "(at_path user ks = Some v \<and> (\<nexists>d. v = PDict d) \<longrightarrow> at_path (merge base user) ks = Some v) \<and>
    (untouched user ks \<longrightarrow> at_path (merge base user) ks = at_path base ks)"
    using assms
  proof (induction user ks arbitrary: base rule: at_path.induct)
    case (2 d k)
    then have m: "map_of (merge base d) k = merged_value (map_of base k) (map_of d k)"
      by (simp add: merge_map_of)
    show ?case
      unfolding at_path.simps untouched.simps m
      by (auto simp: merged_value_def split: option.splits pyval.splits)
  next
    case (3 d k k' ks)
    have m: "map_of (merge base d) k = merged_value (map_of base k) (map_of d k)"
      using "3.prems"(1) by (simp add: merge_map_of)
    show ?case
    proof (cases "\<exists>e. map_of d k = Some (PDict e)")
      case True
      then obtain e where e: "map_of d k = Some (PDict e)" by blast
      have IH: "(at_path e (k' # ks) = Some v \<and> (\<nexists>d. v = PDict d) \<longrightarrow> at_path (merge c e) (k' # ks) = Some v) \<and>
          (untouched e (k' # ks) \<longrightarrow> at_path (merge c e) (k' # ks) = at_path c (k' # ks))" for c
        using "3.IH" [OF e HOL.refl distinct_keys_entry [OF "3.prems"(1) e]] by simp
      have none: "untouched e (k' # ks) \<Longrightarrow> at_path e (k' # ks) = None" for e
        by (induction e "k' # ks" arbitrary: k' ks rule: untouched.induct) (auto split: option.splits pyval.splits)
      show ?thesis
        using IH none [of e] by (cases "map_of base k") (auto simp: e m merged_value_def split: pyval.splits)
    next
      case False
      then show ?thesis
        by (cases "map_of d k") (auto simp: m merged_value_def split: option.splits pyval.splits)
    qed
  qed simp
  then show ?thesis by (simp add: load_config_def)
qed

definition ex_user :: "(string, pyval) dict" where
  "ex_user =
     [(''levels'', PDict [(''sandbox'', PDict [(''llm_threshold'', PStr ''never'')])]),
      (''agents'', PDict [(''dl'', PDict [(''mode'', PStr ''sandbox'')]), (''x'', PStr ''sandbox'')])]"

theorem merge_respects_settings_witness:
  "at_path (load_config DEFAULT_LEVELS (Some (PDict ex_user))) [''levels'', ''sandbox'', ''llm_threshold''] = Some (PStr ''never'') \<and>
   at_path (load_config DEFAULT_LEVELS (Some (PDict ex_user))) [''levels'', ''sandbox'', ''cache'', ''ttl_seconds''] = Some (PInt 60)"
proof -
  have d: "distinct_keys (PDict ex_user)" by (simp add: ex_user_def)
  have a: "at_path ex_user [''levels'', ''sandbox'', ''llm_threshold''] = Some (PStr ''never'')"
    "untouched ex_user [''levels'', ''sandbox'', ''cache'', ''ttl_seconds'']"
    "at_path DEFAULT_LEVELS [''levels'', ''sandbox'', ''cache'', ''ttl_seconds''] = Some (PInt 60)"
    by code_simp+
  show ?thesis
    using merge_respects_settings [OF d, of "[''levels'', ''sandbox'', ''llm_threshold'']" "PStr ''never''" DEFAULT_LEVELS]
      merge_respects_settings [OF d, of "[''levels'', ''sandbox'', ''cache'', ''ttl_seconds'']" _ DEFAULT_LEVELS] a
    by simp
qed

text \<open>An agent whose entry is a plain word instead of a dictionary makes the lookup raise.\<close>

lemma agent_entry_raises:
  "get_mode (load_config DEFAULT_LEVELS (Some (PDict ex_user))) ''dl'' = Inr MODE_SANDBOX"
  "get_mode (load_config DEFAULT_LEVELS (Some (PDict ex_user))) ''x'' = Inl AttributeError"
  "get_mode (load_config DEFAULT_LEVELS None) ''x'' = Inr MODE_BALANCED"
  by code_simp+

section \<open>Trust in files\<close>

datatype file_trust = TRUST_ISOLATED | TRUST_HIGH | TRUST_MEDIUM | TRUST_LOW | TRUST_TRUSTED

fun trust_value :: "file_trust \<Rightarrow> nat" where
  "trust_value TRUST_ISOLATED = 0"
| "trust_value TRUST_HIGH = 1"
| "trust_value TRUST_MEDIUM = 2"
| "trust_value TRUST_LOW = 3"
| "trust_value TRUST_TRUSTED = 4"

text \<open>The table: first and last access by path.\<close>

type_synonym trust_table = "(string, time \<times> time) dict"

definition age_level :: "time \<Rightarrow> file_trust" where
  "age_level age =
     (if age < 3600 then TRUST_ISOLATED else if age < 86400 then TRUST_HIGH
      else if age < 604800 then TRUST_MEDIUM else if age < 2592000 then TRUST_LOW else TRUST_TRUSTED)"

definition get_trust_level :: "string \<Rightarrow> time \<Rightarrow> trust_table \<Rightarrow> file_trust" where
  "get_trust_level path ts tab =
     (case map_of tab path of None \<Rightarrow> TRUST_ISOLATED | Some (first, _) \<Rightarrow> age_level (ts - first))"

definition record_access :: "string \<Rightarrow> time \<Rightarrow> trust_table \<Rightarrow> file_trust \<times> trust_table" where
  "record_access path ts tab =
     (let tab' = AList.update path
            (case map_of tab path of None \<Rightarrow> (ts, ts) | Some (first, _) \<Rightarrow> (first, ts)) tab
      in (get_trust_level path ts tab', tab'))"

definition get_first_seen :: "string \<Rightarrow> trust_table \<Rightarrow> time option" where
  "get_first_seen path tab = map_option fst (map_of tab path)"

definition trust_cleanup :: "int \<Rightarrow> time \<Rightarrow> trust_table \<Rightarrow> nat \<times> trust_table" where
  "trust_cleanup max_age_days ts tab =
     (let old = (\<lambda>(_, _, seen). seen < ts - of_int max_age_days * 86400)
      in (length (filter old tab), filter (Not \<circ> old) tab))"

definition trust_stats :: "trust_table \<Rightarrow> nat \<times> nat" where
  "trust_stats tab = (length tab, length (remdups (map (fst \<circ> snd) tab)))"

datatype trust_op = Access string time | Cleanup int time

fun trust_step :: "trust_op \<Rightarrow> trust_table \<Rightarrow> trust_table" where
  "trust_step (Access path ts) tab = snd (record_access path ts tab)"
| "trust_step (Cleanup days ts) tab = snd (trust_cleanup days ts tab)"

definition trust_inv :: "trust_op list \<Rightarrow> trust_table \<Rightarrow> bool" where
  "trust_inv ops tab \<longleftrightarrow> distinct (map fst tab) \<and>
     (\<forall>path first seen. map_of tab path = Some (first, seen) \<longrightarrow> Access path first \<in> set ops)"

lemma distinct_filter_keys: "distinct (map fst xs) \<Longrightarrow> distinct (map fst (filter P xs))"
  by (induction xs) auto

lemma trust_inv_step: "trust_inv ops tab \<Longrightarrow> trust_inv (ops @ [op]) (trust_step op tab)"
proof (cases op)
  case (Access path ts)
  assume "trust_inv ops tab"
  then show ?thesis
    by (auto simp: trust_inv_def Access record_access_def Let_def map_of_update distinct_keys_update
        split: if_splits option.splits)
next
  case (Cleanup days ts)
  assume i: "trust_inv ops tab"
  let ?P = "Not \<circ> (\<lambda>(_, _, seen). seen < ts - of_int days * 86400)"
  have "map_of (filter ?P tab) path = Some v \<Longrightarrow> map_of tab path = Some v" for path v
    using i by (metis distinct_filter_keys filter_is_subset map_of_SomeD map_of_is_SomeI subsetD trust_inv_def)
  then show ?thesis
    using i unfolding trust_inv_def trust_step.simps Cleanup trust_cleanup_def Let_def snd_conv
    by (simp only: distinct_filter_keys set_append Un_iff) blast
qed

lemma trust_inv_steps: "trust_inv ops (fold trust_step ops [])"
proof (induction ops rule: rev_induct)
  case (snoc op ops)
  then show ?case by (simp add: trust_inv_step)
qed (simp add: trust_inv_def)

lemma age_level_value:
  "1 \<le> trust_value (age_level a) \<longleftrightarrow> 3600 \<le> a" "2 \<le> trust_value (age_level a) \<longleftrightarrow> 86400 \<le> a"
  "3 \<le> trust_value (age_level a) \<longleftrightarrow> 604800 \<le> a" "4 \<le> trust_value (age_level a) \<longleftrightarrow> 2592000 \<le> a"
  by (simp_all add: age_level_def)

text \<open>
  C15: A file is never trusted early: after any accesses and clean-ups, a level of \<open>n\<close> at the time
  \<open>now\<close> means that the very file was accessed at least one hour, one day, seven days or thirty days
  before, and that is the only way to reach the level at which the language model is skipped.
\<close>
theorem trust_needs_age:
  assumes "n \<le> trust_value (get_trust_level path now (fold trust_step ops []))" "0 < n"
  shows "\<exists>t. Access path t \<in> set ops \<and>
    (if n = 1 then 3600 else if n = 2 then 86400 else if n = 3 then 604800 else 2592000) \<le> now - t"
proof -
  let ?tab = "fold trust_step ops []"
  obtain first seen where f: "map_of ?tab path = Some (first, seen)"
    using assms by (cases "map_of ?tab path") (auto simp: get_trust_level_def)
  then have "Access path first \<in> set ops" using trust_inv_steps [of ops] by (simp add: trust_inv_def)
  moreover have l: "n \<le> trust_value (age_level (now - first))" using assms(1) f by (simp add: get_trust_level_def)
  moreover have "trust_value x \<le> 4" for x by (cases x) simp_all
  then have "n \<le> 4" using l le_trans by blast
  then have "n \<in> {1, 2, 3, 4}" using assms(2) by auto
  ultimately show ?thesis using age_level_value [of "now - first"] by (intro exI [of _ first]) auto
qed

theorem trust_needs_age_witness:
  "\<exists>t. Access ''/a'' t \<in> set [Access ''/a'' 0, Cleanup 90 50, Access ''/a'' 3000000] \<and> 2592000 \<le> 3000000 - t"
proof -
  have "4 \<le> trust_value (get_trust_level ''/a'' 3000000
      (fold trust_step [Access ''/a'' 0, Cleanup 90 50, Access ''/a'' 3000000] []))" by code_simp
  from trust_needs_age [OF this] show ?thesis by simp
qed

end
