(* ===== verification/Llm_Policy.thy ===== *)
theory Llm_Policy
  imports Llm_Router_Facts Policy_Engine Security_Config
begin

text \<open>
  The policy engine with a language model behind it (\<open>llm_policy.py\<close>): the verdict of the rules is
  final where it is clear, otherwise a cached or a fresh answer of the model replaces it.
\<close>

section \<open>Decisions and their cache\<close>

record llm_decision =
  ld_risk :: risk_level
  ld_action :: policy_action
  ld_reason :: string
  ld_confidence :: time
  ld_expires_at :: time

record llm_cache =
  lc_ttl :: int
  lc_max :: int
  lc_entries :: "(string, llm_decision) dict"

text \<open>\<open>key\<close> is the digest of the command.\<close>

definition cache_get :: "time \<Rightarrow> string \<Rightarrow> llm_cache \<Rightarrow> llm_decision option \<times> llm_cache" where
  "cache_get now key c =
     (case map_of (lc_entries c) key of
        None \<Rightarrow> (None, c)
      | Some e \<Rightarrow>
          if ld_expires_at e < now then (None, c\<lparr>lc_entries := AList.delete key (lc_entries c)\<rparr>)
          else (Some e, c))"

text \<open>The half of the entries that expires first is dropped; the order is stable.\<close>

definition evict_half :: "llm_cache \<Rightarrow> llm_cache" where
  "evict_half c =
     (let xs = sort_key (ld_expires_at \<circ> snd) (lc_entries c);
          old = map fst (take (length xs div 2) xs)
      in c\<lparr>lc_entries := filter (\<lambda>(k, _). k \<notin> set old) (lc_entries c)\<rparr>)"

definition cache_set :: "string \<Rightarrow> llm_decision \<Rightarrow> llm_cache \<Rightarrow> llm_cache" where
  "cache_set key d c =
     (let c1 = (if lc_max c \<le> int (length (lc_entries c)) then evict_half c else c)
      in c1\<lparr>lc_entries := AList.update key d (lc_entries c1)\<rparr>)"

section \<open>Reading an answer\<close>

text \<open>The text before the last occurrence of a word.\<close>

fun before_last :: "string \<Rightarrow> string \<Rightarrow> string option" where
  "before_last p [] = None"
| "before_last p (c # cs) =
     (case before_last p cs of
        Some t \<Rightarrow> Some (c # t)
      | None \<Rightarrow> if prefix p (c # cs) then Some [] else None)"

definition strip_fence :: "string \<Rightarrow> py_error + string" where
  "strip_fence content =
     (let text = py_strip content
      in if \<not> prefix ''```'' text then Inr text
         else if LF \<notin> set text then Inl IndexError
         else
           (let body = tl (dropWhile (\<lambda>c. c \<noteq> LF) text)
            in Inr (py_strip (case before_last ''```'' body of None \<Rightarrow> body | Some t \<Rightarrow> t))))"

text \<open>\<open>json_of\<close> is \<open>json.loads\<close>; the record refuses a confidence outside of zero and one.\<close>

definition decision_of :: "(string \<Rightarrow> pyval option) \<Rightarrow> (string \<Rightarrow> time option) \<Rightarrow> string \<Rightarrow> py_error + llm_decision" where
  "decision_of json_of float_of content =
     (case strip_fence content of
        Inl err \<Rightarrow> Inl err
      | Inr text \<Rightarrow>
          (case json_of text of
             Some (PDict d) \<Rightarrow>
               (case (pget_default d ''risk'' (PStr ''medium''), pget_default d ''action'' (PStr ''confirm''),
                      pget_default d ''reason'' (PStr ''LLM analysis''),
                      to_float float_of (pget_default d ''confidence'' (PFloat (1 / 2)))) of
                  (PStr r, PStr a, PStr why, Some conf) \<Rightarrow>
                    (case (risk_of_string r, action_of_string a) of
                       (Some risk, Some act) \<Rightarrow>
                         (if 0 \<le> conf \<and> conf \<le> 1
                          then Inr \<lparr>ld_risk = risk, ld_action = act, ld_reason = why, ld_confidence = conf, ld_expires_at = 0\<rparr>
                          else Inl ValueError)
                     | _ \<Rightarrow> Inl ValueError)
                | _ \<Rightarrow> Inl ValueError)
           | Some _ \<Rightarrow> Inl AttributeError
           | None \<Rightarrow> Inl ValueError))"

section \<open>The engine\<close>

record level_config =
  lv_threshold :: string
  lv_ttl :: int
  lv_max :: int

text \<open>The settings of a level; \<^const>\<open>None\<close> when a value has another type.\<close>

definition level_config_of :: "(string, pyval) dict \<Rightarrow> security_mode \<Rightarrow> level_config option" where
  "level_config_of raw mode =
     (case get_level_config raw mode of
        Inr (PDict level) \<Rightarrow>
          (case (pget_default level ''llm_threshold'' (PStr ''suspicious''), pget_default level ''cache'' (PDict [])) of
             (PStr t, PDict c) \<Rightarrow>
               (case (pget_default c ''ttl_seconds'' (PInt 300), pget_default c ''max_entries'' (PInt 1000)) of
                  (PInt ttl, PInt n) \<Rightarrow> Some \<lparr>lv_threshold = t, lv_ttl = ttl, lv_max = n\<rparr>
                | _ \<Rightarrow> None)
           | _ \<Rightarrow> None)
      | _ \<Rightarrow> None)"

text \<open>\<open>le_world\<close> gives the text that a target answers; its other fields are those of the router.\<close>

record llm_env =
  le_search :: re_search
  le_rules :: "policy_rule list"
  le_levels :: "security_mode \<Rightarrow> level_config"
  le_hash :: "string \<Rightarrow> string"
  le_json :: "string \<Rightarrow> pyval option"
  le_world :: "string router_world"
  le_chain :: "llm_target list"

record llm_state =
  ls_caches :: "(string, llm_cache) dict"
  ls_router :: router

definition get_cache :: "llm_env \<Rightarrow> security_mode \<Rightarrow> llm_state \<Rightarrow> llm_cache \<times> llm_state" where
  "get_cache env mode s =
     (case map_of (ls_caches s) (mode_value mode) of
        Some c \<Rightarrow> (c, s)
      | None \<Rightarrow>
          (let c = \<lparr>lc_ttl = lv_ttl (le_levels env mode), lc_max = lv_max (le_levels env mode), lc_entries = []\<rparr>
           in (c, s\<lparr>ls_caches := AList.update (mode_value mode) c (ls_caches s)\<rparr>)))"

definition put_cache :: "security_mode \<Rightarrow> llm_cache \<Rightarrow> llm_state \<Rightarrow> llm_state" where
  "put_cache mode c s = s\<lparr>ls_caches := AList.update (mode_value mode) c (ls_caches s)\<rparr>"

text \<open>An answer that cannot be read is an error of the attempt without an HTTP status.\<close>

definition read_error :: call_error where
  "read_error = \<lparr>ce_status = None, ce_retry_after = None, ce_os_error = False, ce_text = ''ValueError''\<rparr>"

definition decision_world :: "llm_env \<Rightarrow> llm_decision router_world" where
  "decision_world env =
     \<lparr>rw_float_of = rw_float_of (le_world env), rw_date_of = rw_date_of (le_world env),
      rw_attempt = (\<lambda>t n.
        case rw_attempt (le_world env) t n of
          (Inl e, dt) \<Rightarrow> (Inl e, dt)
        | (Inr content, dt) \<Rightarrow>
            (case decision_of (le_json env) (rw_float_of (le_world env)) content of
               Inl _ \<Rightarrow> (Inl read_error, dt) | Inr d \<Rightarrow> (Inr d, dt))),
      rw_usage = (\<lambda>_. None)\<rparr>"

text \<open>\<open>_call_llm\<close>: the time to live is always that of the balanced mode.\<close>

definition call_llm :: "llm_env \<Rightarrow> llm_state \<Rightarrow> llm_decision option \<times> llm_state" where
  "call_llm env s =
     (case run_with_fallback (decision_world env) (le_chain env) (ls_router s) of
        (Inl _, r) \<Rightarrow> (None, s\<lparr>ls_router := r\<rparr>)
      | (Inr (d, _), r) \<Rightarrow>
          (case get_cache env MODE_BALANCED (s\<lparr>ls_router := r\<rparr>) of
             (c, s1) \<Rightarrow> (Some (d\<lparr>ld_expires_at := ro_wall r + of_int (lc_ttl c)\<rparr>), s1)))"

definition ask_llm :: "llm_env \<Rightarrow> security_mode \<Rightarrow> string \<Rightarrow> verdict \<Rightarrow> llm_state \<Rightarrow> verdict \<times> llm_state" where
  "ask_llm env mode command v s =
     (case call_llm env s of
        (None, s1) \<Rightarrow> ((fst v, fst (snd v), ''[llm-fallback] '' @ snd (snd v)), s1)
      | (Some d, s1) \<Rightarrow>
          (case get_cache env mode s1 of
             (c, s2) \<Rightarrow>
               ((ld_risk d, ld_action d, ''[llm] '' @ ld_reason d),
                put_cache mode (cache_set (le_hash env command) d c) s2)))"

definition after_cache :: "llm_env \<Rightarrow> security_mode \<Rightarrow> string \<Rightarrow> verdict \<Rightarrow> llm_state \<Rightarrow> verdict \<times> llm_state" where
  "after_cache env mode command v s =
     (if lv_threshold (le_levels env mode) = ''never'' then ((fst v, fst (snd v), ''[llm-skip] threshold=never''), s)
      else if lv_threshold (le_levels env mode) = ''suspicious'' \<and> fst (snd v) \<noteq> ACT_CONFIRM
      then ((fst v, fst (snd v), ''[llm-skip] action='' @ action_value (fst (snd v))), s)
      else ask_llm env mode command v s)"

definition trust_name :: "file_trust \<Rightarrow> string" where
  "trust_name t =
     (case t of TRUST_ISOLATED \<Rightarrow> ''ISOLATED'' | TRUST_HIGH \<Rightarrow> ''HIGH'' | TRUST_MEDIUM \<Rightarrow> ''MEDIUM''
      | TRUST_LOW \<Rightarrow> ''LOW'' | TRUST_TRUSTED \<Rightarrow> ''TRUSTED'')"

definition clear_verdict :: "security_mode \<Rightarrow> file_trust option \<Rightarrow> verdict \<Rightarrow> string option" where
  "clear_verdict mode trust v =
     (case v of
        (risk, action, reason) \<Rightarrow>
          if mode = MODE_REGEX then Some (''[regex] '' @ reason)
          else if risk = RISK_LOW \<and> action = ACT_AUTO then Some (''[llm-passthrough] '' @ reason)
          else if risk = RISK_CRITICAL \<and> action = ACT_DENY then Some (''[llm-blocked] '' @ reason)
          else
            (case trust of
               Some t \<Rightarrow> if mode \<noteq> MODE_SANDBOX \<and> trust_value TRUST_LOW \<le> trust_value t
                          then Some (''[llm-file-trusted] file_trust='' @ trust_name t) else None
             | None \<Rightarrow> None))"

definition llm_evaluate ::
    "llm_env \<Rightarrow> string \<Rightarrow> source_type option \<Rightarrow> security_mode \<Rightarrow> file_trust option \<Rightarrow> llm_state
       \<Rightarrow> (py_error + verdict) \<times> llm_state" where
  "llm_evaluate env command source mode trust s =
     (case policy_evaluate (le_search env) (le_rules env) command source of
        Inl err \<Rightarrow> (Inl err, s)
      | Inr v \<Rightarrow>
          (case clear_verdict mode trust v of
             Some why \<Rightarrow> (Inr (fst v, fst (snd v), why), s)
           | None \<Rightarrow>
               (case get_cache env mode s of
                  (c, s1) \<Rightarrow>
                    (case cache_get (ro_wall (ls_router s1)) (le_hash env command) c of
                       (Some e, _) \<Rightarrow> (Inr (ld_risk e, ld_action e, ''[llm-cached] '' @ ld_reason e), s1)
                     | (None, c') \<Rightarrow>
                         (case after_cache env mode command v (put_cache mode c' s1) of (v', s2) \<Rightarrow> (Inr v', s2))))))"

definition clear_caches :: "security_mode option \<Rightarrow> llm_state \<Rightarrow> llm_state" where
  "clear_caches mode s =
     s\<lparr>ls_caches := map (\<lambda>(k, c). (k, if mode = None \<or> map_option mode_value mode = Some k
                                       then c\<lparr>lc_entries := []\<rparr> else c)) (ls_caches s)\<rparr>"

section \<open>Clear verdicts stay\<close>

text \<open>
  C11: The model has no say where the rules are clear.  In regex mode, for a harmless verdict
  (low risk, automatic), for an absolute refusal (critical risk, deny) and for a file that has been
  trusted long enough (except in sandbox mode), risk and action are those of the rules, no call is
  made and no cached answer is used.
\<close>
theorem clear_verdict_stays:
  assumes "policy_evaluate (le_search env) (le_rules env) command source = Inr (risk, action, reason)"
    and "mode = MODE_REGEX \<or> (risk = RISK_LOW \<and> action = ACT_AUTO) \<or> (risk = RISK_CRITICAL \<and> action = ACT_DENY) \<or>
      (mode \<noteq> MODE_SANDBOX \<and> (\<exists>t. trust = Some t \<and> trust_value TRUST_LOW \<le> trust_value t))"
  shows "\<exists>why. llm_evaluate env command source mode trust s = (Inr (risk, action, why), s)"
proof -
  have "clear_verdict mode trust (risk, action, reason) \<noteq> None"
    using assms(2) unfolding clear_verdict_def by (auto split: if_splits option.splits)
  then obtain why where "clear_verdict mode trust (risk, action, reason) = Some why" by blast
  then show ?thesis by (simp add: llm_evaluate_def assms(1))
qed

section \<open>The cache stays small\<close>

definition cache_ok :: "llm_cache \<Rightarrow> bool" where
  "cache_ok c \<longleftrightarrow> distinct (map fst (lc_entries c)) \<and> int (length (lc_entries c)) \<le> max 2 (lc_max c)"

lemma cache_get_ok: "cache_ok c \<Longrightarrow> cache_ok (snd (cache_get now key c))"
proof -
  assume c: "cache_ok c"
  have "int (length (AList.delete key (lc_entries c))) \<le> int (length (lc_entries c))"
    by (simp add: AList.delete_eq)
  then have "cache_ok (c\<lparr>lc_entries := AList.delete key (lc_entries c)\<rparr>)"
    using c by (simp add: cache_ok_def distinct_delete)
  then show ?thesis using c by (simp add: cache_get_def split: option.splits)
qed

lemma filter_keys_drop:
  assumes "distinct (map fst xs)"
  shows "filter (\<lambda>(k, _). k \<notin> set (map fst (take n xs))) xs = drop n xs"
proof -
  have d: "fst ` set (take n xs) \<inter> fst ` set (drop n xs) = {}"
    using assms by (metis append_take_drop_id distinct_append list.set_map map_append)
  let ?P = "\<lambda>(k, _). k \<notin> set (map fst (take n xs))"
  have "filter ?P (take n xs) = []" by (force simp: filter_empty_conv)
  moreover have "filter ?P (drop n xs) = drop n xs"
    using d by (intro filter_True) (force simp: image_iff)
  ultimately have "filter ?P (take n xs @ drop n xs) = drop n xs" by (simp only: filter_append append_Nil)
  then show ?thesis by (simp only: append_take_drop_id)
qed

lemma evict_half_ok:
  assumes "distinct (map fst (lc_entries c))"
  shows "length (lc_entries (evict_half c)) = length (lc_entries c) - length (lc_entries c) div 2"
    and "distinct (map fst (lc_entries (evict_half c)))" "lc_max (evict_half c) = lc_max c"
proof -
  let ?xs = "sort_key (ld_expires_at \<circ> snd) (lc_entries c)"
  let ?n = "length (lc_entries c) div 2"
  let ?P = "\<lambda>(k, _). k \<notin> set (map fst (take ?n ?xs))"
  have "distinct (lc_entries c)" "inj_on fst (set (lc_entries c))" using assms by (simp_all add: distinct_map)
  then have "distinct (map fst ?xs)" by (simp add: distinct_map)
  then have "filter ?P ?xs = drop ?n ?xs" by (rule filter_keys_drop)
  moreover have "length (filter ?P ?xs) = length (filter ?P (lc_entries c))"
    by (simp only: filter_sort length_sort)
  ultimately have "length (filter ?P (lc_entries c)) = length (drop ?n ?xs)" by simp
  then show "length (lc_entries (evict_half c)) = length (lc_entries c) - ?n"
    by (simp add: evict_half_def Let_def)
  show "distinct (map fst (lc_entries (evict_half c)))" "lc_max (evict_half c) = lc_max c"
    using assms by (simp_all add: evict_half_def Let_def distinct_filter_keys)
qed

lemma length_update: "length (AList.update k v xs) = (if k \<in> fst ` set xs then length xs else Suc (length xs))"
  by (induction xs) auto

lemma cache_set_ok: "cache_ok c \<Longrightarrow> cache_ok (cache_set key d c)"
proof -
  assume c: "cache_ok c"
  let ?c = "if lc_max c \<le> int (length (lc_entries c)) then evict_half c else c"
  have d: "distinct (map fst (lc_entries c))" and m: "int (length (lc_entries c)) \<le> max 2 (lc_max c)"
    using c by (simp_all add: cache_ok_def)
  have "distinct (map fst (lc_entries ?c))" "lc_max ?c = lc_max c" using d evict_half_ok [OF d] by auto
  moreover have "int (Suc (length (lc_entries ?c))) \<le> max 2 (lc_max c)"
  proof (cases "lc_max c \<le> int (length (lc_entries c))")
    case True
    then show ?thesis using m evict_half_ok(1) [OF d] by (simp add: max_def split: if_splits)
  qed simp
  ultimately show ?thesis
    by (simp add: cache_set_def Let_def cache_ok_def distinct_keys_update length_update)
qed

definition caches_ok :: "llm_state \<Rightarrow> bool" where
  "caches_ok s \<longleftrightarrow> (\<forall>k c. map_of (ls_caches s) k = Some c \<longrightarrow> cache_ok c)"

lemma caches_put: "caches_ok s \<Longrightarrow> cache_ok c \<Longrightarrow> caches_ok (put_cache mode c s)"
  by (auto simp: caches_ok_def put_cache_def map_of_update)

lemma caches_get:
  assumes "caches_ok s" "get_cache env mode s = (c, s')"
  shows "cache_ok c" "caches_ok s'"
  using assms by (auto simp: get_cache_def caches_ok_def cache_ok_def Let_def map_of_update split: option.splits if_splits)

lemma caches_router [simp]: "caches_ok (s\<lparr>ls_router := r\<rparr>) = caches_ok s"
  by (simp add: caches_ok_def)

lemma call_llm_ok:
  assumes "caches_ok s" "call_llm env s = (d, s')"
  shows "caches_ok s'"
proof -
  obtain x r where x: "run_with_fallback (decision_world env) (le_chain env) (ls_router s) = (x, r)" by (metis surj_pair)
  obtain c s1 where c: "get_cache env MODE_BALANCED (s\<lparr>ls_router := r\<rparr>) = (c, s1)" by (metis surj_pair)
  have "caches_ok s1" by (rule caches_get(2) [OF _ c]) (simp add: assms(1))
  then show ?thesis using assms x c by (auto simp: call_llm_def split: sum.splits)
qed

lemma ask_llm_ok:
  assumes "caches_ok s" "ask_llm env mode command v s = (r, s')"
  shows "caches_ok s'"
proof -
  obtain d s1 where d: "call_llm env s = (d, s1)" by (metis surj_pair)
  obtain c s2 where c: "get_cache env mode s1 = (c, s2)" by (metis surj_pair)
  have ok: "caches_ok s1" by (rule call_llm_ok [OF assms(1) d])
  note g = caches_get [OF ok c]
  have "caches_ok (put_cache mode (cache_set (le_hash env command) e c) s2)" for e
    by (rule caches_put [OF g(2) cache_set_ok [OF g(1)]])
  then show ?thesis using assms(2) ok by (auto simp: ask_llm_def d c split: option.splits)
qed

lemma llm_evaluate_ok: "caches_ok s \<Longrightarrow> llm_evaluate env command source mode trust s = (r, s') \<Longrightarrow> caches_ok s'"
proof -
  assume s: "caches_ok s" and e: "llm_evaluate env command source mode trust s = (r, s')"
  obtain c s1 where c: "get_cache env mode s = (c, s1)" by (metis surj_pair)
  note ok = caches_get [OF s c]
  obtain d c' where d: "cache_get (ro_wall (ls_router s1)) (le_hash env command) c = (d, c')" by (metis surj_pair)
  have "cache_ok c'" using cache_get_ok [OF ok(1)] d by (metis snd_conv)
  then have p: "caches_ok (put_cache mode c' s1)" by (rule caches_put [OF ok(2)])
  have "caches_ok s2" if "after_cache env mode command v (put_cache mode c' s1) = (v', s2)" for v v' s2
    using that p by (auto simp: after_cache_def split: if_splits dest: ask_llm_ok)
  then show ?thesis
    using e s ok(2) by (auto simp: llm_evaluate_def c d split: sum.splits option.splits prod.splits)
qed

text \<open>A request: the time since the last one and the arguments of \<open>evaluate\<close>.\<close>

type_synonym llm_request = "time \<times> string \<times> source_type option \<times> security_mode \<times> file_trust option"

fun llm_step :: "llm_env \<Rightarrow> llm_request \<Rightarrow> llm_state \<Rightarrow> llm_state" where
  "llm_step env (dt, command, source, mode, trust) s =
     snd (llm_evaluate env command source mode trust (s\<lparr>ls_router := pass_time dt (ls_router s)\<rparr>))"

text \<open>
  C10: The caches are bounded: however many commands are evaluated, in whatever modes, no cache ever
  holds more entries than its configured maximum (or than two, when the maximum is smaller than that:
  dropping half of one entry drops none).
\<close>
theorem llm_caches_bounded:
  assumes "map_of (ls_caches (fold (llm_step env) reqs \<lparr>ls_caches = [], ls_router = r\<rparr>)) k = Some c"
  shows "int (length (lc_entries c)) \<le> max 2 (lc_max c) \<and> distinct (map fst (lc_entries c))"
proof -
  have "caches_ok (llm_step env req s)" if ok: "caches_ok s" for req s
  proof -
    obtain dt command source mode trust where req: "req = (dt, command, source, mode, trust)" by (metis surj_pair)
    let ?s = "s\<lparr>ls_router := pass_time dt (ls_router s)\<rparr>"
    obtain r s' where e: "llm_evaluate env command source mode trust ?s = (r, s')" by (metis surj_pair)
    have "caches_ok s'" by (rule llm_evaluate_ok [OF _ e]) (simp add: ok)
    then show ?thesis by (simp add: req e)
  qed
  then have "caches_ok s \<Longrightarrow> caches_ok (fold (llm_step env) reqs s)" for s
    by (induction reqs arbitrary: s) auto
  moreover have "caches_ok \<lparr>ls_caches = [], ls_router = r\<rparr>" by (simp add: caches_ok_def)
  ultimately have "caches_ok (fold (llm_step env) reqs \<lparr>ls_caches = [], ls_router = r\<rparr>)" by blast
  then show ?thesis using assms by (auto simp: caches_ok_def cache_ok_def)
qed

section \<open>Where a verdict comes from\<close>

text \<open>
  A cached answer wins over a refusal.  The cache is looked up by (eight hexadecimal digits of the
  digest of) the command alone and before the threshold is considered: once any answer is stored, it
  replaces what the rules say for every source, unless the refusal is of critical risk.
\<close>
theorem cached_answer_wins:
  assumes "policy_evaluate (le_search env) (le_rules env) command source = Inr (risk, ACT_DENY, why)"
    and "risk \<noteq> RISK_CRITICAL" "mode \<noteq> MODE_REGEX"
    and "map_of (ls_caches s) (mode_value mode) = Some c"
    and "map_of (lc_entries c) (le_hash env command) = Some e" "ro_wall (ls_router s) \<le> ld_expires_at e"
  shows "llm_evaluate env command source mode None s = (Inr (ld_risk e, ld_action e, ''[llm-cached] '' @ ld_reason e), s)"
proof -
  have "clear_verdict mode None (risk, ACT_DENY, why) = None" using assms(2,3) by (simp add: clear_verdict_def)
  then show ?thesis
    using assms(4-6) by (simp add: llm_evaluate_def assms(1) get_cache_def cache_get_def)
qed

definition ex_llm_env :: llm_env where
  "ex_llm_env =
     \<lparr>le_search = sublist,
      le_rules = [[(''pattern'', PStr ''curl''), (''source'', PStr ''ai''), (''risk'', PStr ''high''), (''action'', PStr ''deny'')]],
      le_levels = (\<lambda>_. \<lparr>lv_threshold = ''suspicious'', lv_ttl = 300, lv_max = 1000\<rparr>), le_hash = id,
      le_json = (\<lambda>t. if t = ''{}'' then Some (PDict [(''risk'', PStr ''low''), (''action'', PStr ''auto'')]) else None),
      le_world = \<lparr>rw_float_of = (\<lambda>_. None), rw_date_of = (\<lambda>_. None), rw_attempt = (\<lambda>_ _. (Inr ''{}'', 0)),
                   rw_usage = (\<lambda>_. None)\<rparr>,
      le_chain = [ex_twice]\<rparr>"

definition ex_llm_state :: llm_state where
  "ex_llm_state = \<lparr>ls_caches = [], ls_router = ex_router\<rparr>"

text \<open>A person runs a command, the model waves it through; then the agent may run it too.\<close>

definition ex_asked :: llm_state where
  "ex_asked = llm_step ex_llm_env (0, ''curl x'', Some SRC_HUMAN, MODE_BALANCED, None) ex_llm_state"

lemma ex_refused: "policy_evaluate (le_search ex_llm_env) (le_rules ex_llm_env) ''curl x'' (Some SRC_AI) =
    Inr (RISK_HIGH, ACT_DENY, ''Matched rule: curl (src=ai)'')"
  by code_simp

lemma ex_asked_first: "policy_evaluate (le_search ex_llm_env) (le_rules ex_llm_env) ''curl x'' (Some SRC_HUMAN) =
    Inr (RISK_MEDIUM, ACT_CONFIRM, ''No rule matched, default'')"
  by code_simp

lemma ex_asked_entry:
  "map (\<lambda>(k, c). (k, map (\<lambda>(h, e). (h, ld_risk e, ld_action e, ld_expires_at e)) (lc_entries c))) (ls_caches ex_asked) =
     [(''balanced'', [(''curl x'', RISK_LOW, ACT_AUTO, 1300)])]"
  "ro_wall (ls_router ex_asked) = 1000"
  by code_simp+

theorem cached_answer_wins_witness:
  "\<exists>why. fst (llm_evaluate ex_llm_env ''curl x'' (Some SRC_AI) MODE_BALANCED None ex_asked) =
     Inr (RISK_LOW, ACT_AUTO, why)"
proof -
  obtain c where c: "ls_caches ex_asked = [(''balanced'', c)]"
    "map (\<lambda>(h, e). (h, ld_risk e, ld_action e, ld_expires_at e)) (lc_entries c) = [(''curl x'', RISK_LOW, ACT_AUTO, 1300)]"
    using ex_asked_entry(1) by (cases "ls_caches ex_asked") auto
  then obtain e where e: "lc_entries c = [(''curl x'', e)]" "ld_risk e = RISK_LOW" "ld_action e = ACT_AUTO"
    "ld_expires_at e = 1300"
    by (cases "lc_entries c") auto
  have "map_of (ls_caches ex_asked) (mode_value MODE_BALANCED) = Some c" by (simp add: c(1))
  moreover have "map_of (lc_entries c) (le_hash ex_llm_env ''curl x'') = Some e" by (simp add: e(1) ex_llm_env_def)
  moreover have "ro_wall (ls_router ex_asked) \<le> ld_expires_at e" by (simp add: ex_asked_entry(2) e(4))
  ultimately show ?thesis using cached_answer_wins [OF ex_refused, of MODE_BALANCED ex_asked c e] e by simp
qed

theorem clear_verdict_stays_witness:
  "\<exists>why. llm_evaluate ex_llm_env ''curl x'' (Some SRC_AI) MODE_BALANCED (Some TRUST_TRUSTED) ex_asked =
     (Inr (RISK_HIGH, ACT_DENY, why), ex_asked)"
  by (rule clear_verdict_stays [OF ex_refused]) simp

theorem llm_caches_bounded_witness:
  "\<exists>c. map_of (ls_caches ex_asked) ''balanced'' = Some c \<and> int (length (lc_entries c)) \<le> max 2 (lc_max c)"
proof -
  obtain c where c: "map_of (ls_caches ex_asked) ''balanced'' = Some c"
    using ex_asked_entry(1) by (cases "ls_caches ex_asked") auto
  then have "map_of (ls_caches (fold (llm_step ex_llm_env) [(0, ''curl x'', Some SRC_HUMAN, MODE_BALANCED, None)]
      \<lparr>ls_caches = [], ls_router = ex_router\<rparr>)) ''balanced'' = Some c"
    by (simp add: ex_asked_def ex_llm_state_def)
  from llm_caches_bounded [OF this] c show ?thesis by blast
qed

end
