(* ===== verification/Event_Index.thy ===== *)
theory Event_Index
  imports Prelude
begin

text \<open>
  The first-segment bucket index of \<open>event_index.py\<close>: the wildcard match of event types
  (\<open>matches\<close>), the index with its three operations, and its refinement: an index holds
  exactly a registry (an insertion ordered table of patterns), and \<open>match\<close> returns what
  a linear scan of that registry returns.  The interface is the locale
  \<open>listener_index\<close>, interpreted on the index at the end.
\<close>

section \<open>Wildcard matching\<close>

text \<open>The \<open>while\<close> loop of \<open>matches\<close>; \<open>pj\<close> and \<open>ai\<close> are the indices of the code.\<close>

function match_loop :: "string list \<Rightarrow> string list \<Rightarrow> nat \<Rightarrow> nat \<Rightarrow> bool" where
  "match_loop pp ap pj ai =
     (if pj < length pp \<and> ai < length ap then
        (if pp ! pj = ''*'' then
           (if pj = length pp - 1 then True
            else
              (let remaining = int (length pp) - int pj - 1;
                   ai_stop = int (length ap) - remaining
               in if ai_stop \<le> int ai then False
                  else match_loop pp ap (pj + 1) (nat ai_stop)))
         else if pp ! pj \<noteq> ap ! ai then False
         else match_loop pp ap (pj + 1) (ai + 1))
      else pj = length pp \<and> ai = length ap)"
  by pat_completeness auto
termination
  by (relation "measure (\<lambda>(pp, ap, pj, ai). length pp - pj)") auto

declare match_loop.simps [simp del]

definition matches :: "string \<Rightarrow> string \<Rightarrow> bool" where
  "matches pattern actual =
     (if pattern = ''*'' then True
      else
        (let pp = split_on CHR ''.'' pattern; ap = split_on CHR ''.'' actual
         in if length pp > length ap then False else match_loop pp ap 0 0))"

text \<open>Reference: the same relation by recursion on the pattern's segments.\<close>

fun seg_match :: "string list \<Rightarrow> string list \<Rightarrow> bool" where
  "seg_match [] as = (as = [])"
| "seg_match (p # ps) as =
     (if as = [] then False
      else if p = ''*'' then
        (ps = [] \<or> length ps < length as \<and> seg_match ps (drop (length as - length ps) as))
      else p = hd as \<and> seg_match ps (tl as))"

lemma match_loop_seg_match:
  "pj \<le> length pp \<Longrightarrow> ai \<le> length ap \<Longrightarrow>
     match_loop pp ap pj ai = seg_match (drop pj pp) (drop ai ap)"
proof (induction pp ap pj ai rule: match_loop.induct)
  case (1 pp ap pj ai)
  show ?case
  proof (cases "pj < length pp \<and> ai < length ap")
    case False
    with "1.prems" show ?thesis
      by (subst match_loop.simps) (cases "drop pj pp"; auto)
  next
    case True
    then have pp: "drop pj pp = pp ! pj # drop (Suc pj) pp"
      and ap: "drop ai ap = ap ! ai # drop (Suc ai) ap"
      by (simp_all add: Cons_nth_drop_Suc)
    show ?thesis
    proof (cases "pp ! pj = ''*''")
      case False
      with True pp ap "1.IH"(2) "1.prems" show ?thesis
        by (subst match_loop.simps) auto
    next
      case star: True
      let ?e = "int (length ap) - (int (length pp) - int pj - 1)"
      show ?thesis
      proof (cases "pj = length pp - 1")
        case True
        with star pp ap \<open>pj < length pp \<and> ai < length ap\<close> show ?thesis
          by (subst match_loop.simps) auto
      next
        case last: False
        show ?thesis
        proof (cases "?e \<le> int ai")
          case True
          with star last pp ap \<open>pj < length pp \<and> ai < length ap\<close> show ?thesis
            by (subst match_loop.simps) (auto simp: Let_def)
        next
          case False
          then have e: "nat ?e = length ap - (length pp - Suc pj)" and "nat ?e \<le> length ap"
            using True by auto
          with False star last True "1.IH"(1)
          have "match_loop pp ap pj ai = seg_match (drop (Suc pj) pp) (drop (nat ?e) ap)"
            by (subst match_loop.simps) auto
          moreover have "length (drop (Suc pj) pp) < length (drop ai ap)"
            using False True by auto
          moreover have "drop (length (drop ai ap) - length (drop (Suc pj) pp)) (drop ai ap)
              = drop (nat ?e) ap"
            using False True e by (simp add: algebra_simps)
          moreover have "\<not> length pp \<le> Suc pj" using last True by linarith
          ultimately show ?thesis using star pp ap by simp
        qed
      qed
    qed
  qed
qed

lemma seg_match_length: "seg_match ps as \<Longrightarrow> length ps \<le> length as"
  by (induction ps as rule: seg_match.induct) (auto split: if_splits simp: Suc_le_eq neq_Nil_conv)

lemma matches_seg_match:
  "matches pattern actual \<longleftrightarrow>
     pattern = ''*'' \<or> seg_match (split_on CHR ''.'' pattern) (split_on CHR ''.'' actual)"
  by (auto simp: matches_def Let_def match_loop_seg_match dest: seg_match_length)

lemma seg_match_literal: "''*'' \<notin> set ps \<Longrightarrow> seg_match ps as \<longleftrightarrow> ps = as"
  by (induction ps as rule: seg_match.induct) (auto simp: neq_Nil_conv)

lemma seg_match_one_star:
  assumes "''*'' \<notin> set pre" "''*'' \<notin> set post" "post \<noteq> []"
  shows "seg_match (pre @ ''*'' # post) as \<longleftrightarrow> (\<exists>mid. mid \<noteq> [] \<and> as = pre @ mid @ post)"
  using assms(1)
proof (induction pre arbitrary: as)
  case Nil
  have "(length post < length as \<and> post = drop (length as - length post) as)
      \<longleftrightarrow> (\<exists>mid. mid \<noteq> [] \<and> as = mid @ post)"
    by (metis append_eq_conv_conj append_take_drop_id length_append length_greater_0_conv
        less_add_same_cancel2 add_diff_cancel_right' append_Nil nat_neq_iff)
  then show ?case using assms by (auto simp: seg_match_literal)
next
  case (Cons p pre)
  then show ?case by (cases as) auto
qed

lemma seg_match_trailing_star:
  "''*'' \<notin> set pre \<Longrightarrow> seg_match (pre @ [''*'']) as \<longleftrightarrow> (\<exists>mid. mid \<noteq> [] \<and> as = pre @ mid)"
proof (induction pre arbitrary: as)
  case Nil
  then show ?case by (cases as) auto
next
  case (Cons p pre)
  then show ?case by (cases as) auto
qed

text \<open>A match is decided by the first segments: equal, or the pattern starts with \<open>*\<close>.\<close>

definition first_segment :: "string \<Rightarrow> string" where
  "first_segment t = takeWhile (\<lambda>c. c \<noteq> CHR ''.'') t"

lemma matches_first_segment:
  assumes "matches pattern actual"
  shows "first_segment pattern = ''*'' \<or> first_segment pattern = first_segment actual"
proof -
  obtain p ps where p: "split_on CHR ''.'' pattern = p # ps" using split_on_Cons_ex by blast
  obtain a as where a: "split_on CHR ''.'' actual = a # as" using split_on_Cons_ex by blast
  have "first_segment pattern = p" "first_segment actual = a"
    using hd_split_on [of "CHR ''.''" pattern] hd_split_on [of "CHR ''.''" actual] p a
    by (simp_all add: first_segment_def)
  with assms p a show ?thesis
    by (auto simp: matches_seg_match first_segment_def split: if_splits)
qed

lemma matches_star [simp]: "matches ''*'' ev"
  by (simp add: matches_def)

lemma seg_match_two_stars:
  "''*'' \<notin> set pre \<Longrightarrow> ''*'' \<notin> set inner \<Longrightarrow>
     seg_match (pre @ ''*'' # inner @ [''*'']) as \<longleftrightarrow>
       (\<exists>m x. m \<noteq> [] \<and> as = pre @ m @ inner @ [x])"
proof (induction pre arbitrary: as)
  case Nil
  let ?t = "drop (length as - Suc (length inner)) as"
  have "(\<exists>mid. mid \<noteq> [] \<and> ?t = inner @ mid) \<longleftrightarrow> (\<exists>x. ?t = inner @ [x])"
    if "Suc (length inner) < length as"
  proof -
    have "length mid = 1" if "?t = inner @ mid" for mid
      using arg_cong [OF that, of length] \<open>Suc (length inner) < length as\<close> by simp
    then show ?thesis by (metis One_nat_def length_0_conv length_Suc_conv not_Cons_self2)
  qed
  moreover have "(Suc (length inner) < length as \<and> (\<exists>x. ?t = inner @ [x]))
      \<longleftrightarrow> (\<exists>m x. m \<noteq> [] \<and> as = m @ inner @ [x])"
  proof safe
    fix x assume "Suc (length inner) < length as" "?t = inner @ [x]"
    then have "as = take (length as - Suc (length inner)) as @ inner @ [x]"
      and "take (length as - Suc (length inner)) as \<noteq> []"
      by (metis append_take_drop_id, auto)
    then show "\<exists>m x. m \<noteq> [] \<and> as = m @ inner @ [x]" by blast
  qed auto
  ultimately show ?case using Nil.prems by (auto simp: seg_match_trailing_star)
next
  case (Cons p pre)
  then show ?case by (cases as) auto
qed

section \<open>The index\<close>

record 'c event_index =
  idx_buckets :: "(string, (string, 'c list) dict) dict"
  idx_order :: "(string, nat) dict"
  idx_next :: nat

definition empty_index :: "'c event_index" where
  "empty_index = \<lparr>idx_buckets = [], idx_order = [], idx_next = 0\<rparr>"

text \<open>\<open>d.setdefault(k, [])\<close> as a lookup with a default.\<close>

definition get_list :: "('k, 'v list) dict \<Rightarrow> 'k \<Rightarrow> 'v list" where
  "get_list d k = (case map_of d k of None \<Rightarrow> [] | Some xs \<Rightarrow> xs)"

definition add_listener :: "string \<Rightarrow> 'c \<Rightarrow> 'c event_index \<Rightarrow> 'c event_index" where
  "add_listener pattern callback i =
     (let first = first_segment pattern;
          bucket = get_list (idx_buckets i) first;
          bucket' = AList.update pattern (get_list bucket pattern @ [callback]) bucket;
          i' = (if map_of bucket pattern = None
                then i\<lparr>idx_order := AList.update pattern (idx_next i) (idx_order i),
                       idx_next := idx_next i + 1\<rparr>
                else i)
      in i'\<lparr>idx_buckets := AList.update first bucket' (idx_buckets i)\<rparr>)"

definition remove_listener :: "string \<Rightarrow> 'c \<Rightarrow> 'c event_index \<Rightarrow> 'c event_index" where
  "remove_listener pattern callback i =
     (let first = first_segment pattern
      in case map_of (idx_buckets i) first of
           None \<Rightarrow> i
         | Some bucket \<Rightarrow>
             (case map_of bucket pattern of
                None \<Rightarrow> i
              | Some listeners \<Rightarrow>
                  (if callback \<notin> set listeners then i
                   else
                     (let listeners' = remove1 callback listeners;
                          i' = (if listeners' = []
                                then i\<lparr>idx_order := AList.delete pattern (idx_order i)\<rparr> else i);
                          bucket' = (if listeners' = [] then AList.delete pattern bucket
                                     else AList.update pattern listeners' bucket)
                      in i'\<lparr>idx_buckets :=
                              (if bucket' = [] then AList.delete first (idx_buckets i)
                               else AList.update first bucket' (idx_buckets i))\<rparr>))))"

definition idx_rank :: "'c event_index \<Rightarrow> string \<Rightarrow> nat" where
  "idx_rank i pattern = (case map_of (idx_order i) pattern of None \<Rightarrow> 0 | Some n \<Rightarrow> n)"

definition bucket_hits :: "'c event_index \<Rightarrow> string \<Rightarrow> string \<Rightarrow> (nat \<times> 'c list) list" where
  "bucket_hits i event_type first =
     (case map_of (idx_buckets i) first of
        None \<Rightarrow> []
      | Some bucket \<Rightarrow>
          map (\<lambda>(p, ls). (idx_rank i p, ls))
            (filter (\<lambda>(p, ls). p = ''*'' \<or> matches p event_type) bucket))"

definition index_match :: "'c event_index \<Rightarrow> string \<Rightarrow> 'c list" where
  "index_match i event_type =
     (let relevant = (if first_segment event_type = ''*'' then [''*'']
                      else [first_segment event_type, ''*'']);
          matched = concat (map (bucket_hits i event_type) relevant)
      in concat (map snd (sort_key fst matched)))"

text \<open>
  \<open>as_callback\<close>: the calls the wrapper gathers for an event, one per listener that matches
  the event's type, in the order of \<open>match\<close>.
\<close>

definition index_dispatch ::
    "('e \<Rightarrow> string) \<Rightarrow> 'c event_index \<Rightarrow> 'e \<Rightarrow> ('c \<times> 'e) list" where
  "index_dispatch event_type i e = map (\<lambda>c. (c, e)) (index_match i (event_type e))"

section \<open>The abstract registry\<close>

type_synonym 'c registry = "(string, 'c list) dict"

definition reg_add :: "string \<Rightarrow> 'c \<Rightarrow> 'c registry \<Rightarrow> 'c registry" where
  "reg_add p c r = AList.update p (get_list r p @ [c]) r"

definition reg_remove :: "string \<Rightarrow> 'c \<Rightarrow> 'c registry \<Rightarrow> 'c registry" where
  "reg_remove p c r =
     (case map_of r p of
        None \<Rightarrow> r
      | Some ls \<Rightarrow>
          if c \<notin> set ls then r
          else if remove1 c ls = [] then AList.delete p r
          else AList.update p (remove1 c ls) r)"

text \<open>The linear scan over the whole table.\<close>

definition reg_match :: "'c registry \<Rightarrow> string \<Rightarrow> 'c list" where
  "reg_match r event_type = concat (map snd (filter (\<lambda>(p, ls). matches p event_type) r))"

datatype 'c listener_op = AddListener string 'c | RemoveListener string 'c

definition reg_op :: "'c listener_op \<Rightarrow> 'c registry \<Rightarrow> 'c registry" where
  "reg_op op = (case op of AddListener p c \<Rightarrow> reg_add p c | RemoveListener p c \<Rightarrow> reg_remove p c)"

definition index_op :: "'c listener_op \<Rightarrow> 'c event_index \<Rightarrow> 'c event_index" where
  "index_op op =
     (case op of AddListener p c \<Rightarrow> add_listener p c | RemoveListener p c \<Rightarrow> remove_listener p c)"

text \<open>What a listener index promises to its client.\<close>

locale listener_index =
  fixes empty :: 'i
    and add :: "string \<Rightarrow> 'c \<Rightarrow> 'i \<Rightarrow> 'i"
    and remove :: "string \<Rightarrow> 'c \<Rightarrow> 'i \<Rightarrow> 'i"
    and lookup :: "'i \<Rightarrow> string \<Rightarrow> 'c list"
    and refines :: "'i \<Rightarrow> 'c registry \<Rightarrow> bool"
  assumes refines_empty: "refines empty []"
    and refines_add: "refines i r \<Longrightarrow> refines (add p c i) (reg_add p c r)"
    and refines_remove: "refines i r \<Longrightarrow> refines (remove p c i) (reg_remove p c r)"
    and lookup_scan: "refines i r \<Longrightarrow> lookup i ev = reg_match r ev"
begin

lemma refines_run:
  "refines i r \<Longrightarrow>
     refines (fold (\<lambda>op. case op of AddListener p c \<Rightarrow> add p c | RemoveListener p c \<Rightarrow> remove p c) ops i)
       (fold reg_op ops r)"
proof (induction ops arbitrary: i r)
  case (Cons op ops)
  then show ?case by (cases op) (auto simp: reg_op_def intro: refines_add refines_remove)
qed simp

lemma lookup_run:
  "lookup
     (fold (\<lambda>op. case op of AddListener p c \<Rightarrow> add p c | RemoveListener p c \<Rightarrow> remove p c) ops empty) ev
   = reg_match (fold reg_op ops []) ev"
  by (rule lookup_scan [OF refines_run [OF refines_empty]])

end

section \<open>The index refines the registry\<close>

definition bucket_get :: "'c event_index \<Rightarrow> string \<Rightarrow> string \<Rightarrow> 'c list option" where
  "bucket_get i f p = (case map_of (idx_buckets i) f of None \<Rightarrow> None | Some b \<Rightarrow> map_of b p)"

definition idx_refines :: "'c event_index \<Rightarrow> 'c registry \<Rightarrow> bool" where
  "idx_refines i r \<longleftrightarrow>
     distinct (map fst r) \<and>
     (\<forall>p. p \<in> fst ` set r \<longrightarrow> (\<exists>n. map_of (idx_order i) p = Some n \<and> n < idx_next i)) \<and>
     sorted_wrt (<) (map (idx_rank i) (map fst r)) \<and>
     (\<forall>f b. map_of (idx_buckets i) f = Some b \<longrightarrow> distinct (map fst b)) \<and>
     (\<forall>f p. bucket_get i f p = (if f = first_segment p then map_of r p else None))"

lemma idx_refinesD:
  assumes "idx_refines i r"
  shows "distinct (map fst r)"
    and "p \<in> fst ` set r \<Longrightarrow> \<exists>n. map_of (idx_order i) p = Some n \<and> n < idx_next i"
    and "sorted_wrt (<) (map (idx_rank i) (map fst r))"
    and "map_of (idx_buckets i) f = Some b \<Longrightarrow> distinct (map fst b)"
    and "bucket_get i f p = (if f = first_segment p then map_of r p else None)"
  using assms by (auto simp: idx_refines_def)

lemma idx_refines_empty: "idx_refines empty_index []"
  by (simp add: idx_refines_def empty_index_def bucket_get_def)

lemma rank_less_next: "idx_refines i r \<Longrightarrow> p \<in> fst ` set r \<Longrightarrow> idx_rank i p < idx_next i"
  using idx_refinesD(2) by (fastforce simp: idx_rank_def)

lemma get_list_first_segment:
  assumes "idx_refines i r"
  shows "map_of (get_list (idx_buckets i) (first_segment p)) p = map_of r p"
  using idx_refinesD(5) [OF assms, of "first_segment p" p]
  by (auto simp: bucket_get_def get_list_def split: option.splits)

lemma idx_refines_add:
  assumes R: "idx_refines i r"
  shows "idx_refines (add_listener p c i) (reg_add p c r)"
proof -
  let ?f = "first_segment p" and ?j = "add_listener p c i"
  let ?b = "get_list (idx_buckets i) ?f"
  let ?b' = "AList.update p (get_list ?b p @ [c]) ?b"
  have b: "map_of ?b p = map_of r p" by (rule get_list_first_segment [OF R])
  then have l: "get_list ?b p = get_list r p" by (simp add: get_list_def)
  have bk: "idx_buckets ?j = AList.update ?f ?b' (idx_buckets i)"
    by (simp add: add_listener_def Let_def)
  have db: "distinct (map fst ?b)"
    using idx_refinesD(4) [OF R] by (auto simp: get_list_def split: option.splits)
  have get: "bucket_get ?j f q = (if f = first_segment q then map_of (reg_add p c r) q else None)"
    for f q
    using idx_refinesD(5) [OF R, of f q] l
    by (auto simp: bucket_get_def bk map_of_update reg_add_def get_list_def
        split: option.splits if_splits)
  have dist: "map_of (idx_buckets ?j) f = Some b' \<Longrightarrow> distinct (map fst b')" for f b'
    using idx_refinesD(4) [OF R] db
    by (auto simp: bk map_of_update distinct_keys_update split: if_splits)
  show ?thesis
  proof (cases "map_of r p")
    case (Some ls)
    then have ord: "idx_order ?j = idx_order i" "idx_next ?j = idx_next i"
      using b by (simp_all add: add_listener_def Let_def)
    have keys: "map fst (reg_add p c r) = map fst r"
      using Some by (simp add: reg_add_def keys_update_old [OF map_of_in_keys])
    have rk: "idx_rank ?j = idx_rank i" by (simp add: fun_eq_iff idx_rank_def ord)
    have ks: "fst ` set (reg_add p c r) = fst ` set r" by (metis keys list.set_map)
    show ?thesis
      unfolding idx_refines_def keys ks rk ord
      using get dist idx_refinesD(1,2,3) [OF R] by blast
  next
    case None
    then have pn: "p \<notin> fst ` set r" by (simp add: map_of_eq_None_iff)
    have ord: "idx_order ?j = AList.update p (idx_next i) (idx_order i)"
      "idx_next ?j = idx_next i + 1"
      using b None by (simp_all add: add_listener_def Let_def)
    have ra: "reg_add p c r = r @ [(p, [c])]"
      using None pn by (simp add: reg_add_def get_list_def update_new)
    have rk: "idx_rank ?j q = (if q = p then idx_next i else idx_rank i q)" for q
      by (simp add: idx_rank_def ord map_of_update)
    have rks: "map (idx_rank ?j) (map fst r) = map (idx_rank i) (map fst r)"
      using pn by (force simp: rk)
    have "sorted_wrt (<) (map (idx_rank ?j) (map fst (reg_add p c r)))"
      unfolding ra map_append using rks idx_refinesD(3) [OF R] rank_less_next [OF R]
      by (simp only: sorted_wrt_append) (simp add: rk)
    moreover have "\<exists>n. map_of (idx_order ?j) q = Some n \<and> n < idx_next ?j"
      if "q \<in> fst ` set (reg_add p c r)" for q
      using that idx_refinesD(2) [OF R, of q]
      by (auto simp: ra ord map_of_update less_Suc_eq)
    moreover have "distinct (map fst (reg_add p c r))"
      using idx_refinesD(1) [OF R] pn by (simp add: ra)
    ultimately show ?thesis
      unfolding idx_refines_def using get dist by blast
  qed
qed

lemma idx_refines_remove:
  assumes R: "idx_refines i r"
  shows "idx_refines (remove_listener p c i) (reg_remove p c r)"
proof (cases "map_of r p")
  case None
  then have "remove_listener p c i = i"
    using idx_refinesD(5) [OF R, of "first_segment p" p]
    by (auto simp: remove_listener_def Let_def bucket_get_def split: option.splits)
  with None R show ?thesis by (simp add: reg_remove_def)
next
  case (Some ls)
  let ?f = "first_segment p" and ?j = "remove_listener p c i"
  from Some obtain b where b: "map_of (idx_buckets i) ?f = Some b" "map_of b p = Some ls"
    using idx_refinesD(5) [OF R, of ?f p] by (auto simp: bucket_get_def split: option.splits)
  show ?thesis
  proof (cases "c \<in> set ls")
    case False
    with Some b R show ?thesis by (simp add: reg_remove_def remove_listener_def Let_def)
  next
    case True
    let ?ls = "remove1 c ls"
    let ?b = "if ?ls = [] then AList.delete p b else AList.update p ?ls b"
    have j: "idx_buckets ?j = (if ?b = [] then AList.delete ?f (idx_buckets i)
               else AList.update ?f ?b (idx_buckets i))"
      and ord: "idx_order ?j = (if ?ls = [] then AList.delete p (idx_order i) else idx_order i)"
      and nxt: "idx_next ?j = idx_next i"
      using True b by (simp_all add: remove_listener_def Let_def)
    have rr: "reg_remove p c r = (if ?ls = [] then AList.delete p r else AList.update p ?ls r)"
      using Some True by (simp add: reg_remove_def)
    have mb: "map_of ?b = (map_of b)(p := if ?ls = [] then None else Some ?ls)"
      by (simp add: map_of_update map_of_delete)
    have mr: "map_of (reg_remove p c r) = (map_of r)(p := if ?ls = [] then None else Some ?ls)"
      by (simp add: rr map_of_update map_of_delete)
    have mj: "map_of (idx_buckets ?j) = (map_of (idx_buckets i))(?f := if ?b = [] then None else Some ?b)"
      by (simp add: j map_of_update map_of_delete)
    have gj: "bucket_get ?j f q = (if f = ?f then map_of ?b q else bucket_get i f q)" for f q
      by (cases "?b = []") (simp_all only: bucket_get_def mj, auto)
    have get: "bucket_get ?j f q = (if f = first_segment q then map_of (reg_remove p c r) q else None)"
      for f q
    proof (cases "f = ?f")
      case True
      have "map_of b q = (if ?f = first_segment q then map_of r q else None)"
        using idx_refinesD(5) [OF R, of ?f q] b by (simp add: bucket_get_def)
      then show ?thesis by (simp add: gj mb mr True)
    next
      case False
      then show ?thesis using idx_refinesD(5) [OF R, of f q] by (auto simp: gj mr)
    qed
    have dist: "map_of (idx_buckets ?j) f = Some b' \<Longrightarrow> distinct (map fst b')" for f b'
      using idx_refinesD(4) [OF R] b unfolding mj
      by (auto simp: distinct_keys_update distinct_keys_delete split: if_splits)
    have rk: "q \<noteq> p \<or> ?ls \<noteq> [] \<Longrightarrow> idx_rank ?j q = idx_rank i q" for q
      by (auto simp: idx_rank_def ord map_of_delete)
    have keys: "map fst (reg_remove p c r) =
        (if ?ls = [] then removeAll p (map fst r) else map fst r)"
      unfolding rr by (simp only: AList.delete_keys keys_update_old [OF map_of_in_keys [OF Some]]
          if_distrib [of "map fst"])
    have "map (idx_rank ?j) (map fst (reg_remove p c r)) = map (idx_rank i) (map fst (reg_remove p c r))"
      using rk by (auto simp only: keys list.map_comp split: if_splits) (auto simp: rk)
    moreover have "sorted_wrt (<) (map (idx_rank i) (map fst (reg_remove p c r)))"
      using idx_refinesD(3) [OF R] by (simp add: keys removeAll_filter_not_eq sorted_wrt_map sorted_wrt_filter del: map_map)
    ultimately have srt: "sorted_wrt (<) (map (idx_rank ?j) (map fst (reg_remove p c r)))" by (simp only:)
    have ks: "fst ` set (reg_remove p c r) = (if ?ls = [] then fst ` set r - {p} else fst ` set r)"
      by (simp only: list.set_map [symmetric] keys) auto
    have "\<exists>n. map_of (idx_order ?j) q = Some n \<and> n < idx_next ?j"
      if "q \<in> fst ` set (reg_remove p c r)" for q
      using that idx_refinesD(2) [OF R, of q]
      by (auto simp: ks ord nxt map_of_delete split: if_splits)
    moreover have "distinct (map fst (reg_remove p c r))"
      using idx_refinesD(1) [OF R] by (simp add: keys distinct_removeAll)
    ultimately show ?thesis unfolding idx_refines_def using get dist srt by blast
  qed
qed

lemma sort_key_eq:
  assumes "distinct (map f xs)" "set xs = set ys" "sorted_wrt (<) (map f ys)"
  shows "sort_key f xs = ys"
proof (rule map_sorted_distinct_set_unique)
  have ds: "distinct (map f ys)" "sorted (map f ys)"
    using assms(3) by (simp_all add: strict_sorted_iff)
  then show "sorted (map f ys)" "distinct (map f ys)" by simp_all
  have "inj_on f (set ys)" using ds by (simp add: distinct_map)
  then show "inj_on f (set (sort_key f xs) \<union> set ys)" using assms(2) by simp
  have "distinct xs" "inj_on f (set xs)" using assms(1) by (simp_all add: distinct_map)
  then show "distinct (map f (sort_key f xs))" by (simp add: distinct_map)
qed (use assms in simp_all)

definition pattern_hits :: "'c event_index \<Rightarrow> string \<Rightarrow> string \<Rightarrow> (string \<times> 'c list) list" where
  "pattern_hits i ev f = filter (\<lambda>(p, ls). matches p ev) (get_list (idx_buckets i) f)"

lemma bucket_hits_eq:
  "bucket_hits i ev f = map (\<lambda>(p, ls). (idx_rank i p, ls)) (pattern_hits i ev f)"
  by (auto simp: bucket_hits_def pattern_hits_def get_list_def split: option.splits
      intro!: arg_cong [where f = "map _"] filter_cong)

lemma set_pattern_hits:
  assumes R: "idx_refines i r"
  shows "(p, ls) \<in> set (pattern_hits i ev f) \<longleftrightarrow>
    f = first_segment p \<and> (p, ls) \<in> set r \<and> matches p ev"
proof (cases "map_of (idx_buckets i) f")
  case None
  then show ?thesis
    using idx_refinesD(5) [OF R, of f p] idx_refinesD(1) [OF R]
    by (auto simp: pattern_hits_def get_list_def bucket_get_def split: if_splits)
next
  case (Some b)
  then show ?thesis
    using idx_refinesD(5) [OF R, of f p] idx_refinesD(1) [OF R] idx_refinesD(4) [OF R Some]
    by (auto simp: pattern_hits_def get_list_def bucket_get_def split: if_splits)
qed

lemma distinct_pattern_hits:
  "idx_refines i r \<Longrightarrow> distinct (map fst (pattern_hits i ev f))"
  using idx_refinesD(4) [of i r f]
  by (auto simp: pattern_hits_def get_list_def distinct_map_filter split: option.splits)

lemma index_match_scan:
  assumes R: "idx_refines i r"
  shows "index_match i ev = reg_match r ev"
proof -
  let ?rel = "if first_segment ev = ''*'' then [''*''] else [first_segment ev, ''*'']"
  let ?g = "\<lambda>(p, ls). (idx_rank i p, ls)"
  define M where "M = concat (map (pattern_hits i ev) ?rel)"
  let ?F = "filter (\<lambda>(p, ls). matches p ev) r"
  have M: "concat (map (bucket_hits i ev) ?rel) = map ?g M"
    by (simp add: M_def map_concat bucket_hits_eq)
  have setM: "set M = set ?F"
    using matches_first_segment [of _ ev] by (fastforce simp: M_def set_pattern_hits [OF R])
  have dM: "distinct (map fst M)"
    using distinct_pattern_hits [OF R]
    by (fastforce simp: M_def set_pattern_hits [OF R])
  have inj: "inj_on (idx_rank i) (fst ` set r)"
    using idx_refinesD(3) [OF R] by (simp only: strict_sorted_iff distinct_map list.set_map)
  have "map fst (map ?g M) = map (idx_rank i) (map fst M)" by auto
  moreover have "inj_on (idx_rank i) (fst ` set M)"
    by (rule inj_on_subset [OF inj]) (auto simp: setM)
  ultimately have d: "distinct (map fst (map ?g M))" using dM
    by (simp only: distinct_map [of "idx_rank i"]) simp
  have "map fst (map ?g ?F) = map (idx_rank i) (map fst ?F)" by auto
  moreover have "sorted_wrt (<) (map (idx_rank i) (map fst ?F))"
    using idx_refinesD(3) [OF R] by (simp add: sorted_wrt_map sorted_wrt_filter)
  ultimately have s: "sorted_wrt (<) (map fst (map ?g ?F))" by (simp only:)
  have "sort_key fst (map ?g M) = map ?g ?F"
    by (rule sort_key_eq [OF d _ s]) (simp only: list.set_map setM)
  moreover have "map snd (map ?g ?F) = map snd ?F" by auto
  ultimately show ?thesis by (simp add: index_match_def Let_def M reg_match_def del: map_map)
qed

interpretation ei: listener_index empty_index add_listener remove_listener index_match idx_refines
  by unfold_locales
    (simp_all add: idx_refines_empty idx_refines_add idx_refines_remove index_match_scan)

section \<open>Properties\<close>

text \<open>
  A pattern with one wildcard segment, at any place, matches exactly the event types that
  have the segments before it, at least one further segment, and the segments after it.
\<close>
theorem matches_one_wildcard:
  assumes "split_on CHR ''.'' pattern = pre @ ''*'' # post"
    and "''*'' \<notin> set pre" "''*'' \<notin> set post"
  shows "matches pattern actual \<longleftrightarrow>
    (\<exists>mid. mid \<noteq> [] \<and> split_on CHR ''.'' actual = pre @ mid @ post)"
proof (cases "post = []")
  case True
  have "pattern = ''*'' \<Longrightarrow> pre = []" using assms(1) True by (cases pre) auto
  then show ?thesis
    using assms True by (auto simp: matches_seg_match seg_match_trailing_star)
next
  case False
  have "pattern \<noteq> ''*''" using assms(1) False by (cases pre) auto
  then show ?thesis using assms False by (simp add: matches_seg_match seg_match_one_star)
qed

theorem matches_one_wildcard_witness:
  "matches ''node.*.completed'' ''node.wf1.A.completed'' \<longleftrightarrow>
    (\<exists>mid. mid \<noteq> [] \<and>
      split_on CHR ''.'' ''node.wf1.A.completed'' = [''node''] @ mid @ [''completed''])"
  by (rule matches_one_wildcard) simp_all

text \<open>
  A trailing wildcard that follows another wildcard matches exactly one segment: the
  first wildcard takes every surplus segment and the rest is aligned with the end of the type.
\<close>
theorem matches_second_wildcard_single:
  assumes "split_on CHR ''.'' pattern = pre @ ''*'' # inner @ [''*'']"
    and "''*'' \<notin> set pre" "''*'' \<notin> set inner"
  shows "matches pattern actual \<longleftrightarrow>
    (\<exists>m x. m \<noteq> [] \<and> split_on CHR ''.'' actual = pre @ m @ inner @ [x])"
proof -
  have "pattern \<noteq> ''*''" using assms(1) by (cases pre) auto
  then show ?thesis using assms by (simp add: matches_seg_match seg_match_two_stars)
qed

theorem matches_second_wildcard_single_witness:
  "matches ''a.*.b.*'' ''a.x.b.c.d'' \<longleftrightarrow>
    (\<exists>m x. m \<noteq> [] \<and> split_on CHR ''.'' ''a.x.b.c.d'' = [''a''] @ m @ [''b''] @ [x])"
  by (rule matches_second_wildcard_single) simp_all

text \<open>
  C20: After any sequence of registrations and removals the bucket index returns, for every
  event type, exactly the listeners (with repetitions, in the order of their patterns'
  registration) that a linear scan of the table of registrations returns.
\<close>
theorem index_equals_linear_scan:
  "index_match (fold index_op ops empty_index) ev = reg_match (fold reg_op ops []) ev"
  unfolding index_op_def [abs_def] by (rule ei.lookup_run)

end
