(* ===== verification/Event_Bus.thy ===== *)
theory Event_Bus
  imports Event_Index Models
begin

text \<open>
  The publish/subscribe bus of \<open>event_bus.py\<close>: its state (\<open>bus\<close>), one definition per
  operation, and the dispatch of scheduled callbacks as a step relation.  A callback is an
  identifier; what calling it does is the parameter \<open>behave\<close> (it returns, raises, or is
  cancelled).  Every state a program can reach by bus operations and dispatch steps keeps the
  bucket index a refinement of the subscriber table.
\<close>

datatype outcome = Returns | Raises string | IsCancelled

datatype task_state = Scheduled | Running | Finished | FailedWith trm_error | TaskCancelled

record 'c task =
  tk_callback :: 'c
  tk_event :: sys_event
  tk_state :: task_state

definition task_done :: "'c task \<Rightarrow> bool" where
  "task_done t \<longleftrightarrow> (case tk_state t of Scheduled \<Rightarrow> False | Running \<Rightarrow> False | _ \<Rightarrow> True)"

definition ensure_future :: "sys_event \<Rightarrow> 'c \<Rightarrow> 'c task" where
  "ensure_future ev c = \<lparr>tk_callback = c, tk_event = ev, tk_state = Scheduled\<rparr>"

record failure =
  fl_event_type :: string
  fl_callback :: string
  fl_source :: string
  fl_error :: string
  fl_at :: time

record 'c bus =
  bus_subs :: "'c registry"
  bus_history :: "sys_event list"
  bus_index :: "'c event_index"
  bus_strict :: bool
  bus_failures :: nat
  bus_last :: "failure option"
  bus_pending :: "'c task list"
  bus_replayed :: "'c task list" \<comment> \<open>tasks \<open>subscribe_with_replay\<close> starts; not in \<open>_pending\<close>\<close>

definition MAX_HISTORY :: nat where "MAX_HISTORY = 100"

definition FAILURE_EVENT_TYPE :: string where
  "FAILURE_EVENT_TYPE = ''event.'' @ ''eventbus.dispatch_failed''"

text \<open>\<open>strict_from_env\<close> on the value of \<open>TRIMUM_BUS_STRICT\<close> (empty when unset).\<close>

definition strict_from_env :: "string \<Rightarrow> bool" where
  "strict_from_env raw \<longleftrightarrow> py_lower (py_strip raw) \<in> {''1'', ''true'', ''yes'', ''on''}"

definition new_bus :: "bool option \<Rightarrow> string \<Rightarrow> 'c bus" where
  "new_bus strict env =
     \<lparr>bus_subs = [], bus_history = [], bus_index = empty_index,
      bus_strict = (case strict of None \<Rightarrow> strict_from_env env | Some s \<Rightarrow> s),
      bus_failures = 0, bus_last = None, bus_pending = [], bus_replayed = []\<rparr>"

text \<open>A bounded \<open>deque\<close> drops from the left.\<close>

definition push_bounded :: "nat \<Rightarrow> 'a list \<Rightarrow> 'a \<Rightarrow> 'a list" where
  "push_bounded n xs x = (let ys = xs @ [x] in drop (length ys - n) ys)"

definition publish :: "time \<Rightarrow> sys_event \<Rightarrow> 'c bus \<Rightarrow> 'c bus" where
  "publish now event b =
     (let event' = (if ev_timestamp event = None then event\<lparr>ev_timestamp := Some now\<rparr> else event);
          targets = index_match (bus_index b) (ev_type event')
      in b\<lparr>bus_history := push_bounded MAX_HISTORY (bus_history b) event',
           bus_pending := filter (\<lambda>t. \<not> task_done t) (bus_pending b)
                          @ map (ensure_future event') targets\<rparr>)"

text \<open>
  \<open>emit_event\<close> and \<open>emit_task\<close>; \<open>EventSeverity(severity)\<close> raises for a string that is
  no member's value, then nothing is published (\<^const>\<open>None\<close>).
\<close>

definition emit_event ::
    "time \<Rightarrow> string \<Rightarrow> string \<Rightarrow> (string, pyval) dict \<Rightarrow> string \<Rightarrow> 'c bus \<Rightarrow> 'c bus option" where
  "emit_event now event_type source payload sev b =
     (case severity_of_string sev of
        None \<Rightarrow> None
      | Some v \<Rightarrow>
          Some (publish now
            \<lparr>ev_type = ''event.'' @ event_type, ev_source = source, ev_source_type = SRC_UNKNOWN,
             ev_severity = v, ev_payload = payload, ev_timestamp = Some now\<rparr> b))"

definition emit_task ::
    "time \<Rightarrow> string \<Rightarrow> (string, pyval) dict \<Rightarrow> string \<Rightarrow> string option \<Rightarrow> 'c bus \<Rightarrow> 'c bus option" where
  "emit_task now task_type payload source sev b =
     (case (case sev of None \<Rightarrow> Some SEV_INFO
            | Some s \<Rightarrow> if s = [] then Some SEV_INFO else severity_of_string s) of
        None \<Rightarrow> None
      | Some v \<Rightarrow>
          Some (publish now
            \<lparr>ev_type = ''task.'' @ task_type, ev_source = source, ev_source_type = SRC_UNKNOWN,
             ev_severity = v, ev_payload = payload, ev_timestamp = Some now\<rparr> b))"

definition subscribe :: "string \<Rightarrow> 'c \<Rightarrow> 'c bus \<Rightarrow> 'c bus" where
  "subscribe event_type callback b =
     b\<lparr>bus_subs := AList.update event_type (get_list (bus_subs b) event_type @ [callback]) (bus_subs b),
       bus_index := add_listener event_type callback (bus_index b)\<rparr>"

definition unsubscribe :: "string \<Rightarrow> 'c \<Rightarrow> 'c bus \<Rightarrow> 'c bus" where
  "unsubscribe event_type callback b =
     (case map_of (bus_subs b) event_type of
        None \<Rightarrow> b
      | Some subs \<Rightarrow>
          (let subs' = remove1 callback subs
           in b\<lparr>bus_subs := (if subs' = [] then AList.delete event_type (bus_subs b)
                             else AList.update event_type subs' (bus_subs b)),
                bus_index := remove_listener event_type callback (bus_index b)\<rparr>))"

definition get_history :: "int \<Rightarrow> 'c bus \<Rightarrow> sys_event list" where
  "get_history limit b =
     (let h = bus_history b
      in if limit \<le> 0 then []
         else if int (length h) \<le> limit then h
         else map (\<lambda>k. h ! k) [length h - nat limit ..< length h])"

definition subscribe_with_replay :: "string \<Rightarrow> 'c \<Rightarrow> int \<Rightarrow> 'c bus \<Rightarrow> 'c bus" where
  "subscribe_with_replay event_type callback replay_count b =
     (let replayed = (if replay_count > 0
                      then filter (\<lambda>e. matches event_type (ev_type e)) (get_history replay_count b)
                      else [])
      in subscribe event_type callback
           (b\<lparr>bus_replayed := bus_replayed b @ map (\<lambda>e. ensure_future e callback) replayed\<rparr>))"

definition failure_payload :: "failure \<Rightarrow> (string, pyval) dict" where
  "failure_payload f =
     [(''event_type'', PStr (fl_event_type f)), (''callback'', PStr (fl_callback f)),
      (''source'', PStr (fl_source f)), (''error'', PStr (fl_error f)), (''at'', PFloat (fl_at f))]"

definition on_dispatch_failure ::
    "('c \<Rightarrow> string) \<Rightarrow> time \<Rightarrow> 'c \<Rightarrow> sys_event \<Rightarrow> string \<Rightarrow> 'c bus \<Rightarrow> 'c bus" where
  "on_dispatch_failure callback_name now callback event err b =
     (let f = \<lparr>fl_event_type = ev_type event, fl_callback = callback_name callback,
               fl_source = ev_source event, fl_error = err, fl_at = now\<rparr>;
          b' = b\<lparr>bus_failures := bus_failures b + 1, bus_last := Some f\<rparr>
      in if ev_type event = FAILURE_EVENT_TYPE then b'
         else if index_match (bus_index b') FAILURE_EVENT_TYPE = [] then b'
         else (case emit_event now ''eventbus.dispatch_failed'' ''event-bus'' (failure_payload f)
                      (severity_value SEV_WARNING) b' of
                 None \<Rightarrow> b' | Some b'' \<Rightarrow> b''))"

text \<open>\<open>_safe_call\<close>: the bus after the call and how the task that made it ends.\<close>

definition safe_call ::
    "('c \<Rightarrow> string) \<Rightarrow> time \<Rightarrow> outcome \<Rightarrow> 'c \<Rightarrow> sys_event \<Rightarrow> 'c bus \<Rightarrow> 'c bus \<times> task_state" where
  "safe_call callback_name now out callback event b =
     (case out of
        Returns \<Rightarrow> (b, Finished)
      | IsCancelled \<Rightarrow> (b, TaskCancelled)
      | Raises err \<Rightarrow>
          (on_dispatch_failure callback_name now callback event err b,
           if bus_strict b then FailedWith EVENT_BUS_DISPATCH_FAILED else Finished))"

text \<open>The event loop runs the task at position \<open>k\<close> of \<open>_pending\<close> to its end.\<close>

definition settle :: "task_state \<Rightarrow> 'c task list \<Rightarrow> 'c task list" where
  "settle st ts = map (\<lambda>t. if tk_state t = Running then t\<lparr>tk_state := st\<rparr> else t) ts"

definition run_task ::
    "('c \<Rightarrow> string) \<Rightarrow> time \<Rightarrow> outcome \<Rightarrow> nat \<Rightarrow> 'c bus \<Rightarrow> 'c bus" where
  "run_task callback_name now out k b =
     (let t = bus_pending b ! k;
          b1 = b\<lparr>bus_pending := (bus_pending b)[k := t\<lparr>tk_state := Running\<rparr>]\<rparr>;
          (b2, st) = safe_call callback_name now out (tk_callback t) (tk_event t) b1
      in b2\<lparr>bus_pending := settle st (bus_pending b2)\<rparr>)"

definition stats :: "'c bus \<Rightarrow> nat \<times> nat \<times> nat \<times> nat \<times> nat \<times> failure option \<times> bool" where
  "stats b =
     (length (bus_subs b), sum_list (map (length \<circ> snd) (bus_subs b)), length (bus_history b),
      length (filter (\<lambda>t. \<not> task_done t) (bus_pending b)), bus_failures b, bus_last b, bus_strict b)"

section \<open>Reachable states of the bus\<close>

inductive dispatch_step :: "('c \<Rightarrow> string) \<Rightarrow> 'c bus \<Rightarrow> 'c bus \<Rightarrow> bool" for name where
  dispatch: "k < length (bus_pending b) \<Longrightarrow> tk_state (bus_pending b ! k) = Scheduled \<Longrightarrow>
     dispatch_step name b (run_task name now out k b)"

inductive bus_reachable :: "('c \<Rightarrow> string) \<Rightarrow> 'c bus \<Rightarrow> bool" for name where
  start: "bus_reachable name (new_bus strict env)"
| publish: "bus_reachable name b \<Longrightarrow> bus_reachable name (publish now ev b)"
| subscribe: "bus_reachable name b \<Longrightarrow> bus_reachable name (subscribe p c b)"
| unsubscribe: "bus_reachable name b \<Longrightarrow> bus_reachable name (unsubscribe p c b)"
| replay: "bus_reachable name b \<Longrightarrow> bus_reachable name (subscribe_with_replay p c n b)"
| dispatch: "bus_reachable name b \<Longrightarrow> dispatch_step name b b' \<Longrightarrow> bus_reachable name b'"

inductive_cases dispatch_stepE: "dispatch_step name b b'"

definition bus_inv :: "'c bus \<Rightarrow> bool" where
  "bus_inv b \<longleftrightarrow>
     idx_refines (bus_index b) (bus_subs b) \<and> (\<forall>p ls. map_of (bus_subs b) p = Some ls \<longrightarrow> ls \<noteq> []) \<and>
     length (bus_history b) \<le> MAX_HISTORY"

section \<open>The invariant\<close>

lemma length_push_bounded [simp]: "length (push_bounded n xs x) = min n (length xs + 1)"
  by (simp add: push_bounded_def Let_def)

lemma bus_inv_new: "bus_inv (new_bus strict env)"
  by (simp add: bus_inv_def new_bus_def ei.refines_empty)

lemma bus_inv_publish: "bus_inv b \<Longrightarrow> bus_inv (publish now ev b)"
  by (simp add: bus_inv_def publish_def Let_def)

lemma bus_inv_subscribe:
  assumes "bus_inv b"
  shows "bus_inv (subscribe p c b)"
proof -
  have "bus_subs (subscribe p c b) = reg_add p c (bus_subs b)"
    and "bus_index (subscribe p c b) = add_listener p c (bus_index b)"
    and "bus_history (subscribe p c b) = bus_history b"
    by (simp_all add: subscribe_def reg_add_def)
  then show ?thesis
    using assms ei.refines_add [of "bus_index b" "bus_subs b" p c]
    by (auto simp: bus_inv_def reg_add_def map_of_update)
qed

lemma bus_subs_unsubscribe:
  "bus_inv b \<Longrightarrow> bus_subs (unsubscribe p c b) = reg_remove p c (bus_subs b)"
  by (auto simp: bus_inv_def unsubscribe_def reg_remove_def Let_def remove1_idem update_same
      split: option.splits)

lemma bus_inv_unsubscribe:
  assumes "bus_inv b"
  shows "bus_inv (unsubscribe p c b)"
proof -
  have "idx_refines (bus_index (unsubscribe p c b)) (reg_remove p c (bus_subs b))"
    using assms ei.refines_remove [of "bus_index b" "bus_subs b" p c]
    by (auto simp: bus_inv_def unsubscribe_def reg_remove_def Let_def split: option.splits)
  moreover have "map_of (reg_remove p c (bus_subs b)) q = Some ls \<Longrightarrow> ls \<noteq> []" for q ls
    using assms
    by (auto simp: bus_inv_def reg_remove_def map_of_update map_of_delete
        split: option.splits if_splits)
  moreover have "bus_history (unsubscribe p c b) = bus_history b"
    by (auto simp: unsubscribe_def Let_def split: option.splits)
  ultimately show ?thesis
    using assms bus_subs_unsubscribe [OF assms] by (auto simp: bus_inv_def)
qed

lemma bus_inv_frame [simp]:
  "bus_inv (b\<lparr>bus_pending := ts\<rparr>) = bus_inv b"
  "bus_inv (b\<lparr>bus_replayed := ts\<rparr>) = bus_inv b"
  "bus_inv (b\<lparr>bus_failures := n, bus_last := f\<rparr>) = bus_inv b"
  by (simp_all add: bus_inv_def)

lemma bus_inv_replay: "bus_inv b \<Longrightarrow> bus_inv (subscribe_with_replay p c n b)"
  by (simp add: subscribe_with_replay_def Let_def bus_inv_subscribe)

lemma bus_inv_emit_event: "bus_inv b \<Longrightarrow> emit_event now t src pl sev b = Some b' \<Longrightarrow> bus_inv b'"
  by (auto simp: emit_event_def bus_inv_publish split: option.splits)

lemma bus_inv_failure: "bus_inv b \<Longrightarrow> bus_inv (on_dispatch_failure name now c ev err b)"
  by (auto simp: on_dispatch_failure_def Let_def split: option.splits dest: bus_inv_emit_event [rotated])

lemma bus_inv_safe_call: "bus_inv b \<Longrightarrow> bus_inv (fst (safe_call name now out c ev b))"
  by (simp add: safe_call_def bus_inv_failure split: outcome.split)

lemma bus_inv_run_task: "bus_inv b \<Longrightarrow> bus_inv (run_task name now out k b)"
  using bus_inv_safe_call [of "b\<lparr>bus_pending := (bus_pending b)[k := (bus_pending b ! k)\<lparr>tk_state := Running\<rparr>]\<rparr>"]
  by (simp add: run_task_def Let_def split: prod.split) (metis fst_conv)

lemma bus_reachable_inv: "bus_reachable name b \<Longrightarrow> bus_inv b"
  by (induction rule: bus_reachable.induct)
    (auto intro: bus_inv_new bus_inv_publish bus_inv_subscribe bus_inv_unsubscribe bus_inv_replay
      bus_inv_run_task elim!: dispatch_stepE)

lemma index_match_reachable:
  "bus_reachable name b \<Longrightarrow> index_match (bus_index b) ev = reg_match (bus_subs b) ev"
  using bus_reachable_inv ei.lookup_scan by (fastforce simp: bus_inv_def)

section \<open>Dispatch ends\<close>

definition scheduled :: "(string \<Rightarrow> bool) \<Rightarrow> 'c task list \<Rightarrow> nat" where
  "scheduled P ts = length (filter (\<lambda>t. tk_state t = Scheduled \<and> P (ev_type (tk_event t))) ts)"

lemma scheduled_append [simp]: "scheduled P (xs @ ys) = scheduled P xs + scheduled P ys"
  by (simp add: scheduled_def)

lemma scheduled_settle [simp]: "st \<noteq> Scheduled \<Longrightarrow> scheduled P (settle st ts) = scheduled P ts"
  by (induction ts) (auto simp: scheduled_def settle_def)

lemma scheduled_not_done [simp]: "scheduled P (filter (\<lambda>t. \<not> task_done t) ts) = scheduled P ts"
  unfolding scheduled_def filter_filter by (rule arg_cong [where f = length], rule filter_cong)
    (auto simp: task_done_def)

lemma scheduled_futures [simp]:
  "scheduled P (map (ensure_future ev) cs) = (if P (ev_type ev) then length cs else 0)"
  by (simp add: scheduled_def ensure_future_def filter_map o_def)

lemma scheduled_start:
  assumes "k < length ts" "tk_state (ts ! k) = Scheduled"
  shows "scheduled P ts =
    scheduled P (ts[k := (ts ! k)\<lparr>tk_state := Running\<rparr>]) + (if P (ev_type (tk_event (ts ! k))) then 1 else 0)"
proof -
  have "ts = take k ts @ ts ! k # drop (Suc k) ts" using assms(1) by (rule id_take_nth_drop)
  then have "scheduled P ts = scheduled P (take k ts) + scheduled P (ts ! k # drop (Suc k) ts)"
    by (metis scheduled_append)
  then show ?thesis
    using assms by (simp add: upd_conv_take_nth_drop) (simp add: scheduled_def)
qed

lemma pending_failure:
  "bus_pending (on_dispatch_failure name now c ev err b) =
     (if ev_type ev = FAILURE_EVENT_TYPE \<or> index_match (bus_index b) FAILURE_EVENT_TYPE = []
      then bus_pending b
      else filter (\<lambda>t. \<not> task_done t) (bus_pending b) @
        map (ensure_future
              \<lparr>ev_type = FAILURE_EVENT_TYPE, ev_source = ''event-bus'', ev_source_type = SRC_UNKNOWN,
               ev_severity = SEV_WARNING,
               ev_payload = failure_payload
                 \<lparr>fl_event_type = ev_type ev, fl_callback = name c, fl_source = ev_source ev,
                  fl_error = err, fl_at = now\<rparr>,
               ev_timestamp = Some now\<rparr>)
          (index_match (bus_index b) FAILURE_EVENT_TYPE))"
  by (simp add: on_dispatch_failure_def Let_def emit_event_def publish_def FAILURE_EVENT_TYPE_def
      del: severity_value.simps)

definition dispatch_rank :: "'c bus \<Rightarrow> nat \<times> nat" where
  "dispatch_rank b =
     (scheduled (\<lambda>ty. ty \<noteq> FAILURE_EVENT_TYPE) (bus_pending b),
      scheduled (\<lambda>ty. ty = FAILURE_EVENT_TYPE) (bus_pending b))"

lemma dispatch_rank_step:
  assumes "dispatch_step name b b'"
  shows "(dispatch_rank b', dispatch_rank b) \<in> less_than <*lex*> less_than"
  using assms
proof (cases rule: dispatch_step.cases)
  case (dispatch k now out)
  let ?t = "bus_pending b ! k"
  let ?ts = "(bus_pending b)[k := ?t\<lparr>tk_state := Running\<rparr>]"
  have b': "bus_pending b' = settle (snd (safe_call name now out (tk_callback ?t) (tk_event ?t)
      (b\<lparr>bus_pending := ?ts\<rparr>))) (bus_pending (fst (safe_call name now out (tk_callback ?t)
      (tk_event ?t) (b\<lparr>bus_pending := ?ts\<rparr>))))"
    by (simp add: dispatch(1) run_task_def Let_def split: prod.split)
  have st: "snd (safe_call name now out c ev b0) \<noteq> Scheduled" for c ev b0
    by (simp add: safe_call_def split: outcome.split)
  have "scheduled P (bus_pending b') = scheduled P (bus_pending (fst (safe_call name now out
      (tk_callback ?t) (tk_event ?t) (b\<lparr>bus_pending := ?ts\<rparr>))))" for P
    by (simp add: b' st)
  then show ?thesis
    using scheduled_start [OF dispatch(2,3)]
    by (auto simp: dispatch_rank_def safe_call_def pending_failure split: outcome.split)
qed

lemma wf_dispatch: "wf {(b', b). dispatch_step name b b'}"
  by (rule wf_subset [OF wf_inv_image [OF wf_lex_prod [OF wf_less_than wf_less_than],
      where f = dispatch_rank]]) (auto simp: inv_image_def dispatch_rank_step)

section \<open>Properties\<close>

definition demo_event :: sys_event where
  "demo_event = \<lparr>ev_type = ''task.node.completed'', ev_source = ''workflow'',
     ev_source_type = SRC_UNKNOWN, ev_severity = SEV_INFO, ev_payload = [], ev_timestamp = Some 7\<rparr>"

text \<open>
  C21: In every reachable state of the bus, publishing schedules one task per callback that a
  linear scan of the subscriber table finds for the event's type, in registration order,
  behind the tasks that are still running; the bucket index loses and invents nobody.
\<close>
theorem publish_reaches_subscribers:
  assumes "bus_reachable name b" and "ev_timestamp ev \<noteq> None"
  shows "bus_pending (publish now ev b) =
    filter (\<lambda>t. \<not> task_done t) (bus_pending b) @
    map (ensure_future ev) (reg_match (bus_subs b) (ev_type ev))"
  using assms by (auto simp add: publish_def Let_def index_match_reachable)

theorem publish_reaches_subscribers_witness:
  "map tk_callback (bus_pending (publish 9 demo_event
     (subscribe ''task.*'' ''on_task'' (subscribe ''event.*'' ''on_event'' (new_bus (Some False) []))))) =
   [''on_task'']"
proof -
  let ?b = "subscribe ''task.*'' ''on_task'' (subscribe ''event.*'' ''on_event'' (new_bus (Some False) []))"
  have "bus_reachable id ?b" by (intro bus_reachable.intros)
  from publish_reaches_subscribers [OF this, of demo_event 9] show ?thesis
    by (simp add: demo_event_def subscribe_def new_bus_def get_list_def reg_match_def
        matches_seg_match ensure_future_def)
qed

text \<open>
  The history never holds more than a hundred events, and \<open>get_history\<close> returns its
  last \<open>limit\<close> events, oldest first (none for a limit that is not positive).
\<close>
theorem history_bounded_suffix:
  assumes "bus_reachable name b"
  shows "length (bus_history b) \<le> 100 \<and>
    get_history limit b = drop (length (bus_history b) - nat limit) (bus_history b)"
proof -
  have "map (\<lambda>k. h ! k) [m ..< length h] = drop m h" for h :: "sys_event list" and m
    by (rule nth_equalityI) auto
  moreover have "length (bus_history b) \<le> 100"
    using bus_reachable_inv [OF assms] by (simp add: bus_inv_def MAX_HISTORY_def)
  ultimately show ?thesis by (auto simp: get_history_def Let_def)
qed

theorem history_bounded_suffix_witness:
  "get_history 1 (publish 9 demo_event (publish 8 demo_event (new_bus (Some True) [] :: string bus)))
    = [demo_event]"
proof -
  have "bus_reachable id (publish 9 demo_event (publish 8 demo_event (new_bus (Some True) [] :: string bus)))"
    by (intro bus_reachable.intros)
  from history_bounded_suffix [OF this, of 1] show ?thesis
    by (simp add: publish_def new_bus_def Let_def push_bounded_def MAX_HISTORY_def demo_event_def)
qed

text \<open>
  Whatever the callbacks do and whatever listens to failure events, the event loop runs
  out of scheduled callbacks: there is no infinite sequence of dispatch steps, and from every
  state some sequence of steps reaches one in which nothing is scheduled.
\<close>
theorem dispatch_terminates:
  "wf {(b', b). dispatch_step name b b'} \<and>
   (\<exists>b'. (dispatch_step name)\<^sup>*\<^sup>* b b' \<and> list_all (\<lambda>t. tk_state t \<noteq> Scheduled) (bus_pending b'))"
proof (intro conjI wf_dispatch)
  show "\<exists>b'. (dispatch_step name)\<^sup>*\<^sup>* b b' \<and> list_all (\<lambda>t. tk_state t \<noteq> Scheduled) (bus_pending b')"
  proof (induction b rule: wf_induct_rule [OF wf_dispatch [of name]])
    case (1 b)
    show ?case
    proof (cases "\<exists>k < length (bus_pending b). tk_state (bus_pending b ! k) = Scheduled")
      case True
      then obtain b1 where "dispatch_step name b b1" using dispatch_step.dispatch by blast
      with "1.IH" [of b1] show ?thesis by (auto intro: converse_rtranclp_into_rtranclp)
    next
      case False
      then show ?thesis by (intro exI [of _ b]) (auto simp: list_all_length)
    qed
  qed
qed

text \<open>
  \<open>emit_task\<close> publishes exactly the events whose severity names a member of the
  enumeration (or is left out, or empty); the value \<open>warn\<close> is not one, so such an event is
  never published.
\<close>
theorem emit_task_severity:
  "emit_task now ty payload src sev b = None \<longleftrightarrow>
     (\<exists>s. sev = Some s \<and> s \<notin> {[], ''info'', ''warning'', ''error'', ''critical''})"
  by (auto simp: emit_task_def severity_of_string_def split: option.splits if_splits)

end
