(* ===== verification/Fnmatch.thy ===== *)
theory Fnmatch
  imports Prelude
begin

text \<open>
  Shell style patterns as \<open>fnmatch.fnmatch\<close> of the standard library interprets them on a
  POSIX system: star, question mark, character sets with ranges and negation.  A pattern is
  parsed to a list of \<open>glob\<close> items (\<open>fnmatch.translate\<close>) and matched against the whole name.
\<close>

datatype set_item = SingleChar char | CharRange char char

datatype glob = GStar | GAny | GLit char | GSet bool "set_item list" | GNever

text \<open>
  The closing bracket of a set: one that is not the first character of the set (after an
  optional exclamation mark).
\<close>

fun find_char :: "char \<Rightarrow> string \<Rightarrow> nat option" where
  "find_char c [] = None"
| "find_char c (x # xs) = (if x = c then Some 0 else map_option Suc (find_char c xs))"

definition find_char_from :: "char \<Rightarrow> nat \<Rightarrow> string \<Rightarrow> nat option" where
  "find_char_from c k s = map_option (\<lambda>n. n + k) (find_char c (drop k s))"

definition set_close :: "string \<Rightarrow> nat option" where
  "set_close s =
     (let k0 = (if s \<noteq> [] \<and> hd s = CHR ''!'' then 1 else 0);
          k1 = (if drop k0 s \<noteq> [] \<and> hd (drop k0 s) = CHR '']'' then k0 + 1 else k0)
      in find_char_from CHR '']'' k1 s)"

lemma find_char_less: "find_char c s = Some n \<Longrightarrow> n < length s"
  by (induction s arbitrary: n) (auto split: if_splits)

lemma find_char_from_less: "find_char_from c k s = Some n \<Longrightarrow> n < length s"
  using find_char_less by (fastforce simp: find_char_from_def)

lemma set_close_less: "set_close s = Some n \<Longrightarrow> n < length s"
  by (auto simp: set_close_def Let_def dest: find_char_from_less)

text \<open>The hyphens of a set split it into chunks; a hyphen between two chunks makes a range.\<close>

function set_chunks :: "nat \<Rightarrow> string \<Rightarrow> string list" where
  "set_chunks off s =
     (case find_char_from CHR ''-'' off s of
        None \<Rightarrow> [s]
      | Some m \<Rightarrow> take m s # set_chunks 2 (drop (m + 1) s))"
  by pat_completeness auto
termination
  by (relation "measure (\<lambda>(off, s). length s)") (auto dest: find_char_from_less)

declare set_chunks.simps [simp del]

text \<open>An empty last chunk is a literal hyphen at the end of the previous one.\<close>

definition fix_last_chunk :: "string list \<Rightarrow> string list" where
  "fix_last_chunk cs =
     (if cs \<noteq> [] \<and> last cs = [] \<and> butlast cs \<noteq> []
      then butlast (butlast cs) @ [last (butlast cs) @ ''-''] else cs)"

text \<open>Ranges whose bounds are out of order are dropped, from the right.\<close>

fun squash_chunks :: "string list \<Rightarrow> string list" where
  "squash_chunks [] = []"
| "squash_chunks (c # cs) =
     (case squash_chunks cs of
        [] \<Rightarrow> [c]
      | d # ds \<Rightarrow>
          if c \<noteq> [] \<and> d \<noteq> [] \<and> hd d < last c then (butlast c @ tl d) # ds else c # d # ds)"

text \<open>The set's text: \<^const>\<open>None\<close> is a hyphen between chunks, \<^const>\<open>Some\<close> a character.\<close>

fun join_chunks :: "string list \<Rightarrow> char option list" where
  "join_chunks [] = []"
| "join_chunks [c] = map Some c"
| "join_chunks (c # d # cs) = map Some c @ None # join_chunks (d # cs)"

definition item_char :: "char option \<Rightarrow> char" where
  "item_char x = (case x of None \<Rightarrow> CHR ''-'' | Some c \<Rightarrow> c)"

fun set_items :: "char option list \<Rightarrow> set_item list" where
  "set_items [] = []"
| "set_items (a # None # b # xs) = CharRange (item_char a) (item_char b) # set_items xs"
| "set_items (a # xs) = SingleChar (item_char a) # set_items xs"

definition parse_set :: "string \<Rightarrow> glob" where
  "parse_set s =
     (let neg0 = (s \<noteq> [] \<and> hd s = CHR ''!'');
          body = (if CHR ''-'' \<in> set s
                  then join_chunks (squash_chunks (fix_last_chunk (set_chunks (if neg0 then 2 else 1) s)))
                  else map Some s)
      in if body = [] then GNever
         else if body = [Some CHR ''!''] then GAny
         else if hd body = Some CHR ''!'' then GSet True (set_items (tl body))
         else GSet False (set_items body))"

function glob_parse :: "string \<Rightarrow> glob list" where
  "glob_parse [] = []"
| "glob_parse (c # cs) =
     (if c = CHR ''*'' then GStar # glob_parse cs
      else if c = CHR ''?'' then GAny # glob_parse cs
      else if c = CHR ''['' then
        (case set_close cs of
           None \<Rightarrow> GLit c # glob_parse cs
         | Some j \<Rightarrow> parse_set (take j cs) # glob_parse (drop (j + 1) cs))
      else GLit c # glob_parse cs)"
  by pat_completeness auto
termination
  by (relation "measure length") (auto dest: set_close_less)

fun item_has :: "char \<Rightarrow> set_item \<Rightarrow> bool" where
  "item_has c (SingleChar d) = (c = d)"
| "item_has c (CharRange lo hi) = (lo \<le> c \<and> c \<le> hi)"

fun glob_has :: "glob \<Rightarrow> char \<Rightarrow> bool" where
  "glob_has GStar c = False"
| "glob_has GAny c = True"
| "glob_has (GLit d) c = (c = d)"
| "glob_has (GSet neg items) c = (neg \<noteq> list_ex (item_has c) items)"
| "glob_has GNever c = False"

fun glob_match :: "glob list \<Rightarrow> string \<Rightarrow> bool" where
  "glob_match [] s = (s = [])"
| "glob_match (GStar # gs) s =
     (glob_match gs s \<or> (case s of [] \<Rightarrow> False | _ # t \<Rightarrow> glob_match (GStar # gs) t))"
| "glob_match (g # gs) s = (case s of [] \<Rightarrow> False | c # t \<Rightarrow> glob_has g c \<and> glob_match gs t)"

definition fnmatch :: "string \<Rightarrow> string \<Rightarrow> bool" where
  "fnmatch name pat = glob_match (glob_parse pat) name"

section \<open>Literal patterns\<close>

definition glob_free :: "string \<Rightarrow> bool" where
  "glob_free s \<longleftrightarrow> CHR ''*'' \<notin> set s \<and> CHR ''?'' \<notin> set s \<and> CHR ''['' \<notin> set s"

lemma glob_parse_free_append:
  "glob_free s \<Longrightarrow> glob_parse (s @ t) = map GLit s @ glob_parse t"
  by (induction s) (auto simp: glob_free_def)

lemma glob_match_lits: "glob_match (map GLit s @ gs) t \<longleftrightarrow> (\<exists>u. t = s @ u \<and> glob_match gs u)"
  by (induction s arbitrary: t) (auto split: list.splits)

lemma glob_match_star [simp]: "glob_match [GStar] s"
  by (induction s) auto

declare glob_match.simps(2) [simp del]

lemma fnmatch_free: "glob_free pat \<Longrightarrow> fnmatch name pat \<longleftrightarrow> name = pat"
  using glob_parse_free_append [of pat "[]"] glob_match_lits [of pat "[]" name]
  by (auto simp: fnmatch_def)

lemma fnmatch_star [simp]: "fnmatch name ''*''"
  by (simp add: fnmatch_def glob_match_star)

lemma fnmatch_free_star:
  "glob_free s \<Longrightarrow> fnmatch name (s @ ''*'') \<longleftrightarrow> prefix s name"
  using glob_parse_free_append [of s "''*''"]
  by (auto simp: fnmatch_def glob_match_lits glob_match_star prefix_def)

end
