(* ===== verification/Capability.thy ===== *)
theory Capability
  imports Fnmatch Models
begin

text \<open>
  Certificate capability blocks (\<open>capability.py\<close>): normalisation of a block, the verdict of
  one block on one call (\<open>evaluate\<close>), and the strictest verdict over the agent
  certificate, the user identity and the downgraded package installs (\<open>tighten\<close>).  Messages
  are constructors of \<open>tight_reason\<close> that carry what the message interpolates.
\<close>

definition INHERIT :: string where "INHERIT = ''inherit''"
definition UNTRUSTED :: string where "UNTRUSTED = ''untrusted''"
definition MAX_RISK_VALUES :: "string list" where
  "MAX_RISK_VALUES = [''inherit'', ''low'', ''medium'', ''high'']"
definition RISK_ORDER :: "(string, nat) dict" where
  "RISK_ORDER = [(''low'', 0), (''medium'', 1), (''high'', 2), (''critical'', 3)]"
definition DEFAULT_RISK :: string where "DEFAULT_RISK = ''medium''"

datatype cap_action = CAP_ALLOW | CAP_CONFIRM | CAP_DENY

definition STRICTNESS :: "cap_action list" where
  "STRICTNESS = [CAP_DENY, CAP_CONFIRM, CAP_ALLOW]"

datatype cap_problem = BadTools pyval | BadMaxRisk string

record caps =
  cp_tools :: "string list"
  cp_max_risk :: string
  cp_expires_at :: pyval
  cp_scope :: string

datatype tight_reason =
    IncompleteBlock "cap_problem list"
  | UntrustedSource
  | CertExpired pyval
  | ToolNotAllowed string "string list"
  | RiskAboveCeiling string string

record tightening =
  tg_action :: cap_action
  tg_reason :: tight_reason
  tg_source :: string
  tg_detail :: caps

definition normalise :: "pyval \<Rightarrow> caps \<times> cap_problem list" where
  "normalise capabilities =
     (let d = (case capabilities of PDict d \<Rightarrow> d | _ \<Rightarrow> []);
          (tools, problems) =
            (case pget d ''tools'' of
               PNone \<Rightarrow> ([''*''], [])
             | PStr s \<Rightarrow> ([s], [])
             | PList xs \<Rightarrow> (filter (\<lambda>s. s \<noteq> []) (map (\<lambda>x. py_strip (py_str x)) xs), [])
             | v \<Rightarrow> ([''*''], [BadTools v]));
          risk0 = py_lower (py_strip (py_str (py_or (pget d ''max_risk'') (PStr INHERIT))));
          (max_risk, problems') =
            (if risk0 \<notin> set MAX_RISK_VALUES then (INHERIT, problems @ [BadMaxRisk risk0])
             else (risk0, problems));
          expires_at = py_or (pget d ''expires_at'') PNone;
          scope = py_lower (py_strip (py_str (py_or (pget d ''scope'') (PStr []))))
      in (\<lparr>cp_tools = (if tools = [] then [''*''] else tools), cp_max_risk = max_risk,
           cp_expires_at = expires_at, cp_scope = scope\<rparr>, problems'))"

definition pattern_allows :: "string \<Rightarrow> string \<Rightarrow> bool" where
  "pattern_allows name pattern =
     (let text = py_strip pattern
      in text \<noteq> [] \<and>
         (text = ''*'' \<or> fnmatch name text \<or>
          CHR ''.'' \<notin> set text \<and> fnmatch name (text @ ''.*'')))"

fun tool_allowed :: "string \<Rightarrow> string list \<Rightarrow> bool" where
  "tool_allowed name [] = False"
| "tool_allowed name (pattern # patterns) =
     (if pattern_allows name pattern then True else tool_allowed name patterns)"

definition risk_rank :: "string \<Rightarrow> nat" where
  "risk_rank level =
     (case map_of RISK_ORDER level of Some n \<Rightarrow> n | None \<Rightarrow> the (map_of RISK_ORDER DEFAULT_RISK))"

text \<open>\<open>clock\<close> is the time stamp of \<open>trmpkg.now()\<close>, used when no \<open>now\<close> is given.\<close>

definition evaluate ::
    "string \<Rightarrow> pyval \<Rightarrow> string \<Rightarrow> string \<Rightarrow> string \<Rightarrow> string \<Rightarrow> tightening option" where
  "evaluate clock capabilities tool risk source now =
     (let (c, problems) = normalise capabilities;
          verdict = (\<lambda>a r. Some \<lparr>tg_action = a, tg_reason = r, tg_source = source, tg_detail = c\<rparr>)
      in if problems \<noteq> [] then verdict CAP_CONFIRM (IncompleteBlock problems)
         else if cp_scope c = UNTRUSTED then verdict CAP_CONFIRM UntrustedSource
         else if py_truthy (cp_expires_at c) \<and>
                 py_str (cp_expires_at c) \<le> (if now = [] then clock else now)
           then verdict CAP_DENY (CertExpired (cp_expires_at c))
         else if \<not> tool_allowed tool (cp_tools c)
           then verdict CAP_DENY (ToolNotAllowed tool (cp_tools c))
         else if cp_max_risk c \<noteq> INHERIT then
           (let level = py_lower (if risk = [] then DEFAULT_RISK else risk)
            in if risk_rank level > the (map_of RISK_ORDER (cp_max_risk c))
               then verdict CAP_CONFIRM (RiskAboveCeiling level (cp_max_risk c)) else None)
         else None)"

text \<open>
  What the other modules supply: the agent's certificate block (\<open>check_agent_trust\<close>), the
  identity document's \<open>capabilities\<close> entry (\<open>load_identity\<close>), the names of packages
  installed without verification (\<open>pkg_install.untrusted_names\<close>).
\<close>

record cap_env =
  env_agent_cert :: "string \<Rightarrow> (string, pyval) dict option"
  env_identity :: "(string, pyval) dict option"
  env_untrusted :: "string list"

definition agent_capabilities :: "cap_env \<Rightarrow> string \<Rightarrow> (string, pyval) dict" where
  "agent_capabilities e agent_id =
     (case env_agent_cert e agent_id of None \<Rightarrow> [] | Some d \<Rightarrow> d)"

text \<open>\<open>dict(value or {})\<close> raises for a value that is no mapping.\<close>

definition identity_capabilities :: "cap_env \<Rightarrow> py_error + (string, pyval) dict" where
  "identity_capabilities e =
     (case py_or (pget (case env_identity e of None \<Rightarrow> [] | Some d \<Rightarrow> d) ''capabilities'')
             (PDict []) of
        PDict d \<Rightarrow> Inr d | _ \<Rightarrow> Inl TypeError)"

definition untrusted_installs :: "cap_env \<Rightarrow> string list \<Rightarrow> string list" where
  "untrusted_installs e names =
     sort (remdups (filter (\<lambda>n. n \<noteq> [] \<and> n \<in> set (env_untrusted e)) names))"

definition untrusted_block :: "(string, pyval) dict" where
  "untrusted_block =
     [(''tools'', PList [PStr ''*'']), (''max_risk'', PStr INHERIT), (''scope'', PStr UNTRUSTED)]"

definition tighten_candidates ::
    "cap_env \<Rightarrow> string \<Rightarrow> string \<Rightarrow> string \<Rightarrow> py_error + (string \<times> (string, pyval) dict) list" where
  "tighten_candidates e agent_id tool tool_name =
     (case identity_capabilities e of
        Inl err \<Rightarrow> Inl err
      | Inr idc \<Rightarrow>
          Inr ((if agent_capabilities e agent_id \<noteq> []
                then [(''agent-cert:'' @ agent_id, agent_capabilities e agent_id)] else []) @
               (if idc \<noteq> [] then [(''identity'', idc)] else []) @
               map (\<lambda>n. (''installed-package:'' @ n, untrusted_block))
                 (untrusted_installs e [tool_name, tool, agent_id])))"

fun strictest :: "cap_action list \<Rightarrow> tightening list \<Rightarrow> tightening option" where
  "strictest [] verdicts = None"
| "strictest (a # as) verdicts =
     (case find (\<lambda>v. tg_action v = a) verdicts of Some v \<Rightarrow> Some v | None \<Rightarrow> strictest as verdicts)"

definition candidate_verdicts ::
    "string \<Rightarrow> (string \<times> (string, pyval) dict) list \<Rightarrow> string \<Rightarrow> string \<Rightarrow> string \<Rightarrow> tightening list" where
  "candidate_verdicts clock cands tool risk now =
     List.map_filter (\<lambda>(source, c). evaluate clock (PDict c) tool risk source now) cands"

definition tighten ::
    "string \<Rightarrow> cap_env \<Rightarrow> string \<Rightarrow> string \<Rightarrow> string \<Rightarrow> string \<Rightarrow> string
       \<Rightarrow> py_error + tightening option" where
  "tighten clock e agent_id tool risk tool_name now =
     (case tighten_candidates e agent_id tool tool_name of
        Inl err \<Rightarrow> Inl err
      | Inr cands \<Rightarrow> Inr (strictest STRICTNESS (candidate_verdicts clock cands tool risk now)))"

section \<open>Facts\<close>

lemma tool_allowed_ex: "tool_allowed name patterns \<longleftrightarrow> (\<exists>p \<in> set patterns. pattern_allows name p)"
  by (induction patterns) auto

lemma pattern_allows_star [simp]: "pattern_allows name ''*''"
  by (simp add: pattern_allows_def py_strip_no_space py_is_space_def)

lemma normalise_tools_nonempty: "cp_tools (fst (normalise v)) \<noteq> []"
  by (simp add: normalise_def Let_def split: prod.split)

lemma normalise_max_risk: "cp_max_risk (fst (normalise v)) \<in> set MAX_RISK_VALUES"
  by (simp add: normalise_def Let_def INHERIT_def MAX_RISK_VALUES_def split: prod.split)

lemma evaluate_action:
  "evaluate clock c tool risk source now = Some v \<Longrightarrow> tg_action v \<in> {CAP_CONFIRM, CAP_DENY}"
  by (auto simp: evaluate_def Let_def split: prod.splits if_splits)

lemma find_action:
  "find (\<lambda>v. tg_action v = a) vs = Some v \<Longrightarrow> tg_action v = a \<and> v \<in> set vs"
  by (auto simp: find_Some_iff)

lemma strictest_cases:
  assumes "\<forall>v \<in> set vs. tg_action v \<in> {CAP_CONFIRM, CAP_DENY}"
  shows "map_option tg_action (strictest STRICTNESS vs) =
    (if \<exists>v \<in> set vs. tg_action v = CAP_DENY then Some CAP_DENY
     else if vs \<noteq> [] then Some CAP_CONFIRM else None)"
proof (cases "find (\<lambda>v. tg_action v = CAP_DENY) vs")
  case (Some v)
  then show ?thesis by (auto simp: STRICTNESS_def dest: find_action)
next
  case None
  then have no: "\<forall>v \<in> set vs. tg_action v = CAP_CONFIRM"
    using assms by (auto simp: find_None_iff)
  show ?thesis
  proof (cases vs)
    case (Cons v vs')
    with no None show ?thesis by (auto simp: STRICTNESS_def)
  qed (simp add: STRICTNESS_def)
qed

lemma strictest_mem: "strictest as vs = Some v \<Longrightarrow> v \<in> set vs"
  by (induction as) (auto split: option.splits dest: find_action)

lemma candidate_verdicts_mem:
  "v \<in> set (candidate_verdicts clock cands tool risk now) \<longleftrightarrow>
     (\<exists>(source, c) \<in> set cands. evaluate clock (PDict c) tool risk source now = Some v)"
  by (induction cands) (auto simp: candidate_verdicts_def List.map_filter_simps split: option.splits)

lemma candidate_verdicts_actions:
  "\<forall>v \<in> set (candidate_verdicts clock cands tool risk now). tg_action v \<in> {CAP_CONFIRM, CAP_DENY}"
  using evaluate_action by (fastforce simp: candidate_verdicts_mem)

lemma candidate_verdicts_empty:
  "candidate_verdicts clock cands tool risk now = [] \<longleftrightarrow>
     (\<forall>(source, c) \<in> set cands. evaluate clock (PDict c) tool risk source now = None)"
  by (induction cands) (auto simp: candidate_verdicts_def List.map_filter_simps split: option.splits)

section \<open>Properties\<close>

text \<open>
  C23: The runtime intersection is the strictest of its sources: it denies exactly when some
  certificate block denies the call, asks for confirmation exactly when none denies and some
  does not let it pass, makes no statement exactly when every block is silent, and never allows.
\<close>
theorem tighten_strictest:
  assumes "tighten_candidates e agent_id tool tool_name = Inr cands"
  shows "\<exists>r. tighten clock e agent_id tool risk tool_name now = Inr r \<and>
    map_option tg_action r =
      (if \<exists>(source, c) \<in> set cands. \<exists>v. evaluate clock (PDict c) tool risk source now = Some v
            \<and> tg_action v = CAP_DENY then Some CAP_DENY
       else if \<exists>(source, c) \<in> set cands. evaluate clock (PDict c) tool risk source now \<noteq> None
            then Some CAP_CONFIRM
       else None)"
proof -
  let ?vs = "candidate_verdicts clock cands tool risk now"
  have "(\<exists>v \<in> set ?vs. tg_action v = CAP_DENY) \<longleftrightarrow>
      (\<exists>(source, c) \<in> set cands. \<exists>v. evaluate clock (PDict c) tool risk source now = Some v
            \<and> tg_action v = CAP_DENY)"
    using candidate_verdicts_mem [of _ clock cands tool risk now] by fast
  moreover have "?vs \<noteq> [] \<longleftrightarrow>
      (\<exists>(source, c) \<in> set cands. evaluate clock (PDict c) tool risk source now \<noteq> None)"
    by (simp add: candidate_verdicts_empty split_beta)
  ultimately show ?thesis
    using strictest_cases [OF candidate_verdicts_actions, of clock cands tool risk now] assms
    by (simp add: tighten_def)
qed

definition demo_cap_env :: cap_env where
  "demo_cap_env =
     \<lparr>env_agent_cert = (\<lambda>_. Some [(''tools'', PList [PStr ''file''])]),
      env_identity = Some [(''capabilities'', PDict [(''max_risk'', PStr ''low'')])],
      env_untrusted = []\<rparr>"

theorem tighten_strictest_witness:
  "\<exists>r. tighten ''2026'' demo_cap_env ''a1'' ''shell'' ''high'' [] ''2026'' = Inr r \<and>
     map_option tg_action r = Some CAP_DENY"
proof -
  let ?cands = "[(''agent-cert:a1'', [(''tools'', PList [PStr ''file''])]),
                 (''identity'', [(''max_risk'', PStr ''low'')])]"
  have "tighten_candidates demo_cap_env ''a1'' ''shell'' [] = Inr ?cands" by code_simp
  from tighten_strictest [OF this, of "''2026''" "''high''" "''2026''"]
  have star: "\<exists>r. tighten ''2026'' demo_cap_env ''a1'' ''shell'' ''high'' [] ''2026'' = Inr r \<and>
     map_option tg_action r =
      (if \<exists>(source, c) \<in> set ?cands. \<exists>v. evaluate ''2026'' (PDict c) ''shell'' ''high'' source ''2026'' = Some v
            \<and> tg_action v = CAP_DENY then Some CAP_DENY
       else if \<exists>(source, c) \<in> set ?cands. evaluate ''2026'' (PDict c) ''shell'' ''high'' source ''2026'' \<noteq> None
            then Some CAP_CONFIRM else None)" .
  have "map_option tg_action (evaluate ''2026'' (PDict [(''tools'', PList [PStr ''file''])])
      ''shell'' ''high'' ''agent-cert:a1'' ''2026'') = Some CAP_DENY" by code_simp
  then have "\<exists>v. evaluate ''2026'' (PDict [(''tools'', PList [PStr ''file''])])
      ''shell'' ''high'' ''agent-cert:a1'' ''2026'' = Some v \<and> tg_action v = CAP_DENY" by auto
  with star show ?thesis by auto
qed

text \<open>
  The decision table of one readable block: untrusted scope asks for confirmation before
  anything else, then an expired certificate and a tool outside the whitelist deny, then a risk
  above the ceiling asks for confirmation; otherwise the block is silent.
\<close>
theorem evaluate_table:
  assumes "normalise block = (c, [])"
  shows "map_option tg_reason (evaluate clock block tool risk source now) =
    (if cp_scope c = UNTRUSTED then Some UntrustedSource
     else if py_truthy (cp_expires_at c) \<and> py_str (cp_expires_at c) \<le> (if now = [] then clock else now)
       then Some (CertExpired (cp_expires_at c))
     else if \<forall>p \<in> set (cp_tools c). \<not> pattern_allows tool p
       then Some (ToolNotAllowed tool (cp_tools c))
     else if cp_max_risk c \<noteq> INHERIT \<and>
             the (map_of RISK_ORDER (cp_max_risk c)) < risk_rank (py_lower (if risk = [] then DEFAULT_RISK else risk))
       then Some (RiskAboveCeiling (py_lower (if risk = [] then DEFAULT_RISK else risk)) (cp_max_risk c))
     else None)"
  using assms by (simp add: evaluate_def Let_def tool_allowed_ex)

theorem evaluate_table_witness:
  "normalise (PDict [(''tools'', PStr ''shell''), (''max_risk'', PStr ''low'')]) =
     (\<lparr>cp_tools = [''shell''], cp_max_risk = ''low'', cp_expires_at = PNone, cp_scope = []\<rparr>, []) \<and>
   map_option tg_reason (evaluate ''2026'' (PDict [(''tools'', PStr ''shell''), (''max_risk'', PStr ''low'')])
     ''shell'' ''high'' ''cert'' []) = Some (RiskAboveCeiling ''high'' ''low'')"
proof -
  let ?c = "\<lparr>cp_tools = [''shell''], cp_max_risk = ''low'', cp_expires_at = PNone, cp_scope = []\<rparr>"
  have n: "normalise (PDict [(''tools'', PStr ''shell''), (''max_risk'', PStr ''low'')]) = (?c, [])"
    by code_simp
  have "pattern_allows ''shell'' ''shell''" "py_lower ''high'' = ''high''"
    "risk_rank ''high'' = 2" "the (map_of RISK_ORDER ''low'') = 0" by code_simp+
  with evaluate_table [OF n, of "''2026''" "''shell''" "''high''" "''cert''" "[]"] n show ?thesis
    by (simp add: UNTRUSTED_def INHERIT_def)
qed

text \<open>
  A block whose whitelist is an empty list (or holds only blank names) is read as the
  whitelist of every tool, without reporting a problem.
\<close>
theorem empty_whitelist_allows_all:
  assumes "pget d ''tools'' = PList xs" "\<forall>x \<in> set xs. py_strip (py_str x) = []"
  shows "cp_tools (fst (normalise (PDict d))) = [''*''] \<and>
    tool_allowed tool (cp_tools (fst (normalise (PDict d)))) \<and>
    (\<forall>v. BadTools v \<notin> set (snd (normalise (PDict d))))"
proof -
  have "filter (\<lambda>s. s \<noteq> []) (map (\<lambda>x. py_strip (py_str x)) xs) = []"
    using assms(2) by (induction xs) auto
  then show ?thesis using assms(1) by (simp add: normalise_def Let_def)
qed

theorem empty_whitelist_allows_all_witness:
  "tool_allowed ''shell'' (cp_tools (fst (normalise (PDict [(''tools'', PList [])]))))"
  using empty_whitelist_allows_all [of "[(''tools'', PList [])]" "[]" "''shell''"]
  by (simp add: pget_def)

end
