(* ===== verification/Delegation.thy ===== *)
theory Delegation
  imports Capability
begin

text \<open>
  Delegation of a task to a child agent (\<open>delegation.py\<close>): budgets, the plan
  (\<open>plan_delegation\<close>, the intersection of the parent's and the requested capabilities) and the
  orchestration (\<open>delegate\<close>).  The spawned child and the bus are arguments: what the spawn
  callback returns or raises, and whether sending an event raises.  The effects of one
  delegation are its \<open>trace\<close>: the spawn and the events sent, in order.
\<close>

datatype dlg_status = DLG_COMPLETED | DLG_FAILED | DLG_CRASHED | DLG_REJECTED | DLG_BUDGET_EXHAUSTED
  | DLG_READY | DLG_OTHER string

fun dlg_status_of_string :: "string \<Rightarrow> dlg_status" where
  "dlg_status_of_string s =
     (if s = ''completed'' then DLG_COMPLETED else if s = ''failed'' then DLG_FAILED
      else if s = ''crashed'' then DLG_CRASHED else if s = ''rejected'' then DLG_REJECTED
      else if s = ''budget_exhausted'' then DLG_BUDGET_EXHAUSTED
      else if s = ''ready'' then DLG_READY else DLG_OTHER s)"

datatype dlg_reason = NoReason | CapabilityUnreadable | ToolNotPermitted string | CapabilityEmpty

datatype dlg_tightening =
    CapProblems string "cap_problem list"
  | DeniedTool string "string list"
  | DeniedEmpty "string list" "string list"
  | MaxRiskStricter string string string

record budget =
  bg_steps :: int
  bg_tokens :: int

definition make_budget :: "int \<Rightarrow> int \<Rightarrow> py_error + budget" where
  "make_budget steps tokens =
     (if steps \<le> 0 then Inl ValueError
      else if tokens \<le> 0 then Inl ValueError
      else Inr \<lparr>bg_steps = steps, bg_tokens = tokens\<rparr>)"

definition default_budget :: budget where
  "default_budget = \<lparr>bg_steps = 20, bg_tokens = 20000\<rparr>"

definition budget_tighten :: "budget \<Rightarrow> budget \<Rightarrow> py_error + budget" where
  "budget_tighten b parent =
     make_budget (min (bg_steps b) (bg_steps parent)) (min (bg_tokens b) (bg_tokens parent))"

record delegation_request =
  rq_task :: string
  rq_agent_type :: string
  rq_capabilities :: "pyval option"
  rq_budget :: "budget option"
  rq_session_id :: string

record delegation_plan =
  pl_task_id :: string
  pl_agent_id :: string
  pl_agent_type :: string
  pl_task :: string
  pl_capabilities :: caps
  pl_budget :: budget
  pl_status :: dlg_status
  pl_reason :: dlg_reason
  pl_tightenings :: "dlg_tightening list"

definition risk_index :: "string \<Rightarrow> nat" where
  "risk_index r = the (find_index_of r MAX_RISK_VALUES)"

definition intersect_risk :: "string \<Rightarrow> string \<Rightarrow> string" where
  "intersect_risk parent_risk request_risk =
     (if parent_risk = INHERIT then request_risk
      else if request_risk = INHERIT then parent_risk
      else MAX_RISK_VALUES ! min (risk_index parent_risk) (risk_index request_risk))"

text \<open>The split of the requested tools into those the parent has and the overreaches.\<close>

definition child_tools :: "string list \<Rightarrow> string list \<Rightarrow> string list \<times> string list" where
  "child_tools parent_tools request_tools =
     (if ''*'' \<in> set request_tools then (parent_tools, [])
      else (filter (\<lambda>t. tool_allowed t parent_tools) request_tools,
            filter (\<lambda>t. \<not> tool_allowed t parent_tools) request_tools))"

definition child_expiry :: "pyval \<Rightarrow> pyval \<Rightarrow> pyval" where
  "child_expiry parent_exp request_exp =
     (if py_truthy parent_exp \<and> py_truthy request_exp
      then PStr (min (py_str parent_exp) (py_str request_exp))
      else if py_truthy request_exp then request_exp
      else parent_exp)"

definition denied_plan ::
    "delegation_request \<Rightarrow> string \<Rightarrow> string \<Rightarrow> string \<Rightarrow> caps \<Rightarrow> budget option
       \<Rightarrow> dlg_reason \<Rightarrow> dlg_tightening \<Rightarrow> delegation_plan" where
  "denied_plan request tid agent_id task parent_caps parent_budget reason tightening =
     \<lparr>pl_task_id = tid, pl_agent_id = agent_id, pl_agent_type = rq_agent_type request,
      pl_task = task, pl_capabilities = parent_caps,
      pl_budget = (case parent_budget of None \<Rightarrow> default_budget | Some b \<Rightarrow> b),
      pl_status = DLG_REJECTED, pl_reason = reason, pl_tightenings = [tightening]\<rparr>"

text \<open>
  The child's capabilities when the request names some: a refusal (reason and note), or the
  block and the notes on what was tightened.
\<close>

definition child_capabilities ::
    "caps \<Rightarrow> caps \<Rightarrow> (dlg_reason \<times> dlg_tightening) + (caps \<times> dlg_tightening list)" where
  "child_capabilities parent_caps request_caps =
     (let (tools, overreaches) = child_tools (cp_tools parent_caps) (cp_tools request_caps)
      in if ''*'' \<notin> set (cp_tools request_caps) \<and> tools = [] then
           (if length overreaches = 1 \<and> CHR ''*'' \<notin> set (hd overreaches)
            then Inl (ToolNotPermitted (hd overreaches), DeniedTool (hd overreaches) (cp_tools parent_caps))
            else Inl (CapabilityEmpty, DeniedEmpty (cp_tools request_caps) overreaches))
         else
           (let risk = intersect_risk (cp_max_risk parent_caps) (cp_max_risk request_caps);
                notes = (if risk \<noteq> cp_max_risk request_caps
                         then [MaxRiskStricter (cp_max_risk parent_caps) (cp_max_risk request_caps) risk]
                         else [])
            in Inr (\<lparr>cp_tools = tools, cp_max_risk = risk,
                     cp_expires_at = child_expiry (cp_expires_at parent_caps) (cp_expires_at request_caps),
                     cp_scope = cp_scope parent_caps\<rparr>, notes)))"

text \<open>\<open>fresh\<close> is the identifier \<open>uuid4\<close> draws when no task id is given.\<close>

definition plan_delegation ::
    "string \<Rightarrow> pyval \<Rightarrow> delegation_request \<Rightarrow> budget option \<Rightarrow> string \<Rightarrow> py_error + delegation_plan" where
  "plan_delegation fresh parent_capabilities request parent_budget task_id =
     (let task = py_strip (rq_task request)
      in if task = [] then Inl ValueError
         else
           (let tid = (if task_id = [] then fresh else task_id);
                agent_id = rq_agent_type request @ ''-'' @ take 8 tid;
                (parent_caps, parent_problems) = normalise parent_capabilities;
                (request_caps, request_problems) =
                  normalise (case rq_capabilities request of None \<Rightarrow> PNone | Some v \<Rightarrow> v);
                denied = denied_plan request tid agent_id task parent_caps parent_budget
            in if parent_problems \<noteq> [] \<or> request_problems \<noteq> [] then
                 Inr (denied CapabilityUnreadable
                   (CapProblems (if parent_problems \<noteq> [] then ''parent'' else ''request'')
                     (parent_problems @ request_problems)))
               else
                 (case (if rq_capabilities request = None then Inr (parent_caps, [])
                        else child_capabilities parent_caps request_caps) of
                    Inl (reason, note) \<Rightarrow> Inr (denied reason note)
                  | Inr (child_caps, notes) \<Rightarrow>
                      (let outer = (case parent_budget of None \<Rightarrow> default_budget | Some b \<Rightarrow> b)
                       in case (case rq_budget request of
                                  None \<Rightarrow> Inr outer | Some b \<Rightarrow> budget_tighten b outer) of
                            Inl err \<Rightarrow> Inl err
                          | Inr child_budget \<Rightarrow>
                              Inr \<lparr>pl_task_id = tid, pl_agent_id = agent_id,
                                pl_agent_type = rq_agent_type request, pl_task = task,
                                pl_capabilities = child_caps, pl_budget = child_budget,
                                pl_status = DLG_READY, pl_reason = NoReason,
                                pl_tightenings = notes\<rparr>))))"

section \<open>Orchestration\<close>

record child_report =
  rp_status :: dlg_status
  rp_output :: string
  rp_error :: string
  rp_steps_used :: "int option"
  rp_tokens_used :: "int option"
  rp_pid :: "int option"
  rp_log_path :: string
  rp_usage_reported :: "bool option"

text \<open>A dict that the spawn callback returns: the known keys it has, with values of their types.\<close>

record report_dict =
  rd_status :: "string option"
  rd_output :: "string option"
  rd_error :: "string option"
  rd_steps_used :: "int option option"
  rd_tokens_used :: "int option option"
  rd_pid :: "int option option"
  rd_log_path :: "string option"
  rd_usage_reported :: "bool option option"

datatype spawn_value = SpawnReport child_report | SpawnDict report_dict | SpawnOther string

datatype spawn_outcome = SpawnRaises string | SpawnReturns spawn_value

definition dflt :: "'a \<Rightarrow> 'a option \<Rightarrow> 'a" where
  "dflt d x = (case x of None \<Rightarrow> d | Some v \<Rightarrow> v)"

text \<open>The text of the \<open>TypeError\<close> for another type, or the report.\<close>

definition coerce_report :: "spawn_value \<Rightarrow> string + child_report" where
  "coerce_report value =
     (case value of
        SpawnReport r \<Rightarrow> Inr r
      | SpawnDict d \<Rightarrow>
          Inr \<lparr>rp_status = dflt DLG_COMPLETED (map_option dlg_status_of_string (rd_status d)),
            rp_output = dflt [] (rd_output d), rp_error = dflt [] (rd_error d),
            rp_steps_used = dflt None (rd_steps_used d), rp_tokens_used = dflt None (rd_tokens_used d),
            rp_pid = dflt None (rd_pid d), rp_log_path = dflt [] (rd_log_path d),
            rp_usage_reported = dflt None (rd_usage_reported d)\<rparr>
      | SpawnOther ty \<Rightarrow> Inl (''spawn: '' @ ty))"

datatype dlg_error = NoError | ErrorText string
  | BudgetExhausted "(int \<times> int) option" "(int \<times> int) option"

record dlg_message =
  ms_type :: string
  ms_task_id :: string
  ms_agent_id :: string
  ms_status :: dlg_status
  ms_error :: dlg_error
  ms_steps :: "int option"
  ms_tokens :: "int option"

datatype dlg_effect = Sent dlg_message | Spawned delegation_plan

record dlg_audit =
  au_plan :: delegation_plan
  au_parent_session :: string
  au_status :: dlg_status
  au_reason :: dlg_reason
  au_error :: dlg_error
  au_steps :: "int option"
  au_tokens :: "int option"
  au_usage_reported :: bool
  au_pid :: "int option"
  au_log_path :: string

record delegation_result =
  rs_task_id :: string
  rs_agent_id :: string
  rs_agent_type :: string
  rs_status :: dlg_status
  rs_output :: string
  rs_error :: dlg_error
  rs_reason :: dlg_reason
  rs_steps_used :: "int option"
  rs_tokens_used :: "int option"
  rs_usage_reported :: bool
  rs_events :: "string list"
  rs_audit :: dlg_audit

definition make_audit ::
    "delegation_plan \<Rightarrow> string \<Rightarrow> dlg_status \<Rightarrow> dlg_reason \<Rightarrow> dlg_error \<Rightarrow> int option \<Rightarrow> int option
       \<Rightarrow> bool \<Rightarrow> int option \<Rightarrow> string \<Rightarrow> dlg_audit" where
  "make_audit plan session status reason err steps tokens usage pid lpath =
     \<lparr>au_plan = plan, au_parent_session = session, au_status = status, au_reason = reason,
      au_error = err, au_steps = steps, au_tokens = tokens, au_usage_reported = usage,
      au_pid = pid, au_log_path = lpath\<rparr>"

text \<open>
  A bus is a function from the type of an event to the exception its emission raises, if any.
  \<open>bus_send\<close> does one emission: the exception, or the effect and the recorded event name.
\<close>

type_synonym dlg_bus = "string \<Rightarrow> string option"

definition bus_send :: "dlg_bus option \<Rightarrow> dlg_message \<Rightarrow> string + (dlg_effect list \<times> string list)" where
  "bus_send bus m =
     (case bus of
        None \<Rightarrow> Inr ([], [])
      | Some send \<Rightarrow>
          (case send (ms_type m) of
             Some err \<Rightarrow> Inl err
           | None \<Rightarrow> Inr ([Sent m], [''task.'' @ ms_type m])))"

definition plan_message ::
    "delegation_plan \<Rightarrow> string \<Rightarrow> dlg_status \<Rightarrow> dlg_error \<Rightarrow> int option \<Rightarrow> int option \<Rightarrow> dlg_message" where
  "plan_message plan ty status err steps tokens =
     \<lparr>ms_type = ty, ms_task_id = pl_task_id plan, ms_agent_id = pl_agent_id plan,
      ms_status = status, ms_error = err, ms_steps = steps, ms_tokens = tokens\<rparr>"

definition over_budget :: "int option \<Rightarrow> int \<Rightarrow> bool" where
  "over_budget used limit \<longleftrightarrow> (case used of None \<Rightarrow> False | Some n \<Rightarrow> n > limit)"

text \<open>The classification of a report: first a failure the child reports, then the budget.\<close>

definition classify :: "delegation_plan \<Rightarrow> child_report \<Rightarrow> dlg_status \<times> dlg_error" where
  "classify plan report =
     (if rp_status report \<noteq> DLG_COMPLETED then (DLG_FAILED, ErrorText (rp_error report))
      else
        (let over_steps = over_budget (rp_steps_used report) (bg_steps (pl_budget plan));
             over_tokens = over_budget (rp_tokens_used report) (bg_tokens (pl_budget plan))
         in if over_steps \<or> over_tokens then
              (DLG_BUDGET_EXHAUSTED,
               BudgetExhausted
                 (if over_steps then Some (the (rp_steps_used report), bg_steps (pl_budget plan)) else None)
                 (if over_tokens then Some (the (rp_tokens_used report), bg_tokens (pl_budget plan)) else None))
            else (DLG_COMPLETED, NoError)))"

definition crashed_result ::
    "dlg_bus option \<Rightarrow> delegation_plan \<Rightarrow> string \<Rightarrow> dlg_effect list \<Rightarrow> string list \<Rightarrow> string
       \<Rightarrow> delegation_result \<times> dlg_effect list" where
  "crashed_result bus plan session effs events err =
     (let (effs', events') =
            (if bus \<noteq> None \<and> ''task.failed'' \<notin> set events then
               (case bus_send bus (plan_message plan ''failed'' DLG_CRASHED (ErrorText err) None None) of
                  Inl _ \<Rightarrow> (effs, events)
                | Inr (e, n) \<Rightarrow> (effs @ e, events @ n))
             else (effs, events))
      in (\<lparr>rs_task_id = pl_task_id plan, rs_agent_id = pl_agent_id plan,
           rs_agent_type = pl_agent_type plan, rs_status = DLG_CRASHED, rs_output = [],
           rs_error = ErrorText err, rs_reason = NoReason, rs_steps_used = None,
           rs_tokens_used = None, rs_usage_reported = False, rs_events = events',
           rs_audit = make_audit plan session DLG_CRASHED NoReason (ErrorText err) None None False None []\<rparr>,
          effs'))"

definition finished_result ::
    "delegation_plan \<Rightarrow> string \<Rightarrow> child_report \<Rightarrow> dlg_status \<Rightarrow> dlg_error \<Rightarrow> string list \<Rightarrow> delegation_result" where
  "finished_result plan session report status err events =
     (let usage = (case rp_usage_reported report of
                     Some u \<Rightarrow> u
                   | None \<Rightarrow> rp_steps_used report \<noteq> None \<or> rp_tokens_used report \<noteq> None)
      in \<lparr>rs_task_id = pl_task_id plan, rs_agent_id = pl_agent_id plan,
          rs_agent_type = pl_agent_type plan, rs_status = status, rs_output = rp_output report,
          rs_error = err, rs_reason = NoReason, rs_steps_used = rp_steps_used report,
          rs_tokens_used = rp_tokens_used report, rs_usage_reported = usage, rs_events = events,
          rs_audit = make_audit plan session status NoReason err (rp_steps_used report)
            (rp_tokens_used report) usage (rp_pid report) (rp_log_path report)\<rparr>)"

definition run_plan ::
    "(delegation_plan \<Rightarrow> spawn_outcome) \<Rightarrow> dlg_bus option \<Rightarrow> delegation_plan \<Rightarrow> string
       \<Rightarrow> delegation_result \<times> dlg_effect list" where
  "run_plan spawn bus plan session =
     (case bus_send bus (plan_message plan ''assigned'' DLG_READY NoError None None) of
        Inl err \<Rightarrow> crashed_result bus plan session [] [] err
      | Inr (effs1, events1) \<Rightarrow>
          (let effs2 = effs1 @ [Spawned plan]
           in case (case spawn plan of SpawnRaises err \<Rightarrow> Inl err | SpawnReturns v \<Rightarrow> coerce_report v) of
                Inl err \<Rightarrow> crashed_result bus plan session effs2 events1 err
              | Inr report \<Rightarrow>
                  (let (status, err) = classify plan report
                   in case bus_send bus (plan_message plan
                              (if status = DLG_COMPLETED then ''completed'' else ''failed'')
                              status err (rp_steps_used report) (rp_tokens_used report)) of
                        Inl exc \<Rightarrow> crashed_result bus plan session effs2 events1 exc
                      | Inr (effs3, events3) \<Rightarrow>
                          (finished_result plan session report status err (events1 @ events3),
                           effs2 @ effs3))))"

definition rejected_result :: "delegation_plan \<Rightarrow> string \<Rightarrow> delegation_result" where
  "rejected_result plan session =
     \<lparr>rs_task_id = pl_task_id plan, rs_agent_id = pl_agent_id plan,
      rs_agent_type = pl_agent_type plan, rs_status = DLG_REJECTED, rs_output = [],
      rs_error = NoError, rs_reason = pl_reason plan, rs_steps_used = None, rs_tokens_used = None,
      rs_usage_reported = False, rs_events = [],
      rs_audit = make_audit plan session DLG_REJECTED (pl_reason plan) NoError None None False None []\<rparr>"

definition delegate ::
    "string \<Rightarrow> (delegation_plan \<Rightarrow> spawn_outcome) \<Rightarrow> dlg_bus option \<Rightarrow> pyval \<Rightarrow> delegation_request
       \<Rightarrow> budget option \<Rightarrow> string \<Rightarrow> string \<Rightarrow> py_error + (delegation_result \<times> dlg_effect list)" where
  "delegate fresh spawn bus parent_capabilities request parent_budget task_id parent_session =
     (let session = (if parent_session = [] then rq_session_id request else parent_session)
      in case plan_delegation fresh parent_capabilities request parent_budget task_id of
           Inl err \<Rightarrow> Inl err
         | Inr plan \<Rightarrow>
             (if pl_status plan \<noteq> DLG_READY then Inr (rejected_result plan session, [])
              else Inr (run_plan spawn bus plan session)))"

section \<open>The default spawn\<close>

text \<open>
  The outcome of \<open>agent_launcher.run_agent\<close> and the report \<open>default_spawn\<close> makes of it;
  \<open>timeout_text\<close> is the printed timeout.
\<close>

record agent_launch =
  la_pid :: "int option"
  la_log_path :: "string option"
  la_error :: "string option"

record agent_run =
  ar_launch :: "agent_launch option"
  ar_error :: string
  ar_timed_out :: bool
  ar_steps_used :: "int option"
  ar_tokens_used :: "int option"
  ar_usage_reported :: bool

definition failed_report :: "string \<Rightarrow> string \<Rightarrow> child_report" where
  "failed_report err lpath =
     \<lparr>rp_status = DLG_FAILED, rp_output = [], rp_error = err, rp_steps_used = None,
      rp_tokens_used = None, rp_pid = None, rp_log_path = lpath, rp_usage_reported = None\<rparr>"

definition default_spawn :: "string \<Rightarrow> agent_run \<Rightarrow> child_report" where
  "default_spawn timeout_text run =
     (let lpath = (case ar_launch run of None \<Rightarrow> [] | Some l \<Rightarrow> dflt [] (la_log_path l));
          pid = (case ar_launch run of None \<Rightarrow> None | Some l \<Rightarrow> la_pid l);
          launch_error = (case ar_launch run of None \<Rightarrow> [] | Some l \<Rightarrow> dflt [] (la_error l))
      in if ar_error run \<noteq> [] then failed_report (ar_error run) lpath
         else if launch_error \<noteq> [] then failed_report launch_error lpath
         else if pid = None then failed_report ''agent script not installed'' lpath
         else if ar_timed_out run then
           (failed_report (''agent timed out after '' @ timeout_text @ ''s'') lpath)
             \<lparr>rp_steps_used := ar_steps_used run, rp_tokens_used := ar_tokens_used run,
              rp_usage_reported := Some (ar_usage_reported run), rp_pid := pid\<rparr>
         else
           \<lparr>rp_status = DLG_COMPLETED, rp_output = ''pid='' @ int_str (the pid), rp_error = [],
            rp_steps_used = ar_steps_used run, rp_tokens_used = ar_tokens_used run, rp_pid = pid,
            rp_log_path = lpath, rp_usage_reported = Some (ar_usage_reported run)\<rparr>)"

section \<open>Facts on plans\<close>

definition valid_budget :: "budget \<Rightarrow> bool" where
  "valid_budget b \<longleftrightarrow> 0 < bg_steps b \<and> 0 < bg_tokens b"

definition budget_le :: "budget \<Rightarrow> budget \<Rightarrow> bool" where
  "budget_le a b \<longleftrightarrow> bg_steps a \<le> bg_steps b \<and> bg_tokens a \<le> bg_tokens b"

lemma make_budget_valid: "make_budget s t = Inr b \<longleftrightarrow> 0 < s \<and> 0 < t \<and> b = \<lparr>bg_steps = s, bg_tokens = t\<rparr>"
  by (auto simp: make_budget_def)

lemma budget_tighten_valid:
  "valid_budget a \<Longrightarrow> valid_budget b \<Longrightarrow>
     budget_tighten a b = Inr \<lparr>bg_steps = min (bg_steps a) (bg_steps b), bg_tokens = min (bg_tokens a) (bg_tokens b)\<rparr>"
  by (simp add: budget_tighten_def make_budget_valid valid_budget_def)

lemma budget_tighten_Inr:
  "budget_tighten a b = Inr c \<Longrightarrow> valid_budget c \<and> budget_le c a \<and> budget_le c b"
  by (auto simp: budget_tighten_def make_budget_valid valid_budget_def budget_le_def)

abbreviation outer_budget :: "budget option \<Rightarrow> budget" where
  "outer_budget pb \<equiv> (case pb of None \<Rightarrow> default_budget | Some b \<Rightarrow> b)"

lemma plan_ready:
  assumes "plan_delegation fresh parent request pb tid = Inr plan" "pl_status plan = DLG_READY"
  obtains pc rc nts where
    "normalise parent = (pc, [])"
    "normalise (case rq_capabilities request of None \<Rightarrow> PNone | Some v \<Rightarrow> v) = (rc, [])"
    "(if rq_capabilities request = None then Inr (pc, []) else child_capabilities pc rc)
       = Inr (pl_capabilities plan, nts)"
    "(case rq_budget request of None \<Rightarrow> Inr (outer_budget pb)
       | Some b \<Rightarrow> budget_tighten b (outer_budget pb)) = Inr (pl_budget plan)"
    "pl_task plan = py_strip (rq_task request)"
proof -
  obtain pc pp where p: "normalise parent = (pc, pp)" by fastforce
  obtain rc rp where r: "normalise (case rq_capabilities request of None \<Rightarrow> PNone | Some v \<Rightarrow> v) = (rc, rp)"
    by fastforce
  define cc where "cc = (if rq_capabilities request = None then Inr (pc, []) else child_capabilities pc rc)"
  define bb where "bb = (case rq_budget request of None \<Rightarrow> Inr (outer_budget pb)
       | Some b \<Rightarrow> budget_tighten b (outer_budget pb))"
  show thesis
  proof (rule that [OF _ _ _ _ _])
    show "normalise parent = (pc, [])"
      using assms p r by (auto simp: plan_delegation_def Let_def denied_plan_def split: if_splits)
    show "normalise (case rq_capabilities request of None \<Rightarrow> PNone | Some v \<Rightarrow> v) = (rc, [])"
      using assms p r by (auto simp: plan_delegation_def Let_def denied_plan_def split: if_splits)
    then have pl: "plan_delegation fresh parent request pb tid = Inr plan \<Longrightarrow> pl_status plan = DLG_READY \<Longrightarrow>
        (\<exists>notes. cc = Inr (pl_capabilities plan, notes)) \<and> bb = Inr (pl_budget plan) \<and>
        pl_task plan = py_strip (rq_task request)"
      using p r unfolding plan_delegation_def Let_def cc_def [symmetric] bb_def [symmetric]
      by (auto simp: denied_plan_def cc_def [symmetric] bb_def [symmetric] split: if_splits sum.splits prod.splits)
    show "(if rq_capabilities request = None then Inr (pc, []) else child_capabilities pc rc)
       = Inr (pl_capabilities plan, snd (projr cc))"
      using pl [OF assms] by (auto simp: cc_def)
    show "(case rq_budget request of None \<Rightarrow> Inr (outer_budget pb)
       | Some b \<Rightarrow> budget_tighten b (outer_budget pb)) = Inr (pl_budget plan)"
      using pl [OF assms] by (simp add: bb_def)
    show "pl_task plan = py_strip (rq_task request)" using pl [OF assms] by simp
  qed
qed

lemma plan_status: "plan_delegation fresh parent request pb tid = Inr plan \<Longrightarrow>
    pl_status plan \<in> {DLG_READY, DLG_REJECTED}"
  by (auto simp: plan_delegation_def Let_def denied_plan_def split: if_splits sum.splits prod.splits)

lemma child_capabilities_Inr:
  assumes "child_capabilities pc rc = Inr (c, notes)"
  shows "cp_tools c = fst (child_tools (cp_tools pc) (cp_tools rc)) \<and> cp_tools c \<noteq> [] \<or>
         cp_tools c = cp_tools pc"
    and "cp_tools c = fst (child_tools (cp_tools pc) (cp_tools rc))"
    and "cp_max_risk c = intersect_risk (cp_max_risk pc) (cp_max_risk rc)"
    and "cp_scope c = cp_scope pc"
    and "cp_expires_at c = child_expiry (cp_expires_at pc) (cp_expires_at rc)"
  using assms by (auto simp: child_capabilities_def Let_def child_tools_def split: if_splits)

lemma child_expiry_le: "py_truthy p \<Longrightarrow> py_str (child_expiry p r) \<le> py_str p"
  by (simp add: child_expiry_def py_str_def)

text \<open>The ceiling as a number: no ceiling is above every level.\<close>

definition ceiling_rank :: "string \<Rightarrow> nat" where
  "ceiling_rank r = (if r = INHERIT then 4 else the (map_of RISK_ORDER r))"

lemma max_risk_cases:
  "r \<in> set MAX_RISK_VALUES \<longleftrightarrow> r = ''inherit'' \<or> r = ''low'' \<or> r = ''medium'' \<or> r = ''high''"
  by (auto simp: MAX_RISK_VALUES_def)

lemma intersect_risk_min:
  assumes "p \<in> set MAX_RISK_VALUES" "q \<in> set MAX_RISK_VALUES"
  shows "ceiling_rank (intersect_risk p q) = min (ceiling_rank p) (ceiling_rank q)"
  using assms unfolding max_risk_cases
  by (elim disjE) (simp_all add: intersect_risk_def ceiling_rank_def INHERIT_def risk_index_def
      MAX_RISK_VALUES_def RISK_ORDER_def)

lemma crashed_status: "rs_status (fst (crashed_result bus plan sess effs evs err)) = DLG_CRASHED"
  by (simp add: crashed_result_def Let_def split: prod.split)

lemma finished_status: "rs_status (finished_result plan sess rep st err evs) = st"
  by (simp add: finished_result_def Let_def)

lemma classify_status:
  "fst (classify plan rep) =
     (if rp_status rep \<noteq> DLG_COMPLETED then DLG_FAILED
      else if (\<exists>n. rp_steps_used rep = Some n \<and> bg_steps (pl_budget plan) < n) \<or>
              (\<exists>n. rp_tokens_used rep = Some n \<and> bg_tokens (pl_budget plan) < n)
        then DLG_BUDGET_EXHAUSTED
      else DLG_COMPLETED)"
  by (auto simp: classify_def Let_def over_budget_def split: option.splits)

lemma run_plan_status: "rs_status (fst (run_plan spawn bus plan sess)) \<noteq> DLG_REJECTED"
proof -
  have "fst (classify plan rep) \<noteq> DLG_REJECTED" for rep by (simp add: classify_status)
  then have "classify plan rep = (st, err) \<Longrightarrow> st \<noteq> DLG_REJECTED" for rep st err by (metis fst_conv)
  then show ?thesis
    by (simp add: run_plan_def Let_def crashed_status finished_status
        split: sum.split prod.split)
qed

section \<open>Properties\<close>

text \<open>The parent and the requests of the witnesses.\<close>

definition demo_parent :: pyval where
  "demo_parent = PDict [(''tools'', PList [PStr ''file.?'', PStr ''git.status'']), (''max_risk'', PStr ''medium'')]"

definition demo_request :: "string list \<Rightarrow> delegation_request" where
  "demo_request tools =
     \<lparr>rq_task = ''fix'', rq_agent_type = ''coder'',
      rq_capabilities = Some (PDict [(''tools'', PList (map PStr tools))]), rq_budget = None,
      rq_session_id = ''s1''\<rparr>"

definition demo_report :: child_report where
  "demo_report = \<lparr>rp_status = DLG_COMPLETED, rp_output = ''ok'', rp_error = [],
     rp_steps_used = Some 21, rp_tokens_used = None, rp_pid = None, rp_log_path = [],
     rp_usage_reported = None\<rparr>"

text \<open>
  A refused delegation is silent: it has status rejected exactly when the plan was
  rejected, and then no child was spawned and no event was sent.
\<close>
theorem delegate_rejected_silent:
  assumes "delegate fresh spawn bus parent request pb tid sess = Inr (r, tr)"
  shows "(rs_status r = DLG_REJECTED \<longleftrightarrow>
      (\<exists>plan. plan_delegation fresh parent request pb tid = Inr plan \<and> pl_status plan = DLG_REJECTED)) \<and>
    (rs_status r = DLG_REJECTED \<longrightarrow> tr = [] \<and> rs_events r = [])"
proof -
  obtain plan where plan: "plan_delegation fresh parent request pb tid = Inr plan"
    using assms by (auto simp: delegate_def Let_def split: sum.splits)
  show ?thesis
  proof (cases "pl_status plan = DLG_READY")
    case True
    then obtain sess' where "(r, tr) = run_plan spawn bus plan sess'"
      using assms plan True by (simp add: delegate_def Let_def) metis
    then have "rs_status r \<noteq> DLG_REJECTED" using run_plan_status by (metis fst_conv)
    then show ?thesis using plan True by simp
  next
    case False
    then show ?thesis
      using assms plan plan_status [OF plan] by (auto simp: delegate_def Let_def rejected_result_def)
  qed
qed

theorem delegate_rejected_silent_witness:
  "\<exists>r. delegate ''u'' (\<lambda>_. SpawnRaises ''x'') None demo_parent (demo_request [''net.get'']) None ''t1'' [] = Inr (r, [])
     \<and> rs_status r = DLG_REJECTED \<and> rs_events r = []"
proof -
  let ?p = "plan_delegation ''u'' demo_parent (demo_request [''net.get'']) None ''t1''"
  have "(case ?p of Inl _ \<Rightarrow> False | Inr p \<Rightarrow> pl_status p = DLG_REJECTED)" by code_simp
  then obtain p where p: "?p = Inr p" "pl_status p = DLG_REJECTED" by (auto split: sum.splits)
  have d: "delegate ''u'' (\<lambda>_. SpawnRaises ''x'') None demo_parent
      (demo_request [''net.get'']) None ''t1'' [] =
      Inr (rejected_result p (rq_session_id (demo_request [''net.get''])), [])"
    unfolding delegate_def by (simp only: p Let_def if_True sum.case) (simp add: p)
  have "rs_status (rejected_result p (rq_session_id (demo_request [''net.get'']))) = DLG_REJECTED"
    by (simp add: rejected_result_def)
  with delegate_rejected_silent [OF d] d show ?thesis by blast
qed

text \<open>
  An accepted delegation over a working bus announces the task, spawns the child once and
  then sends exactly one final event: \<open>completed\<close> for a completed child, \<open>failed\<close> with the
  precise status for every other end, a crash of the child included.
\<close>
theorem delegate_accepted_events:
  assumes "delegate fresh spawn (Some (\<lambda>_. None)) parent request pb tid sess = Inr (r, tr)"
    and "rs_status r \<noteq> DLG_REJECTED"
  shows "\<exists>m1 plan m2. tr = [Sent m1, Spawned plan, Sent m2] \<and> ms_type m1 = ''assigned'' \<and>
    ms_type m2 = (if rs_status r = DLG_COMPLETED then ''completed'' else ''failed'') \<and>
    ms_status m2 = rs_status r \<and> rs_events r = [''task.assigned'', ''task.'' @ ms_type m2]"
proof -
  obtain plan where plan: "plan_delegation fresh parent request pb tid = Inr plan"
    using assms by (auto simp: delegate_def Let_def split: sum.splits)
  show ?thesis
    using assms plan
    by (auto simp: delegate_def Let_def rejected_result_def run_plan_def bus_send_def
        crashed_result_def finished_result_def plan_message_def
        split: if_splits sum.splits prod.splits)
qed

theorem delegate_accepted_events_witness:
  "\<exists>r m1 plan m2. delegate ''u'' (\<lambda>_. SpawnReturns (SpawnReport demo_report)) (Some (\<lambda>_. None)) demo_parent
      (demo_request [''git.status'']) None ''t1'' [] = Inr (r, [Sent m1, Spawned plan, Sent m2]) \<and>
     ms_type m2 = ''failed'' \<and> ms_status m2 = DLG_BUDGET_EXHAUSTED"
proof -
  let ?d = "delegate ''u'' (\<lambda>_. SpawnReturns (SpawnReport demo_report)) (Some (\<lambda>_. None)) demo_parent
      (demo_request [''git.status'']) None ''t1'' []"
  have "(case ?d of Inl _ \<Rightarrow> False | Inr (r, tr) \<Rightarrow> rs_status r = DLG_BUDGET_EXHAUSTED)" by code_simp
  then obtain r tr where d: "?d = Inr (r, tr)" and s: "rs_status r = DLG_BUDGET_EXHAUSTED"
    by (auto split: sum.splits)
  from delegate_accepted_events [OF d] s show ?thesis unfolding d by auto
qed

text \<open>
  \<open>delegate\<close> raises only for a blank task: with budgets that satisfy the constructor's
  check, every other failure (of the spawn, of the report's shape, of the bus) is a result.
\<close>
theorem delegate_raises_only_blank_task:
  assumes "case pb of None \<Rightarrow> True | Some b \<Rightarrow> valid_budget b"
    and "case rq_budget request of None \<Rightarrow> True | Some b \<Rightarrow> valid_budget b"
  shows "delegate fresh spawn bus parent request pb tid sess = Inl e \<longleftrightarrow>
    py_strip (rq_task request) = [] \<and> e = ValueError"
proof -
  have v: "valid_budget (outer_budget pb)"
    using assms(1) by (auto simp: valid_budget_def default_budget_def split: option.splits)
  have "plan_delegation fresh parent request pb tid = Inl e \<longleftrightarrow> py_strip (rq_task request) = [] \<and> e = ValueError"
    using assms(2) budget_tighten_valid [OF _ v]
    by (auto simp: plan_delegation_def Let_def split: prod.splits sum.splits option.splits if_splits)
  then show ?thesis by (auto simp: delegate_def Let_def split: sum.splits)
qed

theorem delegate_raises_only_blank_task_witness:
  "delegate ''u'' (\<lambda>_. SpawnRaises ''x'') None demo_parent
     ((demo_request [])\<lparr>rq_task := ''  ''\<rparr>) None ''t1'' [] = Inl ValueError"
  using delegate_raises_only_blank_task [of None "(demo_request [])\<lparr>rq_task := ''  ''\<rparr>" "''u''"
      "\<lambda>_. SpawnRaises ''x''" None demo_parent "''t1''" "[]" ValueError]
  by (simp add: demo_request_def py_strip_def py_lstrip_def py_rstrip_def py_is_space_def)

text \<open>
  C22: A plan that is accepted keeps the parent's limits.  Both budget limits are at most the
  parent's and at most the requested ones.  Without requested capabilities the child has the
  parent's block unchanged.  With them its risk ceiling is the stricter of the two blocks, its
  scope is the parent's, an expiry of the parent is not moved to a later text, and its tools
  are the parent's, for a request of \<open>*\<close>, or exactly those requested entries that the
  parent's whitelist allows as names.  An entry with a wildcard in it may be such a name and
  still allow calls the parent may not make: that is \<open>wildcard_request_escapes\<close> below.
\<close>
theorem plan_within_parent:
  assumes plan: "plan_delegation fresh parent request pb tid = Inr plan" "pl_status plan = DLG_READY"
  shows "budget_le (pl_budget plan) (outer_budget pb) \<and>
    (case rq_budget request of None \<Rightarrow> True | Some b \<Rightarrow> budget_le (pl_budget plan) b) \<and>
    (\<exists>pc. normalise parent = (pc, []) \<and>
      (case rq_capabilities request of
         None \<Rightarrow> pl_capabilities plan = pc
       | Some v \<Rightarrow> (\<exists>rc. normalise v = (rc, []) \<and>
           ceiling_rank (cp_max_risk (pl_capabilities plan)) =
             min (ceiling_rank (cp_max_risk pc)) (ceiling_rank (cp_max_risk rc)) \<and>
           cp_scope (pl_capabilities plan) = cp_scope pc \<and>
           (py_truthy (cp_expires_at pc) \<longrightarrow>
             py_str (cp_expires_at (pl_capabilities plan)) \<le> py_str (cp_expires_at pc)) \<and>
           cp_tools (pl_capabilities plan) =
             (if ''*'' \<in> set (cp_tools rc) then cp_tools pc
              else filter (\<lambda>t. tool_allowed t (cp_tools pc)) (cp_tools rc)))))"
proof -
  obtain pc rc nts where pc: "normalise parent = (pc, [])"
    and rc: "normalise (case rq_capabilities request of None \<Rightarrow> PNone | Some v \<Rightarrow> v) = (rc, [])"
    and c: "(if rq_capabilities request = None then Inr (pc, []) else child_capabilities pc rc)
       = Inr (pl_capabilities plan, nts)"
    and b: "(case rq_budget request of None \<Rightarrow> Inr (outer_budget pb)
       | Some b \<Rightarrow> budget_tighten b (outer_budget pb)) = Inr (pl_budget plan)"
    using plan_ready [OF plan] by metis
  have budget: "budget_le (pl_budget plan) (outer_budget pb)"
      "case rq_budget request of None \<Rightarrow> True | Some b \<Rightarrow> budget_le (pl_budget plan) b"
    using b budget_tighten_Inr by (auto simp: budget_le_def split: option.splits)
  show ?thesis
  proof (cases "rq_capabilities request")
    case None
    then show ?thesis using budget pc c by simp
  next
    case (Some v)
    then have v: "normalise v = (rc, [])" and k: "child_capabilities pc rc = Inr (pl_capabilities plan, nts)"
      using rc c by simp_all
    have "cp_max_risk pc \<in> set MAX_RISK_VALUES" "cp_max_risk rc \<in> set MAX_RISK_VALUES"
      using normalise_max_risk [of parent] normalise_max_risk [of v] pc v by simp_all
    from intersect_risk_min [OF this] show ?thesis
      using budget pc v child_capabilities_Inr(2-5) [OF k] by (simp add: Some child_tools_def child_expiry_le)
  qed
qed

theorem plan_within_parent_witness:
  "\<exists>plan. plan_delegation ''u'' demo_parent (demo_request [''git.status'', ''net.get'']) None ''t1'' = Inr plan \<and>
     budget_le (pl_budget plan) default_budget \<and> ceiling_rank (cp_max_risk (pl_capabilities plan)) = 1 \<and>
     cp_tools (pl_capabilities plan) = [''git.status'']"
proof -
  let ?p = "plan_delegation ''u'' demo_parent (demo_request [''git.status'', ''net.get'']) None ''t1''"
  have "(case ?p of Inl _ \<Rightarrow> False | Inr p \<Rightarrow> pl_status p = DLG_READY)" by code_simp
  then obtain p where p: "?p = Inr p" "pl_status p = DLG_READY" by (auto split: sum.splits)
  have pc: "normalise demo_parent = (\<lparr>cp_tools = [''file.?'', ''git.status''], cp_max_risk = ''medium'',
      cp_expires_at = PNone, cp_scope = []\<rparr>, [])" by code_simp
  have v: "rq_capabilities (demo_request [''git.status'', ''net.get'']) =
      Some (PDict [(''tools'', PList [PStr ''git.status'', PStr ''net.get''])])"
    by (simp add: demo_request_def)
  have rc: "normalise (PDict [(''tools'', PList [PStr ''git.status'', PStr ''net.get''])]) =
      (\<lparr>cp_tools = [''git.status'', ''net.get''], cp_max_risk = ''inherit'', cp_expires_at = PNone, cp_scope = []\<rparr>, [])"
    by code_simp
  have "min (ceiling_rank ''medium'') (ceiling_rank ''inherit'') = 1"
    "filter (\<lambda>t. tool_allowed t [''file.?'', ''git.status'']) [''git.status'', ''net.get''] = [''git.status'']"
    by code_simp+
  with plan_within_parent [OF p] p show ?thesis by (simp add: pc v rc del: filter.simps tool_allowed.simps)
qed

text \<open>
  For requests that name tools literally (no wildcard, with a dot) the child's whitelist
  lies inside the parent's: every call that it lets through, the parent may make.
\<close>
theorem literal_requests_tighten:
  assumes plan: "plan_delegation fresh parent request pb tid = Inr plan" "pl_status plan = DLG_READY"
    and pc: "normalise parent = (pc, [])"
    and rq: "rq_capabilities request = Some v" "normalise v = (rc, [])"
    and lit: "\<forall>t \<in> set (cp_tools rc). glob_free t \<and> CHR ''.'' \<in> set t \<and> py_strip t = t"
    and call: "tool_allowed name (cp_tools (pl_capabilities plan))"
  shows "tool_allowed name (cp_tools pc)"
proof -
  obtain nts where c: "child_capabilities pc rc = Inr (pl_capabilities plan, nts)"
    using plan_ready [OF plan] pc rq by (metis (no_types, lifting) option.case(2) option.distinct(1) prod.inject)
  have "''*'' \<notin> set (cp_tools rc)" using lit by (auto simp: glob_free_def)
  then have t: "cp_tools (pl_capabilities plan) = filter (\<lambda>t. tool_allowed t (cp_tools pc)) (cp_tools rc)"
    using child_capabilities_Inr(2) [OF c] by (simp add: child_tools_def)
  with call obtain t where t: "t \<in> set (cp_tools rc)" "tool_allowed t (cp_tools pc)" "pattern_allows name t"
    by (auto simp: tool_allowed_ex [of name])
  with lit have "name = t"
    by (auto simp: pattern_allows_def Let_def fnmatch_free glob_free_def)
  with t show ?thesis by simp
qed

theorem literal_requests_tighten_witness:
  "tool_allowed ''git.status'' [''file.?'', ''git.status'']"
proof -
  let ?p = "plan_delegation ''u'' demo_parent (demo_request [''git.status'']) None ''t1''"
  have "(case ?p of Inl _ \<Rightarrow> False | Inr p \<Rightarrow> pl_status p = DLG_READY \<and>
      tool_allowed ''git.status'' (cp_tools (pl_capabilities p)))" by code_simp
  then obtain p where p: "?p = Inr p" "pl_status p = DLG_READY"
    and a: "tool_allowed ''git.status'' (cp_tools (pl_capabilities p))" by (auto split: sum.splits)
  have pc: "normalise demo_parent = (\<lparr>cp_tools = [''file.?'', ''git.status''], cp_max_risk = ''medium'',
      cp_expires_at = PNone, cp_scope = []\<rparr>, [])" by code_simp
  have v: "rq_capabilities (demo_request [''git.status'']) = Some (PDict [(''tools'', PList [PStr ''git.status''])])"
    by (simp add: demo_request_def)
  have rc: "normalise (PDict [(''tools'', PList [PStr ''git.status''])]) = (\<lparr>cp_tools = [''git.status''],
      cp_max_risk = ''inherit'', cp_expires_at = PNone, cp_scope = []\<rparr>, [])" by code_simp
  have "py_strip ''git.status'' = ''git.status''" by code_simp
  then have "\<forall>t \<in> set [''git.status'']. glob_free t \<and> CHR ''.'' \<in> set t \<and> py_strip t = t"
    by (simp add: glob_free_def)
  with literal_requests_tighten [OF p pc v rc _ a] show ?thesis by simp
qed

text \<open>
  A wildcard request can escape the parent: the parent may use the tools that match
  \<open>file.?\<close>, a request for \<open>file.*\<close> is accepted unchanged (as text it matches the parent's
  pattern), and the child may then call \<open>file.read\<close>, which the parent may not.
\<close>
theorem wildcard_request_escapes:
  "\<exists>plan. plan_delegation fresh demo_parent (demo_request [''file.*'']) None ''t1'' = Inr plan \<and>
     pl_status plan = DLG_READY \<and> tool_allowed ''file.read'' (cp_tools (pl_capabilities plan)) \<and>
     \<not> tool_allowed ''file.read'' (cp_tools (fst (normalise demo_parent)))"
proof -
  let ?p = "plan_delegation ''u'' demo_parent (demo_request [''file.*'']) None ''t1''"
  have f: "plan_delegation fresh demo_parent (demo_request [''file.*'']) None ''t1'' = ?p"
    by (simp add: plan_delegation_def)
  have "(case ?p of Inl _ \<Rightarrow> False | Inr p \<Rightarrow> pl_status p = DLG_READY \<and>
      tool_allowed ''file.read'' (cp_tools (pl_capabilities p)) \<and>
      \<not> tool_allowed ''file.read'' (cp_tools (fst (normalise demo_parent))))" by code_simp
  then show ?thesis unfolding f by (auto split: sum.splits)
qed

text \<open>
  The status of an accepted delegation over a bus that works (or without one): crashed
  when the spawn raises or returns neither a report nor a dict, failed when the child reports
  anything but completed, budget exhausted when a reported use exceeds its limit, else completed.
\<close>
theorem delegate_classification:
  assumes "bus = None \<or> bus = Some (\<lambda>_. None)"
  shows "rs_status (fst (run_plan spawn bus plan sess)) =
    (case spawn plan of
       SpawnRaises _ \<Rightarrow> DLG_CRASHED
     | SpawnReturns v \<Rightarrow>
         (case coerce_report v of
            Inl _ \<Rightarrow> DLG_CRASHED
          | Inr rep \<Rightarrow>
              if rp_status rep \<noteq> DLG_COMPLETED then DLG_FAILED
              else if (\<exists>n. rp_steps_used rep = Some n \<and> bg_steps (pl_budget plan) < n) \<or>
                      (\<exists>n. rp_tokens_used rep = Some n \<and> bg_tokens (pl_budget plan) < n)
                then DLG_BUDGET_EXHAUSTED
              else DLG_COMPLETED))"
proof -
  have sends: "\<exists>e n. bus_send bus m = Inr (e, n)" for m
    using assms by (auto simp: bus_send_def)
  obtain e1 n1 where s1: "bus_send bus (plan_message plan ''assigned'' DLG_READY NoError None None) = Inr (e1, n1)"
    using sends by blast
  show ?thesis
  proof (cases "spawn plan")
    case (SpawnReturns v)
    show ?thesis
    proof (cases "coerce_report v")
      case (Inr rep)
      obtain st err where c: "classify plan rep = (st, err)" by fastforce
      obtain e2 n2 where s2: "bus_send bus (plan_message plan
          (if st = DLG_COMPLETED then ''completed'' else ''failed'') st err (rp_steps_used rep)
          (rp_tokens_used rep)) = Inr (e2, n2)"
        using sends by blast
      have "rs_status (fst (run_plan spawn bus plan sess)) = st"
        using SpawnReturns Inr c by (simp add: run_plan_def s1 s2 finished_status)
      then show ?thesis using SpawnReturns Inr classify_status [of plan rep] c by simp
    qed (simp add: SpawnReturns run_plan_def s1 crashed_status)
  qed (simp add: run_plan_def s1 crashed_status)
qed

theorem delegate_classification_witness:
  "rs_status (fst (run_plan (\<lambda>_. SpawnReturns (SpawnReport demo_report)) None
     \<lparr>pl_task_id = ''t'', pl_agent_id = ''a'', pl_agent_type = ''c'', pl_task = ''x'',
      pl_capabilities = \<lparr>cp_tools = [], cp_max_risk = [], cp_expires_at = PNone, cp_scope = []\<rparr>,
      pl_budget = default_budget, pl_status = DLG_READY, pl_reason = NoReason,
      pl_tightenings = []\<rparr> ''s'')) = DLG_BUDGET_EXHAUSTED"
  by (subst delegate_classification) (simp_all add: coerce_report_def demo_report_def default_budget_def)

end
