(* ===== verification/Approvals.thy ===== *)
theory Approvals
  imports Models
begin

text \<open>
  The one-shot approval requests of \<open>approvals.py\<close>: records, the store as a directory of
  files, and its operations.  There are two clocks, as in the code: \<open>clk\<close> is the injected
  clock, \<open>wall\<close> is \<open>time.time()\<close>.  Writing a file always succeeds in the model; reading
  one may find it missing, unreadable or not a JSON object.  The conversion of a text to a
  float is the parameter \<open>float_of\<close>.
\<close>

definition STATUS_PENDING :: string where "STATUS_PENDING = ''pending''"
definition STATUS_APPROVED :: string where "STATUS_APPROVED = ''approved''"
definition STATUS_DENIED :: string where "STATUS_DENIED = ''denied''"
definition STATUS_EXPIRED :: string where "STATUS_EXPIRED = ''expired''"
definition STATUS_CONSUMED :: string where "STATUS_CONSUMED = ''consumed''"

lemmas status_defs =
  STATUS_PENDING_def STATUS_APPROVED_def STATUS_DENIED_def STATUS_EXPIRED_def STATUS_CONSUMED_def

definition DEFAULT_TTL_SECONDS :: time where "DEFAULT_TTL_SECONDS = 300"

record approval =
  ap_id :: string
  ap_agent_id :: string
  ap_tool :: string
  ap_command :: string
  ap_cwd :: string
  ap_risk_level :: string
  ap_reason :: string
  ap_created_at :: time
  ap_expires_at :: time
  ap_status :: string
  ap_decided_at :: time
  ap_decided_by :: string
  ap_used_at :: time

definition is_expired :: "time \<Rightarrow> approval \<Rightarrow> bool" where
  "is_expired now r \<longleftrightarrow> (if ap_status r \<noteq> STATUS_PENDING then False else now \<ge> ap_expires_at r)"

text \<open>
  A stored object: for each known field its value, when the key is present.  Every field but
  \<open>id\<close> has a default; without \<open>id\<close> the constructor raises \<open>TypeError\<close>.
\<close>

record approval_dict =
  ad_id :: "string option"
  ad_text :: "(string, string) dict"
  ad_time :: "(string, time) dict"

definition ad_get :: "(string, 'v) dict \<Rightarrow> string \<Rightarrow> 'v \<Rightarrow> 'v" where
  "ad_get d k v0 = (case map_of d k of None \<Rightarrow> v0 | Some v \<Rightarrow> v)"

definition from_dict :: "approval_dict \<Rightarrow> approval option" where
  "from_dict d =
     (case ad_id d of
        None \<Rightarrow> None
      | Some rid \<Rightarrow> Some
     \<lparr>ap_id = rid, ap_agent_id = ad_get (ad_text d) ''agent_id'' [],
      ap_tool = ad_get (ad_text d) ''tool'' [], ap_command = ad_get (ad_text d) ''command'' [],
      ap_cwd = ad_get (ad_text d) ''cwd'' [], ap_risk_level = ad_get (ad_text d) ''risk_level'' [],
      ap_reason = ad_get (ad_text d) ''reason'' [],
      ap_created_at = ad_get (ad_time d) ''created_at'' 0,
      ap_expires_at = ad_get (ad_time d) ''expires_at'' 0,
      ap_status = ad_get (ad_text d) ''status'' STATUS_PENDING,
      ap_decided_at = ad_get (ad_time d) ''decided_at'' 0,
      ap_decided_by = ad_get (ad_text d) ''decided_by'' [],
      ap_used_at = ad_get (ad_time d) ''used_at'' 0\<rparr>)"

definition to_dict :: "approval \<Rightarrow> approval_dict" where
  "to_dict r =
     \<lparr>ad_id = Some (ap_id r),
      ad_text = [(''agent_id'', ap_agent_id r), (''tool'', ap_tool r), (''command'', ap_command r),
        (''cwd'', ap_cwd r), (''risk_level'', ap_risk_level r), (''reason'', ap_reason r),
        (''status'', ap_status r), (''decided_by'', ap_decided_by r)],
      ad_time = [(''created_at'', ap_created_at r), (''expires_at'', ap_expires_at r),
        (''decided_at'', ap_decided_at r), (''used_at'', ap_used_at r)]\<rparr>"

lemma from_to_dict [simp]: "from_dict (to_dict r) = Some r"
  by (simp add: from_dict_def to_dict_def ad_get_def)

lemma from_dict_id: "from_dict d = Some r \<Longrightarrow> ad_id d = Some (ap_id r)"
  by (auto simp: from_dict_def split: option.splits)

section \<open>Declarative allow rules\<close>

text \<open>
  One rule on one call: \<^const>\<open>None\<close> where \<open>startswith\<close> raises because the rule's
  \<open>cwd\<close> is no string.
\<close>

definition rule_matches :: "string \<Rightarrow> string \<Rightarrow> (string, pyval) dict \<Rightarrow> bool option" where
  "rule_matches tool cwd rule =
     (let rule_tool = py_or (pget_default rule ''tool'' (PStr [])) (PStr [])
      in if py_truthy rule_tool \<and> rule_tool \<noteq> PStr tool then Some False
         else (case pget_default rule ''cwd'' (PStr []) of
                 PStr p \<Rightarrow> Some (prefix p cwd)
               | _ \<Rightarrow> None))"

fun match_rule_list :: "string \<Rightarrow> string \<Rightarrow> pyval list \<Rightarrow> bool" where
  "match_rule_list tool cwd [] = False"
| "match_rule_list tool cwd (PDict rule # rules) =
     (case rule_matches tool cwd rule of
        None \<Rightarrow> False
      | Some True \<Rightarrow> True
      | Some False \<Rightarrow> match_rule_list tool cwd rules)"
| "match_rule_list tool cwd (_ # rules) = match_rule_list tool cwd rules"

definition match_allow_rules :: "pyval \<Rightarrow> string \<Rightarrow> string \<Rightarrow> bool" where
  "match_allow_rules rules tool cwd =
     (case rules of PList rs \<Rightarrow> match_rule_list tool cwd rs | _ \<Rightarrow> False)"

definition is_dict :: "pyval \<Rightarrow> bool" where
  "is_dict v = (case v of PDict _ \<Rightarrow> True | _ \<Rightarrow> False)"

text \<open>
  \<open>load_allow_rules\<close> on the value of the configuration key (\<^const>\<open>None\<close> when reading the
  configuration raises), and \<open>preauthorized\<close>.
\<close>

definition load_allow_rules :: "pyval option \<Rightarrow> pyval list" where
  "load_allow_rules raw = (case raw of Some (PList rs) \<Rightarrow> filter is_dict rs | _ \<Rightarrow> [])"

definition preauthorized :: "pyval option \<Rightarrow> string \<Rightarrow> string \<Rightarrow> bool" where
  "preauthorized raw tool cwd = match_allow_rules (PList (load_allow_rules raw)) tool cwd"

section \<open>The store\<close>

datatype file_content = BadFile | NotADict | JsonDict approval_dict

record approval_store =
  st_files :: "(string, file_content) dict" \<comment> \<open>by request id: the file \<open><id>.json\<close>\<close>
  st_claims :: "string list" \<comment> \<open>digests that have a file under \<open>claims/\<close>\<close>

text \<open>\<open>_read\<close>: a missing or unreadable file gives no record, an object without \<open>id\<close> raises.\<close>

definition read_record :: "approval_store \<Rightarrow> string \<Rightarrow> py_error + approval option" where
  "read_record st rid =
     (case map_of (st_files st) rid of
        Some (JsonDict d) \<Rightarrow> (case from_dict d of None \<Rightarrow> Inl TypeError | Some r \<Rightarrow> Inr (Some r))
      | _ \<Rightarrow> Inr None)"

definition write_record :: "approval \<Rightarrow> approval_store \<Rightarrow> approval_store" where
  "write_record r st = st\<lparr>st_files := AList.update (ap_id r) (JsonDict (to_dict r)) (st_files st)\<rparr>"

fun parse_ttl :: "(string \<Rightarrow> time option) \<Rightarrow> pyval list \<Rightarrow> time" where
  "parse_ttl float_of [] = DEFAULT_TTL_SECONDS"
| "parse_ttl float_of (raw # raws) =
     (if raw = PNone then parse_ttl float_of raws
      else (case to_float float_of raw of
              None \<Rightarrow> parse_ttl float_of raws
            | Some value \<Rightarrow> if value > 0 then value else parse_ttl float_of raws))"

text \<open>The sources of a time to live, in order: argument, environment, configuration, default.\<close>

record ttl_sources =
  ttl_arg :: pyval
  ttl_env :: pyval
  ttl_config :: pyval
  ttl_default :: pyval

definition request_ttl :: "(string \<Rightarrow> time option) \<Rightarrow> ttl_sources \<Rightarrow> time" where
  "request_ttl float_of t = parse_ttl float_of [ttl_arg t, ttl_env t, ttl_config t, ttl_default t]"

record approval_call =
  rc_agent_id :: string
  rc_tool :: string
  rc_command :: string
  rc_cwd :: string
  rc_risk_level :: string
  rc_reason :: string

definition ap_request ::
    "(string \<Rightarrow> time option) \<Rightarrow> time \<Rightarrow> string \<Rightarrow> ttl_sources \<Rightarrow> approval_call \<Rightarrow> approval_store
       \<Rightarrow> approval \<times> approval_store" where
  "ap_request float_of clk fresh ttl c st =
     (let r = \<lparr>ap_id = fresh, ap_agent_id = rc_agent_id c, ap_tool = rc_tool c,
               ap_command = rc_command c, ap_cwd = rc_cwd c, ap_risk_level = rc_risk_level c,
               ap_reason = rc_reason c, ap_created_at = clk,
               ap_expires_at = clk + request_ttl float_of ttl, ap_status = STATUS_PENDING,
               ap_decided_at = 0, ap_decided_by = [], ap_used_at = 0\<rparr>
      in (r, write_record r st))"

type_synonym lookup = "py_error + approval option"

definition mark_expired :: "approval \<Rightarrow> approval" where
  "mark_expired r = r\<lparr>ap_status := STATUS_EXPIRED\<rparr>"

definition ap_get :: "time \<Rightarrow> string \<Rightarrow> approval_store \<Rightarrow> lookup \<times> approval_store" where
  "ap_get wall rid st =
     (case read_record st rid of
        Inl e \<Rightarrow> (Inl e, st)
      | Inr None \<Rightarrow> (Inr None, st)
      | Inr (Some r) \<Rightarrow>
          if is_expired wall r
          then (Inr (Some (mark_expired r)), write_record (mark_expired r) st)
          else (Inr (Some r), st))"

definition ap_decide ::
    "time \<Rightarrow> time \<Rightarrow> string \<Rightarrow> bool \<Rightarrow> string \<Rightarrow> approval_store \<Rightarrow> lookup \<times> approval_store" where
  "ap_decide wall clk rid approved decided_by st =
     (case read_record st rid of
        Inl e \<Rightarrow> (Inl e, st)
      | Inr None \<Rightarrow> (Inr None, st)
      | Inr (Some r) \<Rightarrow>
          if is_expired wall r
          then (Inr (Some (mark_expired r)), write_record (mark_expired r) st)
          else if ap_status r \<noteq> STATUS_PENDING then (Inr (Some r), st)
          else
            (let r' = r\<lparr>ap_status := (if approved then STATUS_APPROVED else STATUS_DENIED),
                        ap_decided_at := clk, ap_decided_by := decided_by\<rparr>
             in (Inr (Some r'), write_record r' st)))"

definition ap_consume :: "time \<Rightarrow> time \<Rightarrow> string \<Rightarrow> approval_store \<Rightarrow> lookup \<times> approval_store" where
  "ap_consume wall clk rid st =
     (case read_record st rid of
        Inl e \<Rightarrow> (Inl e, st)
      | Inr None \<Rightarrow> (Inr None, st)
      | Inr (Some r) \<Rightarrow>
          if is_expired wall r
          then (Inr (Some (mark_expired r)), write_record (mark_expired r) st)
          else if ap_status r \<noteq> STATUS_APPROVED then (Inr (Some r), st)
          else if ap_used_at r \<noteq> 0
          then (let r' = r\<lparr>ap_status := STATUS_CONSUMED\<rparr> in (Inr (Some r'), write_record r' st))
          else
            (let r' = r\<lparr>ap_used_at := clk, ap_status := STATUS_CONSUMED\<rparr>
             in (Inr (Some r'), write_record r' st)))"

text \<open>
  \<open>list_pending\<close> reads the files in the order of their names; an object without \<open>id\<close>
  raises, after the files before it were rewritten.
\<close>

fun scan_pending ::
    "time \<Rightarrow> file_content list \<Rightarrow> approval_store \<Rightarrow> (py_error + approval list) \<times> approval_store" where
  "scan_pending wall [] st = (Inr [], st)"
| "scan_pending wall (f # fs) st =
     (case f of
        JsonDict d \<Rightarrow>
          (case from_dict d of
             None \<Rightarrow> (Inl TypeError, st)
           | Some r \<Rightarrow>
               if ap_status r \<noteq> STATUS_PENDING then scan_pending wall fs st
               else if is_expired wall r
               then scan_pending wall fs (write_record (mark_expired r) st)
               else (case scan_pending wall fs st of
                       (Inl e, st') \<Rightarrow> (Inl e, st')
                     | (Inr rs, st') \<Rightarrow> (Inr (r # rs), st')))
      | _ \<Rightarrow> scan_pending wall fs st)"

definition list_pending :: "time \<Rightarrow> approval_store \<Rightarrow> (py_error + approval list) \<times> approval_store" where
  "list_pending wall st =
     scan_pending wall (map snd (sort_key (\<lambda>(rid, _). rid @ ''.json'') (st_files st))) st"

text \<open>
  \<open>claim_once\<close>: \<open>digest\<close> is the hash of the key, \<open>writable\<close> says whether the file can be
  created when it does not exist.
\<close>

definition claim_once ::
    "(string \<Rightarrow> string) \<Rightarrow> bool \<Rightarrow> string \<Rightarrow> approval_store \<Rightarrow> bool \<times> approval_store" where
  "claim_once digest writable key st =
     (if key = [] then (False, st)
      else if digest key \<in> set (st_claims st) then (False, st)
      else if \<not> writable then (False, st)
      else (True, st\<lparr>st_claims := st_claims st @ [digest key]\<rparr>))"

section \<open>Steps\<close>

datatype ap_op =
    OpGet time string
  | OpDecide time time string bool string
  | OpConsume time time string
  | OpList time
  | OpClaim "string \<Rightarrow> string" bool string

fun ap_step :: "ap_op \<Rightarrow> approval_store \<Rightarrow> approval_store" where
  "ap_step (OpGet wall rid) st = snd (ap_get wall rid st)"
| "ap_step (OpDecide wall clk rid b who) st = snd (ap_decide wall clk rid b who st)"
| "ap_step (OpConsume wall clk rid) st = snd (ap_consume wall clk rid st)"
| "ap_step (OpList wall) st = snd (list_pending wall st)"
| "ap_step (OpClaim digest w key) st = snd (claim_once digest w key st)"

text \<open>Every file holds the record it is named after.\<close>

definition store_inv :: "approval_store \<Rightarrow> bool" where
  "store_inv st \<longleftrightarrow> distinct (map fst (st_files st)) \<and>
     (\<forall>rid d. map_of (st_files st) rid = Some (JsonDict d) \<longrightarrow> ad_id d = None \<or> ad_id d = Some rid)"

text \<open>
  How one operation at the time \<open>now\<close> may change what is stored under an identifier: the life
  cycle of a request.  A pending request is decided before its expiry or expires after it; an
  approved one is consumed.  All other fields stay as they are.
\<close>

inductive record_next :: "time \<Rightarrow> lookup \<Rightarrow> lookup \<Rightarrow> bool" for now where
  same: "record_next now x x"
| decided: "ap_status r = STATUS_PENDING \<Longrightarrow> now < ap_expires_at r \<Longrightarrow>
     s = STATUS_APPROVED \<or> s = STATUS_DENIED \<Longrightarrow>
     record_next now (Inr (Some r))
       (Inr (Some (r\<lparr>ap_status := s, ap_decided_at := t, ap_decided_by := who\<rparr>)))"
| expired: "ap_status r = STATUS_PENDING \<Longrightarrow> ap_expires_at r \<le> now \<Longrightarrow>
     record_next now (Inr (Some r)) (Inr (Some (r\<lparr>ap_status := STATUS_EXPIRED\<rparr>)))"
| consumed: "ap_status r = STATUS_APPROVED \<Longrightarrow> u = ap_used_at r \<or> ap_used_at r = 0 \<Longrightarrow>
     record_next now (Inr (Some r))
       (Inr (Some (r\<lparr>ap_used_at := u, ap_status := STATUS_CONSUMED\<rparr>)))"

inductive_simps record_next_from: "record_next now x y"

definition op_time :: "ap_op \<Rightarrow> time" where
  "op_time op = (case op of OpGet wall _ \<Rightarrow> wall | OpDecide wall _ _ _ _ \<Rightarrow> wall | OpConsume wall _ _ \<Rightarrow> wall
     | OpList wall \<Rightarrow> wall | OpClaim _ _ _ \<Rightarrow> 0)"

lemma read_write [simp]:
  "read_record (write_record r st) rid = (if rid = ap_id r then Inr (Some r) else read_record st rid)"
  by (simp add: read_record_def write_record_def map_of_update)

lemma read_claims [simp]: "read_record (st\<lparr>st_claims := cs\<rparr>) rid = read_record st rid"
  by (simp add: read_record_def)

lemma store_inv_id: "store_inv st \<Longrightarrow> read_record st rid = Inr (Some r) \<Longrightarrow> ap_id r = rid"
  by (fastforce simp: store_inv_def read_record_def split: option.splits file_content.splits
      dest: from_dict_id)

lemma store_inv_write: "store_inv st \<Longrightarrow> store_inv (write_record r st)"
  by (auto simp: store_inv_def write_record_def map_of_update to_dict_def distinct_keys_update
      split: if_splits)

lemma store_inv_claims [simp]: "store_inv (st\<lparr>st_claims := cs\<rparr>) = store_inv st"
  by (simp add: store_inv_def)

lemma scan_pending_store:
  "store_inv st \<Longrightarrow> store_inv (snd (scan_pending wall fs st))"
  by (induction wall fs st rule: scan_pending.induct)
    (auto simp: store_inv_write split: file_content.splits prod.splits option.splits sum.splits)

lemma store_inv_step: "store_inv st \<Longrightarrow> store_inv (ap_step op st)"
  by (cases op)
    (auto simp: ap_get_def ap_decide_def ap_consume_def list_pending_def claim_once_def Let_def
      store_inv_write scan_pending_store split: option.splits sum.splits)

lemma is_expired_pending: "is_expired wall r \<Longrightarrow> ap_status r = STATUS_PENDING"
  by (simp add: is_expired_def split: if_splits)

lemma mark_expired_simps [simp]:
  "ap_status (mark_expired r) = STATUS_EXPIRED" "ap_id (mark_expired r) = ap_id r"
  by (simp_all add: mark_expired_def)

lemma consumed_used:
  "ap_status r = STATUS_APPROVED \<Longrightarrow>
   record_next wall (Inr (Some r)) (Inr (Some (r\<lparr>ap_status := STATUS_CONSUMED\<rparr>)))"
  using consumed [of r "ap_used_at r" wall] by simp

lemma next_expired:
  "is_expired wall r \<Longrightarrow> record_next wall (Inr (Some r)) (Inr (Some (mark_expired r)))"
  unfolding mark_expired_def by (rule record_next.expired) (simp_all add: is_expired_def split: if_splits)

text \<open>The files still to be read are on disk as they were when the scan began.\<close>

fun file_records :: "file_content list \<Rightarrow> approval list" where
  "file_records [] = []"
| "file_records (f # fs) =
     (case f of
        JsonDict d \<Rightarrow> (case from_dict d of None \<Rightarrow> file_records fs | Some r \<Rightarrow> r # file_records fs)
      | _ \<Rightarrow> file_records fs)"

definition scan_fresh :: "file_content list \<Rightarrow> approval_store \<Rightarrow> bool" where
  "scan_fresh fs st \<longleftrightarrow> distinct (map ap_id (file_records fs)) \<and>
     (\<forall>r \<in> set (file_records fs). read_record st (ap_id r) = Inr (Some r))"

lemma scan_store_Cons:
  "from_dict d = Some r \<Longrightarrow>
   snd (scan_pending wall (JsonDict d # fs) st) =
     snd (scan_pending wall fs (if is_expired wall r then write_record (mark_expired r) st else st))"
  by (simp add: is_expired_pending split: prod.split sum.split)

lemma scan_store_raise: "from_dict d = None \<Longrightarrow> snd (scan_pending wall (JsonDict d # fs) st) = st"
  by simp

lemma scan_pending_kept:
  "rid \<notin> ap_id ` set (file_records fs) \<Longrightarrow>
   read_record (snd (scan_pending wall fs st)) rid = read_record st rid"
proof (induction fs arbitrary: st)
  case (Cons f fs)
  show ?case
  proof (cases "\<exists>d r. f = JsonDict d \<and> from_dict d = Some r")
    case True
    then obtain d r where f: "f = JsonDict d" and r: "from_dict d = Some r" by blast
    from Cons.prems have "rid \<notin> ap_id ` set (file_records fs)" and "rid \<noteq> ap_id r"
      by (simp_all add: f r)
    then show ?thesis unfolding f scan_store_Cons [OF r] by (simp add: Cons.IH)
  next
    case False
    then have "file_records (f # fs) = file_records fs"
      and "snd (scan_pending wall (f # fs) st) = st \<or>
           snd (scan_pending wall (f # fs) st) = snd (scan_pending wall fs st)"
      by (auto split: file_content.split option.split)
    then show ?thesis using Cons by metis
  qed
qed simp

lemma scan_fresh_Cons:
  assumes "from_dict d = Some r" "scan_fresh (JsonDict d # fs) st"
  shows "scan_fresh fs st \<and> scan_fresh fs (write_record (mark_expired r) st) \<and>
    read_record st (ap_id r) = Inr (Some r) \<and> ap_id r \<notin> ap_id ` set (file_records fs)"
proof -
  have rs: "file_records (JsonDict d # fs) = r # file_records fs" using assms(1) by simp
  note fresh = assms(2) [unfolded scan_fresh_def rs]
  then have d: "distinct (map ap_id (file_records fs))"
    and new: "ap_id r \<notin> ap_id ` set (file_records fs)" by auto
  from fresh have hd: "read_record st (ap_id r) = Inr (Some r)"
    and tl: "\<And>r'. r' \<in> set (file_records fs) \<Longrightarrow> read_record st (ap_id r') = Inr (Some r')"
    by (metis list.set_intros)+
  have "read_record (write_record (mark_expired r) st) (ap_id r') = Inr (Some r')"
    if "r' \<in> set (file_records fs)" for r'
  proof -
    have "ap_id r' \<noteq> ap_id r" using that new by (metis image_eqI)
    then show ?thesis by (simp add: tl [OF that])
  qed
  then show ?thesis using d new hd tl unfolding scan_fresh_def by blast
qed

lemma scan_pending_next:
  "scan_fresh fs st \<Longrightarrow>
   record_next wall (read_record st rid) (read_record (snd (scan_pending wall fs st)) rid)"
proof (induction fs arbitrary: st)
  case (Cons f fs)
  show ?case
  proof (cases "\<exists>d r. f = JsonDict d \<and> from_dict d = Some r")
    case True
    then obtain d r where f: "f = JsonDict d" and r: "from_dict d = Some r" by blast
    note fresh = scan_fresh_Cons [OF r Cons.prems [unfolded f]]
    let ?st = "write_record (mark_expired r) st"
    have same_id: "read_record (snd (scan_pending wall fs ?st)) (ap_id r) = Inr (Some (mark_expired r))"
      using scan_pending_kept [of "ap_id r" fs wall ?st] fresh by simp
    have "record_next wall (read_record st rid) (read_record (snd (scan_pending wall fs ?st)) rid)"
      if e: "is_expired wall r"
    proof (cases "rid = ap_id r")
      case True
      then show ?thesis using fresh same_id next_expired [OF e] by simp
    next
      case False
      then show ?thesis using Cons.IH [of ?st] fresh by simp
    qed
    then show ?thesis using Cons.IH [of st] fresh unfolding f scan_store_Cons [OF r] by (cases "is_expired wall r") simp_all
  next
    case False
    then have fr: "file_records (f # fs) = file_records fs"
      and st: "snd (scan_pending wall (f # fs) st) = st \<or>
           snd (scan_pending wall (f # fs) st) = snd (scan_pending wall fs st)"
      by (auto split: file_content.split option.split)
    have "scan_fresh fs st" using Cons.prems unfolding scan_fresh_def fr .
    from Cons.IH [OF this] show ?thesis using st by (elim disjE) (simp_all only: same)
  qed
qed (simp add: same)

lemma file_records_set:
  "r \<in> set (file_records fs) \<longleftrightarrow> (\<exists>d. JsonDict d \<in> set fs \<and> from_dict d = Some r)"
  by (induction fs) (auto split: file_content.splits option.splits)

lemma file_records_distinct:
  "distinct (map fst xs) \<Longrightarrow>
   \<forall>rid d. (rid, JsonDict d) \<in> set xs \<longrightarrow> ad_id d = None \<or> ad_id d = Some rid \<Longrightarrow>
   distinct (map ap_id (file_records (map snd xs)))"
proof (induction xs)
  case (Cons x xs)
  have key: "(rid, JsonDict d) \<in> set (x # xs) \<Longrightarrow> from_dict d = Some r \<Longrightarrow> ap_id r = rid" for rid d r
    using Cons.prems(2) from_dict_id by fastforce
  have tl: "distinct (map ap_id (file_records (map snd xs)))" using Cons by simp
  show ?case
  proof (cases "\<exists>d r. snd x = JsonDict d \<and> from_dict d = Some r")
    case True
    then obtain d r where d: "x = (fst x, JsonDict d)" "from_dict d = Some r" by (metis prod.collapse)
    then have "ap_id r = fst x" using key [of "fst x" d r] by simp
    moreover have "ap_id r' \<in> fst ` set xs" if "r' \<in> set (file_records (map snd xs))" for r'
    proof -
      from that obtain rid d' where "(rid, JsonDict d') \<in> set xs" "from_dict d' = Some r'"
        by (auto simp: file_records_set)
      then show ?thesis using key [of rid d' r'] by force
    qed
    ultimately have "ap_id r \<notin> ap_id ` set (file_records (map snd xs))"
      using Cons.prems(1) by auto
    moreover have "file_records (map snd (x # xs)) = r # file_records (map snd xs)"
      by (subst d(1)) (simp add: d(2))
    ultimately show ?thesis using tl by simp
  next
    case False
    then show ?thesis using tl by (auto split: file_content.split option.split)
  qed
qed simp

lemma scan_fresh_files:
  assumes "store_inv st" and "set xs = set (st_files st)" and "distinct (map fst xs)"
  shows "scan_fresh (map snd xs) st"
proof -
  have inv: "\<forall>rid d. (rid, JsonDict d) \<in> set xs \<longrightarrow> ad_id d = None \<or> ad_id d = Some rid"
    and m: "(rid, f) \<in> set xs \<Longrightarrow> map_of (st_files st) rid = Some f" for rid f
    using assms by (auto simp: store_inv_def)
  have "read_record st (ap_id r) = Inr (Some r)" if "r \<in> set (file_records (map snd xs))" for r
  proof -
    from that obtain rid d where d: "(rid, JsonDict d) \<in> set xs" "from_dict d = Some r"
      by (auto simp: file_records_set)
    then have "rid = ap_id r" using inv from_dict_id by fastforce
    then show ?thesis using m [OF d(1)] d(2) by (simp add: read_record_def)
  qed
  then show ?thesis using file_records_distinct [OF assms(3) inv] by (simp add: scan_fresh_def)
qed

lemma record_next_step:
  assumes "store_inv st"
  shows "record_next (op_time op) (read_record st rid) (read_record (ap_step op st) rid)"
proof (cases op)
  case (OpList wall)
  let ?xs = "sort_key (\<lambda>(rid, _). rid @ ''.json'') (st_files st)"
  have "distinct (map fst ?xs)" using assms
    by (auto simp: store_inv_def distinct_map)
  then have "scan_fresh (map snd ?xs) st" using assms by (intro scan_fresh_files) simp_all
  then show ?thesis by (simp add: OpList list_pending_def scan_pending_next op_time_def)
next
  case (OpClaim digest w key)
  then show ?thesis by (simp add: claim_once_def same)
next
  case (OpGet wall rid')
  then show ?thesis using store_inv_id [OF assms, of rid']
    by (auto simp: ap_get_def same next_expired op_time_def split: option.split sum.split)
next
  case (OpDecide wall clk rid' b who)
  then show ?thesis using store_inv_id [OF assms, of rid']
    by (auto simp: ap_decide_def Let_def same next_expired op_time_def is_expired_def
        intro!: decided split: option.split sum.split)
next
  case (OpConsume wall clk rid')
  then show ?thesis using store_inv_id [OF assms, of rid']
    by (auto simp: ap_consume_def Let_def same next_expired op_time_def consumed consumed_used
        split: option.split sum.split)
qed

text \<open>
  What can happen to the store: any operation on it, and new requests under identifiers that
  are not in use.
\<close>

inductive ap_steps :: "approval_store \<Rightarrow> approval_store \<Rightarrow> bool" for st where
  refl: "ap_steps st st"
| oper: "ap_steps st st' \<Longrightarrow> ap_steps st (ap_step op st')"
| request: "ap_steps st st' \<Longrightarrow> map_of (st_files st') fresh = None \<Longrightarrow>
     ap_steps st (snd (ap_request float_of clk fresh ttl c st'))"

lemma store_inv_steps: "ap_steps st st' \<Longrightarrow> store_inv st \<Longrightarrow> store_inv st'"
  by (induction rule: ap_steps.induct)
    (simp_all add: store_inv_step ap_request_def Let_def store_inv_write)

text \<open>Only \<open>pending\<close> and \<open>approved\<close> records can still change.\<close>

lemma record_next_final:
  "record_next now (Inr (Some r)) y \<Longrightarrow> ap_status r \<noteq> STATUS_PENDING \<Longrightarrow> ap_status r \<noteq> STATUS_APPROVED \<Longrightarrow>
   y = Inr (Some r)"
  by (auto simp: record_next_from)

lemma final_steps:
  assumes "ap_steps st st'" "store_inv st" "read_record st rid = Inr (Some r)"
    and "ap_status r \<noteq> STATUS_PENDING" "ap_status r \<noteq> STATUS_APPROVED"
  shows "read_record st' rid = Inr (Some r)"
  using assms(1)
proof (induction rule: ap_steps.induct)
  case (oper st' op)
  then show ?case
    using record_next_step [OF store_inv_steps [OF oper.hyps assms(2)], of op rid]
      record_next_final assms(4,5) by simp
next
  case (request st' fresh float_of clk ttl c)
  then have "rid \<noteq> fresh" by (auto simp: read_record_def)
  with request show ?case by (simp add: ap_request_def Let_def)
qed (rule assms(3))

lemma claims_scan: "st_claims (snd (scan_pending wall fs st)) = st_claims st"
  by (induction wall fs st rule: scan_pending.induct)
    (auto simp: write_record_def split: file_content.splits prod.splits option.splits sum.splits)

lemma claims_steps: "ap_steps st st' \<Longrightarrow> set (st_claims st) \<subseteq> set (st_claims st')"
proof (induction rule: ap_steps.induct)
  case (oper st' op)
  have "set (st_claims st') \<subseteq> set (st_claims (ap_step op st'))"
    by (cases op)
      (auto simp: ap_get_def ap_decide_def ap_consume_def list_pending_def claim_once_def Let_def
        claims_scan write_record_def split: option.splits sum.splits)
  with oper show ?case by blast
qed (auto simp: ap_request_def Let_def write_record_def)

section \<open>Properties\<close>

definition demo_store :: approval_store where
  "demo_store =
     \<lparr>st_files = [(''r1'', JsonDict \<lparr>ad_id = Some ''r1'', ad_text = [(''status'', ''approved'')],
                   ad_time = [(''expires_at'', 100)]\<rparr>),
                  (''r2'', JsonDict \<lparr>ad_id = Some ''r2'', ad_text = [],
                   ad_time = [(''expires_at'', 100)]\<rparr>)],
      st_claims = []\<rparr>"

lemma store_inv_demo: "store_inv demo_store"
  by (auto simp: store_inv_def demo_store_def)



text \<open>
  Once a consumption returned a consumed request, every later consumption, after any other
  operations, changes nothing; and it answers with the identical record, so a caller that looks
  at the answer alone cannot tell the first use from a replay.
\<close>
theorem consume_replay:
  assumes "store_inv st" "ap_consume wall clk rid st = (Inr (Some r), st1)"
    and "ap_status r = STATUS_CONSUMED" "ap_steps st1 st2"
  shows "ap_consume wall' clk' rid st2 = (Inr (Some r), st2)"
proof -
  have "ap_step (OpConsume wall clk rid) st = st1" using assms(2) by simp
  then have inv: "store_inv st1" using store_inv_step [OF assms(1)] by metis
  have "read_record st1 rid = Inr (Some r)"
    using assms(2,3) store_inv_id [OF assms(1), of rid]
    by (auto simp: ap_consume_def Let_def status_defs split: option.splits sum.splits if_splits)
  then have "read_record st2 rid = Inr (Some r)"
    using final_steps [OF assms(4) inv] assms(3) by (simp add: status_defs)
  then show ?thesis using assms(3) by (simp add: ap_consume_def is_expired_def status_defs)
qed

theorem consume_replay_witness:
  "(let (a, st1) = ap_consume 7 8 ''r1'' demo_store in ap_consume 9 10 ''r1'' st1 = (a, st1))"
proof -
  obtain r st1 where c: "ap_consume 7 8 ''r1'' demo_store = (Inr (Some r), st1)"
    and s: "ap_status r = STATUS_CONSUMED"
    by (simp add: ap_consume_def Let_def read_record_def demo_store_def from_dict_def ad_get_def is_expired_def
        status_defs)
  show ?thesis using consume_replay [OF store_inv_demo c s ap_steps.refl] c by simp
qed

text \<open>
  Expiry is fail closed: whichever of the operations meets a pending request at or after its
  expiry, the request is stored as expired and stays so, whatever is done later.
\<close>
theorem expired_fail_closed:
  assumes "store_inv st" "read_record st rid = Inr (Some r)"
    and "ap_status r = STATUS_PENDING" "ap_expires_at r \<le> wall"
    and "op \<in> {OpGet wall rid, OpDecide wall clk rid approved who, OpConsume wall clk rid}"
    and "ap_steps (ap_step op st) st'"
  shows "read_record st' rid = Inr (Some (r\<lparr>ap_status := STATUS_EXPIRED\<rparr>))"
proof (rule final_steps [OF assms(6) store_inv_step [OF assms(1)]])
  have "is_expired wall r" and "ap_id r = rid"
    using assms(3,4) store_inv_id [OF assms(1,2)] by (simp_all add: is_expired_def)
  then show "read_record (ap_step op st) rid = Inr (Some (r\<lparr>ap_status := STATUS_EXPIRED\<rparr>))"
    using assms(2,5) by (auto simp: ap_get_def ap_decide_def ap_consume_def mark_expired_def)
qed (simp_all add: status_defs)

theorem expired_fail_closed_witness:
  "\<exists>r. read_record (ap_step (OpGet 50 ''r2'') (ap_step (OpDecide 100 0 ''r2'' True ''u'') demo_store)) ''r2''
     = Inr (Some (r\<lparr>ap_status := STATUS_EXPIRED\<rparr>))"
proof -
  obtain r where r: "read_record demo_store ''r2'' = Inr (Some r)" "ap_status r = STATUS_PENDING"
    "ap_expires_at r \<le> 100"
    by (simp add: read_record_def demo_store_def from_dict_def ad_get_def)
  show ?thesis
    using expired_fail_closed [OF store_inv_demo r, of "OpDecide 100 0 ''r2'' True ''u''" 0 True "''u''"]
      oper [OF ap_steps.refl] by blast
qed

text \<open>
  C25: A claim is granted at most once: after \<open>claim_once\<close> granted a key, no later claim of the
  key is granted, whatever happens in between.
\<close>
theorem claim_granted_once:
  assumes "fst (claim_once digest w key st)" "ap_steps (snd (claim_once digest w key st)) st'"
  shows "\<not> fst (claim_once digest w' key st')"
proof -
  have "digest key \<in> set (st_claims (snd (claim_once digest w key st)))"
    using assms(1) by (auto simp: claim_once_def split: if_splits)
  then have "digest key \<in> set (st_claims st')" using claims_steps [OF assms(2)] by blast
  then show ?thesis by (simp add: claim_once_def)
qed

theorem claim_granted_once_witness:
  "\<not> fst (claim_once id True ''k'' (snd (claim_once id True ''k'' demo_store)))"
  by (rule claim_granted_once [OF _ ap_steps.refl]) (simp add: claim_once_def demo_store_def)

end
