(* ===== verification/Workflow_Dag.thy ===== *)
theory Workflow_Dag
  imports Models
begin

text \<open>
  The workflow definitions of \<open>workflow_engine.py\<close> and the two graph algorithms of the
  engine: \<open>validate_dag\<close> (Kahn's algorithm with a first-in first-out queue) and
  \<open>topological_sort\<close> (the same loop on a queue that is sorted before each step).  The main
  facts say that validation accepts exactly the acyclic graphs on distinct node identifiers
  and that the sort lists every node once, after its predecessors.
\<close>

section \<open>Definitions of workflows\<close>

datatype node_mode = MODE_SEQUENTIAL | MODE_PARALLEL | MODE_FAN_OUT | MODE_FAN_IN

record node_def =
  nd_id :: string
  nd_label :: string
  nd_handler :: string
  nd_mode :: node_mode
  nd_input_from :: "string list"
  nd_input_map :: "(string, string) dict"
  nd_uses_tool :: string
  nd_config :: "(string, pyval) dict"
  nd_timeout_seconds :: time
  nd_retry_count :: int
  nd_retry_delay :: time

record edge_condition =
  ec_type :: string
  ec_expression :: string

record edge_def =
  eg_source :: string
  eg_target :: string
  eg_condition :: edge_condition

record workflow_def =
  wf_id :: string
  wf_name :: string
  wf_description :: string
  wf_nodes :: "node_def list"
  wf_edges :: "edge_def list"
  wf_config :: "(string, pyval) dict"

section \<open>The algorithms\<close>

text \<open>\<open>{n.id: v for n in nodes}\<close>: a repeated identifier keeps its first position.\<close>

definition keyed :: "'v \<Rightarrow> node_def list \<Rightarrow> (string, 'v) dict" where
  "keyed v nodes = fold (\<lambda>n d. AList.update (nd_id n) v d) nodes []"

definition degree_of :: "(string, int) dict \<Rightarrow> string \<Rightarrow> int" where
  "degree_of deg n = (case map_of deg n of None \<Rightarrow> 0 | Some d \<Rightarrow> d)"

definition neighbours :: "(string, string list) dict \<Rightarrow> string \<Rightarrow> string list" where
  "neighbours adj n = (case map_of adj n of None \<Rightarrow> [] | Some ns \<Rightarrow> ns)"

text \<open>The loop over the edges that fills both tables; a missing key raises \<open>KeyError\<close>.\<close>

fun add_edges ::
    "edge_def list \<Rightarrow> (string, string list) dict \<Rightarrow> (string, int) dict
       \<Rightarrow> py_error + (string, string list) dict \<times> (string, int) dict" where
  "add_edges [] adj deg = Inr (adj, deg)"
| "add_edges (e # es) adj deg =
     (case map_of adj (eg_source e) of
        None \<Rightarrow> Inl KeyError
      | Some ns \<Rightarrow>
          (case map_of deg (eg_target e) of
             None \<Rightarrow> Inl KeyError
           | Some d \<Rightarrow>
               add_edges es (AList.update (eg_source e) (ns @ [eg_target e]) adj)
                 (AList.update (eg_target e) (d + 1) deg)))"

text \<open>The loop over the neighbours of a node that was taken off the queue.\<close>

fun relax ::
    "string list \<Rightarrow> (string, int) dict \<Rightarrow> string list \<Rightarrow> (string, int) dict \<times> string list" where
  "relax [] deg queue = (deg, queue)"
| "relax (m # ms) deg queue =
     (let d = degree_of deg m - 1
      in relax ms (AList.update m d deg) (if d = 0 then queue @ [m] else queue))"

definition positive :: "(string, int) dict \<Rightarrow> nat" where
  "positive deg = card {m \<in> fst ` set deg. 0 < degree_of deg m}"

lemma degree_of_update [simp]:
  "degree_of (AList.update m d deg) k = (if k = m then d else degree_of deg k)"
  by (simp add: degree_of_def map_of_update)

lemma degree_of_pos_key: "0 < degree_of deg m \<Longrightarrow> m \<in> fst ` set deg"
  by (auto simp: degree_of_def split: option.splits dest: map_of_SomeD intro: rev_image_eqI)

lemma positive_alt: "positive deg = card {m. 0 < degree_of deg m}"
  unfolding positive_def by (rule arg_cong [where f = card]) (auto intro: degree_of_pos_key)

lemma finite_positive [simp]: "finite {m. 0 < degree_of deg m}"
  by (rule finite_subset [of _ "fst ` set deg"]) (auto intro: degree_of_pos_key)

lemma positive_update:
  "(if degree_of deg m = 1 then 1 else 0) + positive (AList.update m (degree_of deg m - 1) deg)
     \<le> positive deg"
proof -
  let ?P = "{k. 0 < degree_of deg k}"
  have P: "{k. 0 < degree_of (AList.update m (degree_of deg m - 1) deg) k} =
      (if degree_of deg m = 1 then ?P - {m} else ?P)"
    by (cases "degree_of deg m = 1") (auto split: if_splits)
  show ?thesis
  proof (cases "degree_of deg m = 1")
    case True
    then have "m \<in> ?P" by simp
    then have "0 < card ?P" and "card (?P - {m}) = card ?P - 1"
      by (auto simp: card_gt_0_iff)
    then show ?thesis using True unfolding positive_alt P by simp
  next
    case False
    then show ?thesis unfolding positive_alt P by simp
  qed
qed

lemma relax_measure:
  "relax ms deg queue = (deg', queue') \<Longrightarrow>
   length queue' + positive deg' \<le> length queue + positive deg"
proof (induction ms arbitrary: deg queue)
  case (Cons m ms)
  let ?deg = "AList.update m (degree_of deg m - 1) deg"
  let ?queue = "if degree_of deg m = 1 then queue @ [m] else queue"
  have "relax ms ?deg ?queue = (deg', queue')" using Cons.prems by (simp add: Let_def)
  from Cons.IH [OF this] have "length queue' + positive deg' \<le> length ?queue + positive ?deg" .
  with positive_update [of deg m] show ?case by (cases "degree_of deg m = 1") simp_all
qed simp

text \<open>
  The \<open>while\<close> loop: with \<open>by_name\<close> the queue is sorted before its head is taken.  The result
  is the order in which nodes are visited.
\<close>

function kahn ::
    "bool \<Rightarrow> (string, string list) dict \<Rightarrow> (string, int) dict \<Rightarrow> string list \<Rightarrow> string list" where
  "kahn by_name adj deg queue =
     (case (if by_name then sort queue else queue) of
        [] \<Rightarrow> []
      | nid # rest \<Rightarrow>
          (case relax (neighbours adj nid) deg rest of
             (deg', queue') \<Rightarrow> nid # kahn by_name adj deg' queue'))"
  by pat_completeness auto
termination
proof (relation "measure (\<lambda>(_, _, deg, queue). length queue + positive deg)")
  fix by_name adj deg queue nid rest deg' queue'
  assume q: "(if by_name then sort queue else queue) = nid # rest"
    and r: "(deg', queue') = relax (neighbours adj nid) deg rest"
  have "length queue = Suc (length rest)"
    using q by (metis length_Cons length_sort)
  moreover have "length queue' + positive deg' \<le> length rest + positive deg"
    by (rule relax_measure [of "neighbours adj nid"]) (simp add: r)
  ultimately show "((by_name, adj, deg', queue'), by_name, adj, deg, queue)
      \<in> measure (\<lambda>(_, _, deg, queue). length queue + positive deg)" by simp
qed simp

declare kahn.simps [simp del]

definition zero_degree :: "(string, int) dict \<Rightarrow> string list" where
  "zero_degree deg = map fst (filter (\<lambda>(n, d). d = 0) deg)"

text \<open>\<open>None\<close> when the workflow is valid, otherwise the exception.\<close>

definition validate_dag :: "workflow_def \<Rightarrow> py_error option" where
  "validate_dag w =
     (let node_ids = map nd_id (wf_nodes w)
      in if \<exists>e \<in> set (wf_edges w). eg_source e \<notin> set node_ids \<or> eg_target e \<notin> set node_ids
         then Some (Trm WORKFLOW_VALIDATION_FAILED)
         else (case add_edges (wf_edges w) (keyed [] (wf_nodes w)) (keyed 0 (wf_nodes w)) of
                 Inl err \<Rightarrow> Some err
               | Inr (adj, deg) \<Rightarrow>
                   if length (kahn False adj deg (zero_degree deg)) \<noteq> length (wf_nodes w)
                   then Some (Trm WORKFLOW_CIRCULAR_DEPENDENCY) else None))"

definition topological_sort :: "workflow_def \<Rightarrow> py_error + string list" where
  "topological_sort w =
     (case add_edges (wf_edges w) (keyed [] (wf_nodes w)) (keyed 0 (wf_nodes w)) of
        Inl err \<Rightarrow> Inl err
      | Inr (adj, deg) \<Rightarrow> Inr (kahn True adj deg (zero_degree deg)))"

section \<open>The loop visits what it should\<close>

text \<open>The edges into a node that come from nodes outside a set.\<close>

definition open_edges :: "edge_def list \<Rightarrow> string set \<Rightarrow> string \<Rightarrow> nat" where
  "open_edges es D m = length (filter (\<lambda>e. eg_target e = m \<and> eg_source e \<notin> D) es)"

definition targets :: "edge_def list \<Rightarrow> string \<Rightarrow> string list" where
  "targets es n = map eg_target (filter (\<lambda>e. eg_source e = n) es)"

lemma relax_spec:
  assumes "relax ms deg queue = (deg', queue')" "\<forall>m. int (count_list ms m) \<le> degree_of deg m \<or> m \<notin> set ms"
  shows "degree_of deg' m = degree_of deg m - int (count_list ms m)"
    and "\<exists>new. queue' = queue @ new \<and> distinct new \<and>
           (\<forall>m. m \<in> set new \<longleftrightarrow> m \<in> set ms \<and> degree_of deg m = int (count_list ms m))"
proof -
  have "(\<forall>m. degree_of deg' m = degree_of deg m - int (count_list ms m)) \<and>
     (\<exists>new. queue' = queue @ new \<and> distinct new \<and>
        (\<forall>m. m \<in> set new \<longleftrightarrow> m \<in> set ms \<and> degree_of deg m = int (count_list ms m)))"
    using assms
  proof (induction ms arbitrary: deg queue)
    case (Cons k ms)
    let ?deg = "AList.update k (degree_of deg k - 1) deg"
    let ?queue = "if degree_of deg k = 1 then queue @ [k] else queue"
    have r: "relax ms ?deg ?queue = (deg', queue')" using Cons.prems(1) by (simp add: Let_def)
    have le: "\<forall>m. int (count_list ms m) \<le> degree_of ?deg m \<or> m \<notin> set ms"
      using Cons.prems(2) by (auto split: if_splits)
    from Cons.IH [OF r le] obtain new where
      deg: "\<And>m. degree_of deg' m = degree_of ?deg m - int (count_list ms m)"
      and new: "queue' = ?queue @ new" "distinct new"
        "\<And>m. m \<in> set new \<longleftrightarrow> m \<in> set ms \<and> degree_of ?deg m = int (count_list ms m)" by blast
    have k: "int (count_list ms k) + 1 \<le> degree_of deg k" using Cons.prems(2) by force
    let ?new = "(if degree_of deg k = 1 then [k] else []) @ new"
    have "degree_of deg k = 1 \<Longrightarrow> k \<notin> set ms" using k by (simp add: count_list_0_iff [symmetric])
    then have "queue' = queue @ ?new \<and> distinct ?new"
      using new by simp
    moreover have "m \<in> set ?new \<longleftrightarrow>
        m \<in> set (k # ms) \<and> degree_of deg m = int (count_list (k # ms) m)" for m
      using new(3) [of m] k by (cases "m = k") (auto simp: count_list_0_iff)
    ultimately show ?case using deg by (intro conjI exI [of _ ?new]) auto
  qed simp
  then show "degree_of deg' m = degree_of deg m - int (count_list ms m)"
    and "\<exists>new. queue' = queue @ new \<and> distinct new \<and>
           (\<forall>m. m \<in> set new \<longleftrightarrow> m \<in> set ms \<and> degree_of deg m = int (count_list ms m))" by blast+
qed

text \<open>
  The loop's invariant: \<open>D\<close> are the nodes already taken off the queue.
\<close>

definition kahn_inv ::
    "string set \<Rightarrow> edge_def list \<Rightarrow> string set \<Rightarrow> (string, int) dict \<Rightarrow> string list \<Rightarrow> bool" where
  "kahn_inv N es D deg queue \<longleftrightarrow>
     distinct queue \<and> D \<inter> set queue = {} \<and> D \<union> set queue \<subseteq> N \<and>
     (\<forall>m \<in> N. degree_of deg m = int (open_edges es D m)) \<and>
     (\<forall>m \<in> N. open_edges es D m = 0 \<longleftrightarrow> m \<in> D \<union> set queue)"

lemma open_edges_insert:
  "n \<notin> D \<Longrightarrow> open_edges es D m = open_edges es (insert n D) m + count_list (targets es n) m"
  by (induction es) (auto simp: open_edges_def targets_def)

lemma kahn_inv_step:
  assumes inv: "kahn_inv N es D deg queue" and q: "set queue = insert n (set rest)" "distinct (n # rest)"
    and e: "\<forall>e \<in> set es. eg_target e \<in> N"
    and r: "relax (targets es n) deg rest = (deg', queue')"
  shows "kahn_inv N es (insert n D) deg' queue'"
proof -
  have n: "n \<notin> D" "n \<in> N" using inv q by (auto simp: kahn_inv_def)
  have deg: "m \<in> N \<Longrightarrow> degree_of deg m = int (open_edges es D m)" for m
    using inv by (simp add: kahn_inv_def)
  have "\<forall>m. int (count_list (targets es n) m) \<le> degree_of deg m \<or> m \<notin> set (targets es n)"
    using deg e open_edges_insert [OF n(1), of es] by (auto simp: targets_def)
  note spec = relax_spec [OF r this]
  from spec(2) obtain new where new: "queue' = rest @ new" "distinct new"
    "\<And>m. m \<in> set new \<longleftrightarrow> m \<in> set (targets es n) \<and> degree_of deg m = int (count_list (targets es n) m)"
    by blast
  have tN: "set (targets es n) \<subseteq> N" using e by (auto simp: targets_def)
  have deg': "m \<in> N \<Longrightarrow> degree_of deg' m = int (open_edges es (insert n D) m)" for m
    using spec(1) [of m] deg [of m] open_edges_insert [OF n(1), of es m] by simp
  have newN: "m \<in> set new \<longleftrightarrow> m \<in> N \<and> open_edges es D m \<noteq> 0 \<and> open_edges es (insert n D) m = 0" for m
    using new(3) [of m] deg [of m] tN open_edges_insert [OF n(1), of es m]
    by (auto simp: count_list_0_iff)
  have zero: "m \<in> N \<Longrightarrow> open_edges es D m = 0 \<longleftrightarrow> m \<in> D \<union> set queue" for m
    using inv by (simp add: kahn_inv_def)
  have zero': "m \<in> N \<Longrightarrow> open_edges es (insert n D) m = 0 \<longleftrightarrow> m \<in> insert n D \<union> set queue'" for m
    using newN [of m] zero [of m] new(1) q(1) open_edges_insert [OF n(1), of es m] by auto
  have fresh: "m \<notin> D \<union> set queue" if "m \<in> set new" for m
  proof -
    from that newN [of m] have m: "m \<in> N" "open_edges es D m \<noteq> 0" by simp_all
    then show ?thesis using zero [OF m(1)] by (simp del: Un_iff)
  qed
  then have fr: "set new \<inter> (D \<union> set queue) = {}" by (meson disjoint_iff)
  have dis: "D \<inter> set queue = {}" and sub: "D \<union> set queue \<subseteq> N" using inv by (simp_all add: kahn_inv_def)
  have "distinct queue'" using new(1,2) q fr by auto
  moreover have "insert n D \<inter> set queue' = {}" using new(1) q fr dis by auto
  moreover have "set new \<subseteq> N" using newN by (meson subsetI)
  then have "insert n D \<union> set queue' \<subseteq> N" using sub new(1) q by auto
  ultimately show ?thesis unfolding kahn_inv_def using deg' zero' by (intro conjI ballI)
qed

lemma kahn_visits:
  assumes "kahn_inv N es D deg queue" "\<forall>e \<in> set es. eg_target e \<in> N" "\<forall>n. neighbours adj n = targets es n"
  shows "distinct (kahn b adj deg queue) \<and> D \<inter> set (kahn b adj deg queue) = {} \<and>
    set (kahn b adj deg queue) \<subseteq> N \<and>
    (\<forall>m \<in> N - D - set (kahn b adj deg queue).
       \<exists>e \<in> set es. eg_target e = m \<and> eg_source e \<notin> D \<union> set (kahn b adj deg queue)) \<and>
    (\<forall>xs m ys. kahn b adj deg queue = xs @ m # ys \<longrightarrow>
       (\<forall>e \<in> set es. eg_target e = m \<longrightarrow> eg_source e \<in> D \<union> set xs))"
  using assms(1)
proof (induction "length queue + positive deg" arbitrary: D deg queue rule: less_induct)
  case less
  let ?q = "if b then sort queue else queue"
  have dq: "distinct queue" using less.prems by (simp add: kahn_inv_def)
  show ?case
  proof (cases ?q)
    case Nil
    then have q: "queue = []" by (metis length_0_conv length_sort)
    then have k: "kahn b adj deg queue = []" by (simp add: kahn.simps)
    have "\<exists>e \<in> set es. eg_target e = m \<and> eg_source e \<notin> D" if "m \<in> N - D" for m
      using less.prems that q by (force simp: kahn_inv_def open_edges_def filter_empty_conv)
    then show ?thesis by (simp add: k)
  next
    case (Cons n rest)
    obtain deg' queue' where r: "relax (targets es n) deg rest = (deg', queue')" by fastforce
    have k: "kahn b adj deg queue = n # kahn b adj deg' queue'"
      by (subst kahn.simps) (simp add: Cons r assms(3))
    have s: "set queue = insert n (set rest)" "distinct (n # rest)" "length queue = Suc (length rest)"
      using Cons dq by (metis list.set(2) set_sort, metis distinct_sort, metis length_Cons length_sort)
    note inv = kahn_inv_step [OF less.prems s(1,2) assms(2) r]
    have n: "n \<in> N" "n \<notin> D" "open_edges es D n = 0" using less.prems s(1) by (auto simp: kahn_inv_def)
    have "length queue' + positive deg' < length queue + positive deg"
      using relax_measure [OF r] s(3) by simp
    note IH = less.hyps [OF this inv]
    have pre: "eg_source e \<in> D" if "e \<in> set es" "eg_target e = n" for e
      using n(3) that by (auto simp: open_edges_def filter_empty_conv)
    have order: "\<forall>e \<in> set es. eg_target e = m \<longrightarrow> eg_source e \<in> D \<union> set xs"
      if "n # kahn b adj deg' queue' = xs @ m # ys" for xs m ys
    proof (cases xs)
      case Nil
      then show ?thesis using that pre by simp
    next
      case (Cons x xs')
      then have "kahn b adj deg' queue' = xs' @ m # ys" "x = n" using that by simp_all
      then show ?thesis using IH Cons by (metis UnE UnI1 UnI2 insertE list.set_intros list.simps(15))
    qed
    show ?thesis unfolding k using IH n order by auto
  qed
qed

section \<open>Building the tables\<close>

definition node_ids :: "workflow_def \<Rightarrow> string list" where
  "node_ids w = map nd_id (wf_nodes w)"

definition edges_closed :: "workflow_def \<Rightarrow> bool" where
  "edges_closed w \<longleftrightarrow>
     (\<forall>e \<in> set (wf_edges w). eg_source e \<in> set (node_ids w) \<and> eg_target e \<in> set (node_ids w))"

definition edge_rel :: "workflow_def \<Rightarrow> (string \<times> string) set" where
  "edge_rel w = (\<lambda>e. (eg_source e, eg_target e)) ` set (wf_edges w)"

lemma keyed_fold:
  "distinct (map fst d) \<Longrightarrow>
   map_of (fold (\<lambda>n d. AList.update (nd_id n) v d) nodes d) k =
     (if k \<in> nd_id ` set nodes then Some v else map_of d k) \<and>
   distinct (map fst (fold (\<lambda>n d. AList.update (nd_id n) v d) nodes d))"
  by (induction nodes arbitrary: d) (auto simp: map_of_update distinct_keys_update)

lemma map_of_keyed [simp]:
  "map_of (keyed v nodes) k = (if k \<in> nd_id ` set nodes then Some v else None)"
  by (simp add: keyed_def keyed_fold)

lemma distinct_keyed [simp]: "distinct (map fst (keyed v nodes))"
  by (simp add: keyed_def keyed_fold)

lemma add_edges_ok:
  "\<forall>e \<in> set es. eg_source e \<in> fst ` set adj \<and> eg_target e \<in> fst ` set deg \<Longrightarrow>
   \<exists>adj' deg'. add_edges es adj deg = Inr (adj', deg') \<and>
     (\<forall>n. neighbours adj' n = neighbours adj n @ targets es n) \<and>
     (\<forall>m. degree_of deg' m = degree_of deg m + int (open_edges es {} m)) \<and>
     map fst deg' = map fst deg"
proof (induction es arbitrary: adj deg)
  case Nil
  then show ?case by (simp add: targets_def open_edges_def)
next
  case (Cons e es)
  obtain ns d where m: "map_of adj (eg_source e) = Some ns" "map_of deg (eg_target e) = Some d"
    using Cons.prems by (metis list.set_intros(1) map_of_eq_None_iff not_None_eq)
  let ?adj = "AList.update (eg_source e) (ns @ [eg_target e]) adj"
  let ?deg = "AList.update (eg_target e) (d + 1) deg"
  have keys: "fst ` set ?adj = fst ` set adj" "map fst ?deg = map fst deg"
    using Cons.prems keys_update_old [of "eg_target e" deg] by (auto simp: dom_update)
  from keys(2) have "fst ` set ?deg = fst ` set deg" by (metis list.set_map)
  then have "\<forall>e \<in> set es. eg_source e \<in> fst ` set ?adj \<and> eg_target e \<in> fst ` set ?deg"
    using Cons.prems keys(1) by simp
  from Cons.IH [OF this] obtain adj' deg' where r: "add_edges es ?adj ?deg = Inr (adj', deg')"
    and n: "\<And>n. neighbours adj' n = neighbours ?adj n @ targets es n"
    and dg: "\<And>m. degree_of deg' m = degree_of ?deg m + int (open_edges es {} m)"
    and k: "map fst deg' = map fst ?deg" by blast
  have "neighbours adj' n = neighbours adj n @ targets (e # es) n" for n
    using n [of n] m by (auto simp: neighbours_def map_of_update targets_def)
  moreover have "degree_of deg' x = degree_of deg x + int (open_edges (e # es) {} x)" for x
  proof -
    have "degree_of deg (eg_target e) = d" using m by (simp add: degree_of_def)
    then show ?thesis using dg [of x] by (auto simp: open_edges_def)
  qed
  ultimately show ?case using r m k keys(2) by simp
qed

lemma add_edges_dangling:
  "\<exists>e \<in> set es. eg_source e \<notin> fst ` set adj \<or> eg_target e \<notin> fst ` set deg \<Longrightarrow>
   add_edges es adj deg = Inl KeyError"
proof (induction es arbitrary: adj deg)
  case (Cons e es)
  show ?case
  proof (cases "eg_source e \<in> fst ` set adj \<and> eg_target e \<in> fst ` set deg")
    case True
    then obtain ns d where m: "map_of adj (eg_source e) = Some ns" "map_of deg (eg_target e) = Some d"
      by (metis map_of_eq_None_iff not_None_eq)
    have "fst ` set (AList.update (eg_source e) (ns @ [eg_target e]) adj) = fst ` set adj"
      and "fst ` set (AList.update (eg_target e) (d + 1) deg) = fst ` set deg"
      using True by (auto simp: dom_update)
    then show ?thesis using Cons True m by simp
  next
    case False
    then show ?thesis
      by (auto simp: map_of_eq_None_iff split: option.split dest: map_of_in_keys)
  qed
qed simp

lemma keys_keyed [simp]: "fst ` set (keyed v nodes) = nd_id ` set nodes"
proof -
  have "k \<in> fst ` set (keyed v nodes) \<longleftrightarrow> k \<in> nd_id ` set nodes" for k
    using map_of_eq_None_iff [of "keyed v nodes" k] by (auto split: if_splits)
  then show ?thesis by blast
qed

lemma set_zero_degree:
  "distinct (map fst deg) \<Longrightarrow> set (zero_degree deg) = {m \<in> fst ` set deg. degree_of deg m = 0}"
  by (force simp: zero_degree_def degree_of_def)

lemma distinct_zero_degree: "distinct (map fst deg) \<Longrightarrow> distinct (zero_degree deg)"
  by (auto simp: zero_degree_def distinct_map intro: inj_on_subset)

text \<open>On closed edges both algorithms run the loop, from a state where its invariant holds.\<close>

lemma kahn_start:
  assumes "edges_closed w"
  obtains adj deg where
    "add_edges (wf_edges w) (keyed [] (wf_nodes w)) (keyed 0 (wf_nodes w)) = Inr (adj, deg)"
    "\<forall>n. neighbours adj n = targets (wf_edges w) n"
    "kahn_inv (set (node_ids w)) (wf_edges w) {} deg (zero_degree deg)"
    "\<forall>e \<in> set (wf_edges w). eg_target e \<in> set (node_ids w)"
proof -
  let ?N = "set (node_ids w)"
  have N: "nd_id ` set (wf_nodes w) = ?N" by (simp add: node_ids_def)
  have "\<forall>e \<in> set (wf_edges w). eg_source e \<in> fst ` set (keyed [] (wf_nodes w)) \<and>
      eg_target e \<in> fst ` set (keyed (0::int) (wf_nodes w))"
    using assms by (simp add: edges_closed_def N)
  from add_edges_ok [OF this] obtain adj deg where
    r: "add_edges (wf_edges w) (keyed [] (wf_nodes w)) (keyed 0 (wf_nodes w)) = Inr (adj, deg)"
    and n: "\<And>n. neighbours adj n = neighbours (keyed [] (wf_nodes w)) n @ targets (wf_edges w) n"
    and d: "\<And>m. degree_of deg m = degree_of (keyed 0 (wf_nodes w)) m + int (open_edges (wf_edges w) {} m)"
    and k: "map fst deg = map fst (keyed (0::int) (wf_nodes w))" by blast
  have d': "degree_of deg m = int (open_edges (wf_edges w) {} m)" for m
    using d [of m] by (simp add: degree_of_def)
  have "fst ` set deg = fst ` set (keyed (0::int) (wf_nodes w))"
    using arg_cong [OF k, of set] unfolding list.set_map .
  then have keys: "fst ` set deg = ?N" "distinct (map fst deg)" using N by (simp_all add: k)
  have "kahn_inv ?N (wf_edges w) {} deg (zero_degree deg)"
    unfolding kahn_inv_def using set_zero_degree [OF keys(2)] distinct_zero_degree [OF keys(2)]
    by (simp add: keys d')
  moreover have "\<forall>n. neighbours adj n = targets (wf_edges w) n"
    using n by (simp add: neighbours_def)
  ultimately show thesis using that [OF r] assms by (simp add: edges_closed_def)
qed

section \<open>Properties\<close>

lemma acyclic_edges_min:
  assumes "acyclic (edge_rel w)" "R \<noteq> {}"
  obtains m where "m \<in> R" "\<And>s. (s, m) \<in> edge_rel w \<Longrightarrow> s \<notin> R"
proof -
  have "wf (edge_rel w)" using assms(1) by (simp add: edge_rel_def finite_acyclic_wf)
  then show thesis using that assms(2) by (metis wfE_min equals0I)
qed

lemma forward_acyclic:
  assumes "\<forall>(s, t) \<in> r. \<exists>i j. i < j \<and> j < length xs \<and> xs ! i = s \<and> xs ! j = t" "distinct xs"
  shows "acyclic r"
proof -
  let ?ix = "\<lambda>n. THE i. i < length xs \<and> xs ! i = n"
  have ix: "i < length xs \<Longrightarrow> ?ix (xs ! i) = i" for i
    using assms(2) by (auto simp: nth_eq_iff_index_eq)
  have "r \<subseteq> measure ?ix"
  proof (rule subrelI)
    fix s t assume "(s, t) \<in> r"
    with assms(1) obtain i j where "i < j" "j < length xs" "s = xs ! i" "t = xs ! j" by blast
    then show "(s, t) \<in> measure ?ix" using ix [of i] ix [of j] by simp
  qed
  then show ?thesis by (meson wf_acyclic wf_measure wf_subset)
qed

text \<open>
  The visited nodes: each once, after its predecessors; all of them exactly when the graph has
  no cycle.
\<close>

lemma kahn_order:
  fixes b :: bool
  assumes "edges_closed w"
    and "add_edges (wf_edges w) (keyed [] (wf_nodes w)) (keyed 0 (wf_nodes w)) = Inr (adj, deg)"
  defines "k \<equiv> kahn b adj deg (zero_degree deg)"
  shows "distinct k" "set k \<subseteq> set (node_ids w)"
    and "k = xs @ t # ys \<Longrightarrow> (s, t) \<in> edge_rel w \<Longrightarrow> s \<in> set xs"
    and "set k = set (node_ids w) \<longleftrightarrow> acyclic (edge_rel w)"
proof -
  obtain adj' deg' where
    r: "add_edges (wf_edges w) (keyed [] (wf_nodes w)) (keyed 0 (wf_nodes w)) = Inr (adj', deg')"
    and n': "\<forall>n. neighbours adj' n = targets (wf_edges w) n"
    and i': "kahn_inv (set (node_ids w)) (wf_edges w) {} deg' (zero_degree deg')"
    and c: "\<forall>e \<in> set (wf_edges w). eg_target e \<in> set (node_ids w)"
    by (rule kahn_start [OF assms(1)])
  have "adj' = adj" "deg' = deg" using r assms(2) by simp_all
  note v = kahn_visits [OF i' c n', of b, unfolded this, folded k_def]
  have d: "distinct k" and sub: "set k \<subseteq> set (node_ids w)" using v by simp_all
  have left: "\<exists>e \<in> set (wf_edges w). eg_target e = m \<and> eg_source e \<notin> set k"
    if "m \<in> set (node_ids w)" "m \<notin> set k" for m
    using v that by simp
  have ord: "s \<in> set xs" if "k = xs @ t # ys" "(s, t) \<in> edge_rel w" for xs t ys s
    using v that by (auto simp: edge_rel_def)
  show "distinct k" "set k \<subseteq> set (node_ids w)" by fact+
  show "k = xs @ t # ys \<Longrightarrow> (s, t) \<in> edge_rel w \<Longrightarrow> s \<in> set xs" by (rule ord)
  show "set k = set (node_ids w) \<longleftrightarrow> acyclic (edge_rel w)"
  proof
    assume all: "set k = set (node_ids w)"
    have "\<exists>i j. i < j \<and> j < length k \<and> k ! i = s \<and> k ! j = t" if e: "(s, t) \<in> edge_rel w" for s t
    proof -
      have "t \<in> set k" using e c unfolding all by (auto simp: edge_rel_def)
      then obtain xs ys where k: "k = xs @ t # ys" by (meson split_list)
      from ord [OF this e] obtain i where "i < length xs" "xs ! i = s" by (meson in_set_conv_nth)
      then have "i < length xs \<and> length xs < length k \<and> k ! i = s \<and> k ! length xs = t"
        by (simp add: k nth_append)
      then show ?thesis by blast
    qed
    then show "acyclic (edge_rel w)" by (intro forward_acyclic [OF _ d]) blast
  next
    assume ac: "acyclic (edge_rel w)"
    show "set k = set (node_ids w)"
    proof (rule ccontr)
      assume "set k \<noteq> set (node_ids w)"
      then have "set (node_ids w) - set k \<noteq> {}" using sub by blast
      from acyclic_edges_min [OF ac this] obtain m where m: "m \<in> set (node_ids w)" "m \<notin> set k"
        and min: "\<And>s. (s, m) \<in> edge_rel w \<Longrightarrow> s \<notin> set (node_ids w) - set k" by (metis DiffE)
      from left [OF m] obtain e where e: "e \<in> set (wf_edges w)" "eg_target e = m" "eg_source e \<notin> set k"
        by blast
      then have "(eg_source e, m) \<in> edge_rel w" by (auto simp: edge_rel_def)
      from min [OF this] show False using e assms(1) by (simp add: edges_closed_def)
    qed
  qed
qed

lemma length_distinct_subset:
  assumes "distinct xs" "set xs \<subseteq> set ys"
  shows "length xs = length ys \<longleftrightarrow> distinct ys \<and> set xs = set ys"
proof
  assume len: "length xs = length ys"
  have "card (set ys) \<le> card (set xs)"
    using len distinct_card [OF assms(1)] card_length [of ys] by simp
  then have "set xs = set ys" using assms(2) by (simp add: card_seteq)
  moreover from this have "distinct ys" using len distinct_card [OF assms(1)] by (simp add: card_distinct)
  ultimately show "distinct ys \<and> set xs = set ys" by simp
next
  assume "distinct ys \<and> set xs = set ys"
  then show "length xs = length ys" using assms(1) by (metis distinct_card)
qed

lemma validate_dag_cases:
  "validate_dag w =
     (if \<not> edges_closed w then Some (Trm WORKFLOW_VALIDATION_FAILED)
      else if distinct (node_ids w) \<and> acyclic (edge_rel w) then None
      else Some (Trm WORKFLOW_CIRCULAR_DEPENDENCY))"
proof (cases "edges_closed w")
  case True
  then obtain adj deg where
    r: "add_edges (wf_edges w) (keyed [] (wf_nodes w)) (keyed 0 (wf_nodes w)) = Inr (adj, deg)"
    by (rule kahn_start)
  let ?k = "kahn False adj deg (zero_degree deg)"
  note k = kahn_order [OF True r, of False]
  have len: "length (wf_nodes w) = length (node_ids w)" by (simp add: node_ids_def)
  have "length ?k = length (node_ids w) \<longleftrightarrow> distinct (node_ids w) \<and> set ?k = set (node_ids w)"
    using length_distinct_subset [OF k(1,2)] .
  moreover have "validate_dag w =
      (if length ?k \<noteq> length (node_ids w) then Some (Trm WORKFLOW_CIRCULAR_DEPENDENCY) else None)"
    using True unfolding validate_dag_def Let_def r len
    by (auto simp: edges_closed_def node_ids_def)
  ultimately show ?thesis using True k(4) by simp
next
  case False
  then have "\<exists>e \<in> set (wf_edges w). eg_source e \<notin> set (map nd_id (wf_nodes w)) \<or>
      eg_target e \<notin> set (map nd_id (wf_nodes w))"
    by (auto simp: edges_closed_def node_ids_def)
  then show ?thesis using False unfolding validate_dag_def Let_def by simp
qed

text \<open>
  C26: Validation decides exactly three cases: a dangling edge is a validation failure; otherwise
  a repeated node identifier or a cycle is reported as a circular dependency; otherwise the
  workflow is accepted.
\<close>
theorem validate_dag_correct:
  "validate_dag w =
     (if \<not> edges_closed w then Some (Trm WORKFLOW_VALIDATION_FAILED)
      else if distinct (node_ids w) \<and> acyclic (edge_rel w) then None
      else Some (Trm WORKFLOW_CIRCULAR_DEPENDENCY))"
  by (rule validate_dag_cases)

text \<open>
  C27: On a workflow that validation accepts the sort succeeds and lists every node exactly once,
  each after all nodes it has an edge from.
\<close>
theorem topological_sort_correct:
  assumes "validate_dag w = None"
  shows "\<exists>order. topological_sort w = Inr order \<and> distinct order \<and>
    set order = set (node_ids w) \<and>
    (\<forall>xs t ys s. order = xs @ t # ys \<and> (s, t) \<in> edge_rel w \<longrightarrow> s \<in> set xs)"
proof -
  have c: "edges_closed w" and ac: "acyclic (edge_rel w)"
    using assms by (simp_all add: validate_dag_cases split: if_splits)
  obtain adj deg where
    r: "add_edges (wf_edges w) (keyed [] (wf_nodes w)) (keyed 0 (wf_nodes w)) = Inr (adj, deg)"
    by (rule kahn_start [OF c])
  show ?thesis using kahn_order [OF c r, of True] ac by (auto simp: topological_sort_def r)
qed

definition demo_edge :: "string \<Rightarrow> string \<Rightarrow> string \<Rightarrow> edge_def" where
  "demo_edge s t c =
     \<lparr>eg_source = s, eg_target = t, eg_condition = \<lparr>ec_type = c, ec_expression = []\<rparr>\<rparr>"

definition demo_node :: "string \<Rightarrow> node_mode \<Rightarrow> int \<Rightarrow> node_def" where
  "demo_node i m retries =
     \<lparr>nd_id = i, nd_label = i, nd_handler = ''shell'', nd_mode = m, nd_input_from = [],
      nd_input_map = [], nd_uses_tool = [], nd_config = [], nd_timeout_seconds = 120,
      nd_retry_count = retries, nd_retry_delay = 2\<rparr>"

definition demo_workflow :: workflow_def where
  "demo_workflow =
     \<lparr>wf_id = ''w'', wf_name = ''demo'', wf_description = [],
      wf_nodes = [demo_node ''b'' MODE_PARALLEL 3, demo_node ''a'' MODE_SEQUENTIAL 0,
                  demo_node ''c'' MODE_SEQUENTIAL 1],
      wf_edges = [demo_edge ''a'' ''b'' ''on_complete'', demo_edge ''a'' ''c'' ''on_fail'',
                  demo_edge ''b'' ''c'' ''always''],
      wf_config = []\<rparr>"

lemma demo_workflow_valid: "validate_dag demo_workflow = None"
  by code_simp

theorem topological_sort_correct_witness:
  "\<exists>order. topological_sort demo_workflow = Inr order \<and> set order = {''a'', ''b'', ''c''}"
  using topological_sort_correct [OF demo_workflow_valid]
  by (auto simp: node_ids_def demo_workflow_def demo_node_def insert_commute)

end
