(* ===== verification/Workflow_Exec.thy ===== *)
theory Workflow_Exec
  imports Workflow_Dag
begin

text \<open>
  The executor of \<open>workflow_engine.py\<close>: the state a run keeps (node runtimes, the shared
  context, the ready queue, the set of completed nodes), the choice of a handler, the execution
  of one node, the scheduling loop and the final status.

  What a handler does, the evaluation of edge expressions, the clock and the moments at which
  the cancel event becomes set are fields of \<open>world\<close>; \<open>ww_cancel w k\<close> is what the
  \<open>k\<close>-th test of the cancel event reads.  The nodes of a parallel group run in the order of
  the group: they write disjoint runtimes, so another interleaving only permutes events.  The
  members share the run's context, whose entry \<open>_input\<close> each overwrites before its handler
  runs; in the model it is the member's own until its handler has returned.  A group that is
  cancelled from outside while it waits is not modelled.
  Everything the run does outside its state is appended to \<open>ws_effects\<close>.
\<close>

datatype node_status =
    ND_CREATED | ND_QUEUED | ND_DISPATCHING | ND_RUNNING | ND_COMPLETED | ND_FAILED
  | ND_SKIPPED | ND_TIMEOUT | ND_CANCELLED | ND_BLOCKED

fun node_status_value :: "node_status \<Rightarrow> string" where
  "node_status_value ND_CREATED = ''created''"
| "node_status_value ND_QUEUED = ''queued''"
| "node_status_value ND_DISPATCHING = ''dispatching''"
| "node_status_value ND_RUNNING = ''running''"
| "node_status_value ND_COMPLETED = ''completed''"
| "node_status_value ND_FAILED = ''failed''"
| "node_status_value ND_SKIPPED = ''skipped''"
| "node_status_value ND_TIMEOUT = ''timeout''"
| "node_status_value ND_CANCELLED = ''cancelled''"
| "node_status_value ND_BLOCKED = ''blocked''"

datatype workflow_status =
  WF_CREATED | WF_QUEUED | WF_RUNNING | WF_COMPLETED | WF_FAILED | WF_CANCELLED | WF_BLOCKED

fun workflow_status_value :: "workflow_status \<Rightarrow> string" where
  "workflow_status_value WF_CREATED = ''created''"
| "workflow_status_value WF_QUEUED = ''queued''"
| "workflow_status_value WF_RUNNING = ''running''"
| "workflow_status_value WF_COMPLETED = ''completed''"
| "workflow_status_value WF_FAILED = ''failed''"
| "workflow_status_value WF_CANCELLED = ''cancelled''"
| "workflow_status_value WF_BLOCKED = ''blocked''"

record node_runtime =
  rt_id :: string
  rt_status :: node_status
  rt_started_at :: "time option"
  rt_completed_at :: "time option"
  rt_result :: pyval
  rt_error :: "string option"
  rt_attempts :: int
  rt_outputs :: "(string, pyval) dict"

definition new_runtime :: "string \<Rightarrow> node_runtime" where
  "new_runtime nid =
     \<lparr>rt_id = nid, rt_status = ND_CREATED, rt_started_at = None, rt_completed_at = None,
      rt_result = PNone, rt_error = None, rt_attempts = 0, rt_outputs = []\<rparr>"

section \<open>Choosing a handler\<close>

datatype handler_ref = Registered string | AgentNode | SkillNode string | DefaultHandler

text \<open>\<open>en_skills\<close>: the skill router when there is one, as the names its loader knows.\<close>

record engine =
  en_handlers :: "string list"
  en_default :: bool
  en_driver :: bool
  en_skills :: "string list option"

definition register_handler :: "string \<Rightarrow> engine \<Rightarrow> engine" where
  "register_handler name e =
     e\<lparr>en_handlers := (if name \<in> set (en_handlers e) then en_handlers e else en_handlers e @ [name])\<rparr>"

definition SKILL_PREFIX :: string where "SKILL_PREFIX = ''skill:''"

definition extract_skill_name :: "string \<Rightarrow> string option" where
  "extract_skill_name c = (if prefix SKILL_PREFIX c then Some (drop (length SKILL_PREFIX) c) else None)"

definition resolve_handler :: "engine \<Rightarrow> node_def \<Rightarrow> trm_error + handler_ref" where
  "resolve_handler e node =
     (let h = nd_handler node;
          agent_type = pget_default (nd_config node) ''agent_type'' (PStr []);
          fallback = (if en_default e then Inr DefaultHandler else Inl WORKFLOW_NODE_NOT_FOUND);
          skill = (case en_skills e of
                     None \<Rightarrow> fallback
                   | Some known \<Rightarrow>
                       (if h = [] then fallback
                        else (case extract_skill_name h of
                                None \<Rightarrow> fallback
                              | Some n \<Rightarrow> if n \<in> set known then Inr (SkillNode n) else fallback)))
      in if h \<noteq> [] \<and> h \<in> set (en_handlers e) then Inr (Registered h)
         else if (prefix ''agent:'' h \<or> py_truthy agent_type) \<and> en_driver e then Inr AgentNode
         else skill)"

section \<open>The state of a run\<close>

datatype handler_outcome = HReturns pyval | HTimeout | HCancelled | HRaises string

text \<open>
  The task events a run emits and the keys of their payloads: \<open>Ev_node_created\<close> is
  \<open>task.node.created\<close> and so on; \<open>K_count st\<close> is the key named by the value of \<open>st\<close>.
\<close>

datatype task_event =
    Ev_node_created | Ev_node_queued | Ev_node_dispatching | Ev_node_started | Ev_node_completed
  | Ev_node_failed | Ev_node_skipped | Ev_node_timeout | Ev_node_cancelled | Ev_node_blocked
  | Ev_workflow_started | Ev_workflow_completed

datatype payload_key =
    K_workflow_id | K_node_id | K_label | K_handler | K_reason | K_duration | K_result_summary
  | K_timeout | K_error | K_attempt | K_node_label | K_name | K_node_count | K_status
  | K_count node_status

type_synonym payload = "(payload_key \<times> pyval) list"

datatype wf_effect =
    Emitted task_event payload severity
  | Handled string pyval  \<comment> \<open>the node and the \<open>_input\<close> entry its handler sees\<close>
  | Slept time

record world =
  ww_id :: string
  ww_engine :: engine
  ww_nodes :: "(string, node_def) dict"
  ww_preds :: "(string, string list) dict"
  ww_incoming :: "(string, edge_def list) dict"
  ww_call :: "handler_ref \<Rightarrow> node_def \<Rightarrow> (string, pyval) dict
                \<Rightarrow> handler_outcome \<times> (string, pyval) dict"
  ww_eval :: "string \<Rightarrow> pyval \<Rightarrow> string \<Rightarrow> string + bool"
  ww_cancel :: "nat \<Rightarrow> bool"
  ww_clock :: "nat \<Rightarrow> time"

record run_state =
  ws_runtimes :: "(string, node_runtime) dict"
  ws_context :: "(string, pyval) dict"
  ws_ready :: "string list"
  ws_completed :: "string list"
  ws_effects :: "wf_effect list"
  ws_checks :: nat
  ws_ticks :: nat

definition runtime_of :: "run_state \<Rightarrow> string \<Rightarrow> node_runtime" where
  "runtime_of s nid = (case map_of (ws_runtimes s) nid of None \<Rightarrow> new_runtime nid | Some r \<Rightarrow> r)"

abbreviation status_in :: "run_state \<Rightarrow> string \<Rightarrow> node_status" where
  "status_in s nid \<equiv> rt_status (runtime_of s nid)"

definition dict_list :: "(string, 'v list) dict \<Rightarrow> string \<Rightarrow> 'v list" where
  "dict_list d k = (case map_of d k of None \<Rightarrow> [] | Some vs \<Rightarrow> vs)"

definition set_runtime :: "string \<Rightarrow> (node_runtime \<Rightarrow> node_runtime) \<Rightarrow> run_state \<Rightarrow> run_state" where
  "set_runtime nid f s = s\<lparr>ws_runtimes := AList.update nid (f (runtime_of s nid)) (ws_runtimes s)\<rparr>"

definition set_status :: "string \<Rightarrow> node_status \<Rightarrow> run_state \<Rightarrow> run_state" where
  "set_status nid st = set_runtime nid (\<lambda>r. r\<lparr>rt_status := st\<rparr>)"

definition log_effect :: "wf_effect \<Rightarrow> run_state \<Rightarrow> run_state" where
  "log_effect e s = s\<lparr>ws_effects := ws_effects s @ [e]\<rparr>"

text \<open>\<open>emit_task\<close> of a node event; \<open>extra\<close> are the entries after the two identifiers.\<close>

definition emit_node ::
    "world \<Rightarrow> task_event \<Rightarrow> string \<Rightarrow> payload \<Rightarrow> severity \<Rightarrow> run_state \<Rightarrow> run_state" where
  "emit_node w ty nid extra sev =
     log_effect (Emitted ty ((K_workflow_id, PStr (ww_id w)) # (K_node_id, PStr nid) # extra) sev)"

definition check_cancel :: "world \<Rightarrow> run_state \<Rightarrow> bool \<times> run_state" where
  "check_cancel w s = (ww_cancel w (ws_checks s), s\<lparr>ws_checks := ws_checks s + 1\<rparr>)"

definition read_clock :: "world \<Rightarrow> run_state \<Rightarrow> time \<times> run_state" where
  "read_clock w s = (ww_clock w (ws_ticks s), s\<lparr>ws_ticks := ws_ticks s + 1\<rparr>)"

text \<open>Status and \<open>completed_at\<close> together.\<close>

definition finish :: "world \<Rightarrow> string \<Rightarrow> (node_runtime \<Rightarrow> node_runtime) \<Rightarrow> node_status \<Rightarrow> run_state \<Rightarrow> run_state" where
  "finish w nid f st s =
     (case read_clock w s of
        (t, s1) \<Rightarrow> set_runtime nid (\<lambda>r. f (r\<lparr>rt_status := st, rt_completed_at := Some t\<rparr>)) s1)"

definition node_of :: "world \<Rightarrow> string \<Rightarrow> node_def" where
  "node_of w nid = the (map_of (ww_nodes w) nid)"

section \<open>One node\<close>

definition evaluate_condition ::
    "(string \<Rightarrow> pyval \<Rightarrow> string \<Rightarrow> string + bool) \<Rightarrow> edge_condition \<Rightarrow> node_runtime \<Rightarrow> bool \<times> string" where
  "evaluate_condition ev c r =
     (if ec_type c = ''always'' then (True, [])
      else if ec_type c = ''on_complete'' then (rt_status r = ND_COMPLETED, ''source_not_completed'')
      else if ec_type c = ''on_fail'' then (rt_status r \<in> {ND_FAILED, ND_TIMEOUT}, ''source_not_failed'')
      else if ec_type c = ''expression'' then
        (case ev (ec_expression c) (rt_result r) (node_status_value (rt_status r)) of
           Inr True \<Rightarrow> (True, [])
         | Inr False \<Rightarrow> (False, ''expression_false: '' @ ec_expression c)
         | Inl err \<Rightarrow> (False, ''eval_error: '' @ err))
      else (True, []))"

text \<open>
  The gate on automatic runs: the reason, empty when the step may run.  The default of
  \<open>step_kind\<close> and the explanation after it are not ASCII in the source and shortened here.
\<close>

definition auto_run_block :: "node_def \<Rightarrow> (string, pyval) dict \<Rightarrow> string" where
  "auto_run_block node context =
     (if pget context ''triggered_by'' \<noteq> PStr ''event'' then []
      else if py_truthy (pget_default (nd_config node) ''auto_run'' (PBool True)) then []
      else ''auto_run_blocked:'' @
           py_str (py_or (pget (nd_config node) ''step_kind'') (PStr ''non-forensic'')))"

text \<open>The first incoming edge whose condition fails: its reason and its source's status.\<close>

fun failing_edge :: "world \<Rightarrow> run_state \<Rightarrow> edge_def list \<Rightarrow> (string \<times> node_status) option" where
  "failing_edge w s [] = None"
| "failing_edge w s (e # es) =
     (case map_of (ws_runtimes s) (eg_source e) of
        None \<Rightarrow> failing_edge w s es
      | Some r \<Rightarrow>
          (let (ok, reason) = evaluate_condition (ww_eval w) (eg_condition e) r
           in if ok then failing_edge w s es else Some (reason, rt_status r)))"

definition node_ok :: "node_status \<Rightarrow> bool" where
  "node_ok st \<longleftrightarrow> st = ND_COMPLETED \<or> st = ND_SKIPPED"

text \<open>\<open>ref.split(".", 1)\<close>: the part before the first dot, and the rest when there is a dot.\<close>

definition split_ref :: "string \<Rightarrow> string \<times> string option" where
  "split_ref r =
     (let a = takeWhile (\<lambda>c. c \<noteq> CHR ''.'') r; b = dropWhile (\<lambda>c. c \<noteq> CHR ''.'') r
      in (a, if b = [] then None else Some (tl b)))"

fun merge_mapped ::
    "string \<Rightarrow> node_runtime \<Rightarrow> (string \<times> string) list \<Rightarrow> (string, pyval) dict \<Rightarrow> (string, pyval) dict" where
  "merge_mapped sid r [] merged = merged"
| "merge_mapped sid r ((local, ref) # ms) merged =
     (case split_ref ref of
        (p, field) \<Rightarrow>
          merge_mapped sid r ms
            (if p \<noteq> sid then merged
             else (case field of
                     Some f \<Rightarrow> AList.update local (pget (rt_outputs r) f) merged
                   | None \<Rightarrow> AList.update local (rt_result r) merged)))"

fun merge_sources ::
    "run_state \<Rightarrow> node_def \<Rightarrow> string list \<Rightarrow> (string, pyval) dict \<Rightarrow> (string, pyval) dict" where
  "merge_sources s node [] merged = merged"
| "merge_sources s node (sid # sids) merged =
     (case map_of (ws_runtimes s) sid of
        None \<Rightarrow> merge_sources s node sids merged
      | Some r \<Rightarrow>
          merge_sources s node sids
            (if \<not> node_ok (rt_status r) \<or> rt_outputs r = [] then merged
             else if nd_input_map node \<noteq> [] then merge_mapped sid r (nd_input_map node) merged
             else AList.update sid (PDict (rt_outputs r)) merged))"

definition merge_node_input :: "world \<Rightarrow> run_state \<Rightarrow> string \<Rightarrow> node_def \<Rightarrow> (string, pyval) dict" where
  "merge_node_input w s nid node =
     merge_sources s node
       (if nd_input_from node \<noteq> [] then nd_input_from node else dict_list (ww_preds w) nid) []"

definition update_all :: "(string, pyval) dict \<Rightarrow> (string, pyval) dict \<Rightarrow> (string, pyval) dict" where
  "update_all new d = fold (\<lambda>(k, v). AList.update k v) new d"

text \<open>The pause after a failure; the node is not executed again.\<close>

definition retry_pause :: "node_def \<Rightarrow> bool \<Rightarrow> run_state \<Rightarrow> run_state" where
  "retry_pause node again s = (if again then log_effect (Slept (nd_retry_delay node)) s else s)"

definition report_failure :: "world \<Rightarrow> string \<Rightarrow> node_def \<Rightarrow> string \<Rightarrow> run_state \<Rightarrow> run_state" where
  "report_failure w nid node err s =
     retry_pause node (rt_attempts (runtime_of s nid) \<le> nd_retry_count node)
       (emit_node w Ev_node_failed nid
          [(K_error, PStr err), (K_attempt, PInt (rt_attempts (runtime_of s nid)))] SEV_WARNING s)"

definition node_failed :: "world \<Rightarrow> string \<Rightarrow> node_def \<Rightarrow> string \<Rightarrow> run_state \<Rightarrow> run_state" where
  "node_failed w nid node err s =
     report_failure w nid node err
       (finish w nid (\<lambda>r. r\<lparr>rt_error := Some err, rt_attempts := rt_attempts r + 1\<rparr>) ND_FAILED s)"

definition report_result :: "world \<Rightarrow> string \<Rightarrow> pyval \<Rightarrow> run_state \<Rightarrow> run_state" where
  "report_result w nid v s =
     emit_node w Ev_node_completed nid
       [(K_duration, PFloat (the (rt_completed_at (runtime_of s nid)) - the (rt_started_at (runtime_of s nid)))),
        (K_result_summary, PStr (take 200 (py_str v)))] SEV_INFO s"

definition store_result :: "pyval \<Rightarrow> node_runtime \<Rightarrow> node_runtime" where
  "store_result v r =
     r\<lparr>rt_result := v, rt_attempts := rt_attempts r + 1,
       rt_outputs := (case v of PDict d \<Rightarrow> update_all d (rt_outputs r) | _ \<Rightarrow> rt_outputs r)\<rparr>"

definition node_returned :: "world \<Rightarrow> string \<Rightarrow> pyval \<Rightarrow> run_state \<Rightarrow> run_state" where
  "node_returned w nid v s = report_result w nid v (finish w nid (store_result v) ND_COMPLETED s)"

definition report_timeout :: "world \<Rightarrow> string \<Rightarrow> node_def \<Rightarrow> run_state \<Rightarrow> run_state" where
  "report_timeout w nid node s =
     retry_pause node (rt_attempts (runtime_of s nid) < nd_retry_count node)
       (emit_node w Ev_node_timeout nid [(K_timeout, PFloat (nd_timeout_seconds node))] SEV_WARNING s)"

definition node_timed_out :: "world \<Rightarrow> string \<Rightarrow> node_def \<Rightarrow> run_state \<Rightarrow> run_state" where
  "node_timed_out w nid node s =
     report_timeout w nid node
       (finish w nid (\<lambda>r. r\<lparr>rt_error :=
          Some (''timeout '' @ float_str (nd_timeout_seconds node) @ ''s'')\<rparr>) ND_TIMEOUT s)"

definition node_cancelled :: "world \<Rightarrow> string \<Rightarrow> string \<Rightarrow> run_state \<Rightarrow> run_state" where
  "node_cancelled w nid reason s =
     emit_node w Ev_node_cancelled nid [(K_reason, PStr reason)] SEV_WARNING
       (finish w nid id ND_CANCELLED s)"

definition settle_node :: "world \<Rightarrow> string \<Rightarrow> node_def \<Rightarrow> handler_outcome \<Rightarrow> run_state \<Rightarrow> run_state" where
  "settle_node w nid node out s =
     (case out of
        HReturns v \<Rightarrow> node_returned w nid v s
      | HTimeout \<Rightarrow> node_timed_out w nid node s
      | HCancelled \<Rightarrow> node_cancelled w nid ''task_cancelled'' s
      | HRaises err \<Rightarrow> node_failed w nid node err s)"

definition start_node :: "world \<Rightarrow> string \<Rightarrow> node_def \<Rightarrow> run_state \<Rightarrow> run_state" where
  "start_node w nid node s =
     (case read_clock w (set_status nid ND_RUNNING s) of
        (t, s1) \<Rightarrow>
          emit_node w Ev_node_started nid [(K_node_label, PStr (nd_label node))] SEV_INFO
            (set_runtime nid (\<lambda>r. r\<lparr>rt_started_at := Some t\<rparr>) s1))"

definition call_handler :: "world \<Rightarrow> string \<Rightarrow> node_def \<Rightarrow> run_state \<Rightarrow> run_state" where
  "call_handler w nid node s =
     (case resolve_handler (ww_engine w) node of
        Inl err \<Rightarrow> node_failed w nid node ''no handler'' s
      | Inr h \<Rightarrow>
          (case ww_call w h node (ws_context s) of
             (out, ctx) \<Rightarrow>
               settle_node w nid node out
                 ((log_effect (Handled nid (pget (ws_context s) ''_input'')) s)\<lparr>ws_context := ctx\<rparr>)))"

definition run_handler :: "world \<Rightarrow> string \<Rightarrow> node_def \<Rightarrow> run_state \<Rightarrow> run_state" where
  "run_handler w nid node s = call_handler w nid node (start_node w nid node s)"

text \<open>The merged input goes into the shared context only when there is some.\<close>

definition put_input :: "(string, pyval) dict \<Rightarrow> run_state \<Rightarrow> run_state" where
  "put_input merged s =
     (if merged = [] then s
      else s\<lparr>ws_context := AList.update ''_input'' (PDict merged) (ws_context s)\<rparr>)"

definition skip_node :: "world \<Rightarrow> string \<Rightarrow> string \<Rightarrow> run_state \<Rightarrow> run_state" where
  "skip_node w nid reason s = emit_node w Ev_node_skipped nid [(K_reason, PStr reason)] SEV_INFO s"

definition block_node :: "world \<Rightarrow> string \<Rightarrow> string \<Rightarrow> run_state \<Rightarrow> run_state" where
  "block_node w nid reason s =
     emit_node w Ev_node_blocked nid [(K_reason, PStr reason)] SEV_WARNING (set_status nid ND_BLOCKED s)"

fun execute_checked :: "world \<Rightarrow> string \<Rightarrow> bool \<times> run_state \<Rightarrow> run_state" where
  "execute_checked w nid (cancelled, s) =
     (if cancelled then node_cancelled w nid ''workflow_cancelled'' s
      else if auto_run_block (node_of w nid) (ws_context s) \<noteq> [] then
        skip_node w nid (auto_run_block (node_of w nid) (ws_context s)) (finish w nid id ND_SKIPPED s)
      else
        (case failing_edge w s (dict_list (ww_incoming w) nid) of
           Some (reason, st) \<Rightarrow>
             (if st \<in> {ND_CANCELLED, ND_BLOCKED} then block_node w nid reason s
              else skip_node w nid reason (set_status nid ND_SKIPPED s))
         | None \<Rightarrow>
             run_handler w nid (node_of w nid)
               (put_input (merge_node_input w s nid (node_of w nid)) s)))"

definition execute_single_node :: "world \<Rightarrow> string \<Rightarrow> run_state \<Rightarrow> run_state" where
  "execute_single_node w nid s = execute_checked w nid (check_cancel w s)"

section \<open>The scheduling loop\<close>

definition is_node_ready :: "world \<Rightarrow> run_state \<Rightarrow> string \<Rightarrow> bool" where
  "is_node_ready w s nid = list_all (\<lambda>p. node_ok (status_in s p)) (dict_list (ww_preds w) nid)"

definition queue_node :: "world \<Rightarrow> string \<Rightarrow> run_state \<Rightarrow> run_state" where
  "queue_node w nid s = emit_node w Ev_node_queued nid [] SEV_INFO (set_status nid ND_QUEUED s)"

definition push_ready :: "string \<Rightarrow> run_state \<Rightarrow> run_state" where
  "push_ready nid s = s\<lparr>ws_ready := ws_ready s @ [nid]\<rparr>"

fun add_successors :: "world \<Rightarrow> (string \<times> string list) list \<Rightarrow> run_state \<Rightarrow> run_state" where
  "add_successors w [] s = s"
| "add_successors w ((succ, preds) # items) s =
     add_successors w items
       (if succ \<in> set (ws_completed s) \<or> succ \<in> set (ws_ready s) then s
        else if list_all (\<lambda>p. node_ok (status_in s p)) preds then
          push_ready succ
            (if succ \<in> fst ` set (ws_runtimes s) \<and> status_in s succ = ND_CREATED
             then queue_node w succ s else s)
        else s)"

definition add_ready_successors :: "world \<Rightarrow> run_state \<Rightarrow> run_state" where
  "add_ready_successors w s = add_successors w (ww_preds w) s"

definition node_done :: "world \<Rightarrow> string \<Rightarrow> run_state \<Rightarrow> run_state" where
  "node_done w nid s =
     add_ready_successors w
       (s\<lparr>ws_completed := (if nid \<in> set (ws_completed s) then ws_completed s
                           else ws_completed s @ [nid])\<rparr>)"

definition is_parallel :: "world \<Rightarrow> string \<Rightarrow> bool" where
  "is_parallel w nid \<longleftrightarrow> nd_mode (node_of w nid) = MODE_PARALLEL"

text \<open>The group taken from the head of the queue and what is left of the queue.\<close>

fun take_parallel :: "world \<Rightarrow> run_state \<Rightarrow> string list \<Rightarrow> string list \<times> string list" where
  "take_parallel w s [] = ([], [])"
| "take_parallel w s (n # ns) =
     (if is_parallel w n
      then (case take_parallel w s ns of (g, rest) \<Rightarrow> (if is_node_ready w s n then n # g else g, rest))
      else ([], n # ns))"

definition dispatch_node :: "world \<Rightarrow> string \<Rightarrow> run_state \<Rightarrow> run_state" where
  "dispatch_node w nid s =
     emit_node w Ev_node_dispatching nid [] SEV_INFO (set_status nid ND_DISPATCHING s)"

definition run_group :: "world \<Rightarrow> string list \<Rightarrow> run_state \<Rightarrow> run_state" where
  "run_group w grp s =
     fold (node_done w) grp (fold (execute_single_node w) grp (fold (dispatch_node w) grp s))"

text \<open>
  One round of the \<open>while\<close> loop: the test of its condition and, when it holds, the body.
  \<open>Inl IndexError\<close> is \<open>pop(0)\<close> on an empty queue.
\<close>

datatype round_result = Stop "py_error + run_state" | Continue run_state

fun after_head :: "bool \<times> run_state \<Rightarrow> round_result" where
  "after_head (cancelled, s) = (if cancelled then Stop (Inr s) else Continue s)"

definition run_head :: "world \<Rightarrow> string \<Rightarrow> run_state \<Rightarrow> round_result" where
  "run_head w nid s =
     (if \<not> is_node_ready w s nid
      then Continue
        (node_done w nid (block_node w nid ''predecessors_not_complete'' s))
      else
        after_head
          (check_cancel w (node_done w nid (execute_single_node w nid (dispatch_node w nid s)))))"

fun run_picked :: "world \<Rightarrow> run_state \<Rightarrow> string list \<times> string list \<Rightarrow> round_result" where
  "run_picked w s (grp, rest) =
     (if grp \<noteq> [] then Continue (run_group w grp (s\<lparr>ws_ready := rest\<rparr>))
      else
        (case rest of
           [] \<Rightarrow> Stop (Inl IndexError)
         | nid # rest' \<Rightarrow> run_head w nid (s\<lparr>ws_ready := rest'\<rparr>)))"

fun run_checked :: "world \<Rightarrow> bool \<times> run_state \<Rightarrow> round_result" where
  "run_checked w (cancelled, s) =
     (if cancelled then Stop (Inr s) else run_picked w s (take_parallel w s (ws_ready s)))"

definition run_round :: "world \<Rightarrow> run_state \<Rightarrow> round_result" where
  "run_round w s = (if ws_ready s = [] then Stop (Inr s) else run_checked w (check_cancel w s))"

text \<open>The loop, for at most \<open>fuel\<close> rounds after the first; \<^const>\<open>None\<close> when it would go on.\<close>

fun exec_loop :: "nat \<Rightarrow> world \<Rightarrow> run_state \<Rightarrow> (py_error + run_state) option" where
  "exec_loop 0 w s = (case run_round w s of Stop r \<Rightarrow> Some r | Continue s' \<Rightarrow> None)"
| "exec_loop (Suc fuel) w s =
     (case run_round w s of Stop r \<Rightarrow> Some r | Continue s' \<Rightarrow> exec_loop fuel w s')"

declare exec_loop.simps [simp del]

section \<open>A run\<close>

record run_result =
  rr_workflow_id :: string
  rr_status :: workflow_status
  rr_duration :: time
  rr_state :: run_state

definition final_status :: "bool \<Rightarrow> node_status list \<Rightarrow> workflow_status" where
  "final_status cancelled sts =
     (if cancelled then WF_CANCELLED
      else
        (let terminal_fail = {ND_FAILED, ND_TIMEOUT, ND_CANCELLED, ND_BLOCKED};
             all_terminal = list_all (\<lambda>st. st \<in> {ND_COMPLETED, ND_SKIPPED} \<union> terminal_fail) sts
         in if ND_BLOCKED \<in> set sts then WF_BLOCKED
            else if list_ex (\<lambda>st. st \<in> terminal_fail) sts then WF_FAILED
            else if all_terminal then WF_COMPLETED
            else WF_RUNNING))"

definition count_status :: "node_status \<Rightarrow> run_state \<Rightarrow> pyval" where
  "count_status st s = PInt (int (length (filter (\<lambda>(_, r). rt_status r = st) (ws_runtimes s))))"

definition completed_payload :: "world \<Rightarrow> workflow_status \<Rightarrow> time \<Rightarrow> run_state \<Rightarrow> payload" where
  "completed_payload w st duration s =
     [(K_workflow_id, PStr (ww_id w)), (K_status, PStr (workflow_status_value st)),
      (K_duration, PFloat duration), (K_node_count, PInt (int (length (ws_runtimes s))))] @
     map (\<lambda>x. (K_count x, count_status x s))
       [ND_CREATED, ND_QUEUED, ND_DISPATCHING, ND_RUNNING, ND_COMPLETED, ND_FAILED, ND_SKIPPED,
        ND_TIMEOUT, ND_CANCELLED, ND_BLOCKED]"

definition close_run :: "world \<Rightarrow> workflow_status \<Rightarrow> time \<Rightarrow> run_state \<Rightarrow> run_result" where
  "close_run w st duration s =
     \<lparr>rr_workflow_id = ww_id w, rr_status = st, rr_duration = duration,
      rr_state = log_effect (Emitted Ev_workflow_completed
                   (completed_payload w st duration s) SEV_INFO) s\<rparr>"

definition finish_run :: "world \<Rightarrow> time \<Rightarrow> run_state \<Rightarrow> run_result" where
  "finish_run w started_at s0 =
     (case check_cancel w s0 of
        (cancelled, s) \<Rightarrow>
          (case read_clock w s of
             (t, s1) \<Rightarrow>
               close_run w (final_status cancelled (map (rt_status \<circ> snd) (ws_runtimes s)))
                 (t - started_at) s1))"

definition queue_root :: "world \<Rightarrow> string \<Rightarrow> run_state \<Rightarrow> run_state" where
  "queue_root w nid s =
     (if dict_list (ww_preds w) nid = [] then push_ready nid (queue_node w nid s) else s)"

definition queue_roots :: "world \<Rightarrow> string list \<Rightarrow> run_state \<Rightarrow> run_state" where
  "queue_roots w order s = fold (queue_root w) order s"

definition execute_dag :: "nat \<Rightarrow> world \<Rightarrow> string list \<Rightarrow> time \<Rightarrow> run_state \<Rightarrow> (py_error + run_result) option" where
  "execute_dag fuel w order started_at s =
     (case exec_loop fuel w (queue_roots w order s) of
        None \<Rightarrow> None
      | Some (Inl err) \<Rightarrow> Some (Inl err)
      | Some (Inr s') \<Rightarrow> Some (Inr (finish_run w started_at s')))"

text \<open>The tables \<open>run\<close> builds from the edges; validation has already checked the keys.\<close>

definition pred_table :: "workflow_def \<Rightarrow> (string, string list) dict" where
  "pred_table wd =
     fold (\<lambda>e d. AList.update (eg_target e) (dict_list d (eg_target e) @ [eg_source e]) d)
       (wf_edges wd) (keyed [] (wf_nodes wd))"

definition incoming_table :: "workflow_def \<Rightarrow> (string, edge_def list) dict" where
  "incoming_table wd =
     fold (\<lambda>e d. AList.update (eg_target e) (dict_list d (eg_target e) @ [e]) d)
       (wf_edges wd) (keyed [] (wf_nodes wd))"

definition node_table :: "workflow_def \<Rightarrow> (string, node_def) dict" where
  "node_table wd = fold (\<lambda>n d. AList.update (nd_id n) n d) (wf_nodes wd) []"

definition runtime_table :: "workflow_def \<Rightarrow> (string, node_runtime) dict" where
  "runtime_table wd = fold (\<lambda>n d. AList.update (nd_id n) (new_runtime (nd_id n)) d) (wf_nodes wd) []"

text \<open>
  \<open>base\<close> supplies the engine and the outside world; its tables are overwritten.  \<open>fresh\<close> is
  the identifier drawn when the definition has none.
\<close>

definition run_world :: "world \<Rightarrow> string \<Rightarrow> workflow_def \<Rightarrow> world" where
  "run_world base fresh wd =
     base\<lparr>ww_id := (if wf_id wd = [] then fresh else wf_id wd), ww_nodes := node_table wd,
          ww_preds := pred_table wd, ww_incoming := incoming_table wd\<rparr>"

definition announce_node :: "world \<Rightarrow> node_def \<Rightarrow> run_state \<Rightarrow> run_state" where
  "announce_node w n =
     emit_node w Ev_node_created (nd_id n)
       [(K_label, PStr (nd_label n)), (K_handler, PStr (nd_handler n))] SEV_INFO"

definition announce :: "world \<Rightarrow> workflow_def \<Rightarrow> run_state \<Rightarrow> run_state" where
  "announce w wd s =
     log_effect (Emitted Ev_workflow_started
         [(K_workflow_id, PStr (ww_id w)), (K_name, PStr (wf_name wd)),
          (K_node_count, PInt (int (length (wf_nodes wd))))] SEV_INFO)
       (fold (announce_node w) (wf_nodes wd) s)"

definition initial_state :: "workflow_def \<Rightarrow> (string, pyval) dict \<Rightarrow> run_state" where
  "initial_state wd context =
     \<lparr>ws_runtimes = runtime_table wd, ws_context = context, ws_ready = [], ws_completed = [],
      ws_effects = [], ws_checks = 0, ws_ticks = 0\<rparr>"

fun launch ::
    "nat \<Rightarrow> world \<Rightarrow> workflow_def \<Rightarrow> string list \<Rightarrow> time \<times> run_state \<Rightarrow> (py_error + run_result) option" where
  "launch fuel w wd order (started_at, s) = execute_dag fuel w order started_at (announce w wd s)"

definition begin_run ::
    "nat \<Rightarrow> world \<Rightarrow> workflow_def \<Rightarrow> string list \<Rightarrow> (string, pyval) dict \<Rightarrow> (py_error + run_result) option" where
  "begin_run fuel w wd order context =
     launch fuel w wd order (read_clock w (initial_state wd context))"

definition run_workflow ::
    "nat \<Rightarrow> world \<Rightarrow> string \<Rightarrow> workflow_def \<Rightarrow> (string, pyval) dict \<Rightarrow> (py_error + run_result) option" where
  "run_workflow fuel base fresh wd context =
     (case validate_dag wd of
        Some err \<Rightarrow> Some (Inl err)
      | None \<Rightarrow>
          (case topological_sort wd of
             Inl err \<Rightarrow> Some (Inl err)
           | Inr order \<Rightarrow> begin_run fuel (run_world base fresh wd) wd order context))"

end
