(* ===== verification/Workflow_Facts.thy ===== *)
theory Workflow_Facts
  imports Workflow_Exec
begin

text \<open>
  What a run of \<open>workflow_engine.py\<close> guarantees.  The lemmas follow the executor bottom up:
  the projections of every small state change (\<open>wf_simps\<close>), the effect of executing one
  node, of rescanning the successors, of one round of the loop; then the invariant of the loop
  and the properties of complete runs.
\<close>

named_theorems wf_simps \<open>projections of the executor's state changes\<close>

section \<open>Projections\<close>

definition keys_of :: "run_state \<Rightarrow> string list" where
  "keys_of s = map fst (ws_runtimes s)"

text \<open>How often the handler of a node was called.\<close>

definition handled :: "string \<Rightarrow> run_state \<Rightarrow> nat" where
  "handled nid s =
     length (filter (\<lambda>e. case e of Handled n _ \<Rightarrow> n = nid | _ \<Rightarrow> False) (ws_effects s))"

text \<open>A change that touches neither the queue nor the completed nodes nor any call count.\<close>

definition quiet :: "run_state \<Rightarrow> run_state \<Rightarrow> bool" where
  "quiet s s' \<longleftrightarrow> ws_ready s' = ws_ready s \<and> ws_completed s' = ws_completed s \<and>
     (\<forall>k. handled k s' = handled k s)"

lemma quiet_refl [simp]: "quiet s s" by (simp add: quiet_def)
lemma quiet_trans: "quiet a b \<Longrightarrow> quiet b c \<Longrightarrow> quiet a c" by (simp add: quiet_def)

lemma runtime_set [wf_simps]:
  "runtime_of (set_runtime nid f s) k = (if k = nid then f (runtime_of s nid) else runtime_of s k)"
  by (simp add: runtime_of_def set_runtime_def map_of_update)

lemma runtime_log [wf_simps]: "runtime_of (log_effect e s) k = runtime_of s k"
  by (simp add: runtime_of_def log_effect_def)

lemma runtime_frame [wf_simps]:
  "runtime_of (s\<lparr>ws_ready := q\<rparr>) k = runtime_of s k"
  "runtime_of (s\<lparr>ws_completed := q\<rparr>) k = runtime_of s k"
  "runtime_of (s\<lparr>ws_context := c\<rparr>) k = runtime_of s k"
  "runtime_of (s\<lparr>ws_checks := n\<rparr>) k = runtime_of s k"
  "runtime_of (s\<lparr>ws_ticks := n\<rparr>) k = runtime_of s k"
  by (simp_all add: runtime_of_def)

lemma runtime_emit [wf_simps]: "runtime_of (emit_node w ty nid x sev s) k = runtime_of s k"
  by (simp add: emit_node_def wf_simps)

lemma runtime_status [wf_simps]:
  "runtime_of (set_status nid st s) k =
     (if k = nid then (runtime_of s nid)\<lparr>rt_status := st\<rparr> else runtime_of s k)"
  by (simp add: set_status_def wf_simps)

lemma runtime_finish [wf_simps]:
  "k \<noteq> nid \<Longrightarrow> runtime_of (finish w nid f st s) k = runtime_of s k"
  "(\<And>r. rt_status (f r) = rt_status r) \<Longrightarrow> status_in (finish w nid f st s) nid = st"
  by (simp_all add: finish_def read_clock_def wf_simps)

lemma keys_set [wf_simps]: "nid \<in> set (keys_of s) \<Longrightarrow> keys_of (set_runtime nid f s) = keys_of s"
  by (simp add: keys_of_def set_runtime_def keys_update_old)

lemma keys_frame [wf_simps]:
  "keys_of (s\<lparr>ws_ready := q\<rparr>) = keys_of s"
  "keys_of (s\<lparr>ws_completed := q\<rparr>) = keys_of s"
  "keys_of (s\<lparr>ws_context := c\<rparr>) = keys_of s"
  "keys_of (s\<lparr>ws_checks := n\<rparr>) = keys_of s"
  "keys_of (s\<lparr>ws_ticks := n\<rparr>) = keys_of s"
  "keys_of (log_effect e s) = keys_of s"
  "keys_of (emit_node w ty nid x sev s) = keys_of s"
  by (simp_all add: keys_of_def log_effect_def emit_node_def)

lemma keys_status [wf_simps]: "nid \<in> set (keys_of s) \<Longrightarrow> keys_of (set_status nid st s) = keys_of s"
  by (simp add: set_status_def wf_simps)

lemma keys_finish [wf_simps]: "nid \<in> set (keys_of s) \<Longrightarrow> keys_of (finish w nid f st s) = keys_of s"
  by (simp add: finish_def read_clock_def wf_simps)

lemma quiet_after [wf_simps]:
  "quiet a (set_runtime nid f s) = quiet a s" "quiet a (set_status nid st s) = quiet a s"
  "quiet a (emit_node w ty nid x sev s) = quiet a s" "quiet a (finish w nid f st s) = quiet a s"
  "quiet a (log_effect (Slept t) s) = quiet a s" "quiet a (log_effect (Emitted p q sev) s) = quiet a s"
  "quiet a (s\<lparr>ws_context := c\<rparr>) = quiet a s" "quiet a (s\<lparr>ws_checks := n\<rparr>) = quiet a s"
  "quiet a (s\<lparr>ws_ticks := n\<rparr>) = quiet a s"
  by (simp_all add: quiet_def handled_def set_status_def set_runtime_def emit_node_def log_effect_def
      finish_def read_clock_def Let_def)

section \<open>One node\<close>

text \<open>
  What executing a node may change: its own runtime, which ends in the given set of states, and
  the number of its calls.
\<close>

definition node_change :: "string \<Rightarrow> node_status set \<Rightarrow> run_state \<Rightarrow> run_state \<Rightarrow> bool" where
  "node_change nid T s s' \<longleftrightarrow>
     ws_ready s' = ws_ready s \<and> ws_completed s' = ws_completed s \<and> keys_of s' = keys_of s \<and>
     (\<forall>k. k \<noteq> nid \<longrightarrow> runtime_of s' k = runtime_of s k \<and> handled k s' = handled k s) \<and>
     status_in s' nid \<in> T"

lemma node_change_quiet:
  "quiet s s' \<Longrightarrow> keys_of s' = keys_of s \<Longrightarrow> (\<And>k. k \<noteq> nid \<Longrightarrow> runtime_of s' k = runtime_of s k) \<Longrightarrow>
   status_in s' nid \<in> T \<Longrightarrow> node_change nid T s s' \<and> handled nid s' = handled nid s"
  by (simp add: node_change_def quiet_def)

lemma node_change_after:
  "node_change nid T s1 s2 \<Longrightarrow> quiet s s1 \<Longrightarrow> keys_of s1 = keys_of s \<Longrightarrow>
   (\<And>k. k \<noteq> nid \<Longrightarrow> runtime_of s1 k = runtime_of s k) \<Longrightarrow> node_change nid T s s2"
  by (simp add: node_change_def quiet_def)

lemma node_failed_change:
  assumes "nid \<in> set (keys_of s)"
  shows "node_change nid {ND_FAILED} s (node_failed w nid node err s) \<and>
    handled nid (node_failed w nid node err s) = handled nid s"
  using assms unfolding node_failed_def report_failure_def retry_pause_def
  by (intro node_change_quiet) (auto simp: wf_simps)

lemma node_returned_change:
  assumes "nid \<in> set (keys_of s)"
  shows "node_change nid {ND_COMPLETED} s (node_returned w nid v s) \<and>
    handled nid (node_returned w nid v s) = handled nid s"
  using assms unfolding node_returned_def report_result_def
  by (intro node_change_quiet) (auto simp: wf_simps store_result_def)

lemma node_timed_out_change:
  assumes "nid \<in> set (keys_of s)"
  shows "node_change nid {ND_TIMEOUT} s (node_timed_out w nid node s) \<and>
    handled nid (node_timed_out w nid node s) = handled nid s"
  using assms unfolding node_timed_out_def report_timeout_def retry_pause_def
  by (intro node_change_quiet) (auto simp: wf_simps)

lemma node_cancelled_change:
  assumes "nid \<in> set (keys_of s)"
  shows "node_change nid {ND_CANCELLED} s (node_cancelled w nid reason s) \<and>
    handled nid (node_cancelled w nid reason s) = handled nid s"
  using assms unfolding node_cancelled_def
  by (intro node_change_quiet) (auto simp: wf_simps)


lemma run_handler_change:
  assumes k: "nid \<in> set (keys_of s)"
  shows "node_change nid {ND_COMPLETED, ND_FAILED, ND_TIMEOUT, ND_CANCELLED} s (run_handler w nid node s) \<and>
    handled nid (run_handler w nid node s) \<le> handled nid s + 1"
proof -
  let ?T = "{ND_COMPLETED, ND_FAILED, ND_TIMEOUT, ND_CANCELLED}"
  have weaken: "node_change nid {st} a b \<Longrightarrow> st \<in> ?T \<Longrightarrow> node_change nid ?T a b" for st a b
    by (auto simp: node_change_def)
  define s2 where "s2 = start_node w nid node s"
  have q2: "quiet s s2" and k2: "keys_of s2 = keys_of s"
    and r2: "\<And>j. j \<noteq> nid \<Longrightarrow> runtime_of s2 j = runtime_of s j"
    using k by (simp_all add: s2_def start_node_def read_clock_def wf_simps)
  show ?thesis
  proof (cases "resolve_handler (ww_engine w) node")
    case (Inl err)
    have "run_handler w nid node s = node_failed w nid node ''no handler'' s2"
      by (simp add: run_handler_def call_handler_def s2_def Inl)
    moreover have "node_change nid {ND_FAILED} s2 (node_failed w nid node ''no handler'' s2) \<and>
        handled nid (node_failed w nid node ''no handler'' s2) = handled nid s"
      using node_failed_change [of nid s2] k k2 q2 by (simp add: quiet_def)
    moreover from this have "node_change nid {ND_FAILED} s (node_failed w nid node ''no handler'' s2)"
      using node_change_after [OF _ q2 k2 r2] by blast
    ultimately show ?thesis using weaken by simp
  next
    case (Inr h)
    obtain out ctx where out: "ww_call w h node (ws_context s2) = (out, ctx)" by fastforce
    define s3 where "s3 = (log_effect (Handled nid (pget (ws_context s2) ''_input'')) s2)\<lparr>ws_context := ctx\<rparr>"
    have k3: "keys_of s3 = keys_of s" and r3: "\<And>j. j \<noteq> nid \<Longrightarrow> runtime_of s3 j = runtime_of s j"
      by (simp_all add: s3_def wf_simps k2 r2)
    have h3: "handled nid s3 = handled nid s + 1" "\<And>j. j \<noteq> nid \<Longrightarrow> handled j s3 = handled j s"
      and f3: "ws_ready s3 = ws_ready s" "ws_completed s3 = ws_completed s"
      using q2 by (auto simp: s3_def quiet_def handled_def log_effect_def)
    have after: "node_change nid ?T s x" if "node_change nid {st} s3 x" "st \<in> ?T" for st x
      using that k3 r3 h3 f3 by (auto simp: node_change_def)
    have "run_handler w nid node s = settle_node w nid node out s3"
      using out by (simp add: run_handler_def call_handler_def s2_def [symmetric] Inr s3_def)
    then have "\<exists>st \<in> ?T. node_change nid {st} s3 (run_handler w nid node s) \<and>
        handled nid (run_handler w nid node s) = handled nid s3"
      using k k3 node_returned_change [of nid s3] node_timed_out_change [of nid s3]
        node_cancelled_change [of nid s3] node_failed_change [of nid s3]
      by (cases out) (auto simp: settle_node_def)
    then show ?thesis using after h3(1) by auto
  qed
qed

text \<open>The conditions on the edges into a node, given that all their sources are done.\<close>

definition sources_ok :: "world \<Rightarrow> string \<Rightarrow> run_state \<Rightarrow> bool" where
  "sources_ok w nid s \<longleftrightarrow>
     (\<forall>e \<in> set (dict_list (ww_incoming w) nid).
        eg_source e \<in> set (keys_of s) \<and> node_ok (status_in s (eg_source e)))"

lemma failing_edge_Some:
  "failing_edge w s es = Some (reason, st) \<Longrightarrow> \<exists>e \<in> set es. st = status_in s (eg_source e)"
proof (induction es)
  case (Cons a es)
  show ?case
  proof (cases "failing_edge w s es = Some (reason, st)")
    case True
    then show ?thesis using Cons by auto
  next
    case False
    with Cons.prems obtain r where "map_of (ws_runtimes s) (eg_source a) = Some r" "st = rt_status r"
      by (auto split: option.splits prod.splits if_splits)
    then show ?thesis by (auto simp: runtime_of_def)
  qed
qed simp

lemma failing_edge_None:
  "failing_edge w s es = None \<Longrightarrow> e \<in> set es \<Longrightarrow> eg_source e \<in> set (keys_of s) \<Longrightarrow>
   fst (evaluate_condition (ww_eval w) (eg_condition e) (runtime_of s (eg_source e)))"
proof (induction es)
  case (Cons a es)
  show ?case
  proof (cases "map_of (ws_runtimes s) (eg_source a)")
    case None
    then have "eg_source a \<notin> set (keys_of s)" by (simp add: keys_of_def map_of_eq_None_iff)
    then show ?thesis using Cons None by auto
  next
    case (Some r)
    then have "runtime_of s (eg_source a) = r" by (simp add: runtime_of_def)
    then show ?thesis using Cons Some by (auto split: prod.splits if_splits)
  qed
qed simp

lemma sources_ok_checks [simp]: "sources_ok w nid (s\<lparr>ws_checks := n\<rparr>) = sources_ok w nid s"
  by (simp add: sources_ok_def wf_simps)

lemma on_fail_blocks:
  assumes "sources_ok w nid s" "e \<in> set (dict_list (ww_incoming w) nid)"
    and "ec_type (eg_condition e) = ''on_fail''"
  shows "failing_edge w s (dict_list (ww_incoming w) nid) \<noteq> None"
proof
  assume "failing_edge w s (dict_list (ww_incoming w) nid) = None"
  from failing_edge_None [OF this assms(2)] show False
    using assms by (auto simp: sources_ok_def evaluate_condition_def node_ok_def)
qed

definition ended :: "node_status set" where
  "ended = {ND_COMPLETED, ND_FAILED, ND_SKIPPED, ND_TIMEOUT, ND_CANCELLED}"

lemma node_change_mono: "node_change nid S a b \<Longrightarrow> S \<subseteq> T \<Longrightarrow> node_change nid T a b"
  by (auto simp: node_change_def)

lemma execute_node_change:
  assumes k: "nid \<in> set (keys_of s0)"
  shows "node_change nid (insert ND_BLOCKED ended) s0 (execute_single_node w nid s0)"
    and "handled nid (execute_single_node w nid s0) \<le> handled nid s0 + 1"
    and "handled nid (execute_single_node w nid s0) \<noteq> handled nid s0 \<Longrightarrow>
      failing_edge w s0 (dict_list (ww_incoming w) nid) = None"
    and "sources_ok w nid s0 \<Longrightarrow> status_in (execute_single_node w nid s0) nid \<noteq> ND_BLOCKED"
proof -
  let ?E = "if sources_ok w nid s0 then ended else insert ND_BLOCKED ended"
  let ?s = "s0\<lparr>ws_checks := ws_checks s0 + 1\<rparr>"
  let ?node = "node_of w nid"
  let ?r = "execute_single_node w nid s0"
  have base: "quiet s0 ?s" "keys_of ?s = keys_of s0" "\<And>j. runtime_of ?s j = runtime_of s0 j"
    by (simp_all add: wf_simps)
  have fe: "failing_edge w ?s es = failing_edge w s0 es" for es
    by (induction es) (auto split: option.split prod.split)
  have lift: "node_change nid ?E s0 x \<and> handled nid x = handled nid s0"
    if "node_change nid {st} ?s x \<and> handled nid x = handled nid ?s" "st \<in> ?E" for st x
    using that node_change_after [OF _ base(1,2)] base(1,3) node_change_mono [of nid "{st}"]
    by (auto simp: quiet_def)
  have simple: "node_change nid {st} ?s x \<and> handled nid x = handled nid ?s"
    if "quiet ?s x" "keys_of x = keys_of ?s" "\<And>j. j \<noteq> nid \<Longrightarrow> runtime_of x j = runtime_of ?s j"
      "status_in x nid = st" for st x
    using that by (intro node_change_quiet) simp_all
  have "(node_change nid ?E s0 ?r \<and> handled nid ?r = handled nid s0) \<or>
     (node_change nid ?E s0 ?r \<and> handled nid ?r \<le> handled nid s0 + 1 \<and>
      failing_edge w s0 (dict_list (ww_incoming w) nid) = None)"
  proof -
    consider (cancel) "ww_cancel w (ws_checks s0)"
      | (auto_run) "\<not> ww_cancel w (ws_checks s0)" "auto_run_block ?node (ws_context ?s) \<noteq> []"
      | (edge) reason st where "\<not> ww_cancel w (ws_checks s0)" "auto_run_block ?node (ws_context ?s) = []"
          "failing_edge w ?s (dict_list (ww_incoming w) nid) = Some (reason, st)"
      | (run) "\<not> ww_cancel w (ws_checks s0)" "auto_run_block ?node (ws_context ?s) = []"
          "failing_edge w ?s (dict_list (ww_incoming w) nid) = None"
      by (metis option.exhaust surj_pair)
    then show ?thesis
    proof cases
      case cancel
      then have "?r = node_cancelled w nid ''workflow_cancelled'' ?s"
        by (simp add: execute_single_node_def check_cancel_def skip_node_def block_node_def)
      then have "node_change nid {ND_CANCELLED} ?s ?r \<and> handled nid ?r = handled nid ?s"
        using node_cancelled_change [of nid ?s] k base(2) by simp
      from lift [OF this] show ?thesis by (simp add: ended_def)
    next
      case auto_run
      then have r: "?r = emit_node w Ev_node_skipped nid
          [(K_reason, PStr (auto_run_block ?node (ws_context ?s)))] SEV_INFO (finish w nid id ND_SKIPPED ?s)"
        by (simp add: execute_single_node_def check_cancel_def skip_node_def block_node_def)
      have "node_change nid {ND_SKIPPED} ?s ?r \<and> handled nid ?r = handled nid ?s"
        unfolding r by (rule simple) (use k in \<open>auto simp: wf_simps\<close>)
      from lift [OF this] show ?thesis by (simp add: ended_def)
    next
      case edge
      let ?b = "st \<in> {ND_CANCELLED, ND_BLOCKED}"
      let ?st = "if ?b then ND_BLOCKED else ND_SKIPPED"
      have "sources_ok w nid s0 \<Longrightarrow> \<not> ?b"
        using failing_edge_Some [OF edge(3)] by (auto simp: sources_ok_def node_ok_def wf_simps)
      then have st: "?st \<in> ?E" by (auto simp: ended_def)
      have r: "?r = emit_node w (if ?b then Ev_node_blocked else Ev_node_skipped) nid
          [(K_reason, PStr reason)] (if ?b then SEV_WARNING else SEV_INFO) (set_status nid ?st ?s)"
        using edge by (simp add: execute_single_node_def check_cancel_def skip_node_def block_node_def)
      have "node_change nid {?st} ?s ?r \<and> handled nid ?r = handled nid ?s"
        unfolding r by (rule simple) (use k in \<open>auto simp: wf_simps\<close>)
      from lift [OF this st] show ?thesis by blast
    next
      case run
      define m where "m = merge_node_input w ?s nid ?node"
      define s1 where "s1 = put_input m ?s"
      have r: "?r = run_handler w nid ?node s1"
        using run by (simp add: execute_single_node_def check_cancel_def m_def s1_def)
      have q1: "quiet s0 s1" "keys_of s1 = keys_of s0" "\<And>j. runtime_of s1 j = runtime_of s0 j"
        by (auto simp: s1_def put_input_def wf_simps)
      have "node_change nid ?E s0 ?r"
        unfolding r using run_handler_change [of nid s1 w ?node] k q1
        by (intro node_change_after [OF node_change_mono q1(1,2)]) (auto simp: ended_def)
      moreover have "handled nid ?r \<le> handled nid s0 + 1"
        unfolding r using run_handler_change [of nid s1 w ?node] k q1 by (simp add: quiet_def)
      ultimately show ?thesis using run(3) fe by simp
    qed
  qed
  then have "node_change nid ?E s0 ?r" and le: "handled nid ?r \<le> handled nid s0 + 1"
    and ne: "handled nid ?r \<noteq> handled nid s0 \<Longrightarrow> failing_edge w s0 (dict_list (ww_incoming w) nid) = None"
    by auto
  then show "node_change nid (insert ND_BLOCKED ended) s0 ?r"
    and "sources_ok w nid s0 \<Longrightarrow> status_in ?r nid \<noteq> ND_BLOCKED"
    by (auto simp: node_change_def ended_def split: if_splits)
  show "handled nid ?r \<le> handled nid s0 + 1" by (fact le)
  show "handled nid ?r \<noteq> handled nid s0 \<Longrightarrow> failing_edge w s0 (dict_list (ww_incoming w) nid) = None"
    by (rule ne)
qed

section \<open>Rescanning the successors\<close>

definition preds_ok :: "run_state \<Rightarrow> string list \<Rightarrow> bool" where
  "preds_ok s ps \<longleftrightarrow> (\<forall>p \<in> set ps. node_ok (status_in s p))"

lemma is_node_ready_iff: "is_node_ready w s nid \<longleftrightarrow> preds_ok s (dict_list (ww_preds w) nid)"
  by (simp add: is_node_ready_def preds_ok_def list_all_iff)

text \<open>Queueing: statuses may go from created to queued, and the queue may grow.\<close>

definition queueing :: "run_state \<Rightarrow> run_state \<Rightarrow> bool" where
  "queueing s s' \<longleftrightarrow> ws_completed s' = ws_completed s \<and> keys_of s' = keys_of s \<and>
     (\<forall>k. handled k s' = handled k s) \<and>
     (\<forall>k. node_ok (status_in s' k) = node_ok (status_in s k)) \<and>
     (\<forall>k. k \<notin> set (ws_ready s') - set (ws_ready s) \<longrightarrow> runtime_of s' k = runtime_of s k) \<and>
     (\<forall>k \<in> set (ws_ready s') - set (ws_ready s).
        status_in s k = ND_CREATED \<longrightarrow> status_in s' k = ND_QUEUED)"

lemma add_successors_spec:
  assumes "distinct (map fst items)" "fst ` set items \<subseteq> set (keys_of s)"
  shows "queueing s (add_successors w items s)"
    and "\<exists>new. ws_ready (add_successors w items s) = ws_ready s @ new \<and> distinct new \<and>
      (\<forall>k. k \<in> set new \<longleftrightarrow> k \<notin> set (ws_completed s) \<and> k \<notin> set (ws_ready s) \<and>
         (\<exists>ps. (k, ps) \<in> set items \<and> preds_ok s ps))"
proof -
  have "queueing s (add_successors w items s) \<and>
    (\<exists>new. ws_ready (add_successors w items s) = ws_ready s @ new \<and> distinct new \<and>
      (\<forall>k. k \<in> set new \<longleftrightarrow> k \<notin> set (ws_completed s) \<and> k \<notin> set (ws_ready s) \<and>
         (\<exists>ps. (k, ps) \<in> set items \<and> preds_ok s ps)))"
    using assms
  proof (induction items arbitrary: s)
    case Nil
    then show ?case by (simp add: queueing_def)
  next
    case (Cons it items)
    obtain n ps where it: "it = (n, ps)" by fastforce
    show ?case
    proof (cases "n \<notin> set (ws_completed s) \<and> n \<notin> set (ws_ready s) \<and> preds_ok s ps")
      case False
      then have r: "add_successors w (it # items) s = add_successors w items s"
        by (auto simp: it preds_ok_def list_all_iff)
      have "distinct (map fst items)" "fst ` set items \<subseteq> set (keys_of s)" using Cons.prems by auto
      note IH = Cons.IH [OF this]
      have "(\<exists>qs. (k, qs) \<in> set (it # items) \<and> preds_ok s qs) \<longleftrightarrow>
          (\<exists>qs. (k, qs) \<in> set items \<and> preds_ok s qs)"
        if "k \<notin> set (ws_completed s)" "k \<notin> set (ws_ready s)" for k
        using that False by (auto simp: it)
      then show ?thesis using IH unfolding r by (metis (mono_tags, lifting))
    next
      case True
      define s1 where "s1 = (if status_in s n = ND_CREATED
          then queue_node w n s else s)"
      define s2 where "s2 = push_ready n s1"
      have n: "n \<in> set (keys_of s)" using Cons.prems(2) by (simp add: it)
      then have "n \<in> fst ` set (ws_runtimes s)" by (simp add: keys_of_def)
      then have r: "add_successors w (it # items) s = add_successors w items s2"
        using True by (simp add: it preds_ok_def list_all_iff s1_def s2_def)
      have q1: "quiet s s1" by (simp add: s1_def queue_node_def wf_simps)
      have rd: "ws_ready s2 = ws_ready s @ [n]" "ws_completed s2 = ws_completed s" "keys_of s2 = keys_of s"
        using q1 n by (simp_all add: s2_def push_ready_def quiet_def wf_simps)
          (simp add: s1_def queue_node_def wf_simps)
      have rt: "runtime_of s2 k = (if k = n \<and> status_in s n = ND_CREATED
          then (runtime_of s n)\<lparr>rt_status := ND_QUEUED\<rparr> else runtime_of s k)" for k
        by (simp add: s2_def s1_def push_ready_def queue_node_def wf_simps)
      have ok: "node_ok (status_in s2 k) = node_ok (status_in s k)" for k
        by (simp add: rt node_ok_def)
      then have po: "preds_ok s2 qs = preds_ok s qs" for qs by (simp add: preds_ok_def)
      have "distinct (map fst items)" "fst ` set items \<subseteq> set (keys_of s2)" using Cons.prems by (auto simp: rd)
      note IH = Cons.IH [OF this]
      then obtain new where new: "ws_ready (add_successors w items s2) = ws_ready s2 @ new" "distinct new"
        "\<And>k. k \<in> set new \<longleftrightarrow> k \<notin> set (ws_completed s2) \<and> k \<notin> set (ws_ready s2) \<and>
         (\<exists>ps. (k, ps) \<in> set items \<and> preds_ok s2 ps)" by blast
      have notin: "n \<notin> fst ` set items" using Cons.prems(1) by (auto simp: it)
      have "handled k s2 = handled k s" for k using q1 by (simp add: s2_def push_ready_def quiet_def handled_def)
      then have "queueing s (add_successors w items s2)"
        using IH new True rd rt ok unfolding queueing_def by auto
      moreover have "ws_ready (add_successors w items s2) = ws_ready s @ (n # new)" using new rd by simp
      moreover have "distinct (n # new)" using new rd by simp
      moreover have "k \<in> set (n # new) \<longleftrightarrow> k \<notin> set (ws_completed s) \<and> k \<notin> set (ws_ready s) \<and>
         (\<exists>ps. (k, ps) \<in> set (it # items) \<and> preds_ok s ps)" for k
        using new(3) [of k] True notin by (auto simp: it rd po)
      ultimately show ?thesis unfolding r by blast
    qed
  qed
  then show "queueing s (add_successors w items s)"
    and "\<exists>new. ws_ready (add_successors w items s) = ws_ready s @ new \<and> distinct new \<and>
      (\<forall>k. k \<in> set new \<longleftrightarrow> k \<notin> set (ws_completed s) \<and> k \<notin> set (ws_ready s) \<and>
         (\<exists>ps. (k, ps) \<in> set items \<and> preds_ok s ps))" by blast+
qed

section \<open>One round of the loop\<close>

text \<open>The predecessor table lists exactly the nodes of the run.\<close>

definition tables_ok :: "world \<Rightarrow> run_state \<Rightarrow> bool" where
  "tables_ok w s \<longleftrightarrow> distinct (map fst (ww_preds w)) \<and> fst ` set (ww_preds w) = set (keys_of s)"

lemma tables_ok_keys: "keys_of s' = keys_of s \<Longrightarrow> tables_ok w s' = tables_ok w s"
  by (simp add: tables_ok_def)

lemma node_done_spec:
  fixes nid :: string
  assumes "tables_ok w s"
  defines "s' \<equiv> node_done w nid s"
  shows "set (ws_completed s') = insert nid (set (ws_completed s))"
    and "keys_of s' = keys_of s" "\<And>k. handled k s' = handled k s"
    and "\<And>k. node_ok (status_in s' k) = node_ok (status_in s k)"
    and "\<And>k. k \<notin> set (ws_ready s') - set (ws_ready s) \<Longrightarrow> runtime_of s' k = runtime_of s k"
    and "\<And>k. k \<in> set (ws_ready s') - set (ws_ready s) \<Longrightarrow> status_in s k = ND_CREATED \<Longrightarrow>
           status_in s' k = ND_QUEUED"
    and "\<exists>new. ws_ready s' = ws_ready s @ new \<and> distinct new \<and>
      (\<forall>k. k \<in> set new \<longleftrightarrow> k \<noteq> nid \<and> k \<notin> set (ws_completed s) \<and> k \<notin> set (ws_ready s) \<and>
         k \<in> set (keys_of s) \<and> preds_ok s (dict_list (ww_preds w) k))"
proof -
  let ?s = "s\<lparr>ws_completed := (if nid \<in> set (ws_completed s) then ws_completed s
                           else ws_completed s @ [nid])\<rparr>"
  have c: "set (ws_completed ?s) = insert nid (set (ws_completed s))" by auto
  have po: "preds_ok ?s ps = preds_ok s ps" for ps by (simp add: preds_ok_def wf_simps)
  have t: "distinct (map fst (ww_preds w))" "fst ` set (ww_preds w) \<subseteq> set (keys_of ?s)"
    using assms(1) by (simp_all add: tables_ok_def wf_simps)
  have s': "s' = add_successors w (ww_preds w) ?s" by (simp add: s'_def node_done_def add_ready_successors_def)
  note q = add_successors_spec(1) [OF t, of w, folded s', unfolded queueing_def]
  show "set (ws_completed s') = insert nid (set (ws_completed s))" using q c by simp
  show "keys_of s' = keys_of s" using q by (simp add: wf_simps)
  show "handled k s' = handled k s" for k using q by (simp add: handled_def)
  show "node_ok (status_in s' k) = node_ok (status_in s k)" for k using q by (simp add: wf_simps)
  show "k \<notin> set (ws_ready s') - set (ws_ready s) \<Longrightarrow> runtime_of s' k = runtime_of s k" for k
    using q by (simp add: wf_simps)
  show "k \<in> set (ws_ready s') - set (ws_ready s) \<Longrightarrow> status_in s k = ND_CREATED \<Longrightarrow>
           status_in s' k = ND_QUEUED" for k
    using q by (simp add: wf_simps)
  have row: "(\<exists>ps. (k, ps) \<in> set (ww_preds w) \<and> preds_ok s ps) \<longleftrightarrow>
      k \<in> set (keys_of s) \<and> preds_ok s (dict_list (ww_preds w) k)" for k
  proof
    assume "\<exists>ps. (k, ps) \<in> set (ww_preds w) \<and> preds_ok s ps"
    then obtain ps where ps: "(k, ps) \<in> set (ww_preds w)" "preds_ok s ps" by blast
    then have "map_of (ww_preds w) k = Some ps" using t(1) by simp
    moreover have "k \<in> set (keys_of s)"
      using assms(1) ps(1) by (force simp: tables_ok_def)
    ultimately show "k \<in> set (keys_of s) \<and> preds_ok s (dict_list (ww_preds w) k)"
      using ps(2) by (simp add: dict_list_def)
  next
    assume a: "k \<in> set (keys_of s) \<and> preds_ok s (dict_list (ww_preds w) k)"
    then obtain ps where "(k, ps) \<in> set (ww_preds w)" using assms(1) by (force simp: tables_ok_def)
    moreover from this have "map_of (ww_preds w) k = Some ps" using t(1) by simp
    ultimately show "\<exists>ps. (k, ps) \<in> set (ww_preds w) \<and> preds_ok s ps"
      using a by (auto simp: dict_list_def)
  qed
  from add_successors_spec(2) [OF t, of w, folded s'] obtain new where
    "ws_ready s' = ws_ready s @ new" "distinct new"
    "\<forall>k. k \<in> set new \<longleftrightarrow> k \<notin> insert nid (set (ws_completed s)) \<and> k \<notin> set (ws_ready s) \<and>
         (\<exists>ps. (k, ps) \<in> set (ww_preds w) \<and> preds_ok s ps)"
    unfolding c po by auto
  then show "\<exists>new. ws_ready s' = ws_ready s @ new \<and> distinct new \<and>
      (\<forall>k. k \<in> set new \<longleftrightarrow> k \<noteq> nid \<and> k \<notin> set (ws_completed s) \<and> k \<notin> set (ws_ready s) \<and>
         k \<in> set (keys_of s) \<and> preds_ok s (dict_list (ww_preds w) k))"
    unfolding row by (intro exI [of _ new]) simp
qed

text \<open>What a round does, for a group of any size taken off the queue.\<close>

definition round_change :: "string list \<Rightarrow> run_state \<Rightarrow> run_state \<Rightarrow> bool" where
  "round_change grp s s' \<longleftrightarrow> keys_of s' = keys_of s \<and>
     set (ws_completed s') = set (ws_completed s) \<union> set grp \<and>
     (\<exists>new. ws_ready s' = ws_ready s @ new \<and> distinct new \<and>
        (\<forall>k \<in> set new. k \<notin> set (ws_completed s) \<and> k \<notin> set (ws_ready s) \<and> k \<in> set (keys_of s))) \<and>
     (\<forall>k. handled k s' \<le> handled k s + (if k \<in> set grp then 1 else 0))"

lemma round_change_fold_done:
  "tables_ok w s \<Longrightarrow> round_change grp s (fold (node_done w) grp s)"
proof (induction grp arbitrary: s)
  case Nil
  then show ?case by (simp add: round_change_def)
next
  case (Cons n grp)
  let ?s = "node_done w n s"
  note d = node_done_spec [OF Cons.prems, where nid = n]
  have "tables_ok w ?s" using Cons.prems tables_ok_keys [OF d(2)] by simp
  note IH = Cons.IH [OF this]
  from d(7) obtain new where new: "ws_ready ?s = ws_ready s @ new" "distinct new"
    "\<forall>k. k \<in> set new \<longleftrightarrow> k \<noteq> n \<and> k \<notin> set (ws_completed s) \<and> k \<notin> set (ws_ready s) \<and>
         k \<in> set (keys_of s) \<and> preds_ok s (dict_list (ww_preds w) k)" by blast
  from IH obtain new' where new': "ws_ready (fold (node_done w) grp ?s) = ws_ready ?s @ new'" "distinct new'"
    "\<forall>k \<in> set new'. k \<notin> set (ws_completed ?s) \<and> k \<notin> set (ws_ready ?s) \<and> k \<in> set (keys_of ?s)"
    unfolding round_change_def by blast
  have "ws_ready (fold (node_done w) grp ?s) = ws_ready s @ (new @ new')" using new new' by simp
  moreover have "distinct (new @ new')" using new new' by auto
  moreover have "\<forall>k \<in> set (new @ new'). k \<notin> set (ws_completed s) \<and> k \<notin> set (ws_ready s) \<and> k \<in> set (keys_of s)"
    using new new' d(1,2) by auto
  moreover have "handled k (fold (node_done w) grp ?s) \<le> handled k s + (if k \<in> set (n # grp) then 1 else 0)" for k
  proof -
    have "handled k (fold (node_done w) grp ?s) \<le> handled k ?s + (if k \<in> set grp then 1 else 0)"
      using IH unfolding round_change_def by blast
    then show ?thesis by (auto simp: d(3) split: if_splits)
  qed
  ultimately show ?case using IH d(1,2) unfolding round_change_def by auto
qed

lemma fold_execute_change:
  "distinct grp \<Longrightarrow> set grp \<subseteq> set (keys_of s) \<Longrightarrow>
   keys_of (fold (execute_single_node w) grp s) = keys_of s \<and>
   ws_ready (fold (execute_single_node w) grp s) = ws_ready s \<and>
   ws_completed (fold (execute_single_node w) grp s) = ws_completed s \<and>
   (\<forall>k. handled k (fold (execute_single_node w) grp s) \<le> handled k s + (if k \<in> set grp then 1 else 0))"
proof (induction grp arbitrary: s)
  case (Cons n grp)
  let ?s = "execute_single_node w n s"
  have n: "n \<in> set (keys_of s)" using Cons.prems by simp
  note c = execute_node_change(1,2) [OF n, of w]
  then have k: "keys_of ?s = keys_of s" by (simp add: node_change_def)
  then have "distinct grp" "set grp \<subseteq> set (keys_of ?s)" using Cons.prems by simp_all
  note IH = Cons.IH [OF this]
  have "handled j (fold (execute_single_node w) grp ?s) \<le> handled j s + (if j \<in> set (n # grp) then 1 else 0)" for j
  proof (cases "j = n")
    case True
    then have "j \<notin> set grp" using Cons.prems(1) by simp
    then show ?thesis using IH [THEN conjunct2, THEN conjunct2, THEN conjunct2, rule_format, of j] c(2) True by simp
  next
    case False
    then show ?thesis using IH [THEN conjunct2, THEN conjunct2, THEN conjunct2, rule_format, of j] c(1)
      by (simp add: node_change_def)
  qed
  then show ?case using IH k c(1) by (simp add: node_change_def)
qed simp

lemma fold_dispatch_change:
  "set grp \<subseteq> set (keys_of s) \<Longrightarrow>
   quiet s (fold (dispatch_node w) grp s) \<and> keys_of (fold (dispatch_node w) grp s) = keys_of s"
proof (induction grp arbitrary: s)
  case (Cons n grp)
  have "quiet s (dispatch_node w n s)" "keys_of (dispatch_node w n s) = keys_of s"
    using Cons.prems by (simp_all add: dispatch_node_def wf_simps)
  then show ?case using Cons.IH [of "dispatch_node w n s"] Cons.prems quiet_trans by force
qed simp

lemma run_group_change:
  assumes "tables_ok w s" "distinct grp" "set grp \<subseteq> set (keys_of s)"
  shows "round_change grp s (run_group w grp s)"
proof -
  let ?d = "fold (dispatch_node w) grp s"
  let ?e = "fold (execute_single_node w) grp ?d"
  note d = fold_dispatch_change [OF assms(3), of w]
  have "set grp \<subseteq> set (keys_of ?d)" using assms(3) d by simp
  note e = fold_execute_change [OF assms(2) this, of w]
  have ek: "keys_of ?e = keys_of s" "ws_ready ?e = ws_ready s" "ws_completed ?e = ws_completed s"
    and eh: "\<And>k. handled k ?e \<le> handled k s + (if k \<in> set grp then 1 else 0)"
    using e d by (simp_all add: quiet_def)
  have "tables_ok w ?e" using assms(1) tables_ok_keys [OF ek(1)] by simp
  note f = round_change_fold_done [OF this, of grp]
  have h: "handled k (fold (node_done w) grp s1) = handled k s1" if "tables_ok w s1" for k s1
    using that
  proof (induction grp arbitrary: s1)
    case (Cons n grp)
    then show ?case using node_done_spec(2,3) [OF Cons.prems, where nid = n] tables_ok_keys [of "node_done w n s1" s1 w] by simp
  qed simp
  show ?thesis using f eh h [OF \<open>tables_ok w ?e\<close>] unfolding round_change_def run_group_def ek by simp
qed

section \<open>Every run comes to an end\<close>

text \<open>
  The general invariant: a node that is not completed was never called, a completed node that is
  still queued once, any other at most twice.  Each round decreases \<open>rounds_left\<close>.
\<close>

definition loop_inv :: "world \<Rightarrow> run_state \<Rightarrow> bool" where
  "loop_inv w s \<longleftrightarrow> tables_ok w s \<and> distinct (ws_ready s) \<and>
     set (ws_ready s) \<union> set (ws_completed s) \<subseteq> set (keys_of s) \<and>
     (\<forall>k. handled k s \<le> (if k \<notin> set (ws_completed s) then 0 else if k \<in> set (ws_ready s) then 1 else 2))"

definition rounds_left :: "run_state \<Rightarrow> nat" where
  "rounds_left s = 2 * card (set (keys_of s) - set (ws_completed s)) +
     card (set (ws_ready s) \<inter> set (ws_completed s))"

lemma loop_inv_checks [simp]:
  "loop_inv w (s\<lparr>ws_checks := n\<rparr>) = loop_inv w s" "rounds_left (s\<lparr>ws_checks := n\<rparr>) = rounds_left s"
  by (simp_all add: loop_inv_def rounds_left_def tables_ok_def keys_of_def handled_def)

lemma rounds_left_bound: "rounds_left s = 2 * card (U::string set) + card C \<Longrightarrow>
    finite U \<Longrightarrow> G \<noteq> [] \<Longrightarrow> distinct G \<Longrightarrow> set G - K \<subseteq> U \<Longrightarrow> set G \<inter> K \<subseteq> C \<Longrightarrow> R \<inter> set G = {} \<Longrightarrow>
    R \<inter> K \<subseteq> C \<Longrightarrow> finite C \<Longrightarrow>
    2 * card (U - set G) + card (R \<inter> K \<union> (set G - K)) < rounds_left s"
proof -
  assume a: "rounds_left s = 2 * card U + card C" "finite U" "G \<noteq> []" "distinct G" "set G - K \<subseteq> U"
    "set G \<inter> K \<subseteq> C" "R \<inter> set G = {}" "R \<inter> K \<subseteq> C" "finite C"
  have "card (U - (set G - K)) = card U - card (set G - K)" "card (set G - K) \<le> card U"
    using a by (auto simp: card_Diff_subset card_mono)
  moreover have "card (U - set G) \<le> card (U - (set G - K))" using a(2) by (auto intro: card_mono)
  moreover have "card (R \<inter> K \<union> (set G - K)) \<le> card (R \<inter> K) + card (set G - K)" by (rule card_Un_le)
  moreover have "card (R \<inter> K) + card (set G \<inter> K) = card (R \<inter> K \<union> set G \<inter> K)"
    using a by (intro card_Un_disjoint [symmetric]) (auto intro: finite_subset)
  moreover have "card (R \<inter> K \<union> set G \<inter> K) \<le> card C" using a by (intro card_mono) auto
  moreover have "card (set G) = card (set G \<inter> K) + card (set G - K)"
    by (metis Int_Diff_disjoint Int_Diff_Un card_Un_disjoint finite_Diff finite_Int finite_set)
  moreover have "0 < card (set G)" using a(3) by (simp add: card_gt_0_iff)
  ultimately show ?thesis using a(1) by linarith
qed

lemma round_inv:
  assumes inv: "loop_inv w s" and G: "grp \<noteq> []" "distinct (grp @ rest)" "set (grp @ rest) \<subseteq> set (ws_ready s)"
    and s1: "ws_ready s1 = rest" "ws_completed s1 = ws_completed s" "keys_of s1 = keys_of s"
      "\<And>k. handled k s1 = handled k s"
    and r: "round_change grp s1 s'"
  shows "loop_inv w s' \<and> rounds_left s' < rounds_left s"
proof -
  let ?K = "set (ws_completed s)"
  from r obtain new where new: "ws_ready s' = rest @ new" "distinct new"
    "\<And>k. k \<in> set new \<Longrightarrow> k \<notin> ?K \<and> k \<notin> set rest \<and> k \<in> set (keys_of s)"
    unfolding round_change_def s1 by blast
  have c: "set (ws_completed s') = ?K \<union> set grp" and k: "keys_of s' = keys_of s"
    and h: "\<And>k. handled k s' \<le> handled k s + (if k \<in> set grp then 1 else 0)"
    using r by (auto simp: round_change_def s1)
  have sub: "set (ws_ready s) \<union> ?K \<subseteq> set (keys_of s)" "distinct (ws_ready s)" "tables_ok w s"
    and hs: "\<And>k. handled k s \<le> (if k \<notin> ?K then 0 else if k \<in> set (ws_ready s) then 1 else 2)"
    using inv by (simp_all add: loop_inv_def)
  have "distinct (ws_ready s')" using new G(2) by auto
  moreover have "set (ws_ready s') \<union> set (ws_completed s') \<subseteq> set (keys_of s')"
    using new(1,3) G(3) sub(1) by (auto simp: c k)
  moreover have "handled j s' \<le>
      (if j \<notin> set (ws_completed s') then 0 else if j \<in> set (ws_ready s') then 1 else 2)" for j
  proof (cases "j \<in> set grp")
    case True
    then have "j \<in> set (ws_ready s)" "j \<notin> set rest" using G(2,3) by auto
    then show ?thesis using True h [of j] hs [of j] new(3) [of j] by (auto simp: c new(1) split: if_splits)
  next
    case False
    then show ?thesis using h [of j] hs [of j] new(3) [of j] G(3) by (auto simp: c new(1) split: if_splits)
  qed
  moreover have "tables_ok w s'" using sub(3) tables_ok_keys [OF k] by simp
  ultimately have "loop_inv w s'" by (simp add: loop_inv_def)
  moreover have "rounds_left s' < rounds_left s"
  proof -
    let ?U = "set (keys_of s) - ?K" and ?C = "set (ws_ready s) \<inter> ?K"
    have "set (ws_ready s') \<inter> set (ws_completed s') \<subseteq> set rest \<inter> ?K \<union> (set grp - ?K)"
      using new(1,3) G(2) by (auto simp: c)
    then have "card (set (ws_ready s') \<inter> set (ws_completed s')) \<le> card (set rest \<inter> ?K \<union> (set grp - ?K))"
      by (intro card_mono) auto
    moreover have "2 * card (?U - set grp) + card (set rest \<inter> ?K \<union> (set grp - ?K)) < rounds_left s"
      by (rule rounds_left_bound [of _ _ ?C]) (use G sub in \<open>auto simp: rounds_left_def\<close>)
    moreover have "set (keys_of s') - set (ws_completed s') = ?U - set grp" by (auto simp: c k)
    ultimately show ?thesis by (simp add: rounds_left_def)
  qed
  ultimately show ?thesis by simp
qed

lemma take_parallel_spec:
  "take_parallel w s xs = (grp, rest) \<Longrightarrow>
   set (grp @ rest) \<subseteq> set xs \<and> (distinct xs \<longrightarrow> distinct (grp @ rest)) \<and>
   (\<forall>n \<in> set grp. is_node_ready w s n)"
proof (induction xs arbitrary: grp rest)
  case (Cons n xs)
  obtain g r where t: "take_parallel w s xs = (g, r)" by fastforce
  show ?case using Cons.prems Cons.IH [OF t] t by (auto split: if_splits)
qed simp

lemma run_group_single:
  "run_group w [n] s = node_done w n (execute_single_node w n (dispatch_node w n s))"
  by (simp add: run_group_def)

text \<open>The loop, one equation per way a round can go.\<close>

definition tested :: "run_state \<Rightarrow> run_state" where
  "tested s = s\<lparr>ws_checks := ws_checks s + 1\<rparr>"

lemma check_cancel_tested: "check_cancel w s = (ww_cancel w (ws_checks s), tested s)"
  by (simp add: check_cancel_def tested_def)

lemma tested_simps [simp]:
  "ws_ready (tested s) = ws_ready s" "ws_completed (tested s) = ws_completed s"
  "ws_effects (tested s) = ws_effects s" "ws_runtimes (tested s) = ws_runtimes s"
  "keys_of (tested s) = keys_of s" "handled k (tested s) = handled k s"
  "runtime_of (tested s) k = runtime_of s k" "loop_inv w (tested s) = loop_inv w s"
  "rounds_left (tested s) = rounds_left s" "tables_ok w (tested s) = tables_ok w s"
  by (simp_all add: tested_def wf_simps handled_def tables_ok_def)

lemmas round_defs = run_round_def check_cancel_tested run_head_def

lemma exec_step:
  "exec_loop fuel w s =
     (case run_round w s of
        Stop r \<Rightarrow> Some r
      | Continue s' \<Rightarrow> (case fuel of 0 \<Rightarrow> None | Suc n \<Rightarrow> exec_loop n w s'))"
  by (cases fuel) (simp_all add: exec_loop.simps split: round_result.split)

lemma exec_stop:
  "ws_ready s = [] \<Longrightarrow> exec_loop fuel w s = Some (Inr s)"
  "ws_ready s \<noteq> [] \<Longrightarrow> ww_cancel w (ws_checks s) \<Longrightarrow> exec_loop fuel w s = Some (Inr (tested s))"
  by (simp_all add: exec_step [of fuel] round_defs)

lemma exec_group:
  assumes "ws_ready s \<noteq> []" "\<not> ww_cancel w (ws_checks s)"
    "take_parallel w (tested s) (ws_ready s) = (grp, rest)" "grp \<noteq> []"
  shows "exec_loop (Suc fuel) w s = exec_loop fuel w (run_group w grp ((tested s)\<lparr>ws_ready := rest\<rparr>))"
  by (subst exec_step) (simp add: assms round_defs)

lemma exec_index_error:
  assumes "ws_ready s \<noteq> []" "\<not> ww_cancel w (ws_checks s)"
    "take_parallel w (tested s) (ws_ready s) = ([], [])"
  shows "exec_loop fuel w s = Some (Inl IndexError)"
  by (subst exec_step) (simp add: assms round_defs)

lemma exec_blocked:
  assumes "ws_ready s \<noteq> []" "\<not> ww_cancel w (ws_checks s)"
    "take_parallel w (tested s) (ws_ready s) = ([], n # rest)"
    "\<not> is_node_ready w ((tested s)\<lparr>ws_ready := rest\<rparr>) n"
  shows "exec_loop (Suc fuel) w s = exec_loop fuel w (node_done w n
    (block_node w n ''predecessors_not_complete'' ((tested s)\<lparr>ws_ready := rest\<rparr>)))"
  by (subst exec_step) (simp add: assms round_defs)

lemma exec_single:
  assumes "ws_ready s \<noteq> []" "\<not> ww_cancel w (ws_checks s)"
    "take_parallel w (tested s) (ws_ready s) = ([], n # rest)"
    "is_node_ready w ((tested s)\<lparr>ws_ready := rest\<rparr>) n"
  defines "r \<equiv> run_group w [n] ((tested s)\<lparr>ws_ready := rest\<rparr>)"
  shows "exec_loop (Suc fuel) w s =
    (if ww_cancel w (ws_checks r) then Some (Inr (tested r)) else exec_loop fuel w (tested r))"
  by (subst exec_step) (simp add: assms(1-4) round_defs r_def run_group_single)

lemma exec_loop_returns:
  "loop_inv w s \<Longrightarrow> rounds_left s \<le> fuel \<Longrightarrow>
   exec_loop fuel w s = Some (Inl IndexError) \<or>
   (\<exists>s'. exec_loop fuel w s = Some (Inr s') \<and> loop_inv w s')"
proof (induction fuel arbitrary: s)
  case 0
  have "ws_ready s = []"
  proof (rule ccontr)
    assume "ws_ready s \<noteq> []"
    then obtain n where n: "n \<in> set (ws_ready s)" by (cases "ws_ready s") auto
    then have "n \<in> set (keys_of s)" using 0(1) by (auto simp: loop_inv_def)
    then have "n \<in> set (keys_of s) - set (ws_completed s) \<or> n \<in> set (ws_ready s) \<inter> set (ws_completed s)"
      using n by blast
    then show False using 0(2) by (auto simp: rounds_left_def)
  qed
  then show ?case using exec_stop(1) 0(1) by simp
next
  case (Suc fuel)
  note inv = Suc.prems(1)
  show ?case
  proof (cases "ws_ready s = [] \<or> ww_cancel w (ws_checks s)")
    case True
    then show ?thesis using exec_stop [where s = s and w = w and fuel = "Suc fuel"] inv
      by (cases "ws_ready s = []") simp_all
  next
    case False
    then have go: "ws_ready s \<noteq> []" "\<not> ww_cancel w (ws_checks s)" by simp_all
    obtain grp rest where t: "take_parallel w (tested s) (ws_ready s) = (grp, rest)" by fastforce
    have keys: "set (ws_ready s) \<subseteq> set (keys_of s)" and tab: "tables_ok w s"
      and d: "distinct (grp @ rest)" "set (grp @ rest) \<subseteq> set (ws_ready s)"
      using take_parallel_spec [OF t] inv by (simp_all add: loop_inv_def)
    have dec: "loop_inv w s' \<and> rounds_left s' \<le> fuel"
      if "round_change g s1 s'" "g \<noteq> []" "distinct (g @ r)" "set (g @ r) \<subseteq> set (ws_ready s)"
        "ws_ready s1 = r" "ws_completed s1 = ws_completed s" "keys_of s1 = keys_of s"
        "\<And>k. handled k s1 = handled k s" for g r s1 s'
      using round_inv [OF inv that(2,3,4,5,6,7,8,1)] Suc.prems(2) by simp
    have grp_dec: "loop_inv w (run_group w g ((tested s)\<lparr>ws_ready := r\<rparr>)) \<and>
        rounds_left (run_group w g ((tested s)\<lparr>ws_ready := r\<rparr>)) \<le> fuel"
      if g: "g \<noteq> []" "distinct (g @ r)" "set (g @ r) \<subseteq> set (ws_ready s)" for g r
    proof (rule dec [OF run_group_change g])
      show "tables_ok w ((tested s)\<lparr>ws_ready := r\<rparr>)"
        using tab tables_ok_keys [of "(tested s)\<lparr>ws_ready := r\<rparr>" s w] by (simp add: wf_simps)
    qed (use g keys in \<open>auto simp: wf_simps handled_def\<close>)
    consider (grp) "grp \<noteq> []" | (empty) "grp = []" "rest = []"
      | (head) n rest' where "grp = []" "rest = n # rest'" by (metis neq_Nil_conv)
    then show ?thesis
    proof cases
      case grp
      then show ?thesis unfolding exec_group [OF go t grp] using Suc.IH grp_dec [OF grp d] by blast
    next
      case empty
      then show ?thesis using exec_index_error [OF go] t by simp
    next
      case head
      let ?s2 = "(tested s)\<lparr>ws_ready := rest'\<rparr>"
      have t': "take_parallel w (tested s) (ws_ready s) = ([], n # rest')" using t head by simp
      have dn: "distinct ([n] @ rest')" "set ([n] @ rest') \<subseteq> set (ws_ready s)" using d head by auto
      show ?thesis
      proof (cases "is_node_ready w ?s2 n")
        case True
        from grp_dec [OF _ dn] have "loop_inv w (tested (run_group w [n] ?s2))"
          "rounds_left (tested (run_group w [n] ?s2)) \<le> fuel" by simp_all
        then show ?thesis unfolding exec_single [OF go t' True] using Suc.IH by (simp split: if_splits)
      next
        case nr: False
        let ?b = "block_node w n ''predecessors_not_complete'' ?s2"
        have n: "n \<in> set (keys_of s)" using dn keys by auto
        then have kb: "keys_of ?b = keys_of s" by (simp add: block_node_def wf_simps)
        then have "tables_ok w ?b" using tab tables_ok_keys [OF kb] by simp
        from round_change_fold_done [OF this, of "[n]"]
        have rc: "round_change [n] ?b (node_done w n ?b)" by simp
        have q: "quiet ?s2 ?b" by (simp add: block_node_def wf_simps)
        have "loop_inv w (node_done w n ?b) \<and> rounds_left (node_done w n ?b) \<le> fuel"
          by (rule dec [OF rc _ dn]) (use q kb in \<open>simp_all add: quiet_def handled_def\<close>)
        then show ?thesis unfolding exec_blocked [OF go t' nr] using Suc.IH by blast
      qed
    qed
  qed
qed

section \<open>The start of a run\<close>

lemma group_edges:
  "eg_target ` set es \<subseteq> fst ` set d \<Longrightarrow>
   map fst (fold (\<lambda>e d. AList.update (eg_target e) (dict_list d (eg_target e) @ [f e]) d) es d) = map fst d \<and>
   dict_list (fold (\<lambda>e d. AList.update (eg_target e) (dict_list d (eg_target e) @ [f e]) d) es d) n =
     dict_list d n @ map f (filter (\<lambda>e. eg_target e = n) es)"
proof (induction es arbitrary: d)
  case (Cons e es)
  let ?d = "AList.update (eg_target e) (dict_list d (eg_target e) @ [f e]) d"
  have "map fst ?d = map fst d" using Cons.prems by (simp add: keys_update_old)
  moreover from arg_cong [OF this, of set] have "eg_target ` set es \<subseteq> fst ` set ?d"
    using Cons.prems by simp
  note IH = Cons.IH [OF this]
  moreover have "dict_list ?d n = dict_list d n @ (if eg_target e = n then [f e] else [])"
    by (simp add: dict_list_def map_of_update)
  ultimately show ?case by simp
qed simp

lemma pred_table_spec:
  assumes "edges_closed wd"
  shows "map fst (pred_table wd) = map fst (keyed ([] :: string list) (wf_nodes wd))"
    and "dict_list (pred_table wd) n = map eg_source (filter (\<lambda>e. eg_target e = n) (wf_edges wd))"
    and "dict_list (incoming_table wd) n = filter (\<lambda>e. eg_target e = n) (wf_edges wd)"
proof -
  have t: "eg_target ` set (wf_edges wd) \<subseteq> fst ` set (keyed v (wf_nodes wd))" for v :: "'v list"
    using assms by (auto simp: edges_closed_def node_ids_def)
  have e: "dict_list (keyed ([] :: 'v list) (wf_nodes wd)) n = []" by (simp add: dict_list_def)
  show "map fst (pred_table wd) = map fst (keyed ([] :: string list) (wf_nodes wd))"
    and "dict_list (pred_table wd) n = map eg_source (filter (\<lambda>e. eg_target e = n) (wf_edges wd))"
    using group_edges [OF t, of eg_source] e by (simp_all add: pred_table_def dict_list_def)
  show "dict_list (incoming_table wd) n = filter (\<lambda>e. eg_target e = n) (wf_edges wd)"
    using group_edges [OF t, of id] by (simp add: incoming_table_def dict_list_def)
qed

lemma runtime_table_spec:
  "set (map fst (runtime_table wd)) = set (node_ids wd)" "distinct (map fst (runtime_table wd))"
  "map_of (runtime_table wd) n = (if n \<in> set (node_ids wd) then Some (new_runtime n) else None)"
proof -
  have f: "set (map fst (fold (\<lambda>n d. AList.update (nd_id n) (new_runtime (nd_id n)) d) ns d)) =
        set (map fst d) \<union> nd_id ` set ns \<and>
      (distinct (map fst d) \<longrightarrow>
        distinct (map fst (fold (\<lambda>n d. AList.update (nd_id n) (new_runtime (nd_id n)) d) ns d))) \<and>
      map_of (fold (\<lambda>n d. AList.update (nd_id n) (new_runtime (nd_id n)) d) ns d) k =
        (if k \<in> nd_id ` set ns then Some (new_runtime k) else map_of d k)" for ns d k
    by (induction ns arbitrary: d) (auto simp: map_of_update distinct_keys_update dom_update)
  show "set (map fst (runtime_table wd)) = set (node_ids wd)" "distinct (map fst (runtime_table wd))"
    "map_of (runtime_table wd) n = (if n \<in> set (node_ids wd) then Some (new_runtime n) else None)"
    using f [of "wf_nodes wd" "[]" n] by (simp_all add: runtime_table_def node_ids_def)
qed

lemma queue_roots_spec:
  "distinct order \<Longrightarrow> set order \<subseteq> set (keys_of s) \<Longrightarrow>
   ws_ready (queue_roots w order s) = ws_ready s @ filter (\<lambda>n. dict_list (ww_preds w) n = []) order \<and>
   ws_completed (queue_roots w order s) = ws_completed s \<and> keys_of (queue_roots w order s) = keys_of s \<and>
   handled k (queue_roots w order s) = handled k s \<and>
   rt_status (runtime_of (queue_roots w order s) k) =
     (if k \<in> set order \<and> dict_list (ww_preds w) k = [] then ND_QUEUED else status_in s k)"
proof (induction order arbitrary: s)
  case (Cons n order)
  show ?case
  proof (cases "dict_list (ww_preds w) n = []")
    case True
    let ?e = "queue_node w n s"
    let ?s = "push_ready n ?e"
    have q: "quiet s ?e" and k: "keys_of ?s = keys_of s"
      using Cons.prems by (simp_all add: queue_node_def push_ready_def wf_simps)
    have r: "queue_roots w (n # order) s = queue_roots w order ?s"
      using True by (simp add: queue_roots_def queue_root_def)
    have h: "ws_ready ?s = ws_ready s @ [n]" "ws_completed ?s = ws_completed s" "handled k ?s = handled k s"
      using q by (simp_all add: quiet_def handled_def push_ready_def)
    have "distinct order" "set order \<subseteq> set (keys_of ?s)" using Cons.prems k by simp_all
    note IH = Cons.IH [OF this]
    show ?thesis unfolding r using IH h k True Cons.prems(1)
      by (auto simp: queue_node_def push_ready_def wf_simps)
  next
    case False
    then have "queue_roots w (n # order) s = queue_roots w order s" by (simp add: queue_roots_def queue_root_def)
    then show ?thesis using Cons False by (auto simp del: append_assoc)
  qed
qed (simp add: queue_roots_def)

lemma announce_quiet: "quiet s (announce w wd s) \<and> keys_of (announce w wd s) = keys_of s \<and>
    runtime_of (announce w wd s) k = runtime_of s k"
proof -
  have "quiet s (fold (announce_node w) ns s) \<and> keys_of (fold (announce_node w) ns s) = keys_of s \<and>
      runtime_of (fold (announce_node w) ns s) k = runtime_of s k" for ns
  proof (induction ns arbitrary: s)
    case (Cons n ns)
    have "quiet s (announce_node w n s)" "keys_of (announce_node w n s) = keys_of s"
      "runtime_of (announce_node w n s) k = runtime_of s k"
      by (simp_all add: announce_node_def wf_simps)
    with Cons [of "announce_node w n s"] show ?case by (auto intro: quiet_trans)
  qed simp
  then show ?thesis by (simp add: announce_def wf_simps)
qed

text \<open>A run of a valid workflow: the loop starts in the state \<open>s\<close> described here.\<close>

lemma run_starts:
  assumes "validate_dag wd = None"
  obtains t s where
    "run_workflow fuel base fresh wd ctx =
       (case exec_loop fuel (run_world base fresh wd) s of
          None \<Rightarrow> None | Some (Inl err) \<Rightarrow> Some (Inl err)
        | Some (Inr s') \<Rightarrow> Some (Inr (finish_run (run_world base fresh wd) t s')))"
    "set (keys_of s) = set (node_ids wd)" "distinct (ws_ready s)" "ws_completed s = []"
    "\<And>k. k \<in> set (ws_ready s) \<longleftrightarrow> k \<in> set (node_ids wd) \<and> dict_list (pred_table wd) k = []"
    "\<And>k. handled k s = 0"
    "\<And>k. status_in s k = (if k \<in> set (ws_ready s) then ND_QUEUED else ND_CREATED)"
    "tables_ok (run_world base fresh wd) s" "distinct (keys_of s)"
proof -
  let ?w = "run_world base fresh wd"
  have c: "edges_closed wd" and ac: "acyclic (edge_rel wd)"
    using assms by (simp_all add: validate_dag_cases split: if_splits)
  obtain adj deg where
    r: "add_edges (wf_edges wd) (keyed [] (wf_nodes wd)) (keyed 0 (wf_nodes wd)) = Inr (adj, deg)"
    by (rule kahn_start [OF c])
  define order where "order = kahn True adj deg (zero_degree deg)"
  have ts: "topological_sort wd = Inr order" by (simp add: topological_sort_def r order_def)
  have o: "distinct order" "set order = set (node_ids wd)"
    using kahn_order [OF c r, of True] ac by (simp_all add: order_def)
  let ?s0 = "\<lparr>ws_runtimes = runtime_table wd, ws_context = ctx, ws_ready = [],
         ws_completed = [], ws_effects = [], ws_checks = 0, ws_ticks = 1\<rparr>"
  define s where "s = queue_roots ?w order (announce ?w wd ?s0)"
  have a: "quiet ?s0 (announce ?w wd ?s0)" "keys_of (announce ?w wd ?s0) = map fst (runtime_table wd)"
    "\<And>k. runtime_of (announce ?w wd ?s0) k = runtime_of ?s0 k"
    using announce_quiet [of ?s0 ?w wd] by (simp_all add: keys_of_def)
  have rt: "status_in ?s0 k = ND_CREATED" for k
    by (simp add: runtime_of_def runtime_table_spec(3) new_runtime_def)
  have "set order \<subseteq> set (keys_of (announce ?w wd ?s0))" using o a(2) runtime_table_spec(1) by simp
  note q = queue_roots_spec [OF o(1) this, of ?w, folded s_def]
  have keys: "keys_of s = map fst (runtime_table wd)" using q a(2) by simp
  have ready: "ws_ready s = filter (\<lambda>n. dict_list (pred_table wd) n = []) order"
    using q a(1) by (simp add: quiet_def run_world_def)
  show thesis
  proof (rule that [of "ww_clock ?w 0" s])
    show "run_workflow fuel base fresh wd ctx =
       (case exec_loop fuel ?w s of
          None \<Rightarrow> None | Some (Inl err) \<Rightarrow> Some (Inl err)
        | Some (Inr s') \<Rightarrow> Some (Inr (finish_run ?w (ww_clock ?w 0) s')))"
    proof -
      have "read_clock ?w (initial_state wd ctx) = (ww_clock ?w 0, ?s0)"
        by (simp add: read_clock_def initial_state_def)
      then show ?thesis by (simp add: run_workflow_def assms ts begin_run_def execute_dag_def s_def)
    qed
    show "set (keys_of s) = set (node_ids wd)" "distinct (keys_of s)"
      using keys runtime_table_spec by simp_all
    show "distinct (ws_ready s)" using ready o(1) by simp
    show "ws_completed s = []" "\<And>k. handled k s = 0"
      using q a(1) by (simp_all add: quiet_def handled_def)
    show rd: "k \<in> set (ws_ready s) \<longleftrightarrow> k \<in> set (node_ids wd) \<and> dict_list (pred_table wd) k = []" for k
      using ready o(2) by auto
    show "status_in s k = (if k \<in> set (ws_ready s) then ND_QUEUED else ND_CREATED)" for k
      using q a(3) rt o(2) rd by (simp add: run_world_def)
    have "fst ` set (pred_table wd) = nd_id ` set (wf_nodes wd)"
      using arg_cong [OF pred_table_spec(1) [OF c], of set] by simp
    moreover have "distinct (map fst (pred_table wd))" using pred_table_spec(1) [OF c] by simp
    ultimately show "tables_ok ?w s" using keys runtime_table_spec(1) [of wd]
      by (simp add: tables_ok_def run_world_def node_ids_def)
  qed
qed

lemma loop_inv_start:
  assumes "tables_ok w s" "distinct (ws_ready s)" "set (ws_ready s) \<subseteq> set (keys_of s)"
    "ws_completed s = []" "\<And>k. handled k s = 0"
  shows "loop_inv w s" "rounds_left s = 2 * card (set (keys_of s))"
  using assms by (simp_all add: loop_inv_def rounds_left_def)

lemma handled_finish: "handled k (rr_state (finish_run w t s)) = handled k s"
  by (simp add: finish_run_def close_run_def check_cancel_def read_clock_def handled_def log_effect_def)

lemma run_returns_inv:
  assumes v: "validate_dag wd = None" and f: "2 * length (wf_nodes wd) \<le> fuel"
  shows "run_workflow fuel base fresh wd ctx = Some (Inl IndexError) \<or>
    (\<exists>s t. run_workflow fuel base fresh wd ctx = Some (Inr (finish_run (run_world base fresh wd) t s)) \<and>
       loop_inv (run_world base fresh wd) s)"
proof -
  obtain t s where r: "run_workflow fuel base fresh wd ctx =
       (case exec_loop fuel (run_world base fresh wd) s of
          None \<Rightarrow> None | Some (Inl err) \<Rightarrow> Some (Inl err)
        | Some (Inr s') \<Rightarrow> Some (Inr (finish_run (run_world base fresh wd) t s')))"
    and st: "set (keys_of s) = set (node_ids wd)" "distinct (ws_ready s)" "ws_completed s = []"
    "\<And>k. k \<in> set (ws_ready s) \<longleftrightarrow> k \<in> set (node_ids wd) \<and> dict_list (pred_table wd) k = []"
    "\<And>k. handled k s = 0" "tables_ok (run_world base fresh wd) s"
    by (rule run_starts [OF v, of fuel base fresh ctx]) blast
  have sub: "set (ws_ready s) \<subseteq> set (keys_of s)" using st by auto
  note inv = loop_inv_start [OF st(6,2) sub st(3,5)]
  have "card (set (keys_of s)) \<le> length (wf_nodes wd)"
    unfolding st(1) by (metis card_length length_map node_ids_def)
  then have "rounds_left s \<le> fuel" using inv(2) f by simp
  from exec_loop_returns [OF inv(1) this] show ?thesis unfolding r by (elim disjE exE conjE) auto
qed

section \<open>Properties of runs\<close>

definition demo_base :: "((string, pyval) dict \<Rightarrow> node_def \<Rightarrow> handler_outcome \<times> (string, pyval) dict) \<Rightarrow> world" where
  "demo_base call =
     \<lparr>ww_id = [], ww_engine = \<lparr>en_handlers = [''shell''], en_default = False, en_driver = False, en_skills = None\<rparr>,
      ww_nodes = [], ww_preds = [], ww_incoming = [], ww_call = (\<lambda>_ n c. call c n),
      ww_eval = (\<lambda>_ _ _. Inr True), ww_cancel = (\<lambda>_. False), ww_clock = (\<lambda>_. 0)\<rparr>"

definition demo_ok :: "(string, pyval) dict \<Rightarrow> node_def \<Rightarrow> handler_outcome \<times> (string, pyval) dict" where
  "demo_ok c n = (HReturns (PDict [(nd_id n, PInt 1)]), c)"

text \<open>
  C33: Every run of a valid workflow comes to an end, whatever the handlers do: as many rounds as
  twice the number of nodes are enough; the loop either finishes or raises \<open>IndexError\<close>.
\<close>
theorem run_returns:
  assumes "validate_dag wd = None" "2 * length (wf_nodes wd) \<le> fuel"
  shows "\<exists>r. run_workflow fuel base fresh wd ctx = Some r \<and> (\<forall>e. r = Inl e \<longrightarrow> e = IndexError)"
  using run_returns_inv [OF assms, of base fresh ctx] by auto

theorem run_returns_witness:
  "\<exists>r. run_workflow 6 (demo_base demo_ok) ''f'' demo_workflow [] = Some r"
  using run_returns [OF demo_workflow_valid, of 6 "demo_base demo_ok" "''f''" "[]"]
  by (auto simp: demo_workflow_def)

text \<open>
  In one run no handler is called more than twice for the same node.
\<close>
theorem calls_at_most_twice:
  assumes "validate_dag wd = None" "2 * length (wf_nodes wd) \<le> fuel"
    and "run_workflow fuel base fresh wd ctx = Some (Inr r)"
  shows "handled k (rr_state r) \<le> 2"
proof -
  from run_returns_inv [OF assms(1,2), of base fresh ctx] assms(3) obtain s t where
    r: "r = finish_run (run_world base fresh wd) t s" and "loop_inv (run_world base fresh wd) s" by auto
  then have "handled k s \<le> (if k \<notin> set (ws_completed s) then 0 else if k \<in> set (ws_ready s) then 1 else 2)"
    unfolding loop_inv_def by blast
  then have "handled k s \<le> 2" by (simp split: if_splits)
  then show ?thesis by (simp add: r handled_finish)
qed

definition twin_workflow :: workflow_def where
  "twin_workflow =
     \<lparr>wf_id = ''w'', wf_name = ''twins'', wf_description = [],
      wf_nodes = [demo_node ''a'' MODE_PARALLEL 0, demo_node ''b'' MODE_PARALLEL 0,
                  demo_node ''d'' MODE_SEQUENTIAL 0, demo_node ''c'' MODE_PARALLEL 0],
      wf_edges = [demo_edge ''a'' ''d'' ''always'', demo_edge ''b'' ''c'' ''always''],
      wf_config = []\<rparr>"

text \<open>A handler that remembers in the context that it ran for \<open>b\<close> and fails the second time.\<close>

definition fails_again :: "(string, pyval) dict \<Rightarrow> node_def \<Rightarrow> handler_outcome \<times> (string, pyval) dict" where
  "fails_again c n =
     (if nd_id n = ''b'' \<and> pget c ''seen'' \<noteq> PNone then (HRaises ''again'', c)
      else (HReturns (PInt 0), if nd_id n = ''b'' then AList.update ''seen'' (PInt 1) c else c))"

text \<open>
  The bound of two is reached, without any retry: when two independent nodes run in one
  parallel group, the rescan after the first one queues the second one again (it is no longer
  queued and not yet marked completed), and its handler is called a second time.
\<close>
theorem parallel_sibling_called_twice:
  "case run_workflow 8 (demo_base demo_ok) ''f'' twin_workflow [] of
     Some (Inr r) \<Rightarrow> handled ''a'' (rr_state r) = 1 \<and> handled ''b'' (rr_state r) = 2 \<and>
       rr_status r = WF_COMPLETED
   | _ \<Rightarrow> False"
  by code_simp

text \<open>
  The second call can undo the first: when it fails, a parallel successor that was queued
  after the first call is taken off the queue and dropped, and the run dies with the
  \<open>IndexError\<close> of \<open>pop\<close> on an empty queue.
\<close>
theorem parallel_rerun_crashes:
  "validate_dag twin_workflow = None \<and>
   run_workflow 8 (demo_base fails_again) ''f'' twin_workflow [] = Some (Inl IndexError)"
proof
  show "validate_dag twin_workflow = None" by code_simp
  have "case run_workflow 8 (demo_base fails_again) ''f'' twin_workflow [] of
      Some (Inl e) \<Rightarrow> e = IndexError | _ \<Rightarrow> False" by code_simp
  then show "run_workflow 8 (demo_base fails_again) ''f'' twin_workflow [] = Some (Inl IndexError)"
    by (auto split: option.splits sum.splits)
qed

theorem calls_at_most_twice_witness:
  "case run_workflow 8 (demo_base demo_ok) ''f'' twin_workflow [] of
     Some (Inr r) \<Rightarrow> handled ''b'' (rr_state r) \<le> 2 | _ \<Rightarrow> False"
proof -
  have v: "validate_dag twin_workflow = None" by code_simp
  have f: "2 * length (wf_nodes twin_workflow) \<le> 8" by (simp add: twin_workflow_def)
  have "case run_workflow 8 (demo_base demo_ok) ''f'' twin_workflow [] of Some (Inr r) \<Rightarrow> True | _ \<Rightarrow> False"
    by code_simp
  then obtain r where "run_workflow 8 (demo_base demo_ok) ''f'' twin_workflow [] = Some (Inr r)"
    by (auto split: option.splits sum.splits)
  with calls_at_most_twice [OF v f this] show ?thesis by simp
qed

end
