(* ===== verification/Workflow_Sequential.thy ===== *)
theory Workflow_Sequential
  imports Workflow_Facts
begin

text \<open>
  Runs of workflows without parallel nodes.  Here the scheduler does what it promises: the
  invariant \<open>seq_inv\<close> says that the queue and the completed nodes are exactly the nodes whose
  predecessors are done, that every node is called at most once, and only under the conditions of
  its edges.  It gives the two properties at the end: soundness of every call, and progress up to
  a definite final status.
\<close>

section \<open>The invariant\<close>

definition no_parallel :: "world \<Rightarrow> run_state \<Rightarrow> bool" where
  "no_parallel w s \<longleftrightarrow> (\<forall>n \<in> set (keys_of s). \<not> is_parallel w n)"

text \<open>The table of incoming edges agrees with the table of predecessors.\<close>

definition edges_ok :: "world \<Rightarrow> run_state \<Rightarrow> bool" where
  "edges_ok w s \<longleftrightarrow> (\<forall>n. eg_source ` set (dict_list (ww_incoming w) n) = set (dict_list (ww_preds w) n) \<and>
     set (dict_list (ww_preds w) n) \<subseteq> set (keys_of s))"

definition conditions_hold :: "world \<Rightarrow> run_state \<Rightarrow> string \<Rightarrow> bool" where
  "conditions_hold w s n \<longleftrightarrow> (\<forall>e \<in> set (dict_list (ww_incoming w) n).
     node_ok (status_in s (eg_source e)) \<and>
     fst (evaluate_condition (ww_eval w) (eg_condition e) (runtime_of s (eg_source e))))"

definition seq_inv :: "world \<Rightarrow> run_state \<Rightarrow> bool" where
  "seq_inv w s \<longleftrightarrow> tables_ok w s \<and> edges_ok w s \<and> no_parallel w s \<and>
     distinct (ws_ready s) \<and> set (ws_ready s) \<inter> set (ws_completed s) = {} \<and>
     set (ws_ready s) \<union> set (ws_completed s) \<subseteq> set (keys_of s) \<and>
     (\<forall>n \<in> set (ws_completed s). status_in s n \<in> ended) \<and>
     (\<forall>n \<in> set (ws_ready s). status_in s n = ND_QUEUED) \<and>
     (\<forall>n. n \<notin> set (ws_ready s) \<union> set (ws_completed s) \<longrightarrow> status_in s n = ND_CREATED) \<and>
     (\<forall>n \<in> set (keys_of s). n \<in> set (ws_ready s) \<union> set (ws_completed s) \<longleftrightarrow>
        preds_ok s (dict_list (ww_preds w) n)) \<and>
     (\<forall>n. handled n s \<le> (if n \<in> set (ws_completed s) then 1 else 0)) \<and>
     (\<forall>n. handled n s \<noteq> 0 \<longrightarrow> conditions_hold w s n)"

lemma seq_inv_tested [simp]: "seq_inv w (tested s) = seq_inv w s"
  by (simp add: seq_inv_def edges_ok_def no_parallel_def conditions_hold_def preds_ok_def)

lemma not_ok_simps [simp]:
  "\<not> node_ok ND_QUEUED" "\<not> node_ok ND_CREATED" "\<not> node_ok ND_DISPATCHING"
  by (simp_all add: node_ok_def)

text \<open>One node taken from the head of the queue.\<close>

lemma seq_round:
  assumes inv: "seq_inv w s" and rd: "ws_ready s = n # rest"
  defines "s1 \<equiv> (tested s)\<lparr>ws_ready := rest\<rparr>"
  defines "r \<equiv> run_group w [n] s1"
  shows "seq_inv w r" "set (ws_completed r) = insert n (set (ws_completed s))" "keys_of r = keys_of s"
    "n \<in> set (keys_of s) - set (ws_completed s)"
proof -
  define d where "d = dispatch_node w n s1"
  define e where "e = execute_single_node w n d"
  have r: "r = node_done w n e" by (simp add: r_def e_def d_def run_group_single)
  have tab: "tables_ok w s" and ed: "edges_ok w s" and np: "no_parallel w s"
    and dist: "n \<notin> set rest" "distinct rest" and dj: "n \<notin> set (ws_completed s)" "set rest \<inter> set (ws_completed s) = {}"
    and keys: "n \<in> set (keys_of s)" "set rest \<subseteq> set (keys_of s)" "set (ws_completed s) \<subseteq> set (keys_of s)"
    and stc: "\<And>k. k \<in> set (ws_completed s) \<Longrightarrow> status_in s k \<in> ended"
    and stq: "status_in s n = ND_QUEUED" "\<And>k. k \<in> set rest \<Longrightarrow> status_in s k = ND_QUEUED"
    and stn: "\<And>k. k \<noteq> n \<Longrightarrow> k \<notin> set rest \<Longrightarrow> k \<notin> set (ws_completed s) \<Longrightarrow> status_in s k = ND_CREATED"
    and po: "\<And>k. k \<in> set (keys_of s) \<Longrightarrow> (k = n \<or> k \<in> set rest \<or> k \<in> set (ws_completed s)) \<longleftrightarrow>
        preds_ok s (dict_list (ww_preds w) k)"
    and hc: "\<And>k. handled k s \<le> (if k \<in> set (ws_completed s) then 1 else 0)"
    and co: "\<And>k. handled k s \<noteq> 0 \<Longrightarrow> conditions_hold w s k"
    using inv unfolding seq_inv_def rd by auto
  show "n \<in> set (keys_of s) - set (ws_completed s)" using keys dj by simp
  have d: "keys_of d = keys_of s" "ws_ready d = rest" "ws_completed d = ws_completed s"
    "\<And>k. handled k d = handled k s" "\<And>k. k \<noteq> n \<Longrightarrow> runtime_of d k = runtime_of s k"
  proof -
    have q: "quiet s1 d" by (simp add: d_def dispatch_node_def wf_simps)
    show "keys_of d = keys_of s" using keys by (simp add: d_def s1_def dispatch_node_def wf_simps)
    show "ws_ready d = rest" "ws_completed d = ws_completed s" "\<And>k. handled k d = handled k s"
      using q by (simp_all add: quiet_def s1_def) (simp add: handled_def)
    show "\<And>k. k \<noteq> n \<Longrightarrow> runtime_of d k = runtime_of s k"
      by (simp add: d_def s1_def dispatch_node_def wf_simps)
  qed
  have npred: "n \<notin> set (dict_list (ww_preds w) k)" if "preds_ok s (dict_list (ww_preds w) k)" for k
    using that stq(1) by (auto simp: preds_ok_def)
  have pn: "preds_ok s (dict_list (ww_preds w) n)" using po [OF keys(1)] by simp
  have src: "eg_source x \<in> set (dict_list (ww_preds w) k)" if "x \<in> set (dict_list (ww_incoming w) k)" for x k
    using ed that by (auto simp: edges_ok_def)
  have so: "sources_ok w n d"
    unfolding sources_ok_def
  proof
    fix x assume x: "x \<in> set (dict_list (ww_incoming w) n)"
    have "eg_source x \<noteq> n" using src [OF x] npred [OF pn] by auto
    moreover have "eg_source x \<in> set (keys_of s)" using src [OF x] ed by (auto simp: edges_ok_def)
    ultimately show "eg_source x \<in> set (keys_of d) \<and> node_ok (status_in d (eg_source x))"
      using src [OF x] pn d(1,5) by (simp add: preds_ok_def)
  qed
  have nd: "n \<in> set (keys_of d)" using keys d(1) by simp
  note ex = execute_node_change [OF nd, of w, folded e_def]
  have e: "keys_of e = keys_of s" "ws_ready e = rest" "ws_completed e = ws_completed s"
    "\<And>k. k \<noteq> n \<Longrightarrow> runtime_of e k = runtime_of s k" "\<And>k. k \<noteq> n \<Longrightarrow> handled k e = handled k s"
    "status_in e n \<in> ended"
    using ex(1) ex(4) [OF so] d by (auto simp: node_change_def ended_def)
  have hn: "handled n e \<le> 1" using ex(2) d(4) hc [of n] dj(1) by simp
  have mono: "node_ok (status_in s k) \<Longrightarrow> node_ok (status_in e k)" for k
    using stq(1) e(4) [of k] by (cases "k = n") auto
  have te: "tables_ok w e" using tab tables_ok_keys [OF e(1)] by simp
  note nd = node_done_spec [OF te, where nid = n, folded r]
  from nd(7) obtain new where new: "ws_ready r = rest @ new" "distinct new"
    "\<And>k. k \<in> set new \<longleftrightarrow> k \<noteq> n \<and> k \<notin> set (ws_completed s) \<and> k \<notin> set rest \<and>
         k \<in> set (keys_of s) \<and> preds_ok e (dict_list (ww_preds w) k)"
    unfolding e by auto
  have c: "set (ws_completed r) = insert n (set (ws_completed s))" using nd(1) e(3) by simp
  then show "set (ws_completed r) = insert n (set (ws_completed s))" .
  show kr: "keys_of r = keys_of s" using nd(2) e(1) by simp
  have rt: "runtime_of r k = runtime_of e k" if "k \<notin> set new" for k
    using nd(5) [of k] that new(1) e(2) by auto
  have rtn: "status_in r k = ND_QUEUED" if "k \<in> set new" for k
    using nd(6) [of k] that new e(2) e(4) [of k] stn [of k] by auto
  have okr: "node_ok (status_in r k) = node_ok (status_in e k)" for k by (rule nd(4))
  then have por: "preds_ok r ps = preds_ok e ps" for ps by (simp add: preds_ok_def)
  have pmono: "preds_ok s ps \<Longrightarrow> preds_ok r ps" for ps
    using mono unfolding por by (auto simp: preds_ok_def)
  have ch: "conditions_hold w r k"
    if "preds_ok s (dict_list (ww_preds w) k)"
      "\<And>x. x \<in> set (dict_list (ww_incoming w) k) \<Longrightarrow>
        fst (evaluate_condition (ww_eval w) (eg_condition x) (runtime_of s (eg_source x)))" for k
    unfolding conditions_hold_def
  proof
    fix x assume x: "x \<in> set (dict_list (ww_incoming w) k)"
    let ?p = "eg_source x"
    have ok: "node_ok (status_in s ?p)" and ne: "?p \<noteq> n"
      using src [OF x] that(1) npred [OF that(1)] by (auto simp: preds_ok_def)
    then have "?p \<notin> set new" using new(3) [of ?p] stn [of ?p] by auto
    then have "runtime_of r ?p = runtime_of s ?p" using rt e(4) [OF ne] by simp
    then show "node_ok (status_in r ?p) \<and>
        fst (evaluate_condition (ww_eval w) (eg_condition x) (runtime_of r ?p))"
      using ok that(2) [OF x] by simp
  qed
  have "conditions_hold w r k" if h: "handled k r \<noteq> 0" for k
  proof (cases "k = n")
    case True
    then have "handled n e \<noteq> handled n d" using h nd(3) [of n] d(4) hc [of n] dj(1) by simp
    note fe = ex(3) [OF this]
    show ?thesis unfolding True
    proof (rule ch [OF pn])
      fix x assume x: "x \<in> set (dict_list (ww_incoming w) n)"
      have "eg_source x \<in> set (keys_of d)" "eg_source x \<noteq> n"
        using so x src [OF x] npred [OF pn] by (auto simp: sources_ok_def)
      then show "fst (evaluate_condition (ww_eval w) (eg_condition x) (runtime_of s (eg_source x)))"
        using failing_edge_None [OF fe x] d(5) by simp
    qed
  next
    case False
    then have hk: "handled k s \<noteq> 0" using h nd(3) [of k] e(5) [of k] by simp
    then have "k \<in> set (ws_completed s)" using hc [of k] by (simp split: if_splits)
    then have "preds_ok s (dict_list (ww_preds w) k)" using po [of k] keys(3) by auto
    then show ?thesis using co [OF hk] by (intro ch) (auto simp: conditions_hold_def)
  qed
  moreover have "handled k r \<le> (if k \<in> set (ws_completed r) then 1 else 0)" for k
    using nd(3) [of k] hn e(5) [of k] hc [of k] by (cases "k = n") (auto simp: c split: if_splits)
  moreover have "k \<in> set (ws_ready r) \<union> set (ws_completed r) \<longleftrightarrow> preds_ok r (dict_list (ww_preds w) k)"
    if k: "k \<in> set (keys_of s)" for k
  proof (cases "k = n \<or> k \<in> set rest \<or> k \<in> set (ws_completed s)")
    case True
    then show ?thesis using po [OF k] pmono by (auto simp: new(1) c)
  next
    case False
    then show ?thesis using new(3) [of k] k by (auto simp: new(1) c por)
  qed
  moreover have "status_in r k = ND_CREATED" if "k \<notin> set (ws_ready r) \<union> set (ws_completed r)" for k
    using that rt [of k] e(4) [of k] stn [of k] by (simp add: new(1) c)
  moreover have "status_in r k = ND_QUEUED" if "k \<in> set (ws_ready r)" for k
    using that rtn [of k] rt [of k] e(4) [of k] stq(2) [of k] dist
    by (cases "k = n"; cases "k \<in> set new") (auto simp: new(1))
  moreover have "status_in r k \<in> ended" if "k \<in> set (ws_completed r)" for k
    using that rt [of k] e(4) [of k] e(6) stc [of k] new(3) [of k] by (cases "k = n") (auto simp: c)
  moreover have "distinct (ws_ready r)" "set (ws_ready r) \<inter> set (ws_completed r) = {}"
    "set (ws_ready r) \<union> set (ws_completed r) \<subseteq> set (keys_of r)"
    using new dist dj keys by (auto simp: c kr)
  moreover have "tables_ok w r" "edges_ok w r" "no_parallel w r"
    using tab ed np by (simp_all add: tables_ok_def edges_ok_def no_parallel_def kr)
  ultimately show "seq_inv w r" unfolding seq_inv_def kr by blast
qed

lemma take_parallel_none: "n \<in> set xs \<Longrightarrow> \<forall>n \<in> set xs. \<not> is_parallel w n \<Longrightarrow> take_parallel w s xs = ([], xs)"
  by (cases xs) auto

text \<open>The loop ends in the invariant, with an empty queue or after reading the cancel event.\<close>

lemma seq_loop:
  "seq_inv w s \<Longrightarrow> card (set (keys_of s) - set (ws_completed s)) \<le> fuel \<Longrightarrow>
   \<exists>s'. exec_loop fuel w s = Some (Inr s') \<and> seq_inv w s' \<and> keys_of s' = keys_of s \<and>
     (ws_ready s' = [] \<or> (\<exists>k < ws_checks s'. ww_cancel w k))"
proof (induction fuel arbitrary: s)
  case 0
  then have "ws_ready s = []"
    by (cases "ws_ready s") (auto simp: seq_inv_def)
  then show ?case using 0 exec_stop(1) by auto
next
  case (Suc fuel)
  show ?case
  proof (cases "ws_ready s")
    case Nil
    then show ?thesis using Suc.prems(1) exec_stop(1) by auto
  next
    case (Cons n rest)
    then have ne: "ws_ready s \<noteq> []" by simp
    show ?thesis
    proof (cases "ww_cancel w (ws_checks s)")
      case True
      then have "\<exists>k < ws_checks (tested s). ww_cancel w k" by (auto simp: tested_def)
      then show ?thesis using exec_stop(2) [OF ne True] Suc.prems(1)
        by (intro exI [of _ "tested s"]) simp
    next
      case False
      have np: "\<forall>k \<in> set (ws_ready s). \<not> is_parallel w k" and ready: "is_node_ready w s n"
        using Suc.prems(1) Cons by (auto simp: seq_inv_def no_parallel_def is_node_ready_iff)
      have t: "take_parallel w (tested s) (ws_ready s) = ([], n # rest)"
        using take_parallel_none [of n "ws_ready s", OF _ np] Cons by simp
      have ir: "is_node_ready w ((tested s)\<lparr>ws_ready := rest\<rparr>) n"
        using ready by (simp add: is_node_ready_iff preds_ok_def wf_simps)
      define r where "r = run_group w [n] ((tested s)\<lparr>ws_ready := rest\<rparr>)"
      note sr = seq_round [OF Suc.prems(1) Cons, folded r_def]
      have "set (keys_of r) - set (ws_completed r) = set (keys_of s) - set (ws_completed s) - {n}"
        using sr by auto
      then have card: "card (set (keys_of r) - set (ws_completed r)) \<le> fuel"
        using Suc.prems(2) sr(4) by simp
      note step = exec_single [OF ne False t ir, of fuel, folded r_def]
      show ?thesis
      proof (cases "ww_cancel w (ws_checks r)")
        case True
        then have "\<exists>k < ws_checks (tested r). ww_cancel w k" by (auto simp: tested_def)
        then show ?thesis unfolding step using True sr by (intro exI [of _ "tested r"]) simp
      next
        case False
        then show ?thesis unfolding step using Suc.IH [of "tested r"] sr card by simp
      qed
    qed
  qed
qed

section \<open>Complete runs\<close>

lemma preds_ok_Nil [simp]: "preds_ok s []"
  by (simp add: preds_ok_def)

lemma seq_start:
  assumes "tables_ok w s" "edges_ok w s" "no_parallel w s" "distinct (ws_ready s)" "ws_completed s = []"
    and "\<And>k. k \<in> set (ws_ready s) \<longleftrightarrow> k \<in> set (keys_of s) \<and> dict_list (ww_preds w) k = []"
    and "\<And>k. handled k s = 0"
    and "\<And>k. status_in s k = (if k \<in> set (ws_ready s) then ND_QUEUED else ND_CREATED)"
  shows "seq_inv w s"
proof -
  have "k \<in> set (keys_of s) \<Longrightarrow> k \<in> set (ws_ready s) \<longleftrightarrow> preds_ok s (dict_list (ww_preds w) k)" for k
    using assms(6,8) by (cases "dict_list (ww_preds w) k") (simp_all add: preds_ok_def)
  then show ?thesis using assms by (auto simp: seq_inv_def)
qed

lemma run_world_tables:
  assumes "edges_closed wd" "set (keys_of s) = set (node_ids wd)"
  shows "edges_ok (run_world base fresh wd) s"
    and "\<forall>n \<in> set (wf_nodes wd). nd_mode n \<noteq> MODE_PARALLEL \<Longrightarrow> no_parallel (run_world base fresh wd) s"
proof -
  show "edges_ok (run_world base fresh wd) s"
    using assms by (auto simp: edges_ok_def run_world_def pred_table_spec [OF assms(1)] edges_closed_def)
  have f: "map_of (fold (\<lambda>n d. AList.update (nd_id n) n d) ns d) k = Some m \<Longrightarrow>
      m \<in> set ns \<or> map_of d k = Some m" for ns d k m
  proof (induction ns arbitrary: d)
    case (Cons a ns)
    from Cons.IH [of "AList.update (nd_id a) a d"] Cons.prems show ?case
      by (auto simp: map_of_update split: if_splits)
  qed simp
  have g: "k \<in> nd_id ` set ns \<Longrightarrow> map_of (fold (\<lambda>n d. AList.update (nd_id n) n d) ns d) k \<noteq> None" for ns d k
  proof (induction ns rule: rev_induct)
    case (snoc x xs)
    then show ?case by (auto simp: map_of_update)
  qed simp
  assume seq: "\<forall>n \<in> set (wf_nodes wd). nd_mode n \<noteq> MODE_PARALLEL"
  show "no_parallel (run_world base fresh wd) s"
    unfolding no_parallel_def
  proof
    fix k assume "k \<in> set (keys_of s)"
    then obtain m where "map_of (node_table wd) k = Some m"
      using g [of k "wf_nodes wd" "[]"] assms(2) by (auto simp: node_table_def node_ids_def)
    moreover from this have "m \<in> set (wf_nodes wd)"
      using f [of "wf_nodes wd" "[]" k m] by (simp add: node_table_def)
    ultimately show "\<not> is_parallel (run_world base fresh wd) k"
      using seq by (simp add: is_parallel_def node_of_def run_world_def)
  qed
qed

lemma seq_run:
  assumes v: "validate_dag wd = None" and seq: "\<forall>n \<in> set (wf_nodes wd). nd_mode n \<noteq> MODE_PARALLEL"
    and f: "length (wf_nodes wd) \<le> fuel"
  obtains s t where
    "run_workflow fuel base fresh wd ctx = Some (Inr (finish_run (run_world base fresh wd) t s))"
    "seq_inv (run_world base fresh wd) s" "set (keys_of s) = set (node_ids wd)"
    "ws_ready s = [] \<or> (\<exists>k < ws_checks s. ww_cancel base k)" "distinct (keys_of s)"
proof -
  let ?w = "run_world base fresh wd"
  have c: "edges_closed wd" using v by (simp add: validate_dag_cases split: if_splits)
  obtain t s where r: "run_workflow fuel base fresh wd ctx =
       (case exec_loop fuel ?w s of
          None \<Rightarrow> None | Some (Inl err) \<Rightarrow> Some (Inl err)
        | Some (Inr s') \<Rightarrow> Some (Inr (finish_run ?w t s')))"
    and st: "set (keys_of s) = set (node_ids wd)" "distinct (ws_ready s)" "ws_completed s = []"
    "\<And>k. k \<in> set (ws_ready s) \<longleftrightarrow> k \<in> set (node_ids wd) \<and> dict_list (pred_table wd) k = []"
    "\<And>k. handled k s = 0"
    "\<And>k. status_in s k = (if k \<in> set (ws_ready s) then ND_QUEUED else ND_CREATED)"
    "tables_ok ?w s" "distinct (keys_of s)"
    by (rule run_starts [OF v, of fuel base fresh ctx]) blast
  have "ww_preds ?w = pred_table wd" by (simp add: run_world_def)
  then have "seq_inv ?w s"
    using st run_world_tables [OF c st(1)] seq by (intro seq_start) simp_all
  moreover have "card (set (keys_of s) - set (ws_completed s)) \<le> fuel"
    using f card_length [of "node_ids wd"] by (simp add: st node_ids_def)
  ultimately obtain s' where "exec_loop fuel ?w s = Some (Inr s')" "seq_inv ?w s'"
    "keys_of s' = keys_of s" "ws_ready s' = [] \<or> (\<exists>k < ws_checks s'. ww_cancel ?w k)"
    using seq_loop by blast
  then show thesis using r st(1,8) that [of t s'] by (simp add: run_world_def)
qed

lemma finish_run_projections:
  "handled k (rr_state (finish_run w t s)) = handled k s"
  "runtime_of (rr_state (finish_run w t s)) k = runtime_of s k"
  "rr_status (finish_run w t s) = final_status (ww_cancel w (ws_checks s)) (map (rt_status \<circ> snd) (ws_runtimes s))"
  by (simp_all add: finish_run_def close_run_def check_cancel_def read_clock_def handled_def log_effect_def
      runtime_of_def)

lemma status_list:
  assumes "distinct (keys_of s)"
  shows "set (map (rt_status \<circ> snd) (ws_runtimes s)) = status_in s ` set (keys_of s)"
proof -
  have "(n, x) \<in> set (ws_runtimes s) \<Longrightarrow> runtime_of s n = x" for n x
    using assms by (simp add: runtime_of_def keys_of_def)
  then show ?thesis by (force simp: keys_of_def image_iff)
qed

lemma final_status_cases:
  "final_status False sts =
     (if ND_BLOCKED \<in> set sts then WF_BLOCKED
      else if \<exists>x \<in> set sts. x \<in> {ND_FAILED, ND_TIMEOUT, ND_CANCELLED} then WF_FAILED
      else if \<forall>x \<in> set sts. node_ok x then WF_COMPLETED else WF_RUNNING)"
  unfolding final_status_def Let_def list_ex_iff list_all_iff node_ok_def by auto

text \<open>When the queue is empty at the end and no node failed, acyclicity makes all nodes done.\<close>

lemma all_done:
  assumes "validate_dag wd = None" "seq_inv (run_world base fresh wd) s"
    "set (keys_of s) = set (node_ids wd)" "ws_ready s = []"
    and ok: "\<And>n. n \<in> set (ws_completed s) \<Longrightarrow> node_ok (status_in s n)"
  shows "set (keys_of s) = set (ws_completed s)"
proof (rule ccontr)
  have c: "edges_closed wd" and ac: "acyclic (edge_rel wd)"
    using assms(1) by (simp_all add: validate_dag_cases split: if_splits)
  have sub: "set (ws_completed s) \<subseteq> set (keys_of s)"
    and po: "\<And>n. n \<in> set (keys_of s) \<Longrightarrow> n \<in> set (ws_completed s) \<longleftrightarrow> preds_ok s (dict_list (pred_table wd) n)"
    using assms(2,4) by (auto simp: seq_inv_def run_world_def)
  assume "set (keys_of s) \<noteq> set (ws_completed s)"
  then have "set (keys_of s) - set (ws_completed s) \<noteq> {}" using sub by blast
  from acyclic_edges_min [OF ac this] obtain m where m: "m \<in> set (keys_of s)" "m \<notin> set (ws_completed s)"
    and min: "\<And>x. (x, m) \<in> edge_rel wd \<Longrightarrow> x \<notin> set (keys_of s) - set (ws_completed s)" by (metis DiffE)
  have "preds_ok s (dict_list (pred_table wd) m)"
    unfolding preds_ok_def
  proof
    fix p assume "p \<in> set (dict_list (pred_table wd) m)"
    then obtain e where e: "e \<in> set (wf_edges wd)" "eg_target e = m" "p = eg_source e"
      by (auto simp: pred_table_spec [OF c])
    then have "(p, m) \<in> edge_rel wd" by (auto simp: edge_rel_def)
    moreover have "p \<in> set (keys_of s)" using e c assms(3) by (auto simp: edges_closed_def)
    ultimately show "node_ok (status_in s p)" using min [of p] ok by blast
  qed
  then show False using m po by blast
qed

section \<open>Properties\<close>

text \<open>
  C34: In a valid workflow without parallel nodes a run never raises; each node's handler is
  called at most once (whatever its \<open>retry_count\<close>), and only if, for every edge into the node,
  the source ended completed or skipped and the condition of the edge holds on the source's final
  runtime.  In particular an edge with the condition \<open>on_fail\<close>, which the planner's instructions
  describe as the way to handle a failure of the source, never leads to a call: a node behind
  such an edge is never run.
\<close>
theorem sequential_calls_sound:
  assumes "validate_dag wd = None" "\<forall>n \<in> set (wf_nodes wd). nd_mode n \<noteq> MODE_PARALLEL"
    and "length (wf_nodes wd) \<le> fuel"
  shows "\<exists>r. run_workflow fuel base fresh wd ctx = Some (Inr r) \<and>
    (\<forall>n. handled n (rr_state r) \<le> 1 \<and>
       (handled n (rr_state r) \<noteq> 0 \<longrightarrow>
          (\<forall>e \<in> set (wf_edges wd). eg_target e = n \<longrightarrow>
             node_ok (status_in (rr_state r) (eg_source e)) \<and>
             fst (evaluate_condition (ww_eval base) (eg_condition e)
                    (runtime_of (rr_state r) (eg_source e)))))) \<and>
    (\<forall>e \<in> set (wf_edges wd). ec_type (eg_condition e) = ''on_fail'' \<longrightarrow>
       handled (eg_target e) (rr_state r) = 0)"
proof -
  obtain s t where r: "run_workflow fuel base fresh wd ctx = Some (Inr (finish_run (run_world base fresh wd) t s))"
    and inv: "seq_inv (run_world base fresh wd) s"
    by (rule seq_run [OF assms, of base fresh ctx])
  have c: "edges_closed wd" using assms(1) by (simp add: validate_dag_cases split: if_splits)
  have "handled n s \<le> 1" for n
  proof -
    have "handled n s \<le> (if n \<in> set (ws_completed s) then 1 else 0)" using inv by (simp add: seq_inv_def)
    then show ?thesis by (simp split: if_splits)
  qed
  moreover have "handled n s \<noteq> 0 \<Longrightarrow> conditions_hold (run_world base fresh wd) s n" for n
    using inv by (simp add: seq_inv_def)
  ultimately have calls: "handled n s \<le> 1" "handled n s \<noteq> 0 \<Longrightarrow> e \<in> set (wf_edges wd) \<Longrightarrow> eg_target e = n \<Longrightarrow>
      node_ok (status_in s (eg_source e)) \<and>
      fst (evaluate_condition (ww_eval base) (eg_condition e) (runtime_of s (eg_source e)))" for n e
    using pred_table_spec(3) [OF c] by (auto simp: conditions_hold_def run_world_def)
  have "handled (eg_target e) s = 0" if "e \<in> set (wf_edges wd)" "ec_type (eg_condition e) = ''on_fail''" for e
    using calls(2) [of "eg_target e" e] that
    by (cases "handled (eg_target e) s = 0") (auto simp: evaluate_condition_def node_ok_def)
  then show ?thesis unfolding r using calls by (simp add: finish_run_projections)
qed

text \<open>
  C35: As long as nobody cancels, such a run reaches a definite end: completed exactly when every
  node completed or was skipped, otherwise failed; it is never reported blocked or still running.
\<close>
theorem sequential_run_progress:
  assumes "validate_dag wd = None" "\<forall>n \<in> set (wf_nodes wd). nd_mode n \<noteq> MODE_PARALLEL"
    and "length (wf_nodes wd) \<le> fuel" "\<forall>k. \<not> ww_cancel base k"
  shows "\<exists>r. run_workflow fuel base fresh wd ctx = Some (Inr r) \<and>
    rr_status r = (if \<forall>n \<in> set (node_ids wd). node_ok (status_in (rr_state r) n)
                   then WF_COMPLETED else WF_FAILED)"
proof -
  let ?w = "run_world base fresh wd"
  obtain s t where r: "run_workflow fuel base fresh wd ctx = Some (Inr (finish_run ?w t s))"
    and inv: "seq_inv ?w s" and keys: "set (keys_of s) = set (node_ids wd)"
    and rd: "ws_ready s = []" and dk: "distinct (keys_of s)"
    by (rule seq_run [OF assms(1-3), of base fresh ctx]) (use assms(4) in blast)
  let ?K = "set (keys_of s)" and ?C = "set (ws_completed s)"
  let ?sts = "map (rt_status \<circ> snd) (ws_runtimes s)"
  have st: "\<And>n. n \<in> ?C \<Longrightarrow> status_in s n \<in> ended" "\<And>n. n \<notin> ?C \<Longrightarrow> status_in s n = ND_CREATED"
    and sub: "?C \<subseteq> ?K"
    using inv rd by (auto simp: seq_inv_def)
  have set: "set ?sts = status_in s ` ?K" by (rule status_list [OF dk])
  have "status_in s n \<noteq> ND_BLOCKED" for n using st [of n] by (cases "n \<in> ?C") (auto simp: ended_def)
  then have nb: "ND_BLOCKED \<notin> set ?sts" unfolding set by (metis imageE)
  have nc: "ww_cancel ?w k = False" for k using assms(4) by (simp add: run_world_def)
  have "final_status False ?sts = (if \<forall>n \<in> ?K. node_ok (status_in s n) then WF_COMPLETED else WF_FAILED)"
  proof (cases "\<forall>n \<in> ?K. node_ok (status_in s n)")
    case True
    then have ok: "\<forall>x \<in> set ?sts. node_ok x" unfolding set by blast
    then have "\<not> (\<exists>x \<in> set ?sts. x \<in> {ND_FAILED, ND_TIMEOUT, ND_CANCELLED})" by (auto simp: node_ok_def)
    then show ?thesis using True nb ok unfolding final_status_cases by argo
  next
    case False
    have "\<exists>n \<in> ?C. \<not> node_ok (status_in s n)"
    proof (rule ccontr)
      assume "\<not> (\<exists>n \<in> ?C. \<not> node_ok (status_in s n))"
      then have "?K = ?C" using all_done [OF assms(1) inv keys rd] by blast
      then show False using False \<open>\<not> (\<exists>n \<in> ?C. \<not> node_ok (status_in s n))\<close> by blast
    qed
    then obtain n where n: "n \<in> ?C" "\<not> node_ok (status_in s n)" by blast
    then have "status_in s n \<in> {ND_FAILED, ND_TIMEOUT, ND_CANCELLED}"
      using st(1) [OF n(1)] by (auto simp: ended_def node_ok_def)
    moreover have "status_in s n \<in> set ?sts" unfolding set using n(1) sub by blast
    ultimately have "\<exists>x \<in> set ?sts. x \<in> {ND_FAILED, ND_TIMEOUT, ND_CANCELLED}" by blast
    then show ?thesis using nb False unfolding final_status_cases by argo
  qed
  then show ?thesis
    unfolding r by (simp add: finish_run_projections nc keys)
qed

definition chain_workflow :: workflow_def where
  "chain_workflow =
     \<lparr>wf_id = ''w'', wf_name = ''chain'', wf_description = [],
      wf_nodes = [demo_node ''a'' MODE_SEQUENTIAL 3, demo_node ''b'' MODE_SEQUENTIAL 0,
                  demo_node ''c'' MODE_SEQUENTIAL 0, demo_node ''d'' MODE_SEQUENTIAL 0],
      wf_edges = [demo_edge ''a'' ''b'' ''on_complete'', demo_edge ''c'' ''d'' ''always'',
                  demo_edge ''b'' ''d'' ''always''],
      wf_config = []\<rparr>"

lemma chain_valid: "validate_dag chain_workflow = None"
  by code_simp

lemma chain_sequential: "\<forall>n \<in> set (wf_nodes chain_workflow). nd_mode n \<noteq> MODE_PARALLEL"
  by (simp add: chain_workflow_def demo_node_def)

theorem sequential_calls_sound_witness:
  "\<exists>r. run_workflow 4 (demo_base demo_ok) ''f'' chain_workflow [] = Some (Inr r) \<and>
     handled ''a'' (rr_state r) \<le> 1"
proof -
  have "length (wf_nodes chain_workflow) \<le> 4" by (simp add: chain_workflow_def)
  from sequential_calls_sound [OF chain_valid chain_sequential this] show ?thesis by blast
qed

theorem sequential_run_progress_witness:
  "\<exists>r. run_workflow 4 (demo_base demo_ok) ''f'' chain_workflow [] = Some (Inr r) \<and>
     rr_status r \<noteq> WF_RUNNING"
proof -
  have "length (wf_nodes chain_workflow) \<le> 4" "\<forall>k. \<not> ww_cancel (demo_base demo_ok) k"
    by (simp_all add: chain_workflow_def demo_base_def)
  from sequential_run_progress [OF chain_valid chain_sequential this] show ?thesis
    by (metis workflow_status.distinct)
qed

text \<open>A handler that has something to say for one node only.\<close>

definition only_a :: "(string, pyval) dict \<Rightarrow> node_def \<Rightarrow> handler_outcome \<times> (string, pyval) dict" where
  "only_a c n = (if nd_id n = ''a'' then HReturns (PDict [(''k'', PInt 1)]) else HReturns PNone, c)"

definition stale_workflow :: workflow_def where
  "stale_workflow =
     \<lparr>wf_id = ''w'', wf_name = [], wf_description = [],
      wf_nodes = [demo_node ''a'' MODE_SEQUENTIAL 0, demo_node ''b'' MODE_SEQUENTIAL 0,
                  demo_node ''c'' MODE_SEQUENTIAL 0, demo_node ''d'' MODE_SEQUENTIAL 0],
      wf_edges = [demo_edge ''a'' ''b'' ''always'', demo_edge ''c'' ''d'' ''always''], wf_config = []\<rparr>"

text \<open>
  The merged input of one node leaks into the next: the shared context keeps \<open>_input\<close> when
  a node has nothing to merge, so \<open>d\<close>, whose only predecessor returned nothing, is called with
  the outputs of \<open>a\<close>, a node it has no connection to.
\<close>
theorem stale_input_leaks:
  "case run_workflow 4 (demo_base only_a) ''f'' stale_workflow [] of
     Some (Inr r) \<Rightarrow> Handled ''d'' (PDict [(''a'', PDict [(''k'', PInt 1)])]) \<in> set (ws_effects (rr_state r))
   | _ \<Rightarrow> False"
  by code_simp

end
