(* ===== verification/Workflow_V2.thy ===== *)
theory Workflow_V2
  imports Workflow_Sequential Approvals
begin

text \<open>
  The second workflow format of \<open>workflow_engine.py\<close> (a list of steps, each a trigger and a
  group of agent tasks) and its compilation to nodes and edges, together with the compilation of
  one step by \<open>WorkflowRuntime._step_definition\<close>.  Compilation always gives a valid chain, so
  that a run calls the tasks in the order in which they are declared.
\<close>

section \<open>The format\<close>

record agent_task =
  at_task_id :: string
  at_workflow_id :: string
  at_node_id :: string
  at_agent_type :: string
  at_instruction :: string
  at_input_data :: "(string, pyval) dict"
  at_input_from :: "string list"
  at_config :: "(string, pyval) dict"
  at_approvals :: "(string, pyval) dict"
  at_timeout :: time

record step_trigger =
  tr_event_type :: string
  tr_condition :: string

record workflow_step =
  st_trigger :: step_trigger
  st_execute :: "agent_task list"

record workflow_v2 =
  v2_id :: string
  v2_name :: string
  v2_description :: string
  v2_steps :: "workflow_step list"
  v2_config :: "(string, pyval) dict"
  v2_approvals :: "(string, pyval) dict"

text \<open>
  An entry of the workflow directory: a directory holds maybe \<open>workflow.yaml\<close> and maybe
  \<open>workflow.yml\<close>; a file that does not load is \<open>Unreadable\<close>.
\<close>

datatype yaml_file = Unreadable | Loaded workflow_v2

datatype dir_entry = PlainFile | Subdirectory "yaml_file option" "yaml_file option"

definition load_entry :: "string \<times> dir_entry \<Rightarrow> workflow_v2 list" where
  "load_entry entry =
     (case snd entry of
        PlainFile \<Rightarrow> []
      | Subdirectory yaml yml \<Rightarrow>
          (case (if yaml \<noteq> None then yaml else yml) of
             Some (Loaded w) \<Rightarrow> [if v2_id w = [] then w\<lparr>v2_id := fst entry\<rparr> else w]
           | _ \<Rightarrow> []))"

definition load_from_dir :: "(string \<times> dir_entry) list option \<Rightarrow> workflow_v2 list" where
  "load_from_dir dir =
     (case dir of None \<Rightarrow> [] | Some entries \<Rightarrow> concat (map load_entry (sort_key fst entries)))"

section \<open>Compilation\<close>

definition resolve_approval_rules :: "workflow_v2 \<Rightarrow> agent_task \<Rightarrow> pyval list" where
  "resolve_approval_rules w task =
     (let effective = (if at_approvals task \<noteq> [] then at_approvals task else v2_approvals w)
      in case pget_default effective ''allow'' (PList []) of
           PList rules \<Rightarrow> filter is_dict rules
         | _ \<Rightarrow> [])"

definition setdefault :: "string \<Rightarrow> pyval \<Rightarrow> (string, pyval) dict \<Rightarrow> (string, pyval) dict" where
  "setdefault k v d = (if k \<in> fst ` set d then d else d @ [(k, v)])"

definition task_config :: "workflow_v2 \<Rightarrow> workflow_step \<Rightarrow> agent_task \<Rightarrow> (string, pyval) dict" where
  "task_config w step task =
     (let c0 = at_config task;
          c1 = (if at_agent_type task \<noteq> [] then setdefault ''agent_type'' (PStr (at_agent_type task)) c0 else c0);
          c2 = (if at_instruction task \<noteq> [] then AList.update ''instruction'' (PStr (at_instruction task)) c1 else c1);
          c3 = (if at_input_data task \<noteq> [] then setdefault ''input_data'' (PDict (at_input_data task)) c2 else c2);
          event = tr_event_type (st_trigger step);
          c4 = (if event \<noteq> [] then setdefault ''trigger_event'' (PStr event) c3 else c3);
          rules = resolve_approval_rules w task
      in if rules \<noteq> [] then AList.update ''approval_rules'' (PList rules) c4 else c4)"

definition task_id :: "string \<Rightarrow> nat \<Rightarrow> string" where
  "task_id i j = ''step_'' @ i @ ''_task_'' @ nat_str j"

definition task_node :: "workflow_v2 \<Rightarrow> string \<Rightarrow> workflow_step \<Rightarrow> agent_task \<Rightarrow> node_def" where
  "task_node w nid step task =
     \<lparr>nd_id = nid,
      nd_label = (if at_instruction task \<noteq> [] then at_instruction task
                  else tr_event_type (st_trigger step) @ '':'' @ at_agent_type task),
      nd_handler = at_agent_type task, nd_mode = MODE_SEQUENTIAL, nd_input_from = at_input_from task,
      nd_input_map = [], nd_uses_tool = [], nd_config = task_config w step task,
      nd_timeout_seconds = at_timeout task, nd_retry_count = 0, nd_retry_delay = 2\<rparr>"

definition plain_edge :: "string \<Rightarrow> string \<Rightarrow> edge_def" where
  "plain_edge a b =
     \<lparr>eg_source = a, eg_target = b, eg_condition = \<lparr>ec_type = ''always'', ec_expression = []\<rparr>\<rparr>"

text \<open>The two nested loops; the last component is \<open>prev_id\<close>.\<close>

type_synonym partial_graph = "node_def list \<times> edge_def list \<times> string option"

fun compile_task ::
    "workflow_v2 \<Rightarrow> (nat \<times> workflow_step) \<times> nat \<times> agent_task \<Rightarrow> partial_graph \<Rightarrow> partial_graph" where
  "compile_task w ((i, step), j, task) (nodes, edges, prev) =
     (let nid = task_id (nat_str i) j
      in (nodes @ [task_node w nid step task],
          (case prev of None \<Rightarrow> edges | Some p \<Rightarrow> edges @ [plain_edge p nid]),
          Some nid))"

definition compile_step :: "workflow_v2 \<Rightarrow> nat \<times> workflow_step \<Rightarrow> partial_graph \<Rightarrow> partial_graph" where
  "compile_step w istep g =
     fold (\<lambda>jtask. compile_task w (istep, jtask)) (enumerate 0 (st_execute (snd istep))) g"

definition to_workflow_definition :: "workflow_v2 \<Rightarrow> workflow_def" where
  "to_workflow_definition w =
     (case fold (compile_step w) (enumerate 0 (v2_steps w)) ([], [], None) of
        (nodes, edges, _) \<Rightarrow>
          \<lparr>wf_id = v2_id w, wf_name = v2_name w, wf_description = v2_description w,
           wf_nodes = nodes, wf_edges = edges, wf_config = v2_config w\<rparr>)"

section \<open>One step on its own\<close>

text \<open>\<open>xs[i]\<close>: negative positions count from the end.\<close>

definition py_index :: "'a list \<Rightarrow> int \<Rightarrow> py_error + 'a" where
  "py_index xs i =
     (let k = (if i < 0 then i + int (length xs) else i)
      in if 0 \<le> k \<and> k < int (length xs) then Inr (xs ! nat k) else Inl IndexError)"

text \<open>The definition that holds only the chosen step: the approvals are not passed on.\<close>

definition single_step :: "workflow_v2 \<Rightarrow> int \<Rightarrow> workflow_step \<Rightarrow> workflow_v2" where
  "single_step w i step =
     \<lparr>v2_id = v2_id w @ ''#step'' @ int_str i, v2_name = v2_name w, v2_description = v2_description w,
      v2_steps = [step], v2_config = v2_config w, v2_approvals = []\<rparr>"

definition renamed :: "(string, string) dict \<Rightarrow> string \<Rightarrow> string" where
  "renamed remap n = (case map_of remap n of None \<Rightarrow> n | Some m \<Rightarrow> m)"

definition id_remap :: "int \<Rightarrow> node_def list \<Rightarrow> (string, string) dict" where
  "id_remap i nodes =
     fold (\<lambda>(k, n) r. AList.update (nd_id n) (task_id (int_str i) k) r) (enumerate 0 nodes) []"

definition remap_nodes :: "int \<Rightarrow> workflow_def \<Rightarrow> workflow_def" where
  "remap_nodes i d =
     (let remap = id_remap i (wf_nodes d)
      in d\<lparr>wf_nodes := map (\<lambda>n. n\<lparr>nd_id := renamed remap (nd_id n)\<rparr>) (wf_nodes d),
           wf_edges := map (\<lambda>e. e\<lparr>eg_source := renamed remap (eg_source e),
                                  eg_target := renamed remap (eg_target e)\<rparr>) (wf_edges d)\<rparr>)"

definition step_definition :: "workflow_v2 \<Rightarrow> int \<Rightarrow> py_error + workflow_def" where
  "step_definition w i =
     map_sum id (\<lambda>step. remap_nodes i (to_workflow_definition (single_step w i step)))
       (py_index (v2_steps w) i)"

section \<open>The compiled graph\<close>

definition task_list :: "workflow_v2 \<Rightarrow> ((nat \<times> workflow_step) \<times> nat \<times> agent_task) list" where
  "task_list w =
     concat (map (\<lambda>istep. map (Pair istep) (enumerate 0 (st_execute (snd istep)))) (enumerate 0 (v2_steps w)))"

fun node_for :: "workflow_v2 \<Rightarrow> (nat \<times> workflow_step) \<times> nat \<times> agent_task \<Rightarrow> node_def" where
  "node_for w ((i, step), j, task) = task_node w (task_id (nat_str i) j) step task"

definition chain_edges :: "string list \<Rightarrow> edge_def list" where
  "chain_edges ids = map2 plain_edge ids (tl ids)"

lemma compile_as_fold:
  "fold (compile_step w) (enumerate 0 (v2_steps w)) g = fold (compile_task w) (task_list w) g"
proof -
  have "fold (compile_step w) xs g =
      fold (compile_task w) (concat (map (\<lambda>x. map (Pair x) (enumerate 0 (st_execute (snd x)))) xs)) g" for xs
    by (induction xs arbitrary: g) (simp_all add: compile_step_def fold_map comp_def)
  then show ?thesis by (simp add: task_list_def)
qed

lemma chain_edges_snoc:
  "ids \<noteq> [] \<Longrightarrow> chain_edges (ids @ [n]) = chain_edges ids @ [plain_edge (last ids) n]"
proof (induction ids)
  case (Cons x ids)
  then show ?case by (cases ids) (simp_all add: chain_edges_def)
qed simp

lemma compile_fold_spec:
  assumes "edges = chain_edges (map nd_id nodes)" "prev = (if nodes = [] then None else Some (nd_id (last nodes)))"
  shows "\<exists>prev'. fold (compile_task w) ts (nodes, edges, prev) =
    (nodes @ map (node_for w) ts, chain_edges (map nd_id (nodes @ map (node_for w) ts)), prev')"
  using assms
proof (induction ts arbitrary: nodes edges prev)
  case Nil
  then show ?case by simp
next
  case (Cons t ts)
  obtain i step j task where t: "t = ((i, step), j, task)" by (metis surj_pair)
  let ?n = "node_for w t"
  have "compile_task w t (nodes, edges, prev) =
      (nodes @ [?n], chain_edges (map nd_id (nodes @ [?n])), Some (nd_id ?n))"
    using Cons.prems chain_edges_snoc [of "map nd_id nodes"]
    by (cases "nodes = []") (simp_all add: t Let_def task_node_def last_map, simp add: chain_edges_def)
  then show ?case
    using Cons.IH [of "chain_edges (map nd_id (nodes @ [?n]))" "nodes @ [?n]" "Some (nd_id ?n)"] by simp
qed

lemma compiled_nodes: "wf_nodes (to_workflow_definition w) = map (node_for w) (task_list w)"
  and compiled_edges:
    "wf_edges (to_workflow_definition w) = chain_edges (map nd_id (wf_nodes (to_workflow_definition w)))"
  and compiled_id: "wf_id (to_workflow_definition w) = v2_id w"
  using compile_fold_spec [of "[]" "[]" None w "task_list w"]
  by (auto simp: to_workflow_definition_def compile_as_fold chain_edges_def)

text \<open>The identifiers of the nodes tell the positions apart.\<close>

lemma digits_end: "CHR ''_'' \<notin> set (nat_str n)"
  using nat_str_digits [of n] by (auto simp: list_all_iff is_digit_def)

lemma task_id_inject: "CHR ''_'' \<notin> set a \<Longrightarrow> CHR ''_'' \<notin> set b \<Longrightarrow>
  task_id a j = task_id b l \<longleftrightarrow> a = b \<and> j = l"
proof
  assume u: "CHR ''_'' \<notin> set a" "CHR ''_'' \<notin> set b" and e: "task_id a j = task_id b l"
  have e': "a @ CHR ''_'' # ''task_'' @ nat_str j = b @ CHR ''_'' # ''task_'' @ nat_str l"
    using e by (simp add: task_id_def)
  have t: "takeWhile (\<lambda>c. c \<noteq> CHR ''_'') (x @ CHR ''_'' # y) = x" if "CHR ''_'' \<notin> set x" for x y
    using that by (induction x) auto
  from u have "a = b" by (metis e' t)
  then show "a = b \<and> j = l" using e' by simp
qed simp

lemma distinct_task_positions:
  "distinct (map (\<lambda>((i, step), j, task). (i, j)) (task_list w))"
proof -
  have "distinct (map (\<lambda>((i, step), j, task). (i, j))
      (concat (map (\<lambda>x. map (Pair x) (enumerate 0 (st_execute (snd x)))) (enumerate m ss)))) \<and>
      fst ` (\<lambda>((i, step), j, task). (i, j)) ` set
        (concat (map (\<lambda>x. map (Pair x) (enumerate 0 (st_execute (snd x)))) (enumerate m ss))) \<subseteq> {m..}" for m ss
  proof (induction ss arbitrary: m)
    case (Cons s ss)
    have "distinct (map fst xs) \<Longrightarrow> distinct (map (\<lambda>x. (m, fst x)) xs)" for xs :: "(nat \<times> agent_task) list"
      by (induction xs) auto
    then have "distinct (map (\<lambda>((i, step), j, task). (i, j)) (map (Pair (m, s)) (enumerate 0 (st_execute s))))"
      by (simp add: case_prod_unfold comp_def)
    moreover note Cons.IH [of "Suc m"]
    ultimately show ?case by (auto 0 3 simp: image_subset_iff)
  qed simp
  then show ?thesis unfolding task_list_def by blast
qed

lemma compiled_ids_distinct: "distinct (node_ids (to_workflow_definition w))"
proof -
  have "node_ids (to_workflow_definition w) =
      map (\<lambda>(i, j). task_id (nat_str i) j) (map (\<lambda>((i, step), j, task). (i, j)) (task_list w))"
    by (auto simp: node_ids_def compiled_nodes task_node_def)
  moreover have "inj (\<lambda>(i, j). task_id (nat_str i) j)"
    by (rule injI) (auto simp: task_id_inject digits_end)
  ultimately show ?thesis
    using distinct_task_positions [of w] by (metis distinct_map inj_on_subset subset_UNIV)
qed


section \<open>Compiled workflows run in order\<close>

lemma chain_edges_nth:
  "e \<in> set (chain_edges ids) \<longleftrightarrow> (\<exists>k. Suc k < length ids \<and> e = plain_edge (ids ! k) (ids ! Suc k))"
proof -
  have "e \<in> set (chain_edges ids) \<longleftrightarrow>
      (\<exists>k. k < length ids - 1 \<and> e = plain_edge (ids ! k) (tl ids ! k))"
    unfolding chain_edges_def in_set_conv_nth by (auto simp: min_def) 
  also have "\<dots> \<longleftrightarrow> (\<exists>k. Suc k < length ids \<and> e = plain_edge (ids ! k) (ids ! Suc k))"
    by (rule ex_cong1) (auto simp: nth_tl)
  finally show ?thesis .
qed

lemma chain_graph_valid:
  assumes "distinct (node_ids d)" "wf_edges d = chain_edges (node_ids d)"
  shows "validate_dag d = None"
proof -
  let ?ids = "node_ids d"
  have e: "e \<in> set (wf_edges d) \<longleftrightarrow> (\<exists>k. Suc k < length ?ids \<and> e = plain_edge (?ids ! k) (?ids ! Suc k))" for e
    by (simp add: assms(2) chain_edges_nth)
  have "edges_closed d" by (auto simp: edges_closed_def e plain_edge_def)
  moreover have "acyclic (edge_rel d)"
  proof (rule acyclic_subset)
    have "wf (inv_image less_than (\<lambda>n. THE k. k < length ?ids \<and> ?ids ! k = n))" by simp
    then show "acyclic (inv_image less_than (\<lambda>n. THE k. k < length ?ids \<and> ?ids ! k = n))"
      by (rule wf_acyclic)
    have "(THE k. k < length ?ids \<and> ?ids ! k = ?ids ! j) = j" if "j < length ?ids" for j
      using that assms(1) by (intro the_equality) (auto simp: nth_eq_iff_index_eq)
    then show "edge_rel d \<subseteq> inv_image less_than (\<lambda>n. THE k. k < length ?ids \<and> ?ids ! k = n)"
      by (auto simp: edge_rel_def e plain_edge_def)
  qed
  ultimately show ?thesis using assms(1) by (simp add: validate_dag_cases)
qed

lemma compiled_valid: "validate_dag (to_workflow_definition w) = None"
  by (rule chain_graph_valid) (simp_all add: compiled_ids_distinct compiled_edges flip: node_ids_def)

lemma compiled_sequential: "\<forall>n \<in> set (wf_nodes (to_workflow_definition w)). nd_mode n \<noteq> MODE_PARALLEL"
  by (auto simp: compiled_nodes task_node_def)

text \<open>A node that ended well was started, so all its predecessors ended well.\<close>

lemma ok_preds_ok:
  assumes "seq_inv w s" "n \<in> set (keys_of s)" "node_ok (status_in s n)"
  shows "preds_ok s (dict_list (ww_preds w) n)"
proof -
  have "n \<in> set (ws_ready s) \<union> set (ws_completed s)"
    using assms(1,3) not_ok_simps unfolding seq_inv_def by metis
  then show ?thesis using assms(1,2) unfolding seq_inv_def by blast
qed

lemma compiled_chain_ok:
  assumes "seq_inv (run_world base fresh (to_workflow_definition w)) s"
    "set (keys_of s) = set (node_ids (to_workflow_definition w))"
    "k < length (node_ids (to_workflow_definition w))"
    "preds_ok s (dict_list (pred_table (to_workflow_definition w)) (node_ids (to_workflow_definition w) ! k))"
    "j < k"
  shows "node_ok (status_in s (node_ids (to_workflow_definition w) ! j))"
  using assms(3-5)
proof (induction k)
  case (Suc k)
  let ?d = "to_workflow_definition w"
  have c: "edges_closed ?d" using compiled_valid [of w] by (simp add: validate_dag_cases split: if_splits)
  have "plain_edge (node_ids ?d ! k) (node_ids ?d ! Suc k) \<in> set (wf_edges ?d)"
    using Suc.prems(1) by (auto simp: compiled_edges chain_edges_nth node_ids_def)
  then have "node_ids ?d ! k \<in> set (dict_list (pred_table ?d) (node_ids ?d ! Suc k))"
    by (force simp: pred_table_spec(2) [OF c] plain_edge_def)
  then have ok: "node_ok (status_in s (node_ids ?d ! k))"
    using Suc.prems(2) by (simp add: preds_ok_def)
  have "preds_ok s (dict_list (pred_table ?d) (node_ids ?d ! k))"
    using ok_preds_ok [OF assms(1) _ ok] Suc.prems(1) assms(2) by (simp add: run_world_def)
  then show ?case using Suc.IH Suc.prems(1,3) ok by (cases "j = k") simp_all
qed simp

text \<open>
  C30: Running a workflow of the second format never fails validation and never raises.  Each task
  is called at most once, and only if every task declared before it (in its own step or in an
  earlier one) ended completed or skipped: the tasks run one after the other in the order of the
  file, and a failed task stops everything behind it.
\<close>
theorem compiled_run_in_order:
  assumes "length (task_list w) \<le> fuel"
  shows "validate_dag (to_workflow_definition w) = None \<and>
    (\<exists>r. run_workflow fuel base fresh (to_workflow_definition w) ctx = Some (Inr r) \<and>
       (\<forall>k < length (task_list w).
          handled (nd_id (node_for w (task_list w ! k))) (rr_state r) \<le> 1 \<and>
          (handled (nd_id (node_for w (task_list w ! k))) (rr_state r) \<noteq> 0 \<longrightarrow>
             (\<forall>j < k. node_ok (status_in (rr_state r) (nd_id (node_for w (task_list w ! j))))))))"
proof -
  let ?d = "to_workflow_definition w"
  have c: "edges_closed ?d" using compiled_valid [of w] by (simp add: validate_dag_cases split: if_splits)
  have "length (wf_nodes ?d) \<le> fuel" using assms by (simp add: compiled_nodes)
  then obtain s t where
    r: "run_workflow fuel base fresh ?d ctx = Some (Inr (finish_run (run_world base fresh ?d) t s))"
    and inv: "seq_inv (run_world base fresh ?d) s" and keys: "set (keys_of s) = set (node_ids ?d)"
    by (rule seq_run [OF compiled_valid compiled_sequential, of w fuel base fresh ctx])
  have id: "nd_id (node_for w (task_list w ! k)) = node_ids ?d ! k" if "k < length (task_list w)" for k
    using that by (simp add: node_ids_def compiled_nodes)
  have one: "handled n s \<le> 1" for n
  proof -
    have "handled n s \<le> (if n \<in> set (ws_completed s) then 1 else 0)" using inv by (simp add: seq_inv_def)
    then show ?thesis by (simp split: if_splits)
  qed
  have "node_ok (status_in s (node_ids ?d ! j))"
    if "k < length (task_list w)" "handled (node_ids ?d ! k) s \<noteq> 0" "j < k" for k j
  proof (rule compiled_chain_ok [OF inv keys _ _ that(3)])
    have "conditions_hold (run_world base fresh ?d) s (node_ids ?d ! k)"
      using inv that(2) by (simp add: seq_inv_def)
    then show "preds_ok s (dict_list (pred_table ?d) (node_ids ?d ! k))"
      by (auto simp: preds_ok_def conditions_hold_def run_world_def pred_table_spec(2,3) [OF c])
  qed (use that in \<open>simp add: node_ids_def compiled_nodes\<close>)
  then show ?thesis
    unfolding r using one by (auto simp: compiled_valid finish_run_projections id)
qed

section \<open>The definition of one step\<close>

definition without_approvals :: "workflow_v2 \<Rightarrow> workflow_v2" where
  "without_approvals w = w\<lparr>v2_approvals := []\<rparr>"

lemma single_task_list: "task_list (single_step w i step) = map (Pair (0, step)) (enumerate 0 (st_execute step))"
  by (simp add: task_list_def single_step_def)

lemma task_node_approvals:
  "v2_approvals w = v2_approvals w' \<Longrightarrow> task_node w nid step task = task_node w' nid step task"
  by (simp add: task_node_def task_config_def resolve_approval_rules_def)

text \<open>The table that renames the identifiers.\<close>

lemma remap_table:
  assumes "distinct (map nd_id ns)" "j < length ns"
  shows "map_of (fold (\<lambda>(k, n) r. AList.update (nd_id n) (f k) r) (enumerate m ns) r) (nd_id (ns ! j)) = Some (f (m + j))"
  using assms
proof (induction ns arbitrary: m r j)
  case (Cons n ns)
  have keep: "x \<notin> nd_id ` set ns \<Longrightarrow>
      map_of (fold (\<lambda>(k, n) r. AList.update (nd_id n) (f k) r) (enumerate m ns) r) x = map_of r x" for x m r
    by (induction ns arbitrary: m r) (auto simp: map_of_update)
  show ?case
  proof (cases j)
    case 0
    then show ?thesis using Cons.prems keep [of "nd_id n"] by (simp add: map_of_update)
  next
    case (Suc l)
    then show ?thesis using Cons.prems Cons.IH [of l "Suc m"] by simp
  qed
qed simp

lemma rename_chain:
  "map (\<lambda>e. e\<lparr>eg_source := f (eg_source e), eg_target := f (eg_target e)\<rparr>) (chain_edges ids) =
     chain_edges (map f ids)"
  by (simp add: chain_edges_def plain_edge_def zip_map_map map_tl case_prod_unfold comp_def flip: map_tl)

lemma step_nodes:
  assumes "k < length (v2_steps w)"
  defines "step \<equiv> v2_steps w ! k"
  obtains d where "step_definition w (int k) = Inr d"
    "wf_nodes d = map (\<lambda>jtask. node_for (without_approvals w) ((k, step), jtask)) (enumerate 0 (st_execute step))"
    "wf_edges d = chain_edges (node_ids d)" "wf_id d = v2_id w @ ''#step'' @ nat_str k"
proof -
  let ?s = "single_step w (int k) step"
  let ?e = "to_workflow_definition ?s"
  let ?remap = "id_remap (int k) (wf_nodes ?e)"
  let ?d = "remap_nodes (int k) ?e"
  have nodes0: "wf_nodes ?e = map (\<lambda>(j, task). task_node ?s (task_id (nat_str 0) j) step task) (enumerate 0 (st_execute step))"
    by (auto simp: compiled_nodes single_task_list)
  let ?n = "length (st_execute step)"
  have ren: "renamed ?remap (task_id (nat_str 0) j) = task_id (nat_str k) j" if "j < ?n" for j
    using remap_table [of "wf_nodes ?e" j "task_id (int_str (int k))" 0 "[]"] that compiled_ids_distinct [of ?s]
    by (simp add: renamed_def id_remap_def node_ids_def nodes0 nth_enumerate_eq task_node_def int_str_def)
  show thesis
  proof (rule that)
    show "step_definition w (int k) = Inr ?d"
      using assms by (simp add: step_definition_def py_index_def)
    have node: "(task_node ?s (task_id (nat_str 0) j) step task)\<lparr>nd_id := task_id (nat_str k) j\<rparr> =
        task_node (without_approvals w) (task_id (nat_str k) j) step task" for j task
      using task_node_approvals [of ?s "without_approvals w" "task_id (nat_str k) j" step task]
      by (simp add: task_node_def single_step_def without_approvals_def)
    show nodes: "wf_nodes ?d = map (\<lambda>jtask. node_for (without_approvals w) ((k, step), jtask)) (enumerate 0 (st_execute step))"
    proof (rule nth_equalityI)
      fix j assume "j < length (wf_nodes ?d)"
      then have j: "j < ?n" by (simp add: remap_nodes_def Let_def nodes0)
      have "wf_nodes ?d ! j = (wf_nodes ?e ! j)\<lparr>nd_id := renamed ?remap (nd_id (wf_nodes ?e ! j))\<rparr>"
        using j by (simp add: remap_nodes_def Let_def nodes0)
      moreover have "wf_nodes ?e ! j = task_node ?s (task_id (nat_str 0) j) step (st_execute step ! j)"
        using j by (simp add: nodes0 nth_enumerate_eq)
      ultimately show "wf_nodes ?d ! j =
          map (\<lambda>jtask. node_for (without_approvals w) ((k, step), jtask)) (enumerate 0 (st_execute step)) ! j"
        using j node ren [OF j] by (simp add: nth_enumerate_eq) (simp add: task_node_def)
    qed (simp add: remap_nodes_def Let_def nodes0)
    have "wf_edges ?d = chain_edges (map (renamed ?remap) (node_ids ?e))"
      by (simp add: remap_nodes_def Let_def rename_chain compiled_edges node_ids_def)
    then show "wf_edges ?d = chain_edges (node_ids ?d)"
      by (simp add: remap_nodes_def Let_def node_ids_def comp_def)
    show "wf_id ?d = v2_id w @ ''#step'' @ nat_str k"
      by (simp add: remap_nodes_def Let_def compiled_id single_step_def int_str_def)
  qed
qed

lemma step_ids_distinct:
  assumes "wf_nodes d = map (\<lambda>jtask. node_for w ((k, step), jtask)) (enumerate 0 tasks)"
  shows "distinct (node_ids d)"
proof -
  have "node_ids d = map (task_id (nat_str k)) (map fst (enumerate 0 tasks))"
    unfolding node_ids_def assms map_map by (rule map_cong) (auto simp: task_node_def)
  then show ?thesis by (simp add: distinct_map inj_on_def task_id_inject digits_end)
qed

text \<open>
  What an event runs.  The definition compiled for step \<open>k\<close> is valid and sequential, and its
  nodes are those of the whole workflow with the same identifiers and in the same order, except
  that the approval rules declared at the top of the workflow are missing from every one of them:
  the temporary workflow that \<open>_step_definition\<close> compiles is built without \<open>approvals\<close>.
\<close>
theorem step_definition_correct:
  assumes "k < length (v2_steps w)"
  shows "\<exists>d. step_definition w (int k) = Inr d \<and> validate_dag d = None \<and>
    (\<forall>n \<in> set (wf_nodes d). nd_mode n \<noteq> MODE_PARALLEL) \<and>
    wf_nodes d = map (\<lambda>jtask. node_for (without_approvals w) ((k, v2_steps w ! k), jtask))
                   (enumerate 0 (st_execute (v2_steps w ! k))) \<and>
    wf_edges d = chain_edges (node_ids d)"
proof -
  obtain d where d: "step_definition w (int k) = Inr d"
    "wf_nodes d = map (\<lambda>jtask. node_for (without_approvals w) ((k, v2_steps w ! k), jtask))
       (enumerate 0 (st_execute (v2_steps w ! k)))"
    "wf_edges d = chain_edges (node_ids d)"
    by (rule step_nodes [OF assms])
  moreover have "\<forall>n \<in> set (wf_nodes d). nd_mode n \<noteq> MODE_PARALLEL"
    by (auto simp: d(2) task_node_def)
  ultimately show ?thesis using chain_graph_valid [OF step_ids_distinct [OF d(2)] d(3)] by blast
qed

section \<open>Examples\<close>

definition ex_task :: "string \<Rightarrow> agent_task" where
  "ex_task cmd =
     \<lparr>at_task_id = [], at_workflow_id = [], at_node_id = [], at_agent_type = ''shell'',
      at_instruction = cmd, at_input_data = [], at_input_from = [], at_config = [],
      at_approvals = [], at_timeout = 120\<rparr>"

definition ex_deploy :: workflow_v2 where
  "ex_deploy =
     \<lparr>v2_id = ''deploy'', v2_name = ''Deploy'', v2_description = [],
      v2_steps = [\<lparr>st_trigger = \<lparr>tr_event_type = ''workflow.request'', tr_condition = []\<rparr>,
                    st_execute = [ex_task ''git push'', ex_task ''systemctl restart blog'']\<rparr>],
      v2_config = [],
      v2_approvals = [(''allow'', PList [PDict [(''tool'', PStr ''shell'')], PStr ''shell''])]\<rparr>"

theorem compiled_run_in_order_witness:
  "\<exists>r. run_workflow 2 (demo_base demo_ok) ''f'' (to_workflow_definition ex_deploy) [] = Some (Inr r) \<and>
     handled ''step_0_task_1'' (rr_state r) \<le> 1"
proof -
  have l: "length (task_list ex_deploy) \<le> 2" "1 < length (task_list ex_deploy)" by code_simp+
  have i: "nd_id (node_for ex_deploy (task_list ex_deploy ! 1)) = ''step_0_task_1''" by code_simp
  from compiled_run_in_order [OF l(1), of "demo_base demo_ok" "''f''" "[]"] l(2) i show ?thesis by metis
qed

theorem step_definition_correct_witness:
  "\<exists>d. step_definition ex_deploy 0 = Inr d \<and> validate_dag d = None"
proof -
  have "0 < length (v2_steps ex_deploy)" by code_simp
  from step_definition_correct [OF this] show ?thesis by auto
qed

text \<open>The same task with and without the rule that pre-approves it.\<close>

lemma step_loses_approvals:
  "map (\<lambda>n. pget (nd_config n) ''approval_rules'') (wf_nodes (to_workflow_definition ex_deploy)) =
     [PList [PDict [(''tool'', PStr ''shell'')]], PList [PDict [(''tool'', PStr ''shell'')]]]"
  "map_sum id (\<lambda>d. map (\<lambda>n. (nd_id n, pget (nd_config n) ''approval_rules'')) (wf_nodes d)) (step_definition ex_deploy 0) =
     Inr [(''step_0_task_0'', PNone), (''step_0_task_1'', PNone)]"
  by code_simp+

end
