(* ===== verification/Workflow_Runtime.thy ===== *)
theory Workflow_Runtime
  imports Workflow_V2 Fnmatch
begin

text \<open>
  \<open>workflow_runtime.py\<close>: the registry of workflows, the subscription to the event bus, the guards
  against concurrent and too frequent runs, and the bookkeeping of runs.

  The runtime is a state machine over the ready queue of the event loop.  Every event published on
  the bus makes a callback task (\<open>Callback\<close>); a callback that matches makes a run task
  (\<open>Spawned\<close>); a run task that is started executes up to the call of the engine, where the run
  stays in flight until the engine returns, unless the engine never suspends: then the whole run
  happens in that turn.  None of the coroutines between these points suspends,
  because publishing only creates tasks.
\<close>

section \<open>Records\<close>

record node_record =
  nr_node_id :: string
  nr_handler :: string
  nr_status :: node_status
  nr_duration :: time
  nr_error :: string
  nr_result :: pyval

record run_record =
  wr_run_id :: string
  wr_workflow_id :: string
  wr_workflow_name :: string
  wr_source :: string
  wr_step_index :: int
  wr_trigger_event :: string
  wr_triggered_by :: string
  wr_payload :: "(string, pyval) dict"
  wr_status :: string
  wr_error :: string
  wr_started_at :: time
  wr_duration :: time
  wr_nodes :: "node_record list"

record registered =
  rg_workflow :: workflow_v2
  rg_source :: string
  rg_enabled :: bool

definition FAILED_NODE_STATUSES :: "node_status list" where
  "FAILED_NODE_STATUSES = [ND_FAILED, ND_TIMEOUT, ND_BLOCKED, ND_CANCELLED]"

text \<open>\<open>_clip\<close>: long strings keep their head and the number of characters cut.\<close>

fun clip_value :: "nat \<Rightarrow> pyval \<Rightarrow> pyval" where
  "clip_value limit (PStr s) =
     (if length s \<le> limit then PStr s
      else PStr (take limit s @ ''...(+'' @ nat_str (length s - limit) @ '')''))"
| "clip_value limit (PDict d) = PDict (map (\<lambda>(k, v). (k, clip_value limit v)) d)"
| "clip_value limit (PList xs) = PList (map (clip_value limit) xs)"
| "clip_value limit v = v"

definition failed_nodes :: "run_record \<Rightarrow> string list" where
  "failed_nodes r = map nr_node_id (filter (\<lambda>n. nr_status n \<in> set FAILED_NODE_STATUSES) (wr_nodes r))"

definition record_ok :: "run_record \<Rightarrow> bool" where
  "record_ok r \<longleftrightarrow> wr_status r = ''completed''"

text \<open>\<open>to_dict\<close>; \<open>round4\<close> is \<open>round(_, 4)\<close>.\<close>

definition node_to_dict :: "(time \<Rightarrow> time) \<Rightarrow> nat \<Rightarrow> node_record \<Rightarrow> pyval" where
  "node_to_dict round4 limit n =
     PDict [(''node_id'', PStr (nr_node_id n)), (''handler'', PStr (nr_handler n)),
            (''status'', PStr (node_status_value (nr_status n))),
            (''duration'', PFloat (round4 (nr_duration n))), (''error'', PStr (nr_error n)),
            (''result'', clip_value limit (nr_result n))]"

definition run_to_dict :: "(time \<Rightarrow> time) \<Rightarrow> nat \<Rightarrow> run_record \<Rightarrow> (string, pyval) dict" where
  "run_to_dict round4 limit r =
     [(''run_id'', PStr (wr_run_id r)), (''workflow_id'', PStr (wr_workflow_id r)),
      (''workflow_name'', PStr (wr_workflow_name r)), (''source'', PStr (wr_source r)),
      (''step_index'', PInt (wr_step_index r)), (''trigger_event'', PStr (wr_trigger_event r)),
      (''triggered_by'', PStr (wr_triggered_by r)), (''status'', PStr (wr_status r)),
      (''error'', PStr (wr_error r)), (''started_at'', PFloat (wr_started_at r)),
      (''duration'', PFloat (round4 (wr_duration r))),
      (''failed_nodes'', PList (map PStr (failed_nodes r))),
      (''nodes'', PList (map (node_to_dict round4 limit) (wr_nodes r)))]"

definition triggers :: "registered \<Rightarrow> string list" where
  "triggers g = filter (\<lambda>t. t \<noteq> []) (map (tr_event_type \<circ> st_trigger) (v2_steps (rg_workflow g)))"

definition registered_to_dict :: "registered \<Rightarrow> (string, pyval) dict" where
  "registered_to_dict g =
     (let w = rg_workflow g
      in [(''id'', PStr (v2_id w)), (''name'', PStr (v2_name w)), (''description'', PStr (v2_description w)),
          (''source'', PStr (rg_source g)), (''enabled'', PBool (rg_enabled g)),
          (''triggers'', PList (map PStr (triggers g))), (''steps'', PInt (int (length (v2_steps w)))),
          (''tasks'', PInt (int (sum_list (map (length \<circ> st_execute) (v2_steps w)))))])"

definition workflow_enabled :: "workflow_v2 \<Rightarrow> bool" where
  "workflow_enabled w =
     (case map_of (v2_config w) ''enabled'' of
        Some v \<Rightarrow> py_truthy v
      | None \<Rightarrow>
          (case pget (v2_config w) ''ecosystem'' of
             PDict e \<Rightarrow> (case map_of e ''enabled'' of Some v \<Rightarrow> py_truthy v | None \<Rightarrow> True)
           | _ \<Rightarrow> True))"

section \<open>The state\<close>

text \<open>
  \<open>fl_number\<close> stands for the identity of the run record: it is the number of the run.  The same
  record object is in the ring of runs, as long as it has not been pushed out.
\<close>

datatype job =
    Callback sys_event
  | Spawned registered int "(string, pyval) dict" string string  \<comment> \<open>step, payload, triggered by, event\<close>

record flight =
  fl_number :: nat
  fl_key :: "string \<times> int"
  fl_record :: run_record
  fl_definition :: workflow_def
  fl_context :: "(string, pyval) dict"
  fl_spawned :: bool

datatype run_line = BrokenLine | RunLine pyval

record wruntime =
  rn_max_runs :: nat
  rn_allow_concurrent :: bool
  rn_window :: time
  rn_max_per_window :: nat
  rn_max_bytes :: nat
  rn_workflows :: "(string, registered) dict"
  rn_times :: "(string, time list) dict"
  rn_runs :: "(nat \<times> run_record) list"
  rn_count :: nat
  rn_active :: "(string \<times> int) list"
  rn_running :: bool
  rn_ready :: "job list"
  rn_flying :: "flight list"
  rn_emitted :: "sys_event list"
  rn_file :: "run_line list option"
  rn_archive :: "run_line list option"

text \<open>How the engine's run of a definition ends.\<close>

datatype engine_outcome = Ended run_result | EngineRaised string | EngineCancelled

text \<open>
  What the runtime reads from outside while one task runs: the clocks, the hexadecimal suffix of a
  fresh run identifier, the evaluation of a condition (\<^const>\<open>None\<close> when it raises), the size of
  the run file and the rounding of floats.  \<open>re_inline\<close> is the answer of \<open>engine.run\<close> on a
  definition and a context when the run never waits for anything, and \<^const>\<open>None\<close> when it
  suspends: a run without a node whose handler is called (no nodes, or only nodes that are
  skipped because they are not to run automatically) ends at once, one whose handler waits for a
  process, a timer or another task does not.
\<close>

record runtime_env =
  re_wall :: time
  re_mono :: time
  re_fresh :: string
  re_eval :: "string \<Rightarrow> (string, pyval) dict \<Rightarrow> sys_event \<Rightarrow> bool option"
  re_size :: "run_line list \<Rightarrow> nat"
  re_round4 :: "time \<Rightarrow> time"
  re_inline :: "workflow_def \<Rightarrow> (string, pyval) dict \<Rightarrow> engine_outcome option"

text \<open>The constructor normalises its arguments; \<open>maxlen\<close> and the limits are at least one.\<close>

definition new_runtime_state :: "int \<Rightarrow> bool \<Rightarrow> time \<Rightarrow> int \<Rightarrow> int \<Rightarrow> wruntime" where
  "new_runtime_state max_runs allow window max_per_window max_bytes =
     \<lparr>rn_max_runs = nat (max 1 max_runs), rn_allow_concurrent = allow, rn_window = max 0 window,
      rn_max_per_window = nat (max 1 max_per_window),
      rn_max_bytes = nat (max 1 (if max_bytes = 0 then 5 * 1024 * 1024 else max_bytes)),
      rn_workflows = [], rn_times = [], rn_runs = [], rn_count = 0, rn_active = [],
      rn_running = False, rn_ready = [], rn_flying = [], rn_emitted = [], rn_file = None,
      rn_archive = None\<rparr>"

section \<open>The registry\<close>

definition register_workflow ::
    "string \<Rightarrow> string \<Rightarrow> bool option \<Rightarrow> workflow_v2 \<Rightarrow> wruntime \<Rightarrow> string \<times> wruntime" where
  "register_workflow fresh source enabled w st =
     (let w' = (if v2_id w = [] then w\<lparr>v2_id := ''wf-'' @ fresh\<rparr> else w);
          on = (case enabled of None \<Rightarrow> workflow_enabled w' | Some b \<Rightarrow> b)
      in (v2_id w',
          st\<lparr>rn_workflows := AList.update (v2_id w')
               \<lparr>rg_workflow = w', rg_source = source, rg_enabled = on\<rparr> (rn_workflows st)\<rparr>))"

definition unregister_workflow :: "string \<Rightarrow> wruntime \<Rightarrow> bool \<times> wruntime" where
  "unregister_workflow wid st =
     (wid \<in> fst ` set (rn_workflows st), st\<lparr>rn_workflows := AList.delete wid (rn_workflows st)\<rparr>)"

text \<open>By identifier, then by name.\<close>

definition get_workflow :: "string \<Rightarrow> wruntime \<Rightarrow> registered option" where
  "get_workflow key st =
     (case map_of (rn_workflows st) key of
        Some g \<Rightarrow> Some g
      | None \<Rightarrow> find (\<lambda>g. v2_name (rg_workflow g) = key) (map snd (rn_workflows st)))"

definition list_workflows :: "bool \<Rightarrow> wruntime \<Rightarrow> (string, pyval) dict list" where
  "list_workflows include_disabled st =
     map registered_to_dict
       (filter (\<lambda>g. include_disabled \<or> rg_enabled g)
          (sort_key (\<lambda>g. v2_id (rg_workflow g)) (map snd (rn_workflows st))))"

text \<open>
  \<open>register_dir\<close>, \<open>register_builtin\<close> (the built in workflows come from another module) and
  \<open>register_all\<close>: the built in ones first, so that a file of the same identifier replaces them.
  \<open>fresh k\<close> is the suffix drawn for the \<open>k\<close>-th workflow when it has no identifier.
\<close>

definition register_each ::
    "(nat \<Rightarrow> string) \<Rightarrow> string \<Rightarrow> bool option \<Rightarrow> workflow_v2 list \<Rightarrow> wruntime \<Rightarrow> string list \<times> wruntime" where
  "register_each fresh source enabled ws st =
     fold (\<lambda>w (ids, s). case register_workflow (fresh (length ids)) source enabled w s of
                          (i, s') \<Rightarrow> (ids @ [i], s')) ws ([], st)"

definition register_dir ::
    "(nat \<Rightarrow> string) \<Rightarrow> (string \<times> dir_entry) list option \<Rightarrow> bool option \<Rightarrow> wruntime \<Rightarrow> string list \<times> wruntime" where
  "register_dir fresh dir enabled st = register_each fresh ''file'' enabled (load_from_dir dir) st"

definition register_all ::
    "(nat \<Rightarrow> string) \<Rightarrow> workflow_v2 list \<Rightarrow> (string \<times> dir_entry) list option \<Rightarrow> bool \<Rightarrow> bool option
       \<Rightarrow> wruntime \<Rightarrow> (string list \<times> string list) \<times> wruntime" where
  "register_all fresh builtin dir include_builtin builtin_enabled st =
     (case (if include_builtin then register_each fresh ''builtin'' builtin_enabled builtin st else ([], st)) of
        (bids, st1) \<Rightarrow>
          (case register_dir (\<lambda>k. fresh (k + length bids)) dir None st1 of
             (fids, st2) \<Rightarrow> ((bids, fids), st2)))"

section \<open>Events\<close>

definition runtime_event :: "time \<Rightarrow> string \<Rightarrow> (string, pyval) dict \<Rightarrow> sys_event" where
  "runtime_event wall ty payload =
     \<lparr>ev_type = ''event.'' @ ty, ev_source = ''workflow-runtime'', ev_source_type = SRC_SYSTEM,
      ev_severity = SEV_INFO, ev_payload = payload, ev_timestamp = Some wall\<rparr>"

text \<open>Publishing an event makes one callback task as long as the runtime is subscribed.\<close>

definition deliver :: "sys_event \<Rightarrow> wruntime \<Rightarrow> wruntime" where
  "deliver e st = (if rn_running st then st\<lparr>rn_ready := rn_ready st @ [Callback e]\<rparr> else st)"

definition emit_bus :: "runtime_env \<Rightarrow> string \<Rightarrow> (string, pyval) dict \<Rightarrow> wruntime \<Rightarrow> wruntime" where
  "emit_bus env ty payload st =
     (let e = runtime_event (re_wall env) ty payload
      in deliver e (st\<lparr>rn_emitted := rn_emitted st @ [e]\<rparr>))"

definition type_matches :: "string \<Rightarrow> string \<Rightarrow> bool" where
  "type_matches trigger actual =
     (trigger \<noteq> [] \<and>
      (fnmatch actual trigger \<or>
       (CHR ''.'' \<in> set actual \<and> fnmatch (tl (dropWhile (\<lambda>c. c \<noteq> CHR ''.'') actual)) trigger)))"

definition eval_condition :: "runtime_env \<Rightarrow> string \<Rightarrow> (string, pyval) dict \<Rightarrow> sys_event \<Rightarrow> bool" where
  "eval_condition env expression payload e =
     (if expression = [] then True
      else (case re_eval env expression payload e of None \<Rightarrow> False | Some b \<Rightarrow> b))"

definition matching_steps :: "runtime_env \<Rightarrow> workflow_v2 \<Rightarrow> sys_event \<Rightarrow> int list" where
  "matching_steps env w e =
     map (int \<circ> fst)
       (filter (\<lambda>(k, step). type_matches (tr_event_type (st_trigger step)) (ev_type e) \<and>
                            eval_condition env (tr_condition (st_trigger step)) (ev_payload e) e)
          (enumerate 0 (v2_steps w)))"

definition is_active :: "string \<Rightarrow> int \<Rightarrow> wruntime \<Rightarrow> bool" where
  "is_active wid k st \<longleftrightarrow> (wid, k) \<in> set (rn_active st)"

text \<open>Old time stamps are dropped from the front of the queue as a side effect.\<close>

definition rate_limited :: "time \<Rightarrow> string \<Rightarrow> wruntime \<Rightarrow> bool \<times> wruntime" where
  "rate_limited now wid st =
     (if rn_window st \<le> 0 then (False, st)
      else (case map_of (rn_times st) wid of
              None \<Rightarrow> (False, st)
            | Some [] \<Rightarrow> (False, st)
            | Some stamps \<Rightarrow>
                (let kept = dropWhile (\<lambda>t. t < now - rn_window st) stamps
                 in (rn_max_per_window st \<le> length kept,
                     st\<lparr>rn_times := AList.update wid kept (rn_times st)\<rparr>))))"

definition spawn_run ::
    "registered \<Rightarrow> int \<Rightarrow> (string, pyval) dict \<Rightarrow> string \<Rightarrow> string \<Rightarrow> wruntime \<Rightarrow> wruntime" where
  "spawn_run g k payload by event st =
     st\<lparr>rn_ready := rn_ready st @ [Spawned g k payload by event]\<rparr>"

definition try_step :: "runtime_env \<Rightarrow> sys_event \<Rightarrow> registered \<Rightarrow> int \<Rightarrow> wruntime \<Rightarrow> wruntime" where
  "try_step env e g k st =
     (if \<not> rn_allow_concurrent st \<and> is_active (v2_id (rg_workflow g)) k st then
        emit_bus env ''workflow.skipped''
          [(''workflow_id'', PStr (v2_id (rg_workflow g))), (''step_index'', PInt k),
           (''trigger_event'', PStr (ev_type e)), (''reason'', PStr ''already_running'')] st
      else spawn_run g k (ev_payload e) ''event'' (ev_type e) st)"

definition try_workflow :: "runtime_env \<Rightarrow> sys_event \<Rightarrow> registered \<Rightarrow> wruntime \<Rightarrow> wruntime" where
  "try_workflow env e g st =
     (if \<not> rg_enabled g then st
      else (case rate_limited (re_mono env) (v2_id (rg_workflow g)) st of
              (limited, st1) \<Rightarrow>
                (if limited then
                   emit_bus env ''workflow.throttled''
                     [(''workflow_id'', PStr (v2_id (rg_workflow g))), (''trigger_event'', PStr (ev_type e)),
                      (''window_seconds'', PFloat (rn_window st1)),
                      (''max_runs'', PInt (int (rn_max_per_window st1)))] st1
                 else fold (try_step env e g) (matching_steps env (rg_workflow g) e) st1)))"

definition on_event :: "runtime_env \<Rightarrow> sys_event \<Rightarrow> wruntime \<Rightarrow> wruntime" where
  "on_event env e st =
     (if \<not> rn_running st then st
      else fold (try_workflow env e) (map snd (rn_workflows st)) st)"

section \<open>Runs\<close>

definition run_label :: "int \<Rightarrow> string" where
  "run_label k = (if k < 0 then ''all'' else int_str k)"

definition push_max :: "nat \<Rightarrow> 'a \<Rightarrow> 'a list \<Rightarrow> 'a list" where
  "push_max n x xs = (let ys = xs @ [x] in drop (length ys - n) ys)"

definition open_record ::
    "runtime_env \<Rightarrow> registered \<Rightarrow> int \<Rightarrow> (string, pyval) dict \<Rightarrow> string \<Rightarrow> string \<Rightarrow> run_record" where
  "open_record env g k payload by event =
     (let w = rg_workflow g
      in \<lparr>wr_run_id = v2_id w @ ''#'' @ run_label k @ ''-'' @ re_fresh env, wr_workflow_id = v2_id w,
          wr_workflow_name = v2_name w, wr_source = rg_source g, wr_step_index = k,
          wr_trigger_event = event, wr_triggered_by = by, wr_payload = payload, wr_status = ''running'',
          wr_error = [], wr_started_at = re_wall env, wr_duration = 0, wr_nodes = []\<rparr>)"

text \<open>\<open>run_context\<close>: the caller's entries are overridden by those of the runtime.\<close>

definition run_context :: "run_record \<Rightarrow> (string, pyval) dict \<Rightarrow> (string, pyval) dict" where
  "run_context r context =
     fold (\<lambda>(k, v) d. AList.update k v d)
       [(''workflow_id'', PStr (wr_workflow_id r)), (''run_id'', PStr (wr_run_id r)),
        (''step_index'', PInt (wr_step_index r)), (''trigger_event'', PStr (wr_trigger_event r)),
        (''trigger_payload'', PDict (wr_payload r)), (''triggered_by'', PStr (wr_triggered_by r))]
       context"

section \<open>The end of a run\<close>

definition project_nodes :: "workflow_def \<Rightarrow> run_result \<Rightarrow> node_record list" where
  "project_nodes d res =
     concat (map (\<lambda>n.
       case map_of (ws_runtimes (rr_state res)) (nd_id n) of
         None \<Rightarrow> []
       | Some r \<Rightarrow>
           [\<lparr>nr_node_id = nd_id n, nr_handler = nd_handler n, nr_status = rt_status r,
             nr_duration = (case (rt_started_at r, rt_completed_at r) of
                              (Some a, Some b) \<Rightarrow> if a \<noteq> 0 \<and> b \<noteq> 0 then b - a else 0
                            | _ \<Rightarrow> 0),
             nr_error = (case rt_error r of None \<Rightarrow> [] | Some m \<Rightarrow> m), nr_result = rt_result r\<rparr>])
       (wf_nodes d))"

definition close_record :: "runtime_env \<Rightarrow> workflow_def \<Rightarrow> engine_outcome \<Rightarrow> run_record \<Rightarrow> run_record" where
  "close_record env d out r =
     (case out of
        Ended res \<Rightarrow> r\<lparr>wr_status := workflow_status_value (rr_status res), wr_duration := rr_duration res,
                       wr_nodes := project_nodes d res\<rparr>
      | EngineRaised m \<Rightarrow> r\<lparr>wr_status := ''failed'', wr_error := m,
                            wr_duration := re_wall env - wr_started_at r\<rparr>
      | EngineCancelled \<Rightarrow> r\<lparr>wr_status := ''cancelled'', wr_duration := re_wall env - wr_started_at r\<rparr>)"

text \<open>\<open>_persist_run\<close>: the file is archived first when it has reached its limit.\<close>

definition persist_run :: "runtime_env \<Rightarrow> run_record \<Rightarrow> wruntime \<Rightarrow> wruntime" where
  "persist_run env r st =
     (let st1 = (case rn_file st of
                   Some ls \<Rightarrow> if rn_max_bytes st \<le> re_size env ls
                              then st\<lparr>rn_archive := Some ls, rn_file := None\<rparr> else st
                 | None \<Rightarrow> st);
          ls = (case rn_file st1 of None \<Rightarrow> [] | Some ls \<Rightarrow> ls)
      in st1\<lparr>rn_file := Some (ls @ [RunLine (PDict (run_to_dict (re_round4 env) 400 r))])\<rparr>)"

text \<open>The second half of \<open>_run_definition\<close>, from the return of the engine.\<close>

definition end_flight :: "runtime_env \<Rightarrow> flight \<Rightarrow> engine_outcome \<Rightarrow> wruntime \<Rightarrow> wruntime" where
  "end_flight env f out st =
     (let r = close_record env (fl_definition f) out (fl_record f);
          st1 = st\<lparr>rn_runs := map (\<lambda>(n, x). (n, if n = fl_number f then r else x)) (rn_runs st)\<rparr>;
          st2 = emit_bus env ''workflow.finished''
                  [(''workflow_id'', PStr (wr_workflow_id r)), (''run_id'', PStr (wr_run_id r)),
                   (''step_index'', PInt (wr_step_index r)), (''triggered_by'', PStr (wr_triggered_by r)),
                   (''trigger_event'', PStr (wr_trigger_event r)), (''status'', PStr (wr_status r)),
                   (''duration'', PFloat (wr_duration r)),
                   (''failed_nodes'', PList (map PStr (failed_nodes r)))] (persist_run env r st1)
      in st2\<lparr>rn_active := removeAll (fl_key f) (rn_active st2),
             rn_flying := filter (\<lambda>x. fl_number x \<noteq> fl_number f) (rn_flying st2)\<rparr>)"

section \<open>The start of a run\<close>

text \<open>The first half of \<open>_run_definition\<close>, up to the call of the engine.\<close>

definition new_flight ::
    "runtime_env \<Rightarrow> bool \<Rightarrow> registered \<Rightarrow> workflow_def \<Rightarrow> int \<Rightarrow> (string, pyval) dict \<Rightarrow> string \<Rightarrow> string
       \<Rightarrow> (string, pyval) dict \<Rightarrow> wruntime \<Rightarrow> flight" where
  "new_flight env spawned g d k payload by event context st =
     (let r = open_record env g k payload by event
      in \<lparr>fl_number = rn_count st, fl_key = (v2_id (rg_workflow g), k), fl_record = r, fl_definition = d,
          fl_context = run_context r context, fl_spawned = spawned\<rparr>)"

definition open_flight :: "runtime_env \<Rightarrow> flight \<Rightarrow> wruntime \<Rightarrow> wruntime" where
  "open_flight env f st =
     (let r = fl_record f; wid = fst (fl_key f);
          st1 = st\<lparr>rn_runs := push_max (rn_max_runs st) (fl_number f, r) (rn_runs st),
                   rn_count := rn_count st + 1,
                   rn_times := AList.update wid (dict_list (rn_times st) wid @ [re_mono env]) (rn_times st),
                   rn_active := List.insert (fl_key f) (rn_active st),
                   rn_flying := rn_flying st @ [f]\<rparr>
      in emit_bus env ''workflow.triggered''
           [(''workflow_id'', PStr wid), (''run_id'', PStr (wr_run_id r)), (''step_index'', PInt (wr_step_index r)),
            (''triggered_by'', PStr (wr_triggered_by r)), (''trigger_event'', PStr (wr_trigger_event r))] st1)"

text \<open>
  \<open>_run_definition\<close> until it suspends: at the engine when the engine does, otherwise the second
  half follows in the same turn of the event loop.
\<close>

definition begin_flight ::
    "runtime_env \<Rightarrow> bool \<Rightarrow> registered \<Rightarrow> workflow_def \<Rightarrow> int \<Rightarrow> (string, pyval) dict \<Rightarrow> string \<Rightarrow> string
       \<Rightarrow> (string, pyval) dict \<Rightarrow> wruntime \<Rightarrow> wruntime" where
  "begin_flight env spawned g d k payload by event context st =
     (let f = new_flight env spawned g d k payload by event context st; st1 = open_flight env f st
      in case re_inline env d (fl_context f) of
           None \<Rightarrow> st1
         | Some out \<Rightarrow> end_flight env f out st1)"

text \<open>\<open>_run_step\<close>: a step that does not exist raises before anything is recorded.\<close>

definition start_step ::
    "runtime_env \<Rightarrow> bool \<Rightarrow> registered \<Rightarrow> int \<Rightarrow> (string, pyval) dict \<Rightarrow> string \<Rightarrow> string \<Rightarrow> wruntime
       \<Rightarrow> py_error + wruntime" where
  "start_step env spawned g k payload by event st =
     map_sum id (\<lambda>d. begin_flight env spawned g d k payload by event [] st)
       (step_definition (rg_workflow g) k)"

text \<open>\<open>run_now\<close>: the whole workflow, step index minus one.\<close>

definition run_now :: "runtime_env \<Rightarrow> string \<Rightarrow> (string, pyval) dict \<Rightarrow> wruntime \<Rightarrow> py_error + wruntime" where
  "run_now env key context st =
     (case get_workflow key st of
        None \<Rightarrow> Inl (Trm WORKFLOW_VALIDATION_FAILED)
      | Some g \<Rightarrow> Inr (begin_flight env False g (to_workflow_definition (rg_workflow g)) (-1) [] ''manual'' [] context st))"

text \<open>
  \<open>trigger\<close>: the steps it selects with the event each run is recorded under; the steps are then
  started one after the other (\<open>wait\<close>) or as tasks.
\<close>

fun trigger_events :: "workflow_step list \<Rightarrow> string \<Rightarrow> int list \<Rightarrow> py_error + (int \<times> string) list" where
  "trigger_events steps event [] = Inr []"
| "trigger_events steps event (k # ks) =
     (case (if event \<noteq> [] then Inr event else map_sum id (tr_event_type \<circ> st_trigger) (py_index steps k)) of
        Inl err \<Rightarrow> Inl err
      | Inr e \<Rightarrow> map_sum id (\<lambda>xs. (k, e) # xs) (trigger_events steps event ks))"

definition trigger_targets ::
    "string \<Rightarrow> int option \<Rightarrow> string \<Rightarrow> wruntime \<Rightarrow> py_error + registered \<times> (int \<times> string) list" where
  "trigger_targets key index event st =
     (case get_workflow key st of
        None \<Rightarrow> Inl (Trm WORKFLOW_VALIDATION_FAILED)
      | Some g \<Rightarrow>
          (let steps = v2_steps (rg_workflow g);
               ks = (case index of
                       Some k \<Rightarrow> [k]
                     | None \<Rightarrow> map (int \<circ> fst) (filter (\<lambda>(k, s). st_execute s \<noteq> []) (enumerate 0 steps)))
           in map_sum id (Pair g) (trigger_events steps event ks)))"

definition trigger_spawn ::
    "string \<Rightarrow> int option \<Rightarrow> string \<Rightarrow> (string, pyval) dict \<Rightarrow> wruntime \<Rightarrow> py_error + wruntime" where
  "trigger_spawn key index event payload st =
     map_sum id (\<lambda>(g, targets). fold (\<lambda>(k, e). spawn_run g k payload ''manual'' e) targets st)
       (trigger_targets key index event st)"

section \<open>Life cycle and the event loop\<close>

definition start_runtime :: "wruntime \<Rightarrow> wruntime" where
  "start_runtime st = (if rn_running st then st else st\<lparr>rn_running := True\<rparr>)"

text \<open>
  \<open>stop\<close>: runs that were spawned and not started yet never start; those in flight are cancelled.
  \<open>out\<close> says how the engine answers: it raises \<open>CancelledError\<close>, or it has caught it at the node
  that was running and returns.  Runs that a caller awaits are no tasks of the runtime and go on.
\<close>

fun is_spawned :: "job \<Rightarrow> bool" where
  "is_spawned (Spawned _ _ _ _ _) = True"
| "is_spawned (Callback _) = False"

definition stop_runtime :: "runtime_env \<Rightarrow> (flight \<Rightarrow> engine_outcome) \<Rightarrow> bool \<Rightarrow> wruntime \<Rightarrow> wruntime" where
  "stop_runtime env out cancel st =
     (if \<not> rn_running st then st
      else
        (let st1 = st\<lparr>rn_running := False\<rparr>
         in if cancel
            then fold (\<lambda>f. end_flight env f (out f)) (filter fl_spawned (rn_flying st1))
                   (st1\<lparr>rn_ready := filter (Not \<circ> is_spawned) (rn_ready st1)\<rparr>)
            else st1))"

text \<open>One turn of the event loop: the first ready task runs.\<close>

definition loop_turn :: "runtime_env \<Rightarrow> wruntime \<Rightarrow> wruntime" where
  "loop_turn env st =
     (case rn_ready st of
        [] \<Rightarrow> st
      | Callback e # js \<Rightarrow> on_event env e (st\<lparr>rn_ready := js\<rparr>)
      | Spawned g k payload by event # js \<Rightarrow>
          (case start_step env True g k payload by event (st\<lparr>rn_ready := js\<rparr>) of
             Inl _ \<Rightarrow> st\<lparr>rn_ready := js\<rparr>
           | Inr st' \<Rightarrow> st'))"

section \<open>Queries\<close>

definition in_flight :: "wruntime \<Rightarrow> nat" where
  "in_flight st = length (filter fl_spawned (rn_flying st)) + length (filter is_spawned (rn_ready st))"

definition runs_since :: "int \<Rightarrow> wruntime \<Rightarrow> run_record list" where
  "runs_since since st =
     (let delta = int (rn_count st) - since; rs = map snd (rn_runs st)
      in if delta \<le> 0 then [] else drop (length rs - nat delta) rs)"

definition recent_runs :: "string option \<Rightarrow> int \<Rightarrow> wruntime \<Rightarrow> run_record list" where
  "recent_runs wid limit st =
     (let items = filter (\<lambda>r. wid = None \<or> wid = Some (wr_workflow_id r)) (map snd (rn_runs st))
      in if 0 < limit then drop (length items - nat limit) items else items)"

definition iter_persisted_runs :: "wruntime \<Rightarrow> (string, pyval) dict list" where
  "iter_persisted_runs st =
     (case rn_file st of
        None \<Rightarrow> []
      | Some ls \<Rightarrow> concat (map (\<lambda>l. case l of RunLine (PDict d) \<Rightarrow> if py_truthy (pget d ''run_id'') then [d] else []
                                     | _ \<Rightarrow> []) ls))"

definition load_runs :: "int \<Rightarrow> wruntime \<Rightarrow> (string, pyval) dict list" where
  "load_runs limit st =
     (let rs = iter_persisted_runs st in drop (length rs - nat (max 1 limit)) rs)"

definition get_run :: "runtime_env \<Rightarrow> string \<Rightarrow> wruntime \<Rightarrow> (string, pyval) dict option" where
  "get_run env rid st =
     (case find (\<lambda>r. wr_run_id r = rid) (rev (map snd (rn_runs st))) of
        Some r \<Rightarrow> Some (run_to_dict (re_round4 env) 400 r)
      | None \<Rightarrow> find (\<lambda>d. pget d ''run_id'' = PStr rid) (rev (iter_persisted_runs st)))"

section \<open>Handlers of the runtime\<close>

text \<open>\<open>list(value or [])\<close>; \<^const>\<open>None\<close> where it raises \<open>TypeError\<close>.\<close>

definition as_list :: "pyval \<Rightarrow> pyval list option" where
  "as_list v =
     (if \<not> py_truthy v then Some []
      else (case v of
              PList xs \<Rightarrow> Some xs
            | PDict d \<Rightarrow> Some (map (PStr \<circ> fst) d)
            | PStr s \<Rightarrow> Some (map (\<lambda>c. PStr [c]) s)
            | _ \<Rightarrow> None))"

text \<open>
  \<open>_authorize_declared_approval\<close>: \<open>claim\<close> is the method \<open>claim_once\<close> of the gateway's approval store
  when it has one; it answers or raises (\<^const>\<open>None\<close>) and changes the store.
\<close>

definition authorize_declared_approval ::
    "(string \<Rightarrow> 's \<Rightarrow> bool option \<times> 's) option \<Rightarrow> string \<Rightarrow> node_def \<Rightarrow> (string, pyval) dict \<Rightarrow> 's
       \<Rightarrow> pyval list option \<times> 's" where
  "authorize_declared_approval claim wfid node context s =
     (case as_list (pget (nd_config node) ''approval_rules'') of
        None \<Rightarrow> (None, s)
      | Some rules \<Rightarrow>
          (if rules = [] then (Some [], s)
           else if py_str (py_or (pget context ''triggered_by'') (PStr [])) \<noteq> ''manual'' then (Some [], s)
           else (case claim of
                   None \<Rightarrow> (Some [], s)
                 | Some c \<Rightarrow>
                     (case c (py_str (py_or (pget context ''run_id'') (PStr [])) @ '':'' @ wfid @ '':'' @ nd_id node) s of
                        (Some True, s') \<Rightarrow> (Some rules, s')
                      | (_, s') \<Rightarrow> (Some [], s')))))"

text \<open>The request a shell node makes, and what the gateway answers.\<close>

record shell_request =
  sr_command :: string
  sr_timeout :: time
  sr_rules :: "pyval list"

record shell_response =
  sp_status :: string
  sp_exit_code :: int
  sp_output :: string
  sp_risk :: string

definition node_text :: "node_def \<Rightarrow> string" where
  "node_text node = py_strip (py_str (py_or (pget (nd_config node) ''instruction'') (PStr [])))"

definition handle_shell_node ::
    "(shell_request \<Rightarrow> 's \<Rightarrow> shell_response \<times> 's) \<Rightarrow> (string \<Rightarrow> 's \<Rightarrow> bool option \<times> 's) option
       \<Rightarrow> string \<Rightarrow> node_def \<Rightarrow> (string, pyval) dict \<Rightarrow> 's \<Rightarrow> (py_error + pyval) \<times> 's" where
  "handle_shell_node execute claim wfid node context s =
     (let command = node_text node
      in if command = [] then (Inl (Trm WORKFLOW_VALIDATION_FAILED), s)
         else
           (case authorize_declared_approval claim wfid node context s of
              (None, s1) \<Rightarrow> (Inl TypeError, s1)
            | (Some rules, s1) \<Rightarrow>
                (case execute \<lparr>sr_command = command, sr_timeout = nd_timeout_seconds node, sr_rules = rules\<rparr> s1 of
                   (resp, s2) \<Rightarrow>
                     (if sp_status resp = ''denied'' \<or> sp_exit_code resp \<noteq> 0
                      then (Inl (Trm TOOL_EXECUTION_FAILED), s2)
                      else (Inr (PDict [(''success'', PBool True), (''command'', PStr command),
                                        (''status'', PStr (sp_status resp)),
                                        (''exit_code'', PInt (sp_exit_code resp)),
                                        (''output'', PStr (sp_output resp)), (''risk'', PStr (sp_risk resp)),
                                        (''workflow_id'', PStr wfid)]), s2)))))"

text \<open>
  \<open>_handle_codex_node\<close>: \<open>run_process\<close> starts the process and waits for it; \<^const>\<open>None\<close> when it was
  killed after the timeout, otherwise its exit code and output.
\<close>

record codex_launch =
  cx_argv :: "string list"
  cx_env :: "(string, string) dict"
  cx_cwd :: "string option"
  cx_timeout :: time

definition handle_codex_node ::
    "(string \<Rightarrow> string list) \<Rightarrow> (string, string) dict
       \<Rightarrow> (codex_launch \<Rightarrow> 's \<Rightarrow> (int \<times> string) option \<times> 's)
       \<Rightarrow> string \<Rightarrow> node_def \<Rightarrow> (string, pyval) dict \<Rightarrow> 's \<Rightarrow> (py_error + pyval) \<times> 's" where
  "handle_codex_node resolve_argv environ run_process wfid node context s =
     (if py_str (py_or (pget context ''triggered_by'') (PStr [])) \<noteq> ''manual''
      then (Inl (Trm TOOL_EXECUTION_FAILED), s)
      else
        (let prompt = node_text node
         in if prompt = [] then (Inl (Trm WORKFLOW_VALIDATION_FAILED), s)
            else
              (let argv = resolve_argv prompt;
                   cwd = pget (nd_config node) ''cwd'';
                   l = \<lparr>cx_argv = argv,
                        cx_env = AList.update ''TRIMUM_WORKFLOW_NODE'' (nd_id node)
                                   (AList.update ''TRIMUM_WORKFLOW_ID'' wfid environ),
                        cx_cwd = (if py_truthy cwd then Some (py_str cwd) else None),
                        cx_timeout = (if nd_timeout_seconds node = 0 then 30 else nd_timeout_seconds node)\<rparr>
               in case run_process l s of
                    (None, s1) \<Rightarrow> (Inl (Trm TOOL_EXECUTION_FAILED), s1)
                  | (Some (code, out), s1) \<Rightarrow>
                      (if code \<noteq> 0 then (Inl (Trm TOOL_EXECUTION_FAILED), s1)
                       else (Inr (PDict [(''success'', PBool True), (''agent_type'', PStr ''codex''),
                                         (''command'', PStr (hd argv)), (''exit_code'', PInt code),
                                         (''output'', clip_value 4000 (PStr out)),
                                         (''workflow_id'', PStr wfid)]), s1)))))"

end
