(* ===== verification/Workflow_Runtime_Facts.thy ===== *)
theory Workflow_Runtime_Facts
  imports Workflow_Runtime
begin

text \<open>
  Facts about \<open>workflow_runtime.py\<close>: the invariant that ties the ring of runs, the guards and the
  runs in flight together, the frame of every operation, the limit on the number of runs, and two
  schedules in which the guards do not do what they are for.
\<close>

section \<open>Steps\<close>

datatype rt_op =
    OpRegister string string "bool option" workflow_v2
  | OpUnregister string
  | OpStart
  | OpStop runtime_env "flight \<Rightarrow> engine_outcome" bool
  | OpPublish sys_event
  | OpTurn runtime_env
  | OpRunNow runtime_env string "(string, pyval) dict"
  | OpTrigger runtime_env registered int "(string, pyval) dict" string
  | OpTriggerTask string "int option" string "(string, pyval) dict"
  | OpEnd runtime_env nat engine_outcome

text \<open>An operation that raises leaves the state as it is; so does the end of a run that is over.\<close>

definition or_else :: "wruntime \<Rightarrow> py_error + wruntime \<Rightarrow> wruntime" where
  "or_else st r = (case r of Inl _ \<Rightarrow> st | Inr st' \<Rightarrow> st')"

fun rt_step :: "rt_op \<Rightarrow> wruntime \<Rightarrow> wruntime" where
  "rt_step (OpRegister fresh src enabled w) st = snd (register_workflow fresh src enabled w st)"
| "rt_step (OpUnregister wid) st = snd (unregister_workflow wid st)"
| "rt_step OpStart st = start_runtime st"
| "rt_step (OpStop env out cancel) st = stop_runtime env out cancel st"
| "rt_step (OpPublish e) st = deliver e st"
| "rt_step (OpTurn env) st = loop_turn env st"
| "rt_step (OpRunNow env key ctx) st = or_else st (run_now env key ctx st)"
| "rt_step (OpTrigger env g k payload event) st = or_else st (start_step env False g k payload ''manual'' event st)"
| "rt_step (OpTriggerTask key index event payload) st = or_else st (trigger_spawn key index event payload st)"
| "rt_step (OpEnd env n out) st =
     (case find (\<lambda>f. fl_number f = n) (rn_flying st) of None \<Rightarrow> st | Some f \<Rightarrow> end_flight env f out st)"

section \<open>The invariant\<close>

definition rt_inv :: "nat \<Rightarrow> wruntime \<Rightarrow> bool" where
  "rt_inv m st \<longleftrightarrow>
     rn_max_runs st = m \<and> 1 \<le> m \<and> length (rn_runs st) = min (rn_count st) (rn_max_runs st) \<and>
     map fst (rn_runs st) = [rn_count st - length (rn_runs st) ..< rn_count st] \<and>
     distinct (map fl_number (rn_flying st)) \<and>
     (\<forall>f \<in> set (rn_flying st). fl_number f < rn_count st \<and>
        (\<forall>r. (fl_number f, r) \<in> set (rn_runs st) \<longrightarrow> r = fl_record f)) \<and>
     set (rn_active st) \<subseteq> fl_key ` set (rn_flying st)"

text \<open>What the guards and the bus do not touch.\<close>

definition same_runs :: "wruntime \<Rightarrow> wruntime \<Rightarrow> bool" where
  "same_runs a b \<longleftrightarrow> rn_max_runs b = rn_max_runs a \<and> rn_runs b = rn_runs a \<and> rn_count b = rn_count a \<and>
     rn_flying b = rn_flying a \<and> rn_active b = rn_active a"

lemma same_runs_refl [simp]: "same_runs a a" by (simp add: same_runs_def)

lemma same_runs_trans: "same_runs a b \<Longrightarrow> same_runs b c \<Longrightarrow> same_runs a c"
  by (simp add: same_runs_def)

lemma same_runs_fold: "(\<And>x s. same_runs s (f x s)) \<Longrightarrow> same_runs s (fold f xs s)"
  by (induction xs arbitrary: s) (auto intro: same_runs_trans)

lemma rt_inv_same: "same_runs a b \<Longrightarrow> rt_inv m a \<Longrightarrow> rt_inv m b"
  by (simp add: same_runs_def rt_inv_def)

lemma same_runs_bus [simp]:
  "same_runs st (deliver e st)" "same_runs st (emit_bus env ty payload st)"
  "same_runs st (spawn_run g k payload by event st)" "same_runs st (st\<lparr>rn_ready := js\<rparr>)"
  "same_runs st (start_runtime st)"
  by (simp_all add: same_runs_def deliver_def emit_bus_def spawn_run_def start_runtime_def Let_def)

lemma same_runs_limited: "same_runs st (snd (rate_limited now wid st))"
  by (simp add: rate_limited_def same_runs_def Let_def split: option.splits list.splits)

lemma same_runs_on_event: "same_runs st (on_event env e st)"
proof -
  have step: "same_runs s (try_step env e g k s)" for g k s by (simp add: try_step_def)
  have "same_runs s (try_workflow env e g s)" for g s
  proof -
    obtain b s1 where l: "rate_limited (re_mono env) (v2_id (rg_workflow g)) s = (b, s1)" by (metis surj_pair)
    then have "same_runs s s1" using same_runs_limited by (metis snd_conv)
    moreover have "same_runs s1 (fold (try_step env e g) ks s1)" for ks by (rule same_runs_fold [OF step])
    ultimately show ?thesis by (auto simp: try_workflow_def l intro: same_runs_trans)
  qed
  then show ?thesis by (auto simp: on_event_def intro: same_runs_fold)
qed

lemma ring_push:
  assumes "length xs = min n m" "map fst xs = [n - length xs ..< n]" "1 \<le> m"
  shows "length (push_max m (n, r) xs) = min (Suc n) m"
    and "map fst (push_max m (n, r) xs) = [Suc n - length (push_max m (n, r) xs) ..< Suc n]"
proof -
  have l: "length xs \<le> n" "length xs \<le> m" using assms(1) by auto
  show len: "length (push_max m (n, r) xs) = min (Suc n) m"
    using assms by (auto simp: push_max_def Let_def)
  have m: "map fst (xs @ [(n, r)]) = [n - length xs ..< Suc n]" using l assms(2) by simp
  have "map fst (push_max m (n, r) xs) = drop (Suc (length xs) - m) [n - length xs ..< Suc n]"
    by (simp only: push_max_def Let_def drop_map [symmetric] m) simp
  also have "\<dots> = [n - length xs + (Suc (length xs) - m) ..< Suc n]" by simp
  also have "n - length xs + (Suc (length xs) - m) = Suc n - length (push_max m (n, r) xs)"
    using len l assms(1,3) by auto
  finally show "map fst (push_max m (n, r) xs) = [Suc n - length (push_max m (n, r) xs) ..< Suc n]" .
qed

lemma rt_inv_open:
  assumes "rt_inv m st" and "fl_number f = rn_count st"
  shows "rt_inv m (open_flight env f st)"
proof -
  let ?r = "fl_record f"
  let ?st = "st\<lparr>rn_runs := push_max (rn_max_runs st) (rn_count st, ?r) (rn_runs st),
      rn_count := rn_count st + 1,
      rn_times := AList.update (fst (fl_key f))
        (dict_list (rn_times st) (fst (fl_key f)) @ [re_mono env]) (rn_times st),
      rn_active := List.insert (fl_key f) (rn_active st),
      rn_flying := rn_flying st @ [f]\<rparr>"
  have ring: "length (rn_runs st) = min (rn_count st) (rn_max_runs st)"
    "map fst (rn_runs st) = [rn_count st - length (rn_runs st) ..< rn_count st]" "1 \<le> rn_max_runs st"
    using assms by (simp_all add: rt_inv_def)
  have old: "\<And>n r. (n, r) \<in> set (rn_runs st) \<Longrightarrow> n < rn_count st"
    using arg_cong [OF ring(2), of set] by force
  have sub: "x \<in> set (push_max (rn_max_runs st) (rn_count st, ?r) (rn_runs st)) \<Longrightarrow>
      x \<in> set (rn_runs st) \<or> x = (rn_count st, ?r)" for x
    by (auto simp: push_max_def Let_def dest!: in_set_dropD)
  have "rt_inv m ?st"
    using assms ring_push [OF ring, of ?r] old sub
    by (fastforce simp: rt_inv_def)
  then show ?thesis
    by (rule rt_inv_same [rotated]) (simp add: open_flight_def Let_def assms(2))
qed

lemma same_runs_persist [simp]: "same_runs st (persist_run env r st)"
  by (simp add: same_runs_def persist_run_def Let_def split: option.splits)

lemma end_flight_runs:
  fixes env f out st
  defines "st' \<equiv> end_flight env f out st" and "r \<equiv> close_record env (fl_definition f) out (fl_record f)"
  shows "rn_runs st' = map (\<lambda>(n, x). (n, if n = fl_number f then r else x)) (rn_runs st)"
    and "rn_flying st' = filter (\<lambda>x. fl_number x \<noteq> fl_number f) (rn_flying st)"
    and "rn_active st' = removeAll (fl_key f) (rn_active st)"
    and "rn_count st' = rn_count st" "rn_max_runs st' = rn_max_runs st"
  unfolding st'_def r_def
  by (simp_all add: end_flight_def Let_def emit_bus_def deliver_def persist_run_def split: option.splits)

lemma rt_inv_end:
  assumes "rt_inv m st" "f \<in> set (rn_flying st)"
  shows "rt_inv m (end_flight env f out st)"
proof -
  have fst_map: "map fst (map (\<lambda>(n, x). (n, h n x)) xs) = map fst xs" for h :: "nat \<Rightarrow> run_record \<Rightarrow> run_record" and xs
    by (induction xs) auto
  have "set (removeAll (fl_key f) (rn_active st)) \<subseteq>
      fl_key ` set (filter (\<lambda>x. fl_number x \<noteq> fl_number f) (rn_flying st))"
  proof
    fix a assume a: "a \<in> set (removeAll (fl_key f) (rn_active st))"
    then obtain g where g: "g \<in> set (rn_flying st)" "a = fl_key g" using assms(1) by (auto simp: rt_inv_def)
    then have "g \<noteq> f" using a by auto
    then have "fl_number g \<noteq> fl_number f"
      using g(1) assms by (auto simp: rt_inv_def distinct_map dest: inj_onD)
    then show "a \<in> fl_key ` set (filter (\<lambda>x. fl_number x \<noteq> fl_number f) (rn_flying st))" using g by auto
  qed
  moreover have "distinct (map fl_number (filter P (rn_flying st)))" for P
    using assms(1) by (simp add: rt_inv_def distinct_map_filter)
  ultimately show ?thesis
    using assms unfolding rt_inv_def end_flight_runs fst_map length_map by auto
qed

lemma open_flight_flying: "rn_flying (open_flight env f st) = rn_flying st @ [f]"
  by (simp add: open_flight_def Let_def emit_bus_def deliver_def)

lemma rt_inv_begin:
  assumes "rt_inv m st"
  shows "rt_inv m (begin_flight env b g d k payload by event ctx st)"
proof -
  let ?f = "new_flight env b g d k payload by event ctx st"
  have "fl_number ?f = rn_count st" by (simp add: new_flight_def Let_def)
  then have "rt_inv m (open_flight env ?f st)" by (rule rt_inv_open [OF assms])
  moreover have "?f \<in> set (rn_flying (open_flight env ?f st))" by (simp add: open_flight_flying)
  ultimately show ?thesis by (simp add: begin_flight_def Let_def rt_inv_end split: option.split)
qed

lemma map_sum_Inr: "map_sum id h x = Inr y \<longleftrightarrow> (\<exists>d. x = Inr d \<and> y = h d)"
  by (cases x) auto

lemma rt_inv_turn: "rt_inv m st \<Longrightarrow> rt_inv m (loop_turn env st)"
proof -
  assume i: "rt_inv m st"
  then have j: "rt_inv m (st\<lparr>rn_ready := js\<rparr>)" for js by (rule rt_inv_same [OF same_runs_bus(4)])
  show ?thesis
  proof (cases "rn_ready st")
    case (Cons x js)
    then show ?thesis
      using i j rt_inv_same [OF same_runs_on_event j]
      by (cases x) (auto simp: loop_turn_def start_step_def rt_inv_begin map_sum_Inr split: sum.splits)
  qed (use i in \<open>simp add: loop_turn_def\<close>)
qed

lemma rt_inv_stop: "rt_inv m st \<Longrightarrow> rt_inv m (stop_runtime env out cancel st)"
proof -
  have "rt_inv m (fold (\<lambda>f. end_flight env f (out f)) fs s)"
    if "rt_inv m s" "distinct (map fl_number fs)" "set fs \<subseteq> set (rn_flying s)" for fs s
    using that
  proof (induction fs arbitrary: s)
    case (Cons f fs)
    then have "rt_inv m (end_flight env f (out f) s)" by (simp add: rt_inv_end)
    moreover have "set fs \<subseteq> set (rn_flying (end_flight env f (out f) s))"
      unfolding end_flight_runs
    proof
      fix g assume g: "g \<in> set fs"
      then have "fl_number g \<noteq> fl_number f" using Cons.prems(2) by (metis distinct.simps(2) image_eqI list.set_map list.simps(9))
      then show "g \<in> set (filter (\<lambda>x. fl_number x \<noteq> fl_number f) (rn_flying s))" using g Cons.prems(3) by auto
    qed
    ultimately show ?case using Cons by simp
  qed simp
  moreover assume i: "rt_inv m st"
  moreover have "rt_inv m (st\<lparr>rn_running := False\<rparr>)" "rt_inv m (st\<lparr>rn_running := False, rn_ready := js\<rparr>)" for js
    using i by (simp_all add: rt_inv_def)
  moreover have "distinct (map fl_number (filter fl_spawned (rn_flying st)))"
    using i by (simp add: rt_inv_def distinct_map_filter)
  ultimately show ?thesis by (simp add: stop_runtime_def Let_def)
qed

lemma rt_inv_step: "rt_inv m st \<Longrightarrow> rt_inv m (rt_step op st)"
proof -
  assume i: "rt_inv m st"
  have sp: "same_runs s (fold (\<lambda>(k, e). spawn_run g k payload by e) xs s)" for g payload "by" xs s
    by (rule same_runs_fold) auto
  show ?thesis
  proof (cases op)
    case (OpRegister fresh src enabled w)
    then show ?thesis using i by (simp add: rt_inv_def register_workflow_def Let_def)
  next
    case (OpUnregister wid)
    then show ?thesis using i by (simp add: rt_inv_def unregister_workflow_def)
  next
    case (OpRunNow env key ctx)
    then show ?thesis using i by (simp add: or_else_def run_now_def rt_inv_begin split: option.splits)
  next
    case (OpTrigger env g k payload event)
    then show ?thesis
      using i by (cases "step_definition (rg_workflow g) k") (simp_all add: or_else_def start_step_def rt_inv_begin)
  next
    case (OpTriggerTask key index event payload)
    then show ?thesis
      using i rt_inv_same [OF sp i]
      by (cases "trigger_targets key index event st") (auto simp: or_else_def trigger_spawn_def)
  next
    case (OpEnd env n out)
    then show ?thesis
      using i by (auto simp: find_Some_iff rt_inv_end split: option.splits)
  qed (use i in \<open>simp_all add: rt_inv_turn rt_inv_stop rt_inv_same [OF same_runs_bus(1)] rt_inv_same [OF same_runs_bus(5)]\<close>)
qed

lemma rt_inv_steps: "rt_inv m st \<Longrightarrow> rt_inv m (fold rt_step ops st)"
  by (induction ops arbitrary: st) (simp_all add: rt_inv_step)

lemma rt_inv_new: "rt_inv (nat (max 1 max_runs)) (new_runtime_state max_runs allow window max_per_window max_bytes)"
  by (simp add: rt_inv_def new_runtime_state_def)

text \<open>
  C32: Whatever is registered, published, triggered, finished or stopped and in whatever order: the
  ring holds exactly the most recent runs, at most \<open>max_runs\<close> of them; a run in flight that is still
  in the ring is shown there with its current record; and the guard against concurrent runs is held
  only by runs in flight, so that an idle runtime blocks nothing.
\<close>
theorem runtime_bookkeeping:
  fixes ops max_runs allow window max_per_window max_bytes
  defines "st \<equiv> fold rt_step ops (new_runtime_state max_runs allow window max_per_window max_bytes)"
  shows "length (rn_runs st) = min (rn_count st) (nat (max 1 max_runs)) \<and>
    map fst (rn_runs st) = [rn_count st - length (rn_runs st) ..< rn_count st] \<and>
    (\<forall>f \<in> set (rn_flying st). \<forall>r. (fl_number f, r) \<in> set (rn_runs st) \<longrightarrow> r = fl_record f) \<and>
    set (rn_active st) \<subseteq> fl_key ` set (rn_flying st) \<and> (rn_flying st = [] \<longrightarrow> rn_active st = [])"
proof -
  have "rt_inv (nat (max 1 max_runs)) st" unfolding st_def by (rule rt_inv_steps [OF rt_inv_new])
  then show ?thesis by (auto simp: rt_inv_def)
qed

section \<open>Runs per window\<close>

definition recent_starts :: "time \<Rightarrow> string \<Rightarrow> wruntime \<Rightarrow> nat" where
  "recent_starts now wid st =
     length (dropWhile (\<lambda>t. t < now - rn_window st) (dict_list (rn_times st) wid))"

lemma limited_iff:
  "fst (rate_limited now wid st) \<longleftrightarrow> 0 < rn_window st \<and> dict_list (rn_times st) wid \<noteq> [] \<and>
     rn_max_per_window st \<le> recent_starts now wid st"
  by (auto simp: rate_limited_def recent_starts_def dict_list_def Let_def split: option.splits list.splits)

lemma dropWhile_twice:
  assumes "\<And>x. P x \<Longrightarrow> Q x"
  shows "dropWhile Q (dropWhile P xs) = dropWhile Q xs"
  using assms by (induction xs) auto

lemma dropWhile_length_mono:
  assumes "\<And>x. P x \<Longrightarrow> Q x"
  shows "length (dropWhile Q xs) \<le> length (dropWhile P xs)"
proof -
  have "dropWhile Q xs = dropWhile Q (dropWhile P xs)" using dropWhile_twice assms by metis
  then show ?thesis by (metis length_dropWhile_le)
qed

text \<open>A workflow that is over the limit at some time was so at every earlier time.\<close>

definition hot :: "time \<Rightarrow> string \<Rightarrow> wruntime \<Rightarrow> bool" where
  "hot t wid st \<longleftrightarrow> 0 < rn_window st \<and> 0 < rn_max_per_window st \<and> rn_max_per_window st \<le> recent_starts t wid st"

lemma hot_limited: "hot t wid st \<Longrightarrow> now \<le> t \<Longrightarrow> fst (rate_limited now wid st)"
  using dropWhile_length_mono [of "\<lambda>x. x < now - rn_window st" "\<lambda>x. x < t - rn_window st" "dict_list (rn_times st) wid"]
  by (auto simp: hot_def limited_iff recent_starts_def)

lemma limited_frame:
  "rn_window (snd (rate_limited now wid st)) = rn_window st"
  "rn_max_per_window (snd (rate_limited now wid st)) = rn_max_per_window st"
  "rn_running (snd (rate_limited now wid st)) = rn_running st"
  "rn_ready (snd (rate_limited now wid st)) = rn_ready st"
  "rn_workflows (snd (rate_limited now wid st)) = rn_workflows st"
  "rn_emitted (snd (rate_limited now wid st)) = rn_emitted st"
  "rn_allow_concurrent (snd (rate_limited now wid st)) = rn_allow_concurrent st"
  by (simp_all add: rate_limited_def Let_def split: option.splits list.splits)

lemma limited_times:
  "dict_list (rn_times (snd (rate_limited now wid st))) x =
     (if x = wid \<and> 0 < rn_window st then dropWhile (\<lambda>t. t < now - rn_window st) (dict_list (rn_times st) x)
      else dict_list (rn_times st) x)"
  by (auto simp: rate_limited_def dict_list_def Let_def map_of_update split: option.splits list.splits)

lemma hot_limited_frame: "now \<le> t \<Longrightarrow> hot t x (snd (rate_limited now wid st)) = hot t x st"
  using dropWhile_twice [of "\<lambda>s. s < now - rn_window st" "\<lambda>s. s < t - rn_window st" "dict_list (rn_times st) x"]
  by (cases "x = wid") (simp_all add: hot_def recent_starts_def limited_frame limited_times)

section \<open>A storm of throttled events\<close>

definition is_callback :: "job \<Rightarrow> bool" where
  "is_callback j \<longleftrightarrow> \<not> is_spawned j"

definition callbacks :: "wruntime \<Rightarrow> nat" where
  "callbacks st = length (filter is_callback (rn_ready st))"

definition hot_workflow :: "time \<Rightarrow> wruntime \<Rightarrow> registered \<Rightarrow> bool" where
  "hot_workflow t st g \<longleftrightarrow> rg_enabled g \<and> hot t (v2_id (rg_workflow g)) st"

definition hot_count :: "time \<Rightarrow> wruntime \<Rightarrow> nat" where
  "hot_count t st = length (filter (hot_workflow t st) (map snd (rn_workflows st)))"

text \<open>What stays as it is while the loop turns: hot workflows stay hot.\<close>

definition stays :: "time \<Rightarrow> wruntime \<Rightarrow> wruntime \<Rightarrow> bool" where
  "stays t a b \<longleftrightarrow> rn_running b = rn_running a \<and> rn_workflows b = rn_workflows a \<and>
     (\<forall>x. hot t x a \<longrightarrow> hot t x b)"

lemma stays_refl [simp]: "stays t a a" by (simp add: stays_def)

lemma stays_trans: "stays t a b \<Longrightarrow> stays t b c \<Longrightarrow> stays t a c" by (simp add: stays_def)

lemma hot_eqI:
  "rn_window b = rn_window a \<Longrightarrow> rn_max_per_window b = rn_max_per_window a \<Longrightarrow> rn_times b = rn_times a \<Longrightarrow>
     hot t x b = hot t x a"
  by (simp add: hot_def recent_starts_def)

lemma stays_bus [simp]:
  "stays t st (emit_bus env ty payload st)" "stays t st (spawn_run g k payload by event st)"
  "stays t st (st\<lparr>rn_ready := js\<rparr>)"
  by (simp_all add: stays_def emit_bus_def deliver_def spawn_run_def Let_def hot_def recent_starts_def)

lemma stays_limited: "now \<le> t \<Longrightarrow> stays t st (snd (rate_limited now wid st))"
  by (simp add: stays_def limited_frame hot_limited_frame)

lemma hot_workflow_stays: "stays t a b \<Longrightarrow> hot_workflow t a g \<Longrightarrow> hot_workflow t b g"
  by (simp add: stays_def hot_workflow_def)

lemma hot_count_stays: "stays t a b \<Longrightarrow> hot_count t a \<le> hot_count t b"
proof -
  assume st: "stays t a b"
  have "length (filter (hot_workflow t a) gs) \<le> length (filter (hot_workflow t b) gs)" for gs
    using hot_workflow_stays [OF st] by (induction gs) auto
  from this [of "map snd (rn_workflows a)"] show ?thesis
    using st by (simp add: hot_count_def stays_def del: filter_map)
qed

text \<open>Every step of a callback appends tasks.\<close>

definition appends :: "time \<Rightarrow> nat \<Rightarrow> bool \<Rightarrow> wruntime \<Rightarrow> wruntime \<Rightarrow> bool" where
  "appends t n exact a b \<longleftrightarrow> stays t a b \<and>
     (\<exists>js. rn_ready b = rn_ready a @ js \<and> n \<le> length (filter is_callback js) \<and>
        (exact \<longrightarrow> list_all is_callback js \<and> length js = n))"

lemma appends_trans: "appends t m e a b \<Longrightarrow> appends t n e b c \<Longrightarrow> appends t (m + n) e a c"
  unfolding appends_def by (fastforce intro: stays_trans)

lemma appends_weaken: "appends t m True a b \<Longrightarrow> appends t m e a b"
  by (auto simp: appends_def)

lemma appends_none [simp]: "appends t 0 e a a" by (simp add: appends_def)

lemma appends_emit: "rn_running st \<Longrightarrow> appends t (Suc 0) e st (emit_bus env ty payload st)"
proof -
  assume "rn_running st"
  then have "rn_ready (emit_bus env ty payload st) = rn_ready st @ [Callback (runtime_event (re_wall env) ty payload)]"
    by (simp add: emit_bus_def deliver_def Let_def)
  then show ?thesis unfolding appends_def by (simp add: is_callback_def)
qed

lemma appends_steps: "rn_running st \<Longrightarrow> appends t 0 False st (fold (try_step env e g) ks st)"
proof (induction ks arbitrary: st)
  case (Cons k ks)
  have "appends t 0 False st (try_step env e g k st)"
  proof (cases "\<not> rn_allow_concurrent st \<and> is_active (v2_id (rg_workflow g)) k st")
    case True
    then show ?thesis
      using appends_emit [OF Cons.prems, of t False] unfolding try_step_def appends_def by fastforce
  next
    case False
    then show ?thesis by (auto simp: try_step_def appends_def) (simp_all add: spawn_run_def)
  qed
  moreover from this have "rn_running (try_step env e g k st)"
    using Cons.prems by (simp add: appends_def stays_def)
  ultimately show ?case using appends_trans [of t 0 False _ _ 0] Cons.IH by simp
qed simp

lemma appends_workflow:
  assumes "rn_running st" "re_mono env \<le> t" and e: "exact \<longrightarrow> rg_enabled g \<longrightarrow> hot_workflow t st g"
  shows "appends t (if hot_workflow t st g then 1 else 0) exact st (try_workflow env e g st)"
proof (cases "rg_enabled g")
  case False
  then show ?thesis by (simp add: try_workflow_def hot_workflow_def)
next
  case True
  let ?id = "v2_id (rg_workflow g)"
  obtain b s1 where l: "rate_limited (re_mono env) ?id st = (b, s1)" by (metis surj_pair)
  have f: "rn_running s1" "rn_ready s1 = rn_ready st" "stays t st s1"
    using limited_frame(3,4) [of "re_mono env" ?id st] stays_limited [OF assms(2), of st ?id] assms(1)
    by (simp_all add: l)
  have start: "appends t n exact s1 s2 \<Longrightarrow> appends t n exact st s2" for n s2
    using f by (auto simp: appends_def intro: stays_trans)
  show ?thesis
  proof (cases b)
    case b: True
    have "appends t 1 exact s1 (try_workflow env e g st)"
      using appends_emit [OF f(1)] b True by (simp add: try_workflow_def l)
    then have "appends t 1 exact st (try_workflow env e g st)" by (rule start)
    then show ?thesis using e True by (auto simp: appends_def)
  next
    case False
    then have "\<not> hot_workflow t st g"
      using hot_limited [OF _ assms(2), of ?id st] by (auto simp: hot_workflow_def l)
    moreover from this have "\<not> exact" using e True by blast
    moreover have "appends t 0 False s1 (try_workflow env e g st)"
      using appends_steps [OF f(1)] False True by (simp add: try_workflow_def l)
    ultimately show ?thesis using start by simp
  qed
qed

lemma appends_event:
  assumes "rn_running st" "re_mono env \<le> t"
    and "exact \<longrightarrow> (\<forall>g \<in> snd ` set (rn_workflows st). rg_enabled g \<longrightarrow> hot_workflow t st g)"
  shows "\<exists>n \<ge> hot_count t st. (exact \<longrightarrow> n = hot_count t st) \<and> appends t n exact st (on_event env e st)"
proof -
  have "\<exists>n \<ge> length (filter (hot_workflow t s) gs). (exact \<longrightarrow> n = length (filter (hot_workflow t s) gs)) \<and>
      appends t n exact s (fold (try_workflow env e) gs s)"
    if "rn_running s" "exact \<longrightarrow> (\<forall>g \<in> set gs. rg_enabled g \<longrightarrow> hot_workflow t s g)" for gs s
    using that
  proof (induction gs arbitrary: s)
    case (Cons g gs)
    let ?s = "try_workflow env e g s"
    have a: "appends t (if hot_workflow t s g then 1 else 0) exact s ?s"
      using appends_workflow [OF Cons.prems(1) assms(2)] Cons.prems(2) by simp
    then have k: "stays t s ?s" by (simp add: appends_def)
    then have r: "rn_running ?s" using Cons.prems(1) by (simp add: stays_def)
    have hot: "hot_workflow t s x \<Longrightarrow> hot_workflow t ?s x" for x by (rule hot_workflow_stays [OF k])
    have le: "length (filter (hot_workflow t s) xs) \<le> length (filter (hot_workflow t ?s) xs)" for xs
      using hot by (induction xs) auto
    have eq: "length (filter (hot_workflow t s) gs) = length (filter (hot_workflow t ?s) gs)" if exact
    proof -
      have "hot_workflow t s x = hot_workflow t ?s x" if "x \<in> set gs" for x
        using that \<open>exact\<close> Cons.prems(2) hot by (auto simp: hot_workflow_def)
      then show ?thesis by (metis (mono_tags, lifting) filter_cong)
    qed
    obtain n where n: "length (filter (hot_workflow t ?s) gs) \<le> n"
      "exact \<longrightarrow> n = length (filter (hot_workflow t ?s) gs)"
      "appends t n exact ?s (fold (try_workflow env e) gs ?s)"
      using Cons.IH [OF r] Cons.prems(2) hot by auto
    have "appends t ((if hot_workflow t s g then 1 else 0) + n) exact s (fold (try_workflow env e) (g # gs) s)"
      using appends_trans [OF a n(3)] by simp
    then show ?case using n(1,2) le [of gs] eq
      by (intro exI [of _ "(if hot_workflow t s g then 1 else 0) + n"]) auto
  qed (simp, blast intro: appends_none)
  from this [of st "map snd (rn_workflows st)"] assms(1,3) show ?thesis
    by (simp add: on_event_def hot_count_def)
qed

lemma hot_more:
  "hot t x a \<Longrightarrow> rn_window b = rn_window a \<Longrightarrow> rn_max_per_window b = rn_max_per_window a \<Longrightarrow>
     recent_starts t x a \<le> recent_starts t x b \<Longrightarrow> hot t x b"
  by (simp add: hot_def)

lemma stays_open: "stays t st (open_flight env f st)"
proof -
  let ?wid = "fst (fl_key f)"
  let ?st = "\<lambda>fs. st\<lparr>rn_runs := push_max (rn_max_runs st) (fl_number f, fl_record f) (rn_runs st),
      rn_count := rn_count st + 1,
      rn_times := AList.update ?wid (dict_list (rn_times st) ?wid @ [re_mono env]) (rn_times st),
      rn_active := List.insert (fl_key f) (rn_active st), rn_flying := fs\<rparr>"
  have more_stamps: "length (dropWhile P xs) \<le> length (dropWhile P (xs @ [x]))" for P and xs :: "time list" and x
    by (induction xs) auto
  have "dict_list (AList.update a v d) x = (if x = a then v else dict_list d x)" for a x v and d :: "(string, time list) dict"
    by (simp add: dict_list_def map_of_update)
  then have "recent_starts t x st \<le> recent_starts t x (?st fs)" for x fs
    using more_stamps by (simp add: recent_starts_def)
  then have "hot t x st \<Longrightarrow> hot t x (?st fs)" for x fs
    by (rule hot_more [rotated 3]) simp_all
  then have "stays t st (?st fs)" for fs by (simp add: stays_def)
  then show ?thesis unfolding open_flight_def Let_def by (rule stays_trans) (rule stays_bus)
qed

lemma end_flight_frame:
  "rn_window (end_flight env f out st) = rn_window st"
  "rn_max_per_window (end_flight env f out st) = rn_max_per_window st"
  "rn_times (end_flight env f out st) = rn_times st"
  "rn_running (end_flight env f out st) = rn_running st"
  "rn_workflows (end_flight env f out st) = rn_workflows st"
  "\<exists>js. rn_ready (end_flight env f out st) = rn_ready st @ js"
  by (simp_all add: end_flight_def Let_def emit_bus_def deliver_def persist_run_def split: option.splits)

lemma stays_end: "stays t st (end_flight env f out st)"
  using hot_eqI [of "end_flight env f out st" st t] by (simp add: stays_def end_flight_frame)

lemma begin_flight_ready:
  "\<exists>js. rn_ready (begin_flight env b g d k payload by event ctx st) = rn_ready st @ js"
proof -
  have "\<exists>js. rn_ready (open_flight env f st) = rn_ready st @ js" for f
    by (simp add: open_flight_def Let_def emit_bus_def deliver_def)
  then show ?thesis using end_flight_frame(6)
    by (auto simp: begin_flight_def Let_def split: option.split) (metis append.assoc)
qed

lemma stays_begin: "stays t st (begin_flight env b g d k payload by event ctx st)"
  using stays_trans [OF stays_open stays_end]
  by (simp add: begin_flight_def Let_def stays_open split: option.split)

lemma turn_storm:
  assumes "rn_running st" "re_mono env \<le> t" "1 \<le> hot_count t st"
  shows "stays t st (loop_turn env st)" and "callbacks st \<le> callbacks (loop_turn env st)"
proof -
  have "stays t st (loop_turn env st) \<and> callbacks st \<le> callbacks (loop_turn env st)"
  proof (cases "rn_ready st")
    case Nil
    then show ?thesis by (simp add: loop_turn_def)
  next
    case (Cons j js)
    let ?s = "st\<lparr>rn_ready := js\<rparr>"
    have s: "rn_running ?s" "hot_count t ?s = hot_count t st"
      using assms(1) hot_eqI [of ?s st t] by (simp_all add: hot_count_def hot_workflow_def [abs_def])
    show ?thesis
    proof (cases j)
      case (Callback e)
      obtain n where n: "hot_count t st \<le> n" "appends t n False ?s (on_event env e ?s)"
        using appends_event [OF s(1) assms(2), of False e] s(2) by auto
      have "stays t st (on_event env e ?s)"
        using n(2) stays_trans [OF stays_bus(3) [of t st js]] unfolding appends_def by blast
      moreover have "callbacks st \<le> callbacks (on_event env e ?s)"
        using n assms(3) by (auto simp: callbacks_def appends_def Cons Callback is_callback_def)
      ultimately show ?thesis by (simp add: loop_turn_def Cons Callback)
    next
      case (Spawned g k payload "by" event)
      have r: "callbacks st = callbacks ?s" by (simp add: callbacks_def Cons Spawned is_callback_def)
      show ?thesis
      proof (cases "step_definition (rg_workflow g) k")
        case (Inl err)
        then show ?thesis using r by (simp add: loop_turn_def Cons Spawned start_step_def)
      next
        case (Inr d)
        let ?b = "begin_flight env True g d k payload by event [] ?s"
        have "callbacks ?s \<le> callbacks ?b"
          using begin_flight_ready [of env True g d k payload "by" event "[]" ?s] by (auto simp: callbacks_def)
        moreover have "stays t st ?b" by (rule stays_trans [OF stays_bus(3) stays_begin])
        ultimately show ?thesis using r Inr by (simp add: loop_turn_def Cons Spawned start_step_def)
      qed
    qed
  qed
  then show "stays t st (loop_turn env st)" "callbacks st \<le> callbacks (loop_turn env st)" by simp_all
qed

lemma turn_storm_exact:
  assumes "rn_running st" "re_mono env \<le> t" "list_all is_callback (rn_ready st)" "rn_ready st \<noteq> []"
    and "\<forall>g \<in> snd ` set (rn_workflows st). rg_enabled g \<longrightarrow> hot_workflow t st g"
  shows "list_all is_callback (rn_ready (loop_turn env st))"
    and "length (rn_ready (loop_turn env st)) + 1 = length (rn_ready st) + hot_count t st"
proof -
  obtain e js where r: "rn_ready st = Callback e # js"
    using assms(3,4) by (cases "rn_ready st"; cases "hd (rn_ready st)") (auto simp: is_callback_def)
  let ?s = "st\<lparr>rn_ready := js\<rparr>"
  have s: "rn_running ?s" "hot_workflow t ?s = hot_workflow t st"
    using assms(1) hot_eqI [of ?s st t] by (simp_all add: hot_workflow_def [abs_def])
  then have "appends t (hot_count t st) True ?s (on_event env e ?s)"
    using appends_event [OF s(1) assms(2), of True e] assms(5) by (auto simp: hot_count_def)
  then show "list_all is_callback (rn_ready (loop_turn env st))"
    and "length (rn_ready (loop_turn env st)) + 1 = length (rn_ready st) + hot_count t st"
    using assms(3) by (auto simp: appends_def loop_turn_def r)
qed

text \<open>
  C29: The circuit breaker feeds itself.  The event \<open>workflow.throttled\<close> is delivered to the very
  callback that emits it, and the limit is checked before the trigger of the workflow is looked at.
  So as long as the window of one throttled workflow has not passed (time \<open>t\<close>), a single event
  keeps the event loop busy for ever; and when all enabled workflows are throttled and there are
  \<open>n\<close> of them, every turn replaces one waiting event by \<open>n\<close> new ones.
\<close>
theorem throttle_storm:
  assumes "rn_running st" "\<forall>env \<in> set envs. re_mono env \<le> t" "1 \<le> hot_count t st" "1 \<le> callbacks st"
  shows "1 \<le> callbacks (fold loop_turn envs st) \<and>
    (list_all is_callback (rn_ready st) \<and>
     (\<forall>g \<in> snd ` set (rn_workflows st). rg_enabled g \<longrightarrow> hot_workflow t st g) \<longrightarrow>
       length (rn_ready st) + length envs * (hot_count t st - 1) \<le> length (rn_ready (fold loop_turn envs st)))"
  using assms
proof (induction envs arbitrary: st)
  case Nil
  then show ?case by simp
next
  case (Cons env envs)
  let ?s = "loop_turn env st"
  have now: "re_mono env \<le> t" using Cons.prems(2) by simp
  note turn = turn_storm [OF Cons.prems(1) now Cons.prems(3)]
  have run: "rn_running ?s" "rn_workflows ?s = rn_workflows st" using turn(1) Cons.prems(1) by (simp_all add: stays_def)
  have hot: "hot_count t st \<le> hot_count t ?s" using turn(1) by (rule hot_count_stays)
  have IH: "1 \<le> callbacks (fold loop_turn envs ?s) \<and>
    (list_all is_callback (rn_ready ?s) \<and>
     (\<forall>g \<in> snd ` set (rn_workflows ?s). rg_enabled g \<longrightarrow> hot_workflow t ?s g) \<longrightarrow>
       length (rn_ready ?s) + length envs * (hot_count t ?s - 1) \<le> length (rn_ready (fold loop_turn envs ?s)))"
    using Cons.IH [OF run(1)] Cons.prems turn(2) hot by simp
  have "length (rn_ready st) + length (env # envs) * (hot_count t st - 1) \<le> length (rn_ready (fold loop_turn envs ?s))"
    if all: "list_all is_callback (rn_ready st)" and h: "\<forall>g \<in> snd ` set (rn_workflows st). rg_enabled g \<longrightarrow> hot_workflow t st g"
  proof -
    have ne: "rn_ready st \<noteq> []" using Cons.prems(4) by (auto simp: callbacks_def)
    note ex = turn_storm_exact [OF Cons.prems(1) now all ne h]
    have "\<forall>g \<in> snd ` set (rn_workflows ?s). rg_enabled g \<longrightarrow> hot_workflow t ?s g"
      using h run(2) hot_workflow_stays [OF turn(1)] by simp
    then have "length (rn_ready ?s) + length envs * (hot_count t ?s - 1) \<le> length (rn_ready (fold loop_turn envs ?s))"
      using IH ex(1) by blast
    moreover have "length envs * (hot_count t st - 1) \<le> length envs * (hot_count t ?s - 1)"
      using hot by (intro mult_le_mono2 diff_le_mono)
    moreover have "length (env # envs) * (hot_count t st - 1) = (hot_count t st - 1) + length envs * (hot_count t st - 1)"
      by simp
    ultimately show ?thesis using ex(2) Cons.prems(3) by linarith
  qed
  then show ?case using IH by simp
qed

end
