(* ===== verification/Workflow_Runtime_Props.thy ===== *)
theory Workflow_Runtime_Props
  imports Workflow_Runtime_Facts
begin

text \<open>
  Properties of the workflow runtime that concern whole runs: a burst of events that gets past both
  guards, what the end of a run leaves behind, the single use of declared approvals and the handlers
  of shell and codex nodes.
\<close>

section \<open>A burst of events\<close>

lemma event_spawns:
  assumes "rn_running st" "rn_workflows st = [(wid, g)]" "v2_id (rg_workflow g) = wid" "rg_enabled g"
    "dict_list (rn_times st) wid = []" "(wid, k) \<notin> set (rn_active st)"
    "matching_steps env (rg_workflow g) e = [k]"
  shows "on_event env e st = spawn_run g k (ev_payload e) ''event'' (ev_type e) st"
proof -
  have "rate_limited (re_mono env) wid st = (False, st)"
    using assms(5) by (simp add: rate_limited_def dict_list_def split: option.splits)
  then show ?thesis
    using assms by (simp add: on_event_def try_workflow_def try_step_def is_active_def)
qed

lemma burst_spawns:
  assumes "rn_running st" "rn_workflows st = [(wid, g)]" "v2_id (rg_workflow g) = wid" "rg_enabled g"
    "dict_list (rn_times st) wid = []" "(wid, k) \<notin> set (rn_active st)"
    "\<forall>env \<in> set envs. matching_steps env (rg_workflow g) e = [k]"
    "rn_ready st = replicate (length envs) (Callback e) @ js"
  shows "fold loop_turn envs st =
    st\<lparr>rn_ready := js @ replicate (length envs) (Spawned g k (ev_payload e) ''event'' (ev_type e))\<rparr>"
  using assms
proof (induction envs arbitrary: st js)
  case (Cons env envs)
  let ?S = "Spawned g k (ev_payload e) ''event'' (ev_type e)"
  let ?r = "replicate (length envs) (Callback e) @ js"
  let ?s = "st\<lparr>rn_ready := ?r @ [?S]\<rparr>"
  have "on_event env e (st\<lparr>rn_ready := ?r\<rparr>) = ?s"
    using event_spawns [of "st\<lparr>rn_ready := ?r\<rparr>" wid g k env e] Cons.prems by (simp add: spawn_run_def)
  then have "loop_turn env st = ?s" using Cons.prems(8) by (simp add: loop_turn_def)
  moreover have "fold loop_turn envs ?s = ?s\<lparr>rn_ready := (js @ [?S]) @ replicate (length envs) ?S\<rparr>"
    by (rule Cons.IH) (use Cons.prems in simp_all)
  ultimately show ?case by (simp add: replicate_app_Cons_same)
qed simp

lemma begin_flight_suspended:
  assumes "\<And>ctx. re_inline env d ctx = None"
  shows "rn_flying (begin_flight env b g d k payload by event ctx st) =
    rn_flying st @ [new_flight env b g d k payload by event ctx st]"
  by (simp add: begin_flight_def Let_def assms open_flight_flying)

text \<open>A run that never suspends is over in the turn that starts it, and is never in flight.\<close>

lemma begin_flight_inline:
  assumes "re_inline env d (fl_context (new_flight env b g d k payload by event ctx st)) = Some out"
    and "rt_inv m st"
  shows "rn_flying (begin_flight env b g d k payload by event ctx st) = rn_flying st"
proof -
  have "fl_number f < rn_count st" if "f \<in> set (rn_flying st)" for f
    using assms(2) that by (simp add: rt_inv_def)
  then have "filter (\<lambda>x. fl_number x \<noteq> rn_count st) (rn_flying st) = rn_flying st"
    by (fastforce simp: filter_id_conv)
  then show ?thesis
    using assms(1) by (simp add: begin_flight_def Let_def end_flight_runs open_flight_flying)
      (simp add: new_flight_def Let_def)
qed

lemma burst_starts:
  assumes "step_definition (rg_workflow g) k = Inr d"
    and "rn_ready st = replicate (length envs) (Spawned g k payload by event) @ js"
    and "\<forall>env \<in> set envs. \<forall>ctx. re_inline env d ctx = None"
  shows "\<exists>fs. rn_flying (fold loop_turn envs st) = rn_flying st @ fs \<and> length fs = length envs \<and>
    (\<forall>f \<in> set fs. fl_key f = (v2_id (rg_workflow g), k))"
  using assms(2,3)
proof (induction envs arbitrary: st js)
  case (Cons env envs)
  let ?s = "st\<lparr>rn_ready := replicate (length envs) (Spawned g k payload by event) @ js\<rparr>"
  let ?b = "begin_flight env True g d k payload by event [] ?s"
  have t: "loop_turn env st = ?b"
    using Cons.prems(1) assms(1) by (simp add: loop_turn_def start_step_def)
  obtain xs where "rn_ready ?b = rn_ready ?s @ xs" using begin_flight_ready by blast
  then have "rn_ready ?b = replicate (length envs) (Spawned g k payload by event) @ (js @ xs)" by simp
  from Cons.IH [OF this] Cons.prems(2) obtain fs where fs: "rn_flying (fold loop_turn envs ?b) = rn_flying ?b @ fs"
    "length fs = length envs" "\<forall>f \<in> set fs. fl_key f = (v2_id (rg_workflow g), k)" by auto
  have "rn_flying ?b = rn_flying st @ [new_flight env True g d k payload by event [] ?s]"
    using begin_flight_suspended [of env d True g k payload "by" event "[]" ?s] Cons.prems(2) by simp
  then show ?case
    using fs by (intro exI [of _ "last (rn_flying ?b) # fs"]) (simp add: t, simp add: new_flight_def Let_def)
qed simp

text \<open>
  C28: Neither guard holds against events that arrive together.  When \<open>n\<close> matching events are waiting
  in the loop for an idle workflow whose run waits for something (the engine suspends), then after
  \<open>2 * n\<close> turns \<open>n\<close> runs of the same step are in flight at once, although concurrent runs are not
  allowed and however small the number of runs per window is: a run is entered in \<open>_active_keys\<close> and
  in \<open>_run_times\<close> only when its task starts, and all callbacks are served before the first of
  these tasks.  (Runs that never suspend still all take place, but one after the other.)
\<close>
theorem burst_bypasses_guards:
  assumes "rn_running st" "\<not> rn_allow_concurrent st" "rn_workflows st = [(wid, g)]"
    and "v2_id (rg_workflow g) = wid" "rg_enabled g" "dict_list (rn_times st) wid = []"
    and "(wid, k) \<notin> set (rn_active st)" "step_definition (rg_workflow g) k = Inr d"
    and "rn_ready st = replicate n (Callback e)" "length envs = 2 * n"
    and "\<forall>env \<in> set envs. matching_steps env (rg_workflow g) e = [k]"
    and suspends: "\<forall>env \<in> set envs. \<forall>ctx. re_inline env d ctx = None"
  shows "\<exists>fs. rn_flying (fold loop_turn envs st) = rn_flying st @ fs \<and> length fs = n \<and>
    (\<forall>f \<in> set fs. fl_key f = (wid, k))"
proof -
  let ?S = "Spawned g k (ev_payload e) ''event'' (ev_type e)"
  have e: "envs = take n envs @ drop n envs" "length (take n envs) = n" "length (drop n envs) = n"
    using assms(10) by simp_all
  have "fold loop_turn (take n envs) st = st\<lparr>rn_ready := replicate n ?S\<rparr>"
    using burst_spawns [OF assms(1,3-7), of "take n envs" e "[]"] assms(9,11) e(2)
    by (auto dest: in_set_takeD)
  moreover have "\<forall>env \<in> set (drop n envs). \<forall>ctx. re_inline env d ctx = None"
    using suspends by (auto dest: in_set_dropD)
  then have "\<exists>fs. rn_flying (fold loop_turn (drop n envs) (st\<lparr>rn_ready := replicate n ?S\<rparr>)) = rn_flying st @ fs \<and>
      length fs = n \<and> (\<forall>f \<in> set fs. fl_key f = (wid, k))"
    using burst_starts [OF assms(8), of "st\<lparr>rn_ready := replicate n ?S\<rparr>" "drop n envs" "ev_payload e" "''event''"
        "ev_type e" "[]"] e(3) assms(4) by simp
  ultimately show ?thesis by (metis e(1) fold_append comp_apply)
qed

section \<open>The end of a run\<close>

lemma persist_run_last:
  assumes "wr_run_id r \<noteq> []"
  shows "iter_persisted_runs (persist_run env r st) \<noteq> []"
    and "last (iter_persisted_runs (persist_run env r st)) = run_to_dict (re_round4 env) 400 r"
proof -
  have id: "pget (run_to_dict (re_round4 env) 400 r) ''run_id'' = PStr (wr_run_id r)"
    by (simp add: run_to_dict_def pget_def)
  obtain ls where "rn_file (persist_run env r st) = Some (ls @ [RunLine (PDict (run_to_dict (re_round4 env) 400 r))])"
    by (auto simp: persist_run_def Let_def split: option.splits)
  then show "iter_persisted_runs (persist_run env r st) \<noteq> []"
    and "last (iter_persisted_runs (persist_run env r st)) = run_to_dict (re_round4 env) 400 r"
    using assms id by (simp_all add: iter_persisted_runs_def)
qed

lemma end_flight_file: "rn_file (end_flight env f out st) =
  rn_file (persist_run env (close_record env (fl_definition f) out (fl_record f)) st)"
  by (simp add: end_flight_def Let_def emit_bus_def deliver_def persist_run_def split: option.splits)

lemma close_record_frame:
  "wr_run_id (close_record env d out r) = wr_run_id r"
  "wr_workflow_id (close_record env d out r) = wr_workflow_id r"
  by (simp_all add: close_record_def split: engine_outcome.splits)

text \<open>
  The end of a run, whatever the engine returned or raised: the record with its final status is
  the last line of the run file (after a rotation too) and replaces the running record in the ring,
  its key is free again, and the other runs in flight stay as they are.
\<close>
theorem end_flight_effect:
  fixes env out st f
  defines "st' \<equiv> end_flight env f out st" and "r \<equiv> close_record env (fl_definition f) out (fl_record f)"
  assumes "rt_inv m st" "f \<in> set (rn_flying st)" "wr_run_id (fl_record f) \<noteq> []" "0 < limit"
  shows "load_runs limit st' \<noteq> [] \<and> last (load_runs limit st') = run_to_dict (re_round4 env) 400 r \<and>
    (\<forall>x. (fl_number f, x) \<in> set (rn_runs st') \<longrightarrow> x = r) \<and>
    fl_key f \<notin> set (rn_active st') \<and> rn_flying st' = removeAll f (rn_flying st)"
proof -
  have it: "iter_persisted_runs st' = iter_persisted_runs (persist_run env r st)"
    by (simp add: iter_persisted_runs_def st'_def r_def end_flight_file)
  have id: "wr_run_id r \<noteq> []" using assms(5) by (simp add: r_def close_record_frame)
  have "load_runs limit st' \<noteq> [] \<and> last (load_runs limit st') = run_to_dict (re_round4 env) 400 r"
    using persist_run_last [OF id, of env st] assms(6) unfolding load_runs_def it Let_def
    by (cases "iter_persisted_runs (persist_run env r st)") auto
  moreover have "fl_number x = fl_number f \<longleftrightarrow> x = f" if "x \<in> set (rn_flying st)" for x
    using assms(3,4) that by (auto simp: rt_inv_def distinct_map dest: inj_onD)
  then have "rn_flying st' = removeAll f (rn_flying st)"
    unfolding st'_def end_flight_runs(2) removeAll_filter_not_eq by (intro filter_cong) auto
  moreover have "(fl_number f, x) \<in> set (rn_runs st') \<Longrightarrow> x = r" for x
    by (auto simp: st'_def r_def end_flight_runs(1))
  ultimately show ?thesis by (simp add: st'_def end_flight_runs(3))
qed

section \<open>Handlers\<close>

text \<open>The claim of the approval store as the runtime calls it.\<close>

definition store_claim :: "(string \<Rightarrow> string) \<Rightarrow> bool \<Rightarrow> string \<Rightarrow> approval_store \<Rightarrow> bool option \<times> approval_store" where
  "store_claim digest writable key st =
     (case claim_once digest writable key st of (ok, st') \<Rightarrow> (Some ok, st'))"

lemma claimed_key:
  assumes "authorize_declared_approval (Some (store_claim digest writable)) wfid node context st = (Some rules, st')"
    "rules \<noteq> []"
  shows "py_str (py_or (pget context ''triggered_by'') (PStr [])) = ''manual''"
    and "digest (py_str (py_or (pget context ''run_id'') (PStr [])) @ '':'' @ wfid @ '':'' @ nd_id node) \<in> set (st_claims st')"
    and "digest (py_str (py_or (pget context ''run_id'') (PStr [])) @ '':'' @ wfid @ '':'' @ nd_id node) \<notin> set (st_claims st)"
  using assms
  by (auto simp: authorize_declared_approval_def store_claim_def claim_once_def
      split: option.splits if_splits bool.splits)

text \<open>
  C31: Rules declared in a workflow approve a node at most once per run and never a run that an event
  started: if they are handed to the gateway, then the run was triggered by hand, and from then on
  no node of the same identifier (a retry, or another node with other rules) gets rules in the same
  run and workflow, whatever the store does in between as long as it keeps its claims.
\<close>
theorem declared_approval_once:
  assumes "authorize_declared_approval (Some (store_claim digest writable)) wfid node context st = (Some rules, st1)"
    and "rules \<noteq> []" "set (st_claims st1) \<subseteq> set (st_claims st2)"
    and "nd_id node' = nd_id node" "pget context' ''run_id'' = pget context ''run_id''"
  shows "py_str (py_or (pget context ''triggered_by'') (PStr [])) = ''manual'' \<and>
    fst (authorize_declared_approval (Some (store_claim digest writable')) wfid node' context' st2) \<in> {None, Some []}"
proof -
  let ?key = "py_str (py_or (pget context ''run_id'') (PStr [])) @ '':'' @ wfid @ '':'' @ nd_id node"
  note c = claimed_key [OF assms(1,2)]
  have "store_claim digest writable' ?key st2 = (Some False, st2)"
    using c(2) assms(3) by (auto simp: store_claim_def claim_once_def)
  then have "fst (authorize_declared_approval (Some (store_claim digest writable')) wfid node' context' st2) \<in> {None, Some []}"
    using assms(4,5) by (simp add: authorize_declared_approval_def split: option.splits)
  then show ?thesis using c(1) by blast
qed

lemma shell_success:
  "handle_shell_node execute claim wfid node context s = (Inr v, s') \<Longrightarrow>
    \<exists>rules s1 resp. authorize_declared_approval claim wfid node context s = (Some rules, s1) \<and>
      execute \<lparr>sr_command = node_text node, sr_timeout = nd_timeout_seconds node, sr_rules = rules\<rparr> s1 = (resp, s') \<and>
      sp_status resp \<noteq> ''denied'' \<and> sp_exit_code resp = 0"
  by (auto simp: handle_shell_node_def Let_def split: if_splits prod.splits option.splits)

lemma codex_manual_only:
  "py_str (py_or (pget context ''triggered_by'') (PStr [])) \<noteq> ''manual'' \<Longrightarrow>
    handle_codex_node resolve_argv environ run_process wfid node context s = (Inl (Trm TOOL_EXECUTION_FAILED), s)"
  by (simp add: handle_codex_node_def)

section \<open>Examples\<close>

definition ex_env :: "time \<Rightarrow> runtime_env" where
  "ex_env t =
     \<lparr>re_wall = t, re_mono = t, re_fresh = ''0123abcd'', re_eval = (\<lambda>_ _ _. Some True),
      re_size = length, re_round4 = id, re_inline = (\<lambda>_ _. None)\<rparr>"

definition ex_registered :: registered where
  "ex_registered = \<lparr>rg_workflow = ex_deploy, rg_source = ''file'', rg_enabled = True\<rparr>"

definition ex_wf_event :: sys_event where
  "ex_wf_event = runtime_event 1 ''workflow.request'' [(''action'', PStr ''deploy'')]"

text \<open>A runtime with one registered workflow, at most two runs in ten seconds, and some jobs.\<close>

definition ex_runtime :: "(string, time list) dict \<Rightarrow> job list \<Rightarrow> wruntime" where
  "ex_runtime stamps jobs =
     (snd (register_workflow [] ''file'' None ex_deploy (new_runtime_state 3 False 10 2 100)))
       \<lparr>rn_running := True, rn_times := stamps, rn_ready := jobs\<rparr>"

lemma ex_runtime_state:
  "rn_running (ex_runtime ts js)" "\<not> rn_allow_concurrent (ex_runtime ts js)"
  "rn_workflows (ex_runtime ts js) = [(''deploy'', ex_registered)]" "rn_times (ex_runtime ts js) = ts"
  "rn_ready (ex_runtime ts js) = js" "rn_active (ex_runtime ts js) = []" "rn_flying (ex_runtime ts js) = []"
  "rn_window (ex_runtime ts js) = 10" "rn_max_per_window (ex_runtime ts js) = 2"
  by (simp_all add: ex_runtime_def register_workflow_def new_runtime_state_def ex_registered_def ex_deploy_def
      workflow_enabled_def pget_def)

lemma ex_matches: "matching_steps (ex_env t) ex_deploy ex_wf_event = [0]"
  by code_simp

theorem burst_bypasses_guards_witness:
  "\<exists>fs. rn_flying (fold loop_turn (replicate 10 (ex_env 1)) (ex_runtime [] (replicate 5 (Callback ex_wf_event)))) = fs \<and>
     length fs = 5 \<and> (\<forall>f \<in> set fs. fl_key f = (''deploy'', 0))"
proof -
  have d: "\<exists>d. step_definition (rg_workflow ex_registered) 0 = Inr d"
    by (simp add: step_definition_def py_index_def ex_registered_def ex_deploy_def)
  then obtain d where d: "step_definition (rg_workflow ex_registered) 0 = Inr d" by blast
  have i: "v2_id (rg_workflow ex_registered) = ''deploy''" "rg_enabled ex_registered"
    by (simp_all add: ex_registered_def ex_deploy_def)
  have m: "\<forall>env \<in> set (replicate 10 (ex_env 1)). matching_steps env (rg_workflow ex_registered) ex_wf_event = [0]"
    by (simp add: ex_registered_def ex_matches)
  let ?st = "ex_runtime [] (replicate 5 (Callback ex_wf_event))"
  have "dict_list (rn_times ?st) ''deploy'' = []" "(''deploy'', 0) \<notin> set (rn_active ?st)"
    by (simp_all add: ex_runtime_state dict_list_def)
  moreover have "\<forall>env \<in> set (replicate 10 (ex_env 1)). \<forall>ctx. re_inline env d ctx = None"
    by (simp add: ex_env_def)
  ultimately show ?thesis
    using burst_bypasses_guards [OF ex_runtime_state(1-3) i _ _ d ex_runtime_state(5) _ m]
    by (simp add: ex_runtime_state(7))
qed

theorem throttle_storm_witness:
  "1 \<le> callbacks (fold loop_turn (replicate 1000 (ex_env 5)) (ex_runtime [(''deploy'', [1, 2])] [Callback ex_wf_event]))"
proof -
  let ?st = "ex_runtime [(''deploy'', [1, 2])] [Callback ex_wf_event]"
  have "hot 5 ''deploy'' ?st" by (simp add: hot_def recent_starts_def ex_runtime_state dict_list_def)
  then have "1 \<le> hot_count 5 ?st"
    by (simp add: hot_count_def hot_workflow_def ex_runtime_state ex_registered_def ex_deploy_def)
  moreover have "1 \<le> callbacks ?st" by (simp add: callbacks_def ex_runtime_state is_callback_def)
  ultimately show ?thesis
    using throttle_storm [OF ex_runtime_state(1), of "replicate 1000 (ex_env 5)" 5] by (simp add: ex_env_def)
qed

text \<open>A whole run: the event is published, two turns later the run is in flight, then it fails.\<close>

definition ex_ops :: "rt_op list" where
  "ex_ops = [OpRegister [] ''file'' None ex_deploy, OpStart, OpPublish ex_wf_event, OpTurn (ex_env 1), OpTurn (ex_env 1)]"

lemma ex_flight: "map fl_key (rn_flying (fold rt_step ex_ops (new_runtime_state 3 False 10 2 100))) = [(''deploy'', 0)]"
  "map (wr_run_id \<circ> fl_record) (rn_flying (fold rt_step ex_ops (new_runtime_state 3 False 10 2 100))) = [''deploy#0-0123abcd'']"
  by code_simp+

theorem runtime_bookkeeping_witness:
  "length (rn_runs (fold rt_step ex_ops (new_runtime_state 3 False 10 2 100))) =
     min (rn_count (fold rt_step ex_ops (new_runtime_state 3 False 10 2 100))) 3"
  using runtime_bookkeeping [of ex_ops 3 False 10 2 100] by simp

theorem end_flight_effect_witness:
  "\<exists>f. fl_key f = (''deploy'', 0) \<and>
     fl_key f \<notin> set (rn_active (end_flight (ex_env 2) f (EngineRaised ''boom'')
       (fold rt_step ex_ops (new_runtime_state 3 False 10 2 100))))"
proof -
  let ?st = "fold rt_step ex_ops (new_runtime_state 3 False 10 2 100)"
  obtain f where f: "rn_flying ?st = [f]" "fl_key f = (''deploy'', 0)" "wr_run_id (fl_record f) = ''deploy#0-0123abcd''"
    using ex_flight by (cases "rn_flying ?st") auto
  have "rt_inv (nat (max 1 3)) ?st" by (rule rt_inv_steps [OF rt_inv_new])
  then show ?thesis
    using end_flight_effect [of _ ?st f 1 "ex_env 2" "EngineRaised ''boom''"] f by auto
qed

text \<open>
  A handler that is cancelled: the engine catches the cancellation at the node and the run is
  reported as failed, not as cancelled.
\<close>

lemma cancelled_run_failed:
  "map_option (map_sum id rr_status)
     (run_workflow 2 (demo_base (\<lambda>ctx _. (HCancelled, ctx))) ''f'' (to_workflow_definition ex_deploy) []) =
   Some (Inr WF_FAILED)"
  by code_simp

definition ex_node :: node_def where
  "ex_node = hd (wf_nodes (to_workflow_definition ex_deploy))"

definition ex_context :: "(string, pyval) dict" where
  "ex_context = [(''run_id'', PStr ''r1''), (''triggered_by'', PStr ''manual'')]"

theorem declared_approval_once_witness:
  "fst (authorize_declared_approval (Some (store_claim id True)) ''deploy'' ex_node ex_context
          \<lparr>st_files = [], st_claims = []\<rparr>) = Some [PDict [(''tool'', PStr ''shell'')]] \<and>
   fst (authorize_declared_approval (Some (store_claim id True)) ''deploy'' ex_node ex_context
          \<lparr>st_files = [], st_claims = [''r1:deploy:step_0_task_0'']\<rparr>) \<in> {None, Some []}"
proof -
  have a: "authorize_declared_approval (Some (store_claim id True)) ''deploy'' ex_node ex_context
      \<lparr>st_files = [], st_claims = []\<rparr> =
      (Some [PDict [(''tool'', PStr ''shell'')]], \<lparr>st_files = [], st_claims = [''r1:deploy:step_0_task_0'']\<rparr>)"
    by code_simp
  show ?thesis
    using declared_approval_once [OF a _ order_refl HOL.refl HOL.refl, of True] by (simp add: a)
qed

end
