(* ===== verification/Tarl.thy ===== *)
theory Tarl
  imports Prelude
begin

text \<open>
  The TARL line format (\<open>tarl_parser.py\<close>): a message is a dictionary that is printed as
  one line of \<open>key:value\<close> fields in key order, separated by single spaces.  The theory
  models splitting, parsing, printing, prefix search and the two snapshot operations, and
  proves the round trip of messages, that what the parser produces is always printable, the
  contents of a merged snapshot, and that a value with a space in it is read back as
  further fields.
\<close>

section \<open>Operations\<close>

abbreviation (input) SPACE :: char where "SPACE \<equiv> CHR '' ''"
abbreviation (input) COLON :: char where "COLON \<equiv> CHR '':''"

text \<open>One field: \<open>field.find(":")\<close>, then the two slices; \<^const>\<open>None\<close> for a field to skip.\<close>

definition split_field :: "string \<Rightarrow> (string \<times> string) option" where
  "split_field raw =
     (let field = py_strip raw
      in if field = [] then None
         else case find_index_of COLON field of
                None \<Rightarrow> None
              | Some i \<Rightarrow> Some (take i field, drop (i + 1) field))"

definition split_kv :: "string \<Rightarrow> (string \<times> string) list" where
  "split_kv raw =
     (let line = py_strip raw
      in if line = [] then [] else List.map_filter split_field (split_on SPACE line))"

definition parse_line :: "string \<Rightarrow> (string, string) dict" where
  "parse_line line = fold (\<lambda>(key, value) result. AList.update key value result) (split_kv line) []"

fun parse_lines :: "string list \<Rightarrow> (string, string) dict list" where
  "parse_lines [] = []"
| "parse_lines (raw # rest) =
     (let line = py_strip raw
      in if line = [] then parse_lines rest
         else let parsed = parse_line line
              in if parsed \<noteq> [] then parsed # parse_lines rest else parse_lines rest)"

definition parse_multi :: "string \<Rightarrow> (string, string) dict list" where
  "parse_multi text = parse_lines (splitlines text)"

text \<open>A value may be \<open>None\<close>; the keys of a dictionary are distinct, so the tuples compare by key.\<close>

fun field_text :: "string \<times> string option \<Rightarrow> string option" where
  "field_text (k, None) = None"
| "field_text (k, Some v) = (if k = [] then None else Some (k @ COLON # v))"

definition serialize :: "(string, string option) dict \<Rightarrow> string" where
  "serialize data =
     (if data = [] then []
      else join_with [SPACE] (List.map_filter field_text (sort_key fst data)))"

definition serialize_multi :: "(string, string option) dict list \<Rightarrow> string" where
  "serialize_multi messages = join_with [LF] (map serialize (filter (\<lambda>m. m \<noteq> []) messages))"

definition extract_prefix :: "string \<Rightarrow> string \<Rightarrow> string list" where
  "extract_prefix text pre =
     concat (map (\<lambda>line. map snd (filter (\<lambda>(key, value). key = pre \<or> prefix (pre @ ''.'') key)
                                      (split_kv line)))
               (splitlines text))"

definition match_prefix :: "string \<Rightarrow> string \<Rightarrow> bool" where
  "match_prefix text pre \<longleftrightarrow> length (extract_prefix text pre) > 0"

definition add_field :: "string \<Rightarrow> string \<Rightarrow> (string, string option) dict \<Rightarrow> (string, string option) dict" where
  "add_field key value data = (if value \<noteq> [] then AList.update key (Some value) data else data)"

definition build_snapshot :: "string \<Rightarrow> string \<Rightarrow> string \<Rightarrow> string \<Rightarrow> string \<Rightarrow> string \<Rightarrow> string" where
  "build_snapshot ctx_id workspace err target permission artifacts =
     serialize
       (add_field ''artifacts'' artifacts
         (add_field ''permission'' permission
           (add_field ''target'' target
             (add_field ''error'' err
               (add_field ''workspace'' workspace [(''snapshot'', Some ctx_id)])))))"

text \<open>\<open>{**parent, **child}\<close>.\<close>

definition dict_union :: "('k, 'v) dict \<Rightarrow> ('k, 'v) dict \<Rightarrow> ('k, 'v) dict" where
  "dict_union parent child = fold (\<lambda>(k, v) d. AList.update k v d) child parent"

definition some_values :: "(string, string) dict \<Rightarrow> (string, string option) dict" where
  "some_values d = map (\<lambda>(k, v). (k, Some v)) d"

definition merge_snapshot :: "string \<Rightarrow> string \<Rightarrow> string" where
  "merge_snapshot parent_tarl child_tarl =
     serialize (some_values (dict_union (parse_line parent_tarl) (parse_line child_tarl)))"

section \<open>Printable fields\<close>

text \<open>
  A pair is printable when its field, taken alone, is read back as the pair: no space, no
  white space at the ends, no colon in the key and a key at all.
\<close>

definition field_of :: "string \<times> string \<Rightarrow> string" where
  "field_of kv = fst kv @ COLON # snd kv"

definition printable :: "string \<times> string \<Rightarrow> bool" where
  "printable kv \<longleftrightarrow>
     fst kv \<noteq> [] \<and> COLON \<notin> set (fst kv) \<and> SPACE \<notin> set (field_of kv) \<and>
     \<not> py_is_space (hd (field_of kv)) \<and> \<not> py_is_space (last (field_of kv))"

text \<open>The key alphabet the module documents and values without white space.\<close>

definition word_pair :: "string \<times> string \<Rightarrow> bool" where
  "word_pair kv \<longleftrightarrow>
     fst kv \<noteq> [] \<and> COLON \<notin> set (fst kv) \<and>
     (\<forall>c \<in> set (fst kv). \<not> py_is_space c) \<and> (\<forall>c \<in> set (snd kv). \<not> py_is_space c)"

definition word_message :: "(string, string) dict \<Rightarrow> bool" where
  "word_message m \<longleftrightarrow> m \<noteq> [] \<and> distinct (map fst m) \<and> list_all word_pair m"

lemma field_of_not_Nil [simp]: "field_of kv \<noteq> []"
  by (simp add: field_of_def)

lemma colon_not_space [simp]: "\<not> py_is_space COLON"
  by (simp add: py_is_space_def)

lemma space_is_space [simp]: "py_is_space SPACE"
  by (simp add: py_is_space_def)

lemma line_end_is_space: "is_line_end c \<Longrightarrow> py_is_space c"
  by (auto simp: is_line_end_def py_is_space_def Let_def)

lemma word_pair_printable: "word_pair kv \<Longrightarrow> printable kv"
proof -
  assume w: "word_pair kv"
  then have all: "\<forall>c \<in> set (field_of kv). \<not> py_is_space c"
    by (auto simp: word_pair_def field_of_def)
  then have "SPACE \<notin> set (field_of kv)" by auto
  with all w show ?thesis by (auto simp: printable_def word_pair_def)
qed

lemma strip_stable:
  "s \<noteq> [] \<Longrightarrow> \<not> py_is_space (hd s) \<Longrightarrow> \<not> py_is_space (last s) \<Longrightarrow> py_strip s = s"
proof -
  assume "s \<noteq> []" "\<not> py_is_space (hd s)" "\<not> py_is_space (last s)"
  moreover from this have "dropWhile py_is_space s = s" by (cases s) auto
  moreover have "dropWhile py_is_space (rev s) = rev s"
    using calculation by (cases s rule: rev_cases) auto
  ultimately show ?thesis by (simp add: py_strip_def py_rstrip_def py_lstrip_def)
qed

lemma find_index_of_append: "x \<notin> set s \<Longrightarrow> find_index_of x (s @ x # t) = Some (length s)"
  by (induction s) auto

lemma find_index_of_Some:
  "find_index_of x s = Some i \<Longrightarrow> x \<notin> set (take i s) \<and> s = take i s @ x # drop (Suc i) s"
  by (induction s arbitrary: i) (auto split: if_splits)

lemma split_field_printable: "printable kv \<Longrightarrow> split_field (field_of kv) = Some kv"
proof -
  assume p: "printable kv"
  then have strip: "py_strip (field_of kv) = field_of kv"
    by (intro strip_stable) (auto simp: printable_def)
  have "find_index_of COLON (field_of kv) = Some (length (fst kv))"
    using p by (simp add: field_of_def printable_def find_index_of_append)
  with strip show ?thesis
    by (simp add: split_field_def Let_def) (simp add: field_of_def)
qed


lemma split_field_Some: "split_field raw = Some kv \<Longrightarrow> field_of kv = py_strip raw"
  by (auto simp: split_field_def Let_def field_of_def split: if_splits option.splits
      dest: find_index_of_Some)

lemma strip_ends:
  assumes "py_strip s \<noteq> []"
  shows "\<not> py_is_space (hd (py_strip s))" "\<not> py_is_space (last (py_strip s))"
proof -
  let ?l = "py_lstrip s" let ?r = "rev (dropWhile py_is_space (rev ?l))"
  have r: "py_strip s = ?r" by (simp add: py_strip_def py_rstrip_def)
  then have ne: "dropWhile py_is_space (rev ?l) \<noteq> []" using assms by auto
  then show "\<not> py_is_space (last (py_strip s))"
    using hd_dropWhile [OF ne] by (simp add: r last_rev)
  have "suffix (dropWhile py_is_space (rev ?l)) (rev ?l)" by (rule suffix_dropWhile)
  then have "prefix ?r ?l" by (auto simp: suffix_to_prefix)
  then obtain zs where "?l = ?r @ zs" by (rule prefixE)
  moreover have "?r \<noteq> []" using ne by simp
  ultimately have "hd ?r = hd ?l" by (metis hd_append2)
  moreover have "?l \<noteq> []" using ne by auto
  then have "\<not> py_is_space (hd ?l)" unfolding py_lstrip_def by (rule hd_dropWhile)
  ultimately show "\<not> py_is_space (hd (py_strip s))" by (simp add: r)
qed

lemma split_kv_printable:
  assumes "(k, v) \<in> set (split_kv raw)" "k \<noteq> []"
  shows "printable (k, v)"
proof -
  obtain f where f: "f \<in> set (split_on SPACE (py_strip raw))" "split_field f = Some (k, v)"
    using assms(1)
    by (auto simp: split_kv_def Let_def List.map_filter_def split: if_splits)
  have fo: "field_of (k, v) = py_strip f" using f(2) by (rule split_field_Some)
  then have ne: "py_strip f \<noteq> []" by (metis field_of_not_Nil)
  have "SPACE \<notin> set f" by (rule split_on_field [OF f(1)])
  then have "SPACE \<notin> set (field_of (k, v))" using fo set_py_strip by fastforce
  moreover have "COLON \<notin> set k"
    using f(2) by (auto simp: split_field_def Let_def split: if_splits option.splits
        dest!: find_index_of_Some)
  ultimately show ?thesis
    using assms(2) strip_ends [OF ne] by (simp add: printable_def fo)
qed

section \<open>Parsing what was printed\<close>

lemma fold_update_append:
  "fst ` set xs \<inter> fst ` set d = {} \<Longrightarrow> distinct (map fst xs) \<Longrightarrow>
   fold (\<lambda>(k, v) r. AList.update k v r) xs d = d @ xs"
proof (induction xs arbitrary: d)
  case (Cons x xs)
  then have "AList.update (fst x) (snd x) d = d @ [x]"
    by (intro trans [OF update_new]) (auto simp: dict_simps)
  moreover have "fst ` set xs \<inter> fst ` set (d @ [x]) = {}" using Cons.prems by auto
  ultimately show ?case using Cons by (simp add: case_prod_beta)
qed simp

lemma join_first_last:
  "xs \<noteq> [] \<Longrightarrow> \<forall>x \<in> set xs. x \<noteq> [] \<Longrightarrow>
   join_with sep xs \<noteq> [] \<and> hd (join_with sep xs) = hd (hd xs) \<and>
   last (join_with sep xs) = last (last xs)"
  by (induction sep xs rule: join_with.induct) auto

lemma split_join:
  assumes ne: "xs \<noteq> []" and pr: "\<forall>x \<in> set xs. printable x"
  shows "split_kv (join_with [SPACE] (map field_of xs)) = xs"
proof -
  let ?t = "join_with [SPACE] (map field_of xs)"
  have j: "?t \<noteq> [] \<and> hd ?t = hd (field_of (hd xs)) \<and> last ?t = last (field_of (last xs))"
    using join_first_last [of "map field_of xs" "[SPACE]"] ne by (simp add: hd_map last_map)
  have "printable (hd xs)" "printable (last xs)" using ne pr by auto
  then have strip: "py_strip ?t = ?t" using j by (intro strip_stable) (auto simp: printable_def)
  have "split_on SPACE ?t = map field_of xs"
    using ne pr by (intro split_on_join) (auto simp: printable_def)
  moreover have "List.map_filter split_field (map field_of xs) = xs" using pr
    by (induction xs) (auto simp: List.map_filter_simps split_field_printable)
  ultimately show ?thesis using strip j by (simp add: split_kv_def)
qed

lemma parse_join:
  "xs \<noteq> [] \<Longrightarrow> \<forall>x \<in> set xs. printable x \<Longrightarrow> distinct (map fst xs) \<Longrightarrow>
   parse_line (join_with [SPACE] (map field_of xs)) = xs"
  by (simp add: parse_line_def split_join fold_update_append)

lemma map_filter_field_text:
  "List.map_filter field_text (map (\<lambda>(k, v). (k, Some v)) xs) =
   map field_of (filter (\<lambda>kv. fst kv \<noteq> []) xs)"
  by (induction xs) (auto simp: List.map_filter_simps field_of_def)

lemma insort_some_values:
  "insort_key fst (k, Some v) (some_values d) = some_values (insort_key fst (k, v) d)"
  by (induction d) (auto simp: some_values_def)

lemma sort_some_values:
  "sort_key fst (some_values d) = some_values (sort_key fst d)"
proof (induction d)
  case (Cons x d)
  have "some_values (x # d) = (fst x, Some (snd x)) # some_values d"
    by (cases x) (simp add: some_values_def)
  with Cons show ?case by (simp add: insort_some_values)
qed (simp add: some_values_def)

lemma serialize_some_values:
  "serialize (some_values d) =
   join_with [SPACE] (map field_of (filter (\<lambda>kv. fst kv \<noteq> []) (sort_key fst d)))"
  by (cases d)
    (simp_all add: serialize_def sort_some_values map_filter_field_text
       some_values_def [of "sort_key _ _"], simp_all add: some_values_def map_filter_field_text)

lemma parse_serialize:
  assumes "\<forall>kv \<in> set d. fst kv \<noteq> [] \<longrightarrow> printable kv" "distinct (map fst d)"
  shows "parse_line (serialize (some_values d)) = filter (\<lambda>kv. fst kv \<noteq> []) (sort_key fst d)"
proof (cases "filter (\<lambda>kv. fst kv \<noteq> []) (sort_key fst d) = []")
  case True
  then show ?thesis
    by (simp only: serialize_some_values)
      (simp add: parse_line_def split_kv_def py_strip_def py_rstrip_def py_lstrip_def)
next
  case False
  have "distinct (map fst (sort_key fst d))"
    using assms(2) by (simp add: distinct_map)
  then have "distinct (map fst (filter (\<lambda>kv. fst kv \<noteq> []) (sort_key fst d)))"
    by (rule distinct_map_filter)
  then show ?thesis
    unfolding serialize_some_values using False assms(1) by (intro parse_join) auto
qed

section \<open>Several messages\<close>

lemma set_join: "set (join_with sep xs) \<subseteq> set sep \<union> \<Union> (set ` set xs)"
  by (induction sep xs rule: join_with.induct) auto

lemma word_message_text:
  assumes "word_message m"
  shows "serialize (some_values m) \<noteq> []"
    and "\<forall>c \<in> set (serialize (some_values m)). \<not> is_line_end c"
    and "py_strip (serialize (some_values m)) = serialize (some_values m)"
    and "parse_line (serialize (some_values m)) = sort_key fst m"
    and "sort_key fst m \<noteq> []"
proof -
  have words: "\<forall>kv \<in> set (sort_key fst m). word_pair kv" and ne: "sort_key fst m \<noteq> []"
    using assms by (auto simp: word_message_def list_all_iff dest: arg_cong [where f = set])
  have key: "filter (\<lambda>kv. fst kv \<noteq> []) (sort_key fst m) = sort_key fst m"
    using words by (auto simp: filter_id_conv word_pair_def)
  let ?t = "join_with [SPACE] (map field_of (sort_key fst m))"
  have t: "serialize (some_values m) = ?t" by (simp add: serialize_some_values key)
  have ends: "?t \<noteq> [] \<and> hd ?t = hd (field_of (hd (sort_key fst m))) \<and>
      last ?t = last (field_of (last (sort_key fst m)))"
    using join_first_last [of "map field_of (sort_key fst m)" "[SPACE]"] ne
    by (simp add: hd_map last_map)
  then show "serialize (some_values m) \<noteq> []" using t by simp
  have "word_pair (hd (sort_key fst m))" "word_pair (last (sort_key fst m))"
    using words ne by (meson hd_in_set last_in_set)+
  then have "\<not> py_is_space (hd ?t)" "\<not> py_is_space (last ?t)"
    using ends by (auto simp: printable_def dest!: word_pair_printable)
  then show "py_strip (serialize (some_values m)) = serialize (some_values m)"
    using ends t by (simp add: strip_stable)
  have "\<forall>kv \<in> set (sort_key fst m). \<forall>c \<in> set (field_of kv). \<not> py_is_space c"
    using words by (auto simp: word_pair_def field_of_def)
  moreover have "set ?t \<subseteq> {SPACE} \<union> \<Union> (set ` field_of ` set (sort_key fst m))"
    using set_join [of "[SPACE]" "map field_of (sort_key fst m)"] by simp
  moreover have "\<not> is_line_end SPACE" by (simp add: is_line_end_def)
  ultimately show "\<forall>c \<in> set (serialize (some_values m)). \<not> is_line_end c"
    unfolding t using line_end_is_space by blast
  have "\<forall>kv \<in> set m. fst kv \<noteq> [] \<longrightarrow> printable kv"
    using assms by (auto simp: word_message_def list_all_iff word_pair_printable)
  then show "parse_line (serialize (some_values m)) = sort_key fst m"
    using assms key by (simp add: parse_serialize word_message_def)
  show "sort_key fst m \<noteq> []" by (rule ne)
qed

lemma parse_lines_messages:
  "\<forall>m \<in> set ms. word_message m \<Longrightarrow>
   parse_lines (map (\<lambda>m. serialize (some_values m)) ms) = map (sort_key fst) ms"
  by (induction ms) (auto simp: word_message_text)

lemma some_values_Nil [simp]: "some_values m = [] \<longleftrightarrow> m = []"
  by (simp add: some_values_def)

text \<open>
  C40: A list of messages whose keys are nonempty words without a colon and whose values have
  no white space survives printing and parsing: parsing the printed text gives the same
  messages, each with its fields in key order.
\<close>
theorem tarl_round_trip:
  assumes "\<forall>m \<in> set ms. word_message m"
  shows "parse_multi (serialize_multi (map some_values ms)) = map (sort_key fst) ms"
proof -
  have "filter (\<lambda>m. m \<noteq> []) (map some_values ms) = map some_values ms"
    using assms by (auto simp: filter_id_conv word_message_def)
  then have "serialize_multi (map some_values ms) =
      join_with [LF] (map (\<lambda>m. serialize (some_values m)) ms)"
    by (simp add: serialize_multi_def comp_def)
  moreover have "\<forall>m \<in> set ms. serialize (some_values m) \<noteq> [] \<and>
      (\<forall>c \<in> set (serialize (some_values m)). \<not> is_line_end c)"
    using assms word_message_text(1,2) by blast
  then have "\<forall>l \<in> set (map (\<lambda>m. serialize (some_values m)) ms).
      l \<noteq> [] \<and> (\<forall>c \<in> set l. \<not> is_line_end c)"
    by simp
  ultimately show ?thesis
    using assms by (simp only: parse_multi_def splitlines_join parse_lines_messages)
qed

theorem tarl_round_trip_witness:
  "parse_multi (serialize_multi (map some_values
     [[(''user'', ''root''), (''cmd'', ''restart'')], [(''status'', [])]])) =
   [[(''cmd'', ''restart''), (''user'', ''root'')], [(''status'', [])]]"
proof -
  have "\<forall>m \<in> set [[(''user'', ''root''), (''cmd'', ''restart'')], [(''status'', [])]]. word_message m"
    by code_simp
  moreover have "map (sort_key fst) [[(''user'', ''root''), (''cmd'', ''restart'')], [(''status'', [])]] =
      [[(''cmd'', ''restart''), (''user'', ''root'')], [(''status'', [])]]"
    by code_simp
  ultimately show ?thesis using tarl_round_trip by metis
qed

section \<open>Snapshots\<close>

lemma map_of_rev_distinct: "distinct (map fst xs) \<Longrightarrow> map_of (rev xs) = map_of xs"
  by (rule map_of_inject_set [THEN iffD2]) (simp_all flip: rev_map)

lemma distinct_parse_line: "distinct (map fst (parse_line line))"
  by (simp add: parse_line_def distinct_fold_entries)

lemma parse_line_printable:
  assumes "(k, v) \<in> set (parse_line raw)" "k \<noteq> []"
  shows "printable (k, v)"
proof -
  have "map_of (parse_line raw) k = Some v"
    by (rule map_of_is_SomeI [OF distinct_parse_line assms(1)])
  then have "map_of (rev (split_kv raw)) k = Some v"
    by (simp add: parse_line_def map_of_fold_entries)
  then have "(k, v) \<in> set (split_kv raw)" by (metis map_of_SomeD set_rev)
  then show ?thesis using assms(2) by (rule split_kv_printable)
qed

lemma set_dict_union: "kv \<in> set (dict_union p c) \<Longrightarrow> kv \<in> set p \<or> kv \<in> set c"
proof (induction c arbitrary: p)
  case (Cons x c)
  then have "kv \<in> set (AList.update (fst x) (snd x) p) \<or> kv \<in> set c"
    by (cases x) (simp add: dict_union_def)
  moreover have "set (AList.update k v p) \<subseteq> insert (k, v) (set p)" for k v
    by (induction p) auto
  ultimately show ?case by fastforce
qed (simp add: dict_union_def)

lemma map_of_nonempty_keys:
  "map_of (filter (\<lambda>kv. fst kv \<noteq> []) d) k = (if k = [] then None else map_of d k)"
  by (induction d) auto

lemma map_of_sort_key: "distinct (map fst d) \<Longrightarrow> map_of (sort_key fst d) = map_of d"
  by (rule map_of_inject_set [THEN iffD2]) (simp_all add: distinct_map)

text \<open>
  Merging two snapshots gives a line that reads back as follows, whatever the two texts
  are: a nonempty key of the child has the child's value, any other nonempty key has the
  parent's value, and the empty key is dropped.
\<close>
theorem merged_snapshot_contents:
  "map_of (parse_line (merge_snapshot parent child)) k =
   (if k = [] then None
    else case map_of (parse_line child) k of
           None \<Rightarrow> map_of (parse_line parent) k
         | Some v \<Rightarrow> Some v)"
proof -
  let ?m = "dict_union (parse_line parent) (parse_line child)"
  have "\<forall>kv \<in> set ?m. fst kv \<noteq> [] \<longrightarrow> printable kv"
    using set_dict_union parse_line_printable by (metis prod.collapse)
  moreover have di: "distinct (map fst ?m)"
    by (simp add: dict_union_def distinct_fold_entries distinct_parse_line)
  ultimately have "parse_line (merge_snapshot parent child) =
      filter (\<lambda>kv. fst kv \<noteq> []) (sort_key fst ?m)"
    unfolding merge_snapshot_def by (rule parse_serialize)
  moreover have "map_of ?m = map_of (parse_line parent) ++ map_of (parse_line child)"
    using map_of_rev_distinct [OF distinct_parse_line]
    by (simp add: dict_union_def map_of_fold_entries)
  ultimately show ?thesis
    by (simp add: map_of_nonempty_keys map_of_sort_key [OF di] map_add_def)
qed

lemma key_order:
  "\<not> ''snapshot'' \<le> ''permission''" "''snapshot'' \<le> ''workspace''" "\<not> ''workspace'' \<le> ''permission''"
  by code_simp+

text \<open>
  A workspace text with a space in it is not quoted: when it holds the field
  \<open>permission:p\<close> after a space, the snapshot reads back with the permission p,
  although the snapshot was built with another permission.
\<close>
theorem snapshot_text_injects_field:
  assumes "\<forall>c \<in> set (ctx @ dir @ p @ granted). \<not> py_is_space c"
    and "dir \<noteq> []" and "granted \<noteq> []"
  shows "map_of (parse_line (build_snapshot ctx (dir @ '' permission:'' @ p) [] [] granted []))
           ''permission'' = Some p"
proof -
  let ?fields = "[(''permission'', granted), (''snapshot'', ctx), (''workspace'', dir), (''permission'', p)]"
  have sorted: "sort_key fst [(''snapshot'', Some ctx), (''workspace'', Some (dir @ '' permission:'' @ p)),
      (''permission'', Some granted)] =
    [(''permission'', Some granted), (''snapshot'', Some ctx), (''workspace'', Some (dir @ '' permission:'' @ p))]"
    by (simp add: key_order)
  have "build_snapshot ctx (dir @ '' permission:'' @ p) [] [] granted [] =
      join_with [SPACE] (map field_of ?fields)"
    using assms(2,3)
    by (simp add: build_snapshot_def add_field_def serialize_def sorted List.map_filter_simps field_of_def)
  moreover have "\<forall>kv \<in> set ?fields. word_pair kv"
    using assms(1) by (simp add: word_pair_def py_is_space_def)
  then have "\<forall>kv \<in> set ?fields. printable kv" using word_pair_printable by blast
  ultimately have "split_kv (build_snapshot ctx (dir @ '' permission:'' @ p) [] [] granted []) = ?fields"
    using split_join by (metis list.discI)
  then show ?thesis by (simp add: parse_line_def)
qed

theorem snapshot_text_injects_field_witness:
  "map_of (parse_line (build_snapshot ''ctx1'' (''/w'' @ '' permission:'' @ ''root'') [] [] ''read'' []))
     ''permission'' = Some ''root''"
  by (rule snapshot_text_injects_field) (simp_all add: py_is_space_def)

end
