(* ===== verification/Audit_Chain.thy ===== *)
theory Audit_Chain
  imports Models
begin

text \<open>
  The audit hash chain and its verifier (\<open>AuditChainVerifier\<close> in \<open>sec_monitor.py\<close>).
  A JSONL file is a list of lines; a line has its length in bytes and what its stripped text
  is: blank, not JSON, or a JSON value.

  The code splits a log file into rows in three ways: at line feeds (\<open>_tail_record\<close>), by the
  universal newlines of \<open>open\<close> (the verifier) and with \<open>splitlines\<close> (\<open>_iter_events\<close>,
  \<open>_last_chained_hmac\<close> and the witness).  The model has one list of rows, so it covers the
  files on which they agree: those without the characters U+0085, U+2028 and U+2029.  In such a
  file every other character at which only \<open>splitlines\<close> splits is a control character, which
  JSON allows neither in a string nor between tokens, so a row that is a JSON value is never
  split, except that blank rows appear next to it; and the writer ends its rows with line feeds
  and escapes control characters.  A row with one of the three characters in a string, which
  \<open>ensure_ascii=False\<close> leaves as they are, is outside the model: \<open>splitlines\<close> reads it in pieces.

  The HMAC of a text under a key is the parameter
  \<open>mac\<close>; the text it signs is the JSON encoding written out here.  The theory proves that
  the verifier's loop with its four flags decides a one line description of a chain.
\<close>

section \<open>JSON encoding\<close>

definition hex_digit :: "nat \<Rightarrow> char" where
  "hex_digit n = (if n < 10 then char_of (48 + n) else char_of (87 + n))"

definition json_char :: "bool \<Rightarrow> char \<Rightarrow> string" where
  "json_char ascii c =
     (let n = (of_char c :: nat); esc = CHR 0x5C
      in if c = CHR 0x22 \<or> c = esc then [esc, c]
         else if n = 8 then [esc, CHR ''b'']
         else if n = 9 then [esc, CHR ''t'']
         else if n = 10 then [esc, CHR ''n'']
         else if n = 12 then [esc, CHR ''f'']
         else if n = 13 then [esc, CHR ''r'']
         else if n < 32 \<or> (ascii \<and> 126 < n)
              then [esc, CHR ''u'', CHR ''0'', CHR ''0'', hex_digit (n div 16), hex_digit (n mod 16)]
         else [c])"

definition json_string :: "bool \<Rightarrow> string \<Rightarrow> string" where
  "json_string ascii s = CHR 0x22 # concat (map (json_char ascii) s) @ [CHR 0x22]"

text \<open>
  \<open>json.dumps\<close>: \<open>ensure_ascii\<close>, \<open>sort_keys\<close> and the two separators are
  arguments.
\<close>

fun json_text :: "bool \<Rightarrow> bool \<Rightarrow> string \<Rightarrow> string \<Rightarrow> pyval \<Rightarrow> string" where
  "json_text ascii by_key item_sep key_sep PNone = ''null''"
| "json_text ascii by_key item_sep key_sep (PBool b) = (if b then ''true'' else ''false'')"
| "json_text ascii by_key item_sep key_sep (PInt i) = int_str i"
| "json_text ascii by_key item_sep key_sep (PFloat r) = float_str r"
| "json_text ascii by_key item_sep key_sep (PStr s) = json_string ascii s"
| "json_text ascii by_key item_sep key_sep (PList xs) =
     ''['' @ join_with item_sep (map (json_text ascii by_key item_sep key_sep) xs) @ '']''"
| "json_text ascii by_key item_sep key_sep (PDict d) =
     (let fields = map (\<lambda>(k, v). (k, json_text ascii by_key item_sep key_sep v)) d
      in ''{'' @ join_with item_sep
            (map (\<lambda>(k, t). json_string ascii k @ key_sep @ t)
               (if by_key then sort_key fst fields else fields)) @ ''}'')"

text \<open>The number of bytes of a text in UTF-8.\<close>

definition utf8_bytes :: "string \<Rightarrow> nat" where
  "utf8_bytes s = sum_list (map (\<lambda>c. if (of_char c :: nat) < 128 then 1 else 2) s)"

section \<open>Comparing values\<close>

text \<open>
  \<open>==\<close> on values: booleans and integers are numbers and the order of a dictionary does not
  count.
\<close>

fun py_norm :: "pyval \<Rightarrow> pyval" where
  "py_norm (PBool b) = PFloat (if b then 1 else 0)"
| "py_norm (PInt i) = PFloat (of_int i)"
| "py_norm (PList xs) = PList (map py_norm xs)"
| "py_norm (PDict d) = PDict (sort_key fst (map (\<lambda>(k, v). (k, py_norm v)) d))"
| "py_norm v = v"

definition py_eq :: "pyval \<Rightarrow> pyval \<Rightarrow> bool" where
  "py_eq a b \<longleftrightarrow> py_norm a = py_norm b"

lemma py_eq_string [simp]: "py_eq a (PStr s) \<longleftrightarrow> a = PStr s"
  by (cases a) (auto simp: py_eq_def)

lemma py_eq_string2 [simp]: "py_eq (PStr s) a \<longleftrightarrow> a = PStr s"
  by (cases a) (auto simp: py_eq_def)

lemma py_eq_refl [simp]: "py_eq a a"
  by (simp add: py_eq_def)

section \<open>Files and records\<close>

datatype content = Blank | Garbage | Json pyval

type_synonym file_line = "nat \<times> content"
type_synonym audit_record = "(string, pyval) dict"
type_synonym mac = "string \<Rightarrow> string \<Rightarrow> string"

definition file_bytes :: "file_line list \<Rightarrow> nat" where
  "file_bytes ls = sum_list (map fst ls)"

definition has_hmac :: "audit_record \<Rightarrow> bool" where
  "has_hmac r \<longleftrightarrow> ''hmac'' \<in> fst ` set r"

definition without_hmac :: "audit_record \<Rightarrow> audit_record" where
  "without_hmac r = filter (\<lambda>(k, v). k \<noteq> ''hmac'') r"

definition compute_hash :: "mac \<Rightarrow> string \<Rightarrow> audit_record \<Rightarrow> string" where
  "compute_hash mac key r = mac key (json_text True True '','' '':'' (PDict r))"

section \<open>The verifier\<close>

datatype chain_error =
    Malformed string
  | HmacMismatch pyval
  | MissingHmac pyval
  | ChainBroken pyval
  | StartMissing pyval
  | StartNotFound
  | AnchorMissing

record chain_options =
  tolerate_legacy :: bool
  chain_start :: "string option"
  allow_missing_anchor :: bool
  allow_stale_anchor :: bool

record chain_state =
  prev_hmac :: pyval
  chain_started :: bool
  anchor_seen :: bool
  chain_errors :: "chain_error list"

definition add_errors :: "chain_error list \<Rightarrow> chain_state \<Rightarrow> chain_state" where
  "add_errors es st = st\<lparr>chain_errors := chain_errors st @ es\<rparr>"

definition hmac_errors :: "mac \<Rightarrow> string \<Rightarrow> audit_record \<Rightarrow> chain_error list" where
  "hmac_errors mac key r =
     (if py_eq (pget r ''hmac'') (PStr (compute_hash mac key (without_hmac r))) then []
      else [HmacMismatch (pget_default r ''event_id'' (PStr ''?''))])"

text \<open>
  One record.  The first case is the search for the start of the chain (a marker is given and
  its row has not been met), the second the ordinary row.
\<close>

definition verify_record ::
    "mac \<Rightarrow> string \<Rightarrow> chain_options \<Rightarrow> audit_record \<Rightarrow> chain_state \<Rightarrow> chain_state" where
  "verify_record mac key opts r st =
     (let event_id = pget_default r ''event_id'' (PStr ''?'');
          enter = st\<lparr>chain_started := True, anchor_seen := True\<rparr>;
          own_hmac = pget_default r ''hmac'' (PStr [])
      in case (if anchor_seen st then None else chain_start opts) of
           Some start \<Rightarrow>
             if has_hmac r \<and> py_eq (pget r ''hmac'') (PStr start) then
               (add_errors (hmac_errors mac key r) enter)\<lparr>prev_hmac := own_hmac\<rparr>
             else if \<not> has_hmac r then
               (if tolerate_legacy opts then st else add_errors [MissingHmac event_id] st)
             else if allow_stale_anchor opts then
               (add_errors
                  ((if pget r ''prev_hash'' \<notin> {PNone, PStr []} \<and> \<not> allow_missing_anchor opts
                    then [ChainBroken event_id] else []) @ hmac_errors mac key r)
                  enter)\<lparr>prev_hmac := own_hmac\<rparr>
             else add_errors [StartMissing event_id] st
         | None \<Rightarrow>
             if \<not> has_hmac r then
               (if tolerate_legacy opts \<and> \<not> chain_started st then st
                else add_errors [MissingHmac event_id] st)
             else
               let linked = py_eq (pget r ''prev_hash'') (prev_hmac st);
                   broken = (if chain_started st then \<not> linked
                             else \<not> linked \<and> \<not> allow_missing_anchor opts)
               in (add_errors ((if broken then [ChainBroken event_id] else []) @ hmac_errors mac key r)
                     (st\<lparr>chain_started := True\<rparr>))\<lparr>prev_hmac := own_hmac\<rparr>)"

text \<open>
  One line.  \<open>record.get\<close> on a JSON value that is not an object raises
  \<open>AttributeError\<close>.
\<close>

fun verify_line ::
    "mac \<Rightarrow> string \<Rightarrow> chain_options \<Rightarrow> string \<Rightarrow> content \<Rightarrow> chain_state \<Rightarrow> py_error + chain_state" where
  "verify_line mac key opts name Blank st = Inr st"
| "verify_line mac key opts name Garbage st = Inr (add_errors [Malformed name] st)"
| "verify_line mac key opts name (Json (PDict r)) st = Inr (verify_record mac key opts r st)"
| "verify_line mac key opts name (Json v) st = Inl AttributeError"

fun verify_lines ::
    "mac \<Rightarrow> string \<Rightarrow> chain_options \<Rightarrow> (string \<times> content) list \<Rightarrow> chain_state \<Rightarrow> py_error + chain_state" where
  "verify_lines mac key opts [] st = Inr st"
| "verify_lines mac key opts ((name, c) # rest) st =
     (case verify_line mac key opts name c st of
        Inl e \<Rightarrow> Inl e
      | Inr st' \<Rightarrow> verify_lines mac key opts rest st')"

text \<open>The files that exist are read in the given order, line by line.\<close>

definition lines_of :: "(string \<times> file_line list option) list \<Rightarrow> (string \<times> content) list" where
  "lines_of paths =
     concat (map (\<lambda>(name, f). case f of None \<Rightarrow> [] | Some ls \<Rightarrow> map (\<lambda>l. (name, snd l)) ls) paths)"

definition initial_chain :: chain_state where
  "initial_chain =
     \<lparr>prev_hmac = PStr [], chain_started = False, anchor_seen = False, chain_errors = []\<rparr>"

definition verify_chain_files ::
    "mac \<Rightarrow> string \<Rightarrow> chain_options \<Rightarrow> (string \<times> file_line list option) list
       \<Rightarrow> py_error + bool \<times> chain_error list" where
  "verify_chain_files mac key opts paths =
     (case verify_lines mac key opts (lines_of paths) initial_chain of
        Inl e \<Rightarrow> Inl e
      | Inr st \<Rightarrow>
          let errors = chain_errors st @
                (if chain_start opts \<noteq> None \<and> \<not> anchor_seen st then [StartNotFound] else [])
          in Inr (errors = [], errors))"

section \<open>What a chain is\<close>

text \<open>
  The promise of the file format: after rows without a signature comes the oldest signed row,
  and from then on every row is signed and names its predecessor's signature.
\<close>

definition authentic :: "mac \<Rightarrow> string \<Rightarrow> audit_record \<Rightarrow> bool" where
  "authentic mac key r \<longleftrightarrow> pget r ''hmac'' = PStr (compute_hash mac key (without_hmac r))"

fun linked :: "mac \<Rightarrow> string \<Rightarrow> pyval \<Rightarrow> audit_record list \<Rightarrow> bool" where
  "linked mac key h [] = True"
| "linked mac key h (r # rs) =
     (pget r ''prev_hash'' = h \<and> authentic mac key r \<and> linked mac key (pget r ''hmac'') rs)"

definition legacy :: "content \<Rightarrow> bool" where
  "legacy c \<longleftrightarrow> (\<exists>r. c = Json (PDict r) \<and> \<not> has_hmac r)"

definition chain_spec :: "mac \<Rightarrow> string \<Rightarrow> content list \<Rightarrow> bool" where
  "chain_spec mac key cs \<longleftrightarrow>
     (\<exists>old r rs. filter (\<lambda>c. c \<noteq> Blank) cs = old @ map (\<lambda>r. Json (PDict r)) (r # rs) \<and>
        list_all legacy old \<and> authentic mac key r \<and> linked mac key (pget r ''hmac'') rs)"

lemma authentic_has_hmac: "authentic mac key r \<Longrightarrow> has_hmac r"
  by (auto simp: authentic_def has_hmac_def pget_def split: option.splits dest: map_of_in_keys)

lemma has_hmac_get: "has_hmac r \<Longrightarrow> pget_default r ''hmac'' v = pget r ''hmac''"
  by (auto simp: has_hmac_def pget_def pget_default_def split: option.splits
      simp: map_of_eq_None_iff)

lemma hmac_errors_Nil [simp]: "hmac_errors mac key r = [] \<longleftrightarrow> authentic mac key r"
  by (simp add: hmac_errors_def authentic_def)

lemma add_errors_simps [simp]:
  "chain_errors (add_errors es st) = chain_errors st @ es"
  "prev_hmac (add_errors es st) = prev_hmac st"
  "chain_started (add_errors es st) = chain_started st"
  "anchor_seen (add_errors es st) = anchor_seen st"
  by (simp_all add: add_errors_def)

section \<open>The verifier decides the description\<close>

definition accepts :: "mac \<Rightarrow> string \<Rightarrow> chain_options \<Rightarrow> (string \<times> content) list \<Rightarrow> chain_state \<Rightarrow> bool" where
  "accepts mac key opts xs st \<longleftrightarrow>
     (\<exists>st'. verify_lines mac key opts xs st = Inr st' \<and> chain_errors st' = chain_errors st \<and>
        (chain_start opts \<noteq> None \<longrightarrow> anchor_seen st'))"

lemma verify_record_grows:
  "\<exists>es. chain_errors (verify_record mac key opts r st) = chain_errors st @ es"
  "anchor_seen st \<Longrightarrow> anchor_seen (verify_record mac key opts r st)"
  by (simp_all add: verify_record_def Let_def split: option.split)

lemma verify_line_grows:
  assumes "verify_line mac key opts name c st = Inr st'"
  shows "\<exists>es. chain_errors st' = chain_errors st @ es" "anchor_seen st \<Longrightarrow> anchor_seen st'"
proof -
  consider "st' = st" | "st' = add_errors [Malformed name] st" | r where "st' = verify_record mac key opts r st"
    using assms by (cases "(mac, key, opts, name, c, st)" rule: verify_line.cases) auto
  then show "\<exists>es. chain_errors st' = chain_errors st @ es" "anchor_seen st \<Longrightarrow> anchor_seen st'"
    by (cases; simp add: verify_record_grows)+
qed

lemma verify_lines_grows:
  "verify_lines mac key opts xs st = Inr st' \<Longrightarrow> \<exists>es. chain_errors st' = chain_errors st @ es"
proof (induction xs arbitrary: st)
  case (Cons x xs)
  obtain name c where x: "x = (name, c)" by force
  obtain st1 where st1: "verify_line mac key opts name c st = Inr st1"
      "verify_lines mac key opts xs st1 = Inr st'"
    using Cons.prems by (auto simp: x split: sum.splits)
  show ?case
    using verify_line_grows(1) [OF st1(1)] Cons.IH [OF st1(2)] by auto
qed simp

lemma verify_lines_anchor:
  "verify_lines mac key opts xs st = Inr st' \<Longrightarrow> anchor_seen st \<Longrightarrow> anchor_seen st'"
proof (induction xs arbitrary: st)
  case (Cons x xs)
  obtain name c where x: "x = (name, c)" by force
  obtain st1 where "verify_line mac key opts name c st = Inr st1"
      "verify_lines mac key opts xs st1 = Inr st'"
    using Cons.prems by (auto simp: x split: sum.splits)
  then show ?case using Cons.IH verify_line_grows(2) Cons.prems(2) by blast
qed simp

lemma accepts_Nil: "accepts mac key opts [] st \<longleftrightarrow> chain_start opts = None \<or> anchor_seen st"
  by (auto simp: accepts_def)

lemma accepts_Cons:
  "accepts mac key opts ((name, c) # xs) st \<longleftrightarrow>
   (\<exists>st1. verify_line mac key opts name c st = Inr st1 \<and> chain_errors st1 = chain_errors st \<and>
      accepts mac key opts xs st1)"
  (is "?L \<longleftrightarrow> ?R")
proof
  assume ?L
  then obtain st' where st': "verify_lines mac key opts ((name, c) # xs) st = Inr st'"
      "chain_errors st' = chain_errors st" "chain_start opts \<noteq> None \<longrightarrow> anchor_seen st'"
    unfolding accepts_def by blast
  then obtain st1 where st1: "verify_line mac key opts name c st = Inr st1"
      "verify_lines mac key opts xs st1 = Inr st'"
    by (auto split: sum.splits)
  obtain es es' where "chain_errors st1 = chain_errors st @ es" "chain_errors st' = chain_errors st1 @ es'"
    using verify_line_grows(1) [OF st1(1)] verify_lines_grows [OF st1(2)] by blast
  then have "chain_errors st1 = chain_errors st" using st'(2) by simp
  then show ?R using st1 st'(2,3) unfolding accepts_def by auto
next
  assume ?R
  then obtain st1 where "verify_line mac key opts name c st = Inr st1"
      "chain_errors st1 = chain_errors st" "accepts mac key opts xs st1"
    by blast
  then show ?L unfolding accepts_def by simp
qed

lemma verify_chain_files_accepts:
  "verify_chain_files mac key opts paths = Inr (True, []) \<longleftrightarrow>
   accepts mac key opts (lines_of paths) initial_chain"
  by (auto simp: verify_chain_files_def accepts_def initial_chain_def Let_def split: sum.splits)

lemma verify_chain_files_cases:
  "verify_chain_files mac key opts paths = Inr (ok, es) \<Longrightarrow> ok \<longleftrightarrow> es = []"
  by (auto simp: verify_chain_files_def Let_def split: sum.splits)

text \<open>Behind the start of the chain.\<close>

lemma linked_next:
  assumes "linked mac key h (r # rs)"
  shows "\<exists>s. pget r ''hmac'' = PStr s"
  using assms by (auto simp: authentic_def)

lemma linked_append:
  "linked mac key h (rs @ [r]) \<longleftrightarrow>
   linked mac key h rs \<and> authentic mac key r \<and>
   pget r ''prev_hash'' = (if rs = [] then h else pget (last rs) ''hmac'')"
  by (induction rs arbitrary: h) auto

lemma verify_record_inside:
  assumes "chain_started st" "anchor_seen st \<or> chain_start opts = None"
  shows "verify_record mac key opts r st =
    (let event_id = pget_default r ''event_id'' (PStr ''?'')
     in if \<not> has_hmac r then add_errors [MissingHmac event_id] st
        else (add_errors ((if py_eq (pget r ''prev_hash'') (prev_hmac st) then [] else [ChainBroken event_id]) @
                hmac_errors mac key r) st)\<lparr>prev_hmac := pget_default r ''hmac'' (PStr [])\<rparr>)"
proof -
  have "(if anchor_seen st then None else chain_start opts) = None" using assms(2) by auto
  moreover have "st\<lparr>chain_started := True\<rparr> = st" using assms(1) by simp
  ultimately show ?thesis using assms(1) by (simp add: verify_record_def Let_def)
qed

lemma accepts_started:
  assumes "chain_started st" "anchor_seen st \<or> chain_start opts = None" "prev_hmac st = PStr h"
  shows "accepts mac key opts xs st \<longleftrightarrow>
    (\<exists>rs. filter (\<lambda>c. c \<noteq> Blank) (map snd xs) = map (\<lambda>r. Json (PDict r)) rs \<and> linked mac key (PStr h) rs)"
  using assms
proof (induction xs arbitrary: st h)
  case Nil
  then show ?case by (auto simp: accepts_Nil)
next
  case (Cons x xs)
  obtain name c where x: "x = (name, c)" by force
  let ?links = "\<lambda>h cs. \<exists>rs. filter (\<lambda>c. c \<noteq> Blank) cs = map (\<lambda>r. Json (PDict r)) rs \<and> linked mac key (PStr h) rs"
  consider (blank) "c = Blank" | (row) r where "c = Json (PDict r)"
    | (other) "c \<noteq> Blank" "\<nexists>r. c = Json (PDict r)" by blast
  then show ?case
  proof cases
    case blank
    then show ?thesis using Cons.IH [OF Cons.prems] by (simp add: x accepts_Cons)
  next
    case other
    then have "\<not> accepts mac key opts (x # xs) st"
      by (cases "(mac, key, opts, name, c, st)" rule: verify_line.cases) (auto simp: x accepts_Cons)
    moreover have "\<not> ?links h (map snd (x # xs))"
      using other by (auto simp: x Cons_eq_map_conv)
    ultimately show ?thesis by simp
  next
    case row
    let ?st1 = "verify_record mac key opts r st"
    have st1: "chain_errors ?st1 = chain_errors st \<longleftrightarrow>
        pget r ''prev_hash'' = PStr h \<and> authentic mac key r"
      using Cons.prems authentic_has_hmac [of mac key r]
      by (auto simp: verify_record_inside Let_def)
    have right: "?links h (map snd (x # xs)) \<longleftrightarrow>
        pget r ''prev_hash'' = PStr h \<and> authentic mac key r \<and>
        (\<exists>rs. filter (\<lambda>c. c \<noteq> Blank) (map snd xs) = map (\<lambda>r. Json (PDict r)) rs \<and>
           linked mac key (pget r ''hmac'') rs)"
      by (auto simp: x row Cons_eq_map_conv)
    show ?thesis
    proof (cases "pget r ''prev_hash'' = PStr h \<and> authentic mac key r")
      case True
      then obtain s where s: "pget r ''hmac'' = PStr s" by (auto simp: authentic_def)
      have "chain_started ?st1" "anchor_seen ?st1 \<or> chain_start opts = None" "prev_hmac ?st1 = PStr s"
        using Cons.prems True authentic_has_hmac [of mac key r] s
        by (auto simp: verify_record_inside Let_def has_hmac_get)
      from Cons.IH [OF this] show ?thesis
        using st1 True s unfolding right by (simp add: x row accepts_Cons)
    next
      case False
      then show ?thesis using st1 unfolding right by (auto simp: x row accepts_Cons)
    qed
  qed
qed

text \<open>Searching the start, with the options of the store.\<close>

definition store_options :: "string option \<Rightarrow> chain_options" where
  "store_options start =
     \<lparr>tolerate_legacy = True, chain_start = start, allow_missing_anchor = True, allow_stale_anchor = True\<rparr>"

lemma store_options_simps [simp]:
  "tolerate_legacy (store_options s)" "chain_start (store_options s) = s"
  "allow_missing_anchor (store_options s)" "allow_stale_anchor (store_options s)"
  by (simp_all add: store_options_def)

lemma chain_spec_Cons:
  "chain_spec mac key (Blank # cs) = chain_spec mac key cs"
  "\<not> has_hmac r \<Longrightarrow> chain_spec mac key (Json (PDict r) # cs) = chain_spec mac key cs"
  "has_hmac r \<Longrightarrow> chain_spec mac key (Json (PDict r) # cs) \<longleftrightarrow>
     authentic mac key r \<and> (\<exists>rs. filter (\<lambda>c. c \<noteq> Blank) cs = map (\<lambda>r. Json (PDict r)) rs \<and>
        linked mac key (pget r ''hmac'') rs)"
proof -
  show "chain_spec mac key (Blank # cs) = chain_spec mac key cs" by (simp add: chain_spec_def)
next
  assume r: "\<not> has_hmac r"
  then have l: "legacy (Json (PDict r))" by (simp add: legacy_def)
  show "chain_spec mac key (Json (PDict r) # cs) = chain_spec mac key cs"
    (is "?L = ?R")
  proof
    assume ?L
    then obtain old q rs where o: "Json (PDict r) # filter (\<lambda>c. c \<noteq> Blank) cs = old @ map (\<lambda>r. Json (PDict r)) (q # rs)"
        "list_all legacy old" "authentic mac key q" "linked mac key (pget q ''hmac'') rs"
      by (auto simp: chain_spec_def)
    have "old \<noteq> []" using o(1,3) r authentic_has_hmac by auto
    then obtain old' where "old = Json (PDict r) # old'" using o(1) by (cases old) auto
    then show ?R using o unfolding chain_spec_def by auto
  next
    assume ?R
    then obtain old q rs where o: "filter (\<lambda>c. c \<noteq> Blank) cs = old @ map (\<lambda>r. Json (PDict r)) (q # rs)"
        "list_all legacy old" "authentic mac key q" "linked mac key (pget q ''hmac'') rs"
      by (auto simp: chain_spec_def)
    with l have "filter (\<lambda>c. c \<noteq> Blank) (Json (PDict r) # cs) =
        (Json (PDict r) # old) @ map (\<lambda>r. Json (PDict r)) (q # rs)"
      "list_all legacy (Json (PDict r) # old)" by auto
    with o(3,4) show ?L unfolding chain_spec_def by blast
  qed
next
  assume r: "has_hmac r"
  then have nl: "\<not> legacy (Json (PDict r))" by (simp add: legacy_def)
  have "(Json (PDict r) # fs = old @ map (\<lambda>r. Json (PDict r)) (q # rs) \<and> list_all legacy old) \<longleftrightarrow>
      old = [] \<and> q = r \<and> fs = map (\<lambda>r. Json (PDict r)) rs" for fs old q rs
    using nl by (cases old) auto
  then have key: "(Json (PDict r) # fs = old @ map (\<lambda>r. Json (PDict r)) (q # rs) \<and> list_all legacy old \<and> X) \<longleftrightarrow>
      old = [] \<and> q = r \<and> fs = map (\<lambda>r. Json (PDict r)) rs \<and> X" for fs old q rs X
    by blast
  have "filter (\<lambda>c. c \<noteq> Blank) (Json (PDict r) # cs) = Json (PDict r) # filter (\<lambda>c. c \<noteq> Blank) cs"
    by simp
  then show "chain_spec mac key (Json (PDict r) # cs) \<longleftrightarrow>
     authentic mac key r \<and> (\<exists>rs. filter (\<lambda>c. c \<noteq> Blank) cs = map (\<lambda>r. Json (PDict r)) rs \<and>
        linked mac key (pget r ''hmac'') rs)"
    unfolding chain_spec_def by (simp only: key) blast
qed

lemma chain_spec_bad:
  "c \<noteq> Blank \<Longrightarrow> \<nexists>r. c = Json (PDict r) \<Longrightarrow> \<not> chain_spec mac key (c # cs)"
  by (auto simp: chain_spec_def Cons_eq_append_conv legacy_def)

lemma accepts_search:
  assumes "\<not> chain_started st" "\<not> anchor_seen st"
  shows "accepts mac key (store_options (Some start)) xs st \<longleftrightarrow> chain_spec mac key (map snd xs)"
  using assms
proof (induction xs arbitrary: st)
  case Nil
  then show ?case by (simp add: accepts_Nil chain_spec_def)
next
  case (Cons x xs)
  let ?o = "store_options (Some start)"
  obtain name c where x: "x = (name, c)" by force
  consider (blank) "c = Blank" | (row) r where "c = Json (PDict r)"
    | (other) "c \<noteq> Blank" "\<nexists>r. c = Json (PDict r)" by blast
  then show ?case
  proof cases
    case blank
    then show ?thesis using Cons.IH [OF Cons.prems] by (simp add: x accepts_Cons chain_spec_Cons)
  next
    case other
    then have "\<not> accepts mac key ?o (x # xs) st"
      by (cases "(mac, key, ?o, name, c, st)" rule: verify_line.cases) (auto simp: x accepts_Cons)
    then show ?thesis using chain_spec_bad other by (simp add: x)
  next
    case row
    let ?st1 = "verify_record mac key ?o r st"
    show ?thesis
    proof (cases "has_hmac r")
      case False
      then have "?st1 = st" using Cons.prems by (simp add: verify_record_def)
      then show ?thesis
        using Cons.IH [OF Cons.prems] False by (simp add: x row accepts_Cons chain_spec_Cons)
    next
      case True
      have st1: "chain_errors ?st1 = chain_errors st \<longleftrightarrow> authentic mac key r"
          "chain_started ?st1" "anchor_seen ?st1" "prev_hmac ?st1 = pget r ''hmac''"
        using Cons.prems True by (simp_all add: verify_record_def Let_def has_hmac_get)
      show ?thesis
      proof (cases "authentic mac key r")
        case auth: True
        then obtain s where s: "pget r ''hmac'' = PStr s" by (auto simp: authentic_def)
        have "accepts mac key ?o xs ?st1 \<longleftrightarrow>
            (\<exists>rs. filter (\<lambda>c. c \<noteq> Blank) (map snd xs) = map (\<lambda>r. Json (PDict r)) rs \<and> linked mac key (PStr s) rs)"
          using st1 s by (intro accepts_started) simp_all
        then show ?thesis
          using True auth s st1 by (simp add: x row accepts_Cons chain_spec_Cons)
      next
        case False
        then show ?thesis using True st1 by (simp add: x row accepts_Cons chain_spec_Cons)
      qed
    qed
  qed
qed

text \<open>With no start given and no signed row, everything is tolerated.\<close>

lemma accepts_legacy:
  assumes "\<forall>x \<in> set xs. snd x = Blank \<or> legacy (snd x)" "\<not> chain_started st"
  shows "accepts mac key (store_options None) xs st"
  using assms
proof (induction xs)
  case (Cons x xs)
  obtain name c where x: "x = (name, c)" by force
  have "verify_line mac key (store_options None) name c st = Inr st"
    using Cons.prems by (auto simp: x legacy_def verify_record_def)
  with Cons show ?case by (simp add: x accepts_Cons)
qed (simp add: accepts_Nil)

end
