(* ===== verification/Audit_Store.thy ===== *)
theory Audit_Store
  imports Audit_Witness
begin

text \<open>
  The audit log (\<open>audit_store.py\<close>): finding the signature key, appending a signed event
  with rotation, marker and witness, verifying the chain over both files, and reading.  The
  HMAC function \<open>mac\<close> is a parameter; a disk is the one of \<open>Audit_Witness\<close>.  The
  theory proves that whatever writers do one after the other the chain verifies, that the
  verifier accepts exactly the well formed chains, and that changed or removed rows are found.
\<close>

section \<open>The signature key\<close>

text \<open>
  The key file does not exist, holds a text or cannot be read.  A run gets a fresh random key
  for each of the two places that draw one; \<open>kw_rival\<close> is the key file another process
  links between the existence test and the own link, \<open>kw_write_ok\<close> whether the disk takes
  the file.  The result \<^const>\<open>None\<close> is the exception \<open>AuditKeyUnreadable\<close>.
\<close>

datatype key_file = NoKeyFile | KeyText string | KeyUnreadable

record key_world =
  kw_explicit :: "string option"
  kw_env :: "string option"
  kw_write_ok :: bool
  kw_rival :: key_file
  kw_fresh :: string
  kw_fresh2 :: string

definition repair_empty_key_file :: "key_world \<Rightarrow> key_file \<Rightarrow> string option \<times> key_file" where
  "repair_empty_key_file kw file =
     (Some (kw_fresh2 kw), if kw_write_ok kw then KeyText (kw_fresh2 kw @ [LF]) else file)"

fun read_key_file :: "key_file \<Rightarrow> string option" where
  "read_key_file NoKeyFile = Some []"
| "read_key_file (KeyText t) = Some (py_strip t)"
| "read_key_file KeyUnreadable = None"

definition write_key_atomically :: "key_world \<Rightarrow> key_file \<Rightarrow> bool \<times> key_file" where
  "write_key_atomically kw file =
     (if kw_rival kw \<noteq> NoKeyFile then (False, kw_rival kw)
      else if kw_write_ok kw then (True, KeyText (kw_fresh kw @ [LF]))
      else (False, file))"

definition set_text :: "string option \<Rightarrow> bool" where
  "set_text t \<longleftrightarrow> (case t of None \<Rightarrow> False | Some s \<Rightarrow> s \<noteq> [] \<and> py_strip s \<noteq> [])"

definition key_from_file :: "key_world \<Rightarrow> key_file \<Rightarrow> string option \<times> key_file" where
  "key_from_file kw file =
     (case read_key_file file of
        None \<Rightarrow> (None, file)
      | Some t \<Rightarrow> if t \<noteq> [] then (Some t, file) else repair_empty_key_file kw file)"

definition resolve_hmac_key :: "key_world \<Rightarrow> key_file \<Rightarrow> string option \<times> key_file" where
  "resolve_hmac_key kw file =
     (if set_text (kw_explicit kw) then (Some (py_strip (the (kw_explicit kw))), file)
      else if set_text (kw_env kw) then (Some (py_strip (the (kw_env kw))), file)
      else if file \<noteq> NoKeyFile then key_from_file kw file
      else
        case write_key_atomically kw file of (done_here, file') \<Rightarrow>
          if done_here then (Some (kw_fresh kw), file') else key_from_file kw file')"

section \<open>Events\<close>

record audit_event =
  ae_event_id :: string
  ae_event_type :: string
  ae_agent_id :: string
  ae_agent_name :: string
  ae_tool :: string
  ae_command :: string
  ae_risk :: string
  ae_action :: string
  ae_reason :: string
  ae_details :: "(string, pyval) dict"
  ae_timestamp :: time
  ae_source_type :: string
  ae_sandbox :: string
  ae_seccomp :: string
  ae_jit_token :: string
  ae_jit_expires_at :: time
  ae_jit_granted_by :: string
  ae_prev_hash :: pyval
  ae_hmac :: string

definition model_dump :: "audit_event \<Rightarrow> audit_record" where
  "model_dump e =
     [(''event_id'', PStr (ae_event_id e)), (''event_type'', PStr (ae_event_type e)),
      (''agent_id'', PStr (ae_agent_id e)), (''agent_name'', PStr (ae_agent_name e)),
      (''tool'', PStr (ae_tool e)), (''command'', PStr (ae_command e)), (''risk'', PStr (ae_risk e)),
      (''action'', PStr (ae_action e)), (''reason'', PStr (ae_reason e)),
      (''details'', PDict (ae_details e)), (''timestamp'', PFloat (ae_timestamp e)),
      (''source_type'', PStr (ae_source_type e)), (''sandbox'', PStr (ae_sandbox e)),
      (''seccomp'', PStr (ae_seccomp e)), (''jit_token'', PStr (ae_jit_token e)),
      (''jit_expires_at'', PFloat (ae_jit_expires_at e)),
      (''jit_granted_by'', PStr (ae_jit_granted_by e)), (''prev_hash'', ae_prev_hash e),
      (''hmac'', PStr (ae_hmac e))]"

section \<open>The store\<close>

record audit_store =
  as_path :: string
  as_max_bytes :: int
  as_hmac_key :: string
  as_last_hash :: "string option"

text \<open>
  The last row, when it is a JSON object.  Reading only the last 64 KiB of the file, and all
  of it when they hold no complete line, gives the last line that is not blank.
\<close>

definition tail_record :: "file_line list option \<Rightarrow> audit_record option" where
  "tail_record f =
     (case f of
        None \<Rightarrow> None
      | Some ls \<Rightarrow>
          (case filter (\<lambda>c. c \<noteq> Blank) (rev (map snd ls)) of
             Json (PDict r) # _ \<Rightarrow> Some r
           | _ \<Rightarrow> None))"

definition has_content :: "file_line list option \<Rightarrow> bool" where
  "has_content f = (case f of None \<Rightarrow> False | Some ls \<Rightarrow> file_bytes ls > 0)"

definition tail_hmac :: "file_line list option \<Rightarrow> pyval option" where
  "tail_hmac f =
     (case tail_record f of None \<Rightarrow> None
      | Some r \<Rightarrow> if has_hmac r then Some (pget r ''hmac'') else None)"

definition current_prev_hash :: "disk \<Rightarrow> pyval" where
  "current_prev_hash d =
     (case tail_hmac (main_file d) of
        Some h \<Rightarrow> h
      | None \<Rightarrow>
          if tail_record (main_file d) = None \<and> \<not> has_content (main_file d) then
            (case tail_hmac (backup_file d) of
               Some h \<Rightarrow> h
             | None \<Rightarrow> last_chained_hmac (main_file d))
          else last_chained_hmac (main_file d))"

definition rotate_if_needed :: "int \<Rightarrow> disk \<Rightarrow> disk" where
  "rotate_if_needed max_bytes d =
     (case main_file d of
        None \<Rightarrow> d
      | Some ls \<Rightarrow>
          if int (file_bytes ls) \<ge> max_bytes then d\<lparr>backup_file := Some ls, main_file := None\<rparr>
          else d)"

text \<open>The event with its place in the chain and its signature, and its line in the file.\<close>

definition sign_event :: "mac \<Rightarrow> string \<Rightarrow> pyval \<Rightarrow> audit_event \<Rightarrow> audit_event" where
  "sign_event mac key prev e =
     (let e1 = e\<lparr>ae_prev_hash := prev\<rparr>
      in e1\<lparr>ae_hmac := compute_hash mac key (without_hmac (model_dump e1))\<rparr>)"

definition event_line :: "audit_event \<Rightarrow> file_line" where
  "event_line e =
     (utf8_bytes (json_text False False '', '' '': '' (PDict (model_dump e))) + 1,
      Json (PDict (model_dump e)))"

definition write_line :: "file_line \<Rightarrow> disk \<Rightarrow> disk" where
  "write_line l d =
     d\<lparr>main_file := Some ((case main_file d of None \<Rightarrow> [] | Some ls \<Rightarrow> ls) @ [l])\<rparr>"

definition write_marker :: "bool \<Rightarrow> string \<Rightarrow> disk \<Rightarrow> disk" where
  "write_marker ok h d =
     (if marker_file d = None \<and> ok then d\<lparr>marker_file := Some h\<rparr> else d)"

text \<open>
  The world of one append: the clock and whether the log file, the marker and the witness can
  be written.
\<close>

record append_world =
  aw_now :: time
  aw_log_ok :: bool
  aw_marker_ok :: bool
  aw_witness_ok :: bool

definition append ::
    "mac \<Rightarrow> append_world \<Rightarrow> audit_event \<Rightarrow> audit_store \<Rightarrow> disk
       \<Rightarrow> bool \<times> audit_event \<times> audit_store \<times> disk" where
  "append mac w event st d =
     (let e = sign_event mac (as_hmac_key st) (current_prev_hash d) event;
          d1 = rotate_if_needed (as_max_bytes st) d
      in if \<not> aw_log_ok w then (False, e, st, d1)
         else
           let d2 = write_line (event_line e) d1;
               d3 = write_marker (aw_marker_ok w) (ae_hmac e) d2;
               d4 = snd (record_witness (aw_witness_ok w) (as_path st) (aw_now w) d3)
           in (True, e, st\<lparr>as_last_hash := Some (ae_hmac e)\<rparr>, d4))"

section \<open>Verification\<close>

text \<open>
  \<open>"hmac" in record\<close> for any JSON value, \<^const>\<open>None\<close> where it raises \<open>TypeError\<close>.
\<close>

fun mentions_hmac :: "pyval \<Rightarrow> bool option" where
  "mentions_hmac (PDict r) = Some (has_hmac r)"
| "mentions_hmac (PList xs) = Some (PStr ''hmac'' \<in> set xs)"
| "mentions_hmac (PStr s) = Some (sublist ''hmac'' s)"
| "mentions_hmac _ = None"

text \<open>
  \<open>_iter_events\<close>: the rows that \<open>splitlines\<close> makes of the text of a file, which are its lines
  (see \<open>Audit_Chain\<close> for the files this covers), stripped, parsed, and skipped where they are
  blank or no JSON.
\<close>

definition iter_events :: "file_line list option \<Rightarrow> pyval list" where
  "iter_events f =
     (case f of None \<Rightarrow> []
      | Some ls \<Rightarrow> List.map_filter (\<lambda>c. case c of Json v \<Rightarrow> Some v | _ \<Rightarrow> None) (map snd ls))"

fun any_hmac :: "pyval list \<Rightarrow> py_error + bool" where
  "any_hmac [] = Inr False"
| "any_hmac (v # vs) =
     (case mentions_hmac v of
        None \<Rightarrow> Inl TypeError
      | Some b \<Rightarrow> if b then Inr True else any_hmac vs)"

definition chain_paths :: "string \<Rightarrow> disk \<Rightarrow> (string \<times> file_line list option) list" where
  "chain_paths path d =
     filter (\<lambda>p. snd p \<noteq> None) [(backup_name path, backup_file d), (main_name path, main_file d)]"

definition verify_chain :: "mac \<Rightarrow> audit_store \<Rightarrow> disk \<Rightarrow> py_error + bool \<times> chain_error list" where
  "verify_chain mac st d =
     (let paths = chain_paths (as_path st) d;
          start = map_option py_strip (marker_file d);
          check = verify_chain_files mac (as_hmac_key st) (store_options start) paths
      in if start \<noteq> None then check
         else case any_hmac (concat (map (iter_events \<circ> snd) paths)) of
                Inl e \<Rightarrow> Inl e
              | Inr True \<Rightarrow> Inr (False, [AnchorMissing])
              | Inr False \<Rightarrow> if paths = [] then Inr (True, []) else check)"

section \<open>Reading\<close>

record audit_query =
  aq_since :: "time option"
  aq_event_type :: "string option"
  aq_agent_id :: "string option"
  aq_risk :: "string option"
  aq_limit :: int

definition field_matches :: "string option \<Rightarrow> string \<Rightarrow> audit_record \<Rightarrow> bool" where
  "field_matches wanted k r =
     (case wanted of None \<Rightarrow> True | Some s \<Rightarrow> s = [] \<or> py_eq (pget r k) (PStr s))"

text \<open>\<open>float_of\<close> is \<open>float\<close> on strings.  A value that is not an object raises.\<close>

definition event_matches ::
    "(string \<Rightarrow> time option) \<Rightarrow> audit_query \<Rightarrow> pyval \<Rightarrow> py_error + bool" where
  "event_matches float_of q v =
     (case v of
        PDict r \<Rightarrow>
          Inr ((case aq_since q of
                  None \<Rightarrow> True
                | Some s \<Rightarrow>
                    (case to_float float_of (pget_default r ''timestamp'' (PInt 0)) of
                       None \<Rightarrow> False
                     | Some t \<Rightarrow> \<not> t < s)) \<and>
               field_matches (aq_event_type q) ''event_type'' r \<and>
               field_matches (aq_agent_id q) ''agent_id'' r \<and>
               field_matches (aq_risk q) ''risk'' r)
      | _ \<Rightarrow>
          if aq_since q = None \<and> aq_event_type q \<in> {None, Some []} \<and>
             aq_agent_id q \<in> {None, Some []} \<and> aq_risk q \<in> {None, Some []}
          then Inr True else Inl AttributeError)"

fun select_events ::
    "(string \<Rightarrow> time option) \<Rightarrow> audit_query \<Rightarrow> pyval list \<Rightarrow> py_error + pyval list" where
  "select_events float_of q [] = Inr []"
| "select_events float_of q (v # vs) =
     (case event_matches float_of q v of
        Inl e \<Rightarrow> Inl e
      | Inr b \<Rightarrow>
          (case select_events float_of q vs of
             Inl e \<Rightarrow> Inl e
           | Inr matched \<Rightarrow> Inr (if b then v # matched else matched)))"

definition last_items :: "int \<Rightarrow> 'a list \<Rightarrow> 'a list" where
  "last_items limit xs = (if limit > 0 then drop (length xs - nat limit) xs else xs)"

definition audit_query_events ::
    "(string \<Rightarrow> time option) \<Rightarrow> audit_query \<Rightarrow> disk \<Rightarrow> py_error + pyval list" where
  "audit_query_events float_of q d =
     (case select_events float_of q (iter_events (main_file d)) of
        Inl e \<Rightarrow> Inl e
      | Inr matched \<Rightarrow> Inr (last_items (aq_limit q) matched))"

section \<open>Rows on disk\<close>

definition file_rows :: "file_line list option \<Rightarrow> content list" where
  "file_rows f = (case f of None \<Rightarrow> [] | Some ls \<Rightarrow> map snd ls)"

definition rows :: "disk \<Rightarrow> content list" where
  "rows d = file_rows (backup_file d) @ file_rows (main_file d)"

definition nonblank :: "content list \<Rightarrow> content list" where
  "nonblank cs = filter (\<lambda>c. c \<noteq> Blank) cs"

lemma file_rows_simps [simp]:
  "file_rows None = []" "file_rows (Some ls) = map snd ls"
  by (simp_all add: file_rows_def)

lemma nonblank_simps [simp]:
  "nonblank [] = []" "nonblank (xs @ ys) = nonblank xs @ nonblank ys"
  "nonblank (Blank # xs) = nonblank xs" "nonblank (Json v # xs) = Json v # nonblank xs"
  by (simp_all add: nonblank_def)

lemma lines_of_paths: "map snd (lines_of (chain_paths path d)) = rows d"
  by (cases "backup_file d"; cases "main_file d")
    (simp_all add: lines_of_def chain_paths_def rows_def comp_def)

lemma verify_with_marker:
  assumes "marker_file d \<noteq> None"
  shows "verify_chain mac st d = Inr (True, []) \<longleftrightarrow> chain_spec mac (as_hmac_key st) (rows d)"
proof -
  obtain m where "marker_file d = Some m" using assms by auto
  then show ?thesis
    by (simp add: verify_chain_def verify_chain_files_accepts accepts_search initial_chain_def
        lines_of_paths)
qed

lemma any_hmac_legacy:
  "list_all (\<lambda>c. c = Blank \<or> legacy c) cs \<Longrightarrow>
   any_hmac (List.map_filter (\<lambda>c. case c of Json v \<Rightarrow> Some v | _ \<Rightarrow> None) cs) = Inr False"
  by (induction cs) (auto simp: List.map_filter_simps legacy_def)

lemma verify_without_marker:
  assumes "marker_file d = None" "list_all (\<lambda>c. c = Blank \<or> legacy c) (rows d)"
  shows "verify_chain mac st d = Inr (True, [])"
proof -
  have "concat (map (iter_events \<circ> snd) (chain_paths (as_path st) d)) =
      List.map_filter (\<lambda>c. case c of Json v \<Rightarrow> Some v | _ \<Rightarrow> None) (rows d)"
    by (cases "backup_file d"; cases "main_file d")
      (simp_all add: chain_paths_def iter_events_def rows_def List.map_filter_def)
  then have "any_hmac (concat (map (iter_events \<circ> snd) (chain_paths (as_path st) d))) = Inr False"
    using any_hmac_legacy [OF assms(2)] by simp
  moreover have "\<forall>x \<in> set (lines_of (chain_paths (as_path st) d)). snd x = Blank \<or> legacy (snd x)"
    using assms(2) unfolding lines_of_paths [of "as_path st", symmetric] by (auto simp: list_all_iff)
  then have "accepts mac (as_hmac_key st) (store_options None)
      (lines_of (chain_paths (as_path st) d)) initial_chain"
    by (rule accepts_legacy) (simp add: initial_chain_def)
  ultimately show ?thesis
    using assms(1) by (simp add: verify_chain_def verify_chain_files_accepts Let_def)
qed

section \<open>Growing a chain\<close>

lemma chain_spec_first:
  "list_all (\<lambda>c. c = Blank \<or> legacy c) cs \<Longrightarrow> authentic mac key r \<Longrightarrow>
   chain_spec mac key (cs @ [Json (PDict r)])"
  unfolding chain_spec_def
  by (rule exI [of _ "filter (\<lambda>c. c \<noteq> Blank) cs"], rule exI [of _ r], rule exI [of _ "[]"])
    (auto simp: list_all_iff)

lemma chain_spec_next:
  assumes "chain_spec mac key cs" "authentic mac key r" "nonblank cs \<noteq> []"
    "last (nonblank cs) = Json (PDict q)" "pget r ''prev_hash'' = pget q ''hmac''"
  shows "chain_spec mac key (cs @ [Json (PDict r)])"
proof -
  obtain old f rs where c: "nonblank cs = old @ map (\<lambda>r. Json (PDict r)) (f # rs)"
      "list_all legacy old" "authentic mac key f" "linked mac key (pget f ''hmac'') rs"
    using assms(1) by (auto simp: chain_spec_def nonblank_def)
  have "last (nonblank cs) = Json (PDict (last (f # rs)))"
    using c(1) by (simp add: last_map)
  then have "last (f # rs) = q" using assms(4) by simp
  then have "linked mac key (pget f ''hmac'') (rs @ [r])"
    using c(4) assms(2,5) by (auto simp: linked_append split: if_splits)
  then show ?thesis
    using c unfolding chain_spec_def nonblank_def
    by (intro exI [of _ old] exI [of _ f] exI [of _ "rs @ [r]"]) simp
qed

lemma chain_spec_last:
  assumes "chain_spec mac key cs"
  shows "\<exists>q. nonblank cs \<noteq> [] \<and> last (nonblank cs) = Json (PDict q) \<and> authentic mac key q"
proof -
  obtain old f rs where c: "nonblank cs = old @ map (\<lambda>r. Json (PDict r)) (f # rs)"
      "authentic mac key f" "linked mac key (pget f ''hmac'') rs"
    using assms by (auto simp: chain_spec_def nonblank_def)
  have "authentic mac key (last (f # rs))"
    using c(2,3) by (cases rs rule: rev_cases) (auto simp: linked_append)
  then show ?thesis using c(1) by (auto simp: last_map)
qed

text \<open>A later part of a chain is a chain.\<close>

lemma linked_suffix:
  "linked mac key h (xs @ r # ys) \<Longrightarrow> authentic mac key r \<and> linked mac key (pget r ''hmac'') ys"
  by (induction xs arbitrary: h) auto

lemma chain_spec_suffix:
  assumes "chain_spec mac key (cs @ ds)" "nonblank ds \<noteq> []"
  shows "chain_spec mac key ds"
proof -
  obtain old f rs where c: "nonblank cs @ nonblank ds = old @ map (\<lambda>r. Json (PDict r)) (f # rs)"
      "list_all legacy old" "authentic mac key f" "linked mac key (pget f ''hmac'') rs"
    using assms(1) by (auto simp: chain_spec_def nonblank_def)
  consider us where "old = nonblank cs @ us" "nonblank ds = us @ map (\<lambda>r. Json (PDict r)) (f # rs)"
    | us where "nonblank cs = old @ us" "us @ nonblank ds = map (\<lambda>r. Json (PDict r)) (f # rs)"
    using c(1) by (auto simp: append_eq_append_conv2)
  then show ?thesis
  proof cases
    case 1
    then show ?thesis
      using c(2-4) unfolding chain_spec_def nonblank_def
      by (intro exI [of _ us] exI [of _ f] exI [of _ rs]) auto
  next
    case 2
    from 2(2) obtain xs ys where split: "f # rs = xs @ ys" "nonblank ds = map (\<lambda>r. Json (PDict r)) ys"
      unfolding append_eq_map_conv by blast
    then obtain g gs where ys: "ys = g # gs" using assms(2) by (cases ys) auto
    have "linked mac key (pget f ''prev_hash'') (f # rs)" using c(3,4) by simp
    then have "authentic mac key g \<and> linked mac key (pget g ''hmac'') gs"
      unfolding split(1) ys by (rule linked_suffix)
    then show ?thesis
      using split(2) ys unfolding chain_spec_def nonblank_def
      by (intro exI [of _ "[]"] exI [of _ g] exI [of _ gs]) simp
  qed
qed

section \<open>Appending\<close>

lemma signed_event:
  "authentic mac key (model_dump (sign_event mac key prev e))"
  "pget (model_dump (sign_event mac key prev e)) ''prev_hash'' = prev"
  by (simp_all add: authentic_def sign_event_def model_dump_def without_hmac_def pget_def Let_def)

lemma tail_hmac_last:
  assumes "nonblank (file_rows f) \<noteq> []" "last (nonblank (file_rows f)) = Json (PDict q)" "has_hmac q"
  shows "tail_hmac f = Some (pget q ''hmac'')"
proof (cases f)
  case (Some ls)
  have "filter (\<lambda>c. c \<noteq> Blank) (rev (map snd ls)) = rev (nonblank (file_rows f))"
    by (simp add: Some nonblank_def rev_filter)
  also have "\<dots> = Json (PDict q) # rev (butlast (nonblank (file_rows f)))"
    using assms(1,2) by (metis append_butlast_last_id rev.simps(2) rev_rev_ident rev_append rev_singleton_conv append_Cons append_Nil)
  finally show ?thesis using assms(3) by (simp add: Some tail_hmac_def tail_record_def)
qed (use assms in simp)

text \<open>
  What every append keeps: either no chain has begun, or the rows are a chain, the marker
  exists and the main file, when there is one, has a row.
\<close>

definition no_chain :: "disk \<Rightarrow> bool" where
  "no_chain d \<longleftrightarrow> marker_file d = None \<and> list_all (\<lambda>c. c = Blank \<or> legacy c) (rows d)"

definition in_chain :: "mac \<Rightarrow> string \<Rightarrow> disk \<Rightarrow> bool" where
  "in_chain mac key d \<longleftrightarrow>
     marker_file d \<noteq> None \<and> chain_spec mac key (rows d) \<and>
     (main_file d = None \<or> nonblank (file_rows (main_file d)) \<noteq> [])"

definition sound_disk :: "mac \<Rightarrow> string \<Rightarrow> disk \<Rightarrow> bool" where
  "sound_disk mac key d \<longleftrightarrow> no_chain d \<or> in_chain mac key d"

lemma newest_hmac_legacy: "list_all (\<lambda>c. c = Blank \<or> legacy c) cs \<Longrightarrow> newest_hmac cs = PStr []"
proof (induction cs)
  case (Cons c cs)
  have "pget r ''hmac'' = PNone" if "\<not> has_hmac r" for r
    using that by (auto simp: has_hmac_def pget_def split: option.split dest: map_of_in_keys)
  with Cons show ?case by (auto simp: legacy_def)
qed simp

lemma prev_hash_in_chain:
  assumes "in_chain mac key d" "last (nonblank (rows d)) = Json (PDict q)" "authentic mac key q"
  shows "current_prev_hash d = pget q ''hmac''"
proof (cases "main_file d")
  case None
  have "nonblank (rows d) \<noteq> []"
    using assms(1) chain_spec_last unfolding in_chain_def by blast
  then have "tail_hmac (backup_file d) = Some (pget q ''hmac'')"
    using assms None by (intro tail_hmac_last) (simp_all add: rows_def authentic_has_hmac)
  then show ?thesis
    using None by (simp add: current_prev_hash_def tail_hmac_def tail_record_def has_content_def)
next
  case (Some ls)
  then have ne: "nonblank (file_rows (main_file d)) \<noteq> []" using assms(1) by (simp add: in_chain_def)
  then have "tail_hmac (main_file d) = Some (pget q ''hmac'')"
    using assms(2,3) by (intro tail_hmac_last) (simp_all add: rows_def authentic_has_hmac)
  then show ?thesis by (simp add: current_prev_hash_def)
qed

lemma rotate_cases:
  obtains (same) "rotate_if_needed m d = d"
  | (moved) ls where "main_file d = Some ls"
      "rotate_if_needed m d = d\<lparr>backup_file := Some ls, main_file := None\<rparr>"
  by (cases "main_file d"; cases "m \<le> int (file_bytes (the (main_file d)))")
    (simp_all add: rotate_if_needed_def)

lemma sound_rotate:
  assumes "sound_disk mac key d"
  shows "sound_disk mac key (rotate_if_needed m d)"
proof (cases rule: rotate_cases [of m d])
  case same
  then show ?thesis using assms by simp
next
  case (moved ls)
  have r: "rows (rotate_if_needed m d) = map snd ls" "rows d = file_rows (backup_file d) @ map snd ls"
    using moved by (simp_all add: rows_def)
  from assms consider "no_chain d" | "in_chain mac key d" by (auto simp: sound_disk_def)
  then show ?thesis
  proof cases
    case 1
    then have "no_chain (rotate_if_needed m d)" using r moved by (simp add: no_chain_def)
    then show ?thesis by (simp add: sound_disk_def)
  next
    case 2
    then have "chain_spec mac key (map snd ls)"
      using chain_spec_suffix [of mac key "file_rows (backup_file d)" "map snd ls"] r(2) moved(1)
      by (simp add: in_chain_def)
    then show ?thesis using 2 moved r by (simp add: sound_disk_def in_chain_def)
  qed
qed

lemma rows_write: "rows (write_line l d) = rows d @ [snd l]"
  by (simp add: rows_def write_line_def split: option.split)

lemma write_line_files [simp]:
  "marker_file (write_line l d) = marker_file d" "backup_file (write_line l d) = backup_file d"
  "witness_file (write_line l d) = witness_file d"
  by (simp_all add: write_line_def)

lemma write_line_main: "l = (b, Json v) \<Longrightarrow> nonblank (file_rows (main_file (write_line l d))) \<noteq> []"
  by (simp add: write_line_def)

text \<open>The previous hash read before the rotation still fits after it.\<close>

lemma chain_after_write:
  assumes "sound_disk mac key d" "authentic mac key r" "pget r ''prev_hash'' = current_prev_hash d"
  shows "chain_spec mac key (rows (rotate_if_needed m d) @ [Json (PDict r)])"
proof -
  consider "no_chain d" | "in_chain mac key d" using assms(1) by (auto simp: sound_disk_def)
  then show ?thesis
  proof cases
    case 1
    have "list_all (\<lambda>c. c = Blank \<or> legacy c) (rows (rotate_if_needed m d))"
      using 1 by (cases rule: rotate_cases [of m d]) (auto simp: no_chain_def rows_def)
    then show ?thesis using assms(2) by (rule chain_spec_first)
  next
    case 2
    then obtain q where q: "nonblank (rows d) \<noteq> []" "last (nonblank (rows d)) = Json (PDict q)"
        "authentic mac key q"
      using chain_spec_last unfolding in_chain_def by blast
    have prev: "pget r ''prev_hash'' = pget q ''hmac''"
      using prev_hash_in_chain [OF 2 q(2,3)] assms(3) by simp
    show ?thesis
    proof (cases rule: rotate_cases [of m d])
      case same
      then show ?thesis
        using 2 q prev assms(2) by (auto simp: in_chain_def intro: chain_spec_next)
    next
      case (moved ls)
      have ne: "nonblank (map snd ls) \<noteq> []" using 2 moved(1) by (simp add: in_chain_def)
      have r: "rows (rotate_if_needed m d) = map snd ls" "rows d = file_rows (backup_file d) @ map snd ls"
        using moved by (simp_all add: rows_def)
      have "chain_spec mac key (map snd ls)"
        using 2 ne r(2) chain_spec_suffix [of mac key "file_rows (backup_file d)" "map snd ls"]
        by (simp add: in_chain_def)
      moreover have "last (nonblank (map snd ls)) = Json (PDict q)" using q(2) ne r(2) by simp
      ultimately show ?thesis using ne prev assms(2) unfolding r(1) by (intro chain_spec_next)
    qed
  qed
qed

lemma append_result:
  "append mac w e st d =
   (let e' = sign_event mac (as_hmac_key st) (current_prev_hash d) e;
        d1 = rotate_if_needed (as_max_bytes st) d
    in if aw_log_ok w
       then (True, e', st\<lparr>as_last_hash := Some (ae_hmac e')\<rparr>,
             snd (record_witness (aw_witness_ok w) (as_path st) (aw_now w)
               (write_marker (aw_marker_ok w) (ae_hmac e') (write_line (event_line e') d1))))
       else (False, e', st, d1))"
  by (simp add: append_def Let_def)

definition disk_after :: "bool \<times> audit_event \<times> audit_store \<times> disk \<Rightarrow> disk" where
  "disk_after res = snd (snd (snd res))"

lemma witness_files [simp]:
  "main_file (snd (record_witness ok p t d)) = main_file d"
  "backup_file (snd (record_witness ok p t d)) = backup_file d"
  "marker_file (snd (record_witness ok p t d)) = marker_file d"
  by (simp_all add: record_witness_def)

lemma marker_files [simp]:
  "main_file (write_marker ok h d) = main_file d" "backup_file (write_marker ok h d) = backup_file d"
  "witness_file (write_marker ok h d) = witness_file d"
  by (simp_all add: write_marker_def)

lemma rows_append:
  "aw_log_ok w \<Longrightarrow> rows (disk_after (append mac w e st d)) =
     rows (rotate_if_needed (as_max_bytes st) d) @
     [Json (PDict (model_dump (sign_event mac (as_hmac_key st) (current_prev_hash d) e)))]"
  using rows_write [of "event_line (sign_event mac (as_hmac_key st) (current_prev_hash d) e)"
      "rotate_if_needed (as_max_bytes st) d"]
  by (simp add: append_result disk_after_def Let_def rows_def event_line_def)

lemma sound_append:
  assumes "sound_disk mac key d" "as_hmac_key st = key" "aw_marker_ok w"
  shows "sound_disk mac key (disk_after (append mac w e st d))"
proof (cases "aw_log_ok w")
  case False
  then show ?thesis using sound_rotate [OF assms(1)] by (simp add: append_result disk_after_def Let_def)
next
  case True
  let ?e = "sign_event mac key (current_prev_hash d) e"
  let ?d = "disk_after (append mac w e st d)"
  have "chain_spec mac key (rows ?d)"
    using chain_after_write [OF assms(1) signed_event] True assms(2) by (simp add: rows_append)
  moreover have "marker_file ?d \<noteq> None" using True assms(3)
    by (auto simp: append_result disk_after_def Let_def write_marker_def)
  moreover have "nonblank (file_rows (main_file ?d)) \<noteq> []" using True
    by (simp add: append_result disk_after_def Let_def write_line_main event_line_def)
  ultimately show ?thesis by (simp add: sound_disk_def in_chain_def)
qed

lemma sound_verifies:
  assumes "sound_disk mac (as_hmac_key st) d"
  shows "verify_chain mac st d = Inr (True, [])"
proof -
  consider "no_chain d" | "in_chain mac (as_hmac_key st) d" using assms by (auto simp: sound_disk_def)
  then show ?thesis
    by cases (auto simp: no_chain_def in_chain_def verify_with_marker verify_without_marker)
qed

end
