(* ===== verification/Audit_Log.thy ===== *)
theory Audit_Log
  imports Audit_Store
begin

text \<open>
  What the audit log promises, over sequences of appends by any writers that share the key:
  the interface of a log that always verifies with its instance, the rows on disk as a suffix
  of everything appended, the exact set of disks the verifier accepts, the detection of changed
  rows, and the division of labour with the witness.
\<close>

section \<open>A log that verifies after every operation\<close>

locale verified_log =
  fixes good :: "'s \<Rightarrow> bool"
    and step :: "'op \<Rightarrow> 's \<Rightarrow> 's"
    and allowed :: "'op \<Rightarrow> bool"
    and accepted :: "'s \<Rightarrow> bool"
  assumes good_step: "good s \<Longrightarrow> allowed op \<Longrightarrow> good (step op s)"
    and good_accepted: "good s \<Longrightarrow> accepted s"
begin

lemma good_run: "good s \<Longrightarrow> list_all allowed ops \<Longrightarrow> good (fold step ops s)"
  by (induction ops arbitrary: s) (auto intro: good_step)

lemma accepted_run: "good s \<Longrightarrow> list_all allowed ops \<Longrightarrow> accepted (fold step ops s)"
  by (rule good_accepted [OF good_run])

end

text \<open>An append by some store object in some world.\<close>

type_synonym append_op = "append_world \<times> audit_event \<times> audit_store"

fun append_op :: "mac \<Rightarrow> append_op \<Rightarrow> disk \<Rightarrow> disk" where
  "append_op mac (w, e, st) d = disk_after (append mac w e st d)"

definition same_key :: "string \<Rightarrow> append_op \<Rightarrow> bool" where
  "same_key key op \<longleftrightarrow> (case op of (w, e, st) \<Rightarrow> as_hmac_key st = key \<and> aw_marker_ok w)"

definition verifies :: "mac \<Rightarrow> string \<Rightarrow> disk \<Rightarrow> bool" where
  "verifies mac key d \<longleftrightarrow> (\<forall>st. as_hmac_key st = key \<longrightarrow> verify_chain mac st d = Inr (True, []))"

interpretation audit: verified_log "sound_disk mac key" "append_op mac" "same_key key" "verifies mac key"
  for mac key
  by unfold_locales (auto simp: same_key_def verifies_def sound_append sound_verifies)


section \<open>The rows are the end of the log\<close>

text \<open>Every record that was appended, in order.\<close>

fun appended_records :: "mac \<Rightarrow> append_op list \<Rightarrow> disk \<Rightarrow> audit_record list" where
  "appended_records mac [] d = []"
| "appended_records mac ((w, e, st) # ops) d =
     (case append mac w e st d of (ok, e', st', d') \<Rightarrow>
        (if ok then [model_dump e'] else []) @ appended_records mac ops d')"

definition log_rows :: "audit_record list \<Rightarrow> content list" where
  "log_rows rs = map (\<lambda>r. Json (PDict r)) rs"

lemma rotate_suffix: "suffix (rows (rotate_if_needed m d)) (rows d)"
  by (cases rule: rotate_cases [of m d]) (auto simp: rows_def suffix_def)

lemma append_rows:
  "\<exists>new. suffix (rows (append_op mac (w, e, st) d)) (rows d @ new) \<and>
     appended_records mac ((w, e, st) # ops) d =
       (if aw_log_ok w then [model_dump (sign_event mac (as_hmac_key st) (current_prev_hash d) e)] else []) @
       appended_records mac ops (append_op mac (w, e, st) d) \<and>
     new = (if aw_log_ok w then log_rows [model_dump (sign_event mac (as_hmac_key st) (current_prev_hash d) e)] else [])"
proof (cases "aw_log_ok w")
  case True
  then show ?thesis
    using rotate_suffix [of "as_max_bytes st" d]
    by (auto simp: rows_append log_rows_def suffix_def) (simp add: append_result disk_after_def Let_def)
next
  case False
  then show ?thesis
    using rotate_suffix [of "as_max_bytes st" d] by (simp add: append_result disk_after_def Let_def)
qed

text \<open>
  C37: Against a log that only grows, the two files of the store are a window on its end: after
  any sequence of appends the rows on disk are a suffix of the rows that were there before
  followed by the records of all successful appends, in order.
\<close>
theorem rows_refine_log:
  "suffix (rows (fold (append_op mac) ops d)) (rows d @ log_rows (appended_records mac ops d))"
proof (induction ops arbitrary: d)
  case (Cons op ops)
  obtain w e st where op: "op = (w, e, st)" by (metis prod_cases3)
  let ?d = "append_op mac op d"
  obtain new where new: "suffix (rows ?d) (rows d @ new)"
      "log_rows (appended_records mac (op # ops) d) = new @ log_rows (appended_records mac ops ?d)"
    using append_rows [of mac w e st d ops] by (auto simp: op log_rows_def)
  have "suffix (rows (fold (append_op mac) ops ?d)) (rows ?d @ log_rows (appended_records mac ops ?d))"
    by (rule Cons.IH)
  moreover have "suffix (rows ?d @ log_rows (appended_records mac ops ?d))
      ((rows d @ new) @ log_rows (appended_records mac ops ?d))"
    using new(1) by (simp only: same_suffix_suffix)
  ultimately have "suffix (rows (fold (append_op mac) ops ?d))
      ((rows d @ new) @ log_rows (appended_records mac ops ?d))"
    by (rule suffix_order.trans)
  then show ?case using new(2) by simp
qed (simp add: log_rows_def)

section \<open>What the verifier accepts\<close>

lemma any_hmac_false:
  "any_hmac vs = Inr False \<Longrightarrow> PDict r \<in> set vs \<Longrightarrow> \<not> has_hmac r"
  by (induction vs) (auto split: option.splits if_splits)

lemma accepts_unsigned:
  "accepts mac key (store_options None) xs st \<Longrightarrow> \<forall>r. Json (PDict r) \<in> snd ` set xs \<longrightarrow> \<not> has_hmac r \<Longrightarrow>
   \<not> chain_started st \<Longrightarrow> list_all (\<lambda>c. c = Blank \<or> legacy c) (map snd xs)"
proof (induction xs)
  case (Cons x xs)
  obtain name c where x: "x = (name, c)" by force
  obtain st1 where st1: "verify_line mac key (store_options None) name c st = Inr st1"
      "chain_errors st1 = chain_errors st" "accepts mac key (store_options None) xs st1"
    using Cons.prems(1) by (auto simp: x accepts_Cons)
  have "(c = Blank \<or> legacy c) \<and> st1 = st"
    using st1(1,2) Cons.prems(2,3)
    by (cases "(mac, key, store_options None, name, c, st)" rule: verify_line.cases)
      (auto simp: x legacy_def verify_record_def)
  then show ?case using Cons.IH st1(3) Cons.prems(2,3) by (simp add: x)
qed simp

lemma events_of_rows:
  "concat (map (iter_events \<circ> snd) (chain_paths path d)) =
   List.map_filter (\<lambda>c. case c of Json v \<Rightarrow> Some v | _ \<Rightarrow> None) (rows d)"
  by (cases "backup_file d"; cases "main_file d")
    (simp_all add: chain_paths_def iter_events_def rows_def List.map_filter_def)

lemma verify_no_marker_only:
  assumes m: "marker_file d = None" and ok: "verify_chain mac st d = Inr (True, [])"
  shows "list_all (\<lambda>c. c = Blank \<or> legacy c) (rows d)"
proof -
  let ?vs = "List.map_filter (\<lambda>c. case c of Json v \<Rightarrow> Some v | _ \<Rightarrow> None) (rows d)"
  let ?paths = "chain_paths (as_path st) d"
  have any: "any_hmac ?vs = Inr False"
    using ok m by (auto simp: verify_chain_def events_of_rows Let_def split: sum.splits bool.splits)
  have unsigned: "\<not> has_hmac r" if "Json (PDict r) \<in> set (rows d)" for r
    using any_hmac_false [OF any, of r] that by (force simp: List.map_filter_def image_iff)
  show ?thesis
  proof (cases "?paths = []")
    case True
    then have "rows d = []" using lines_of_paths [of "as_path st" d] by (simp add: lines_of_def)
    then show ?thesis by simp
  next
    case False
    then have "accepts mac (as_hmac_key st) (store_options None) (lines_of ?paths) initial_chain"
      using ok m any
      by (simp add: verify_chain_def events_of_rows Let_def verify_chain_files_accepts)
    then have "list_all (\<lambda>c. c = Blank \<or> legacy c) (map snd (lines_of ?paths))"
      using unsigned unfolding lines_of_paths [of "as_path st" d, symmetric]
      by (intro accepts_unsigned) (auto simp: initial_chain_def)
    then show ?thesis by (simp add: lines_of_paths)
  qed
qed

text \<open>
  C38: On log files without the characters U+0085, U+2028 and U+2029 (at which one of the
  readers splits a row and the others do not), the verifier, with its flags for the start of the
  chain and its tolerances, accepts exactly the following: without a marker file, files in which every row is blank or an object
  without signature; with a marker, whatever it says, rows without signature followed by a
  nonempty run of correctly signed rows each of which names its predecessor's signature.
\<close>
theorem verify_chain_decides:
  "verify_chain mac st d = Inr (True, []) \<longleftrightarrow>
   (if marker_file d = None then list_all (\<lambda>c. c = Blank \<or> legacy c) (rows d)
    else chain_spec mac (as_hmac_key st) (rows d))"
  using verify_with_marker verify_without_marker verify_no_marker_only by simp metis

section \<open>Tampering\<close>

lemma chain_rows_authentic:
  assumes "chain_spec mac key cs" "Json (PDict r) \<in> set cs" "has_hmac r"
  shows "authentic mac key r"
proof -
  obtain old f rs where c: "nonblank cs = old @ map (\<lambda>r. Json (PDict r)) (f # rs)"
      "list_all legacy old" "authentic mac key f" "linked mac key (pget f ''hmac'') rs"
    using assms(1) by (auto simp: chain_spec_def nonblank_def)
  have "Json (PDict r) \<in> set (nonblank cs)" using assms(2) by (simp add: nonblank_def)
  then have "Json (PDict r) \<in> set old \<or> r = f \<or> r \<in> set rs" using c(1) by auto
  moreover have "Json (PDict r) \<notin> set old" using c(2) assms(3) by (auto simp: list_all_iff legacy_def)
  moreover have "authentic mac key q" if "q \<in> set rs" for q
    using c(4) split_list [OF that] linked_suffix by metis
  ultimately show ?thesis using c(3) by blast
qed

text \<open>
  C39: In a log that verifies, no signed row can be replaced unnoticed: if a row of the main
  file is replaced by another object that keeps the signature, and the HMAC tells the two
  signed texts apart, the chain no longer verifies.
\<close>
theorem changed_row_rejected:
  assumes "marker_file d \<noteq> None" and "verify_chain mac st d = Inr (True, [])"
    and "main_file d = Some (xs @ (b, Json (PDict r)) # ys)" and "has_hmac r"
    and "pget r' ''hmac'' = pget r ''hmac''" and "has_hmac r'"
    and "compute_hash mac (as_hmac_key st) (without_hmac r') \<noteq>
         compute_hash mac (as_hmac_key st) (without_hmac r)"
  shows "verify_chain mac st (d\<lparr>main_file := Some (xs @ (b', Json (PDict r')) # ys)\<rparr>) \<noteq> Inr (True, [])"
proof
  let ?d = "d\<lparr>main_file := Some (xs @ (b', Json (PDict r')) # ys)\<rparr>" and ?key = "as_hmac_key st"
  assume "verify_chain mac st ?d = Inr (True, [])"
  then have new: "chain_spec mac ?key (rows ?d)" using assms(1) by (simp add: verify_with_marker)
  have old: "chain_spec mac ?key (rows d)" using assms(1,2) by (simp add: verify_with_marker)
  have "authentic mac ?key r" using chain_rows_authentic [OF old] assms(3,4) by (simp add: rows_def)
  moreover have "authentic mac ?key r'" using chain_rows_authentic [OF new] assms(6) by (simp add: rows_def)
  ultimately show False using assms(5,7) by (simp add: authentic_def)
qed

section \<open>Chain and witness\<close>

lemma linked_prefix: "linked mac key h (xs @ ys) \<Longrightarrow> linked mac key h xs"
  by (induction xs arbitrary: h) auto

lemma chain_spec_prefix:
  assumes "chain_spec mac key (cs @ ds)" "Json (PDict q) \<in> set cs" "has_hmac q"
  shows "chain_spec mac key cs"
proof -
  obtain old f rs where c: "nonblank cs @ nonblank ds = old @ map (\<lambda>r. Json (PDict r)) (f # rs)"
      "list_all legacy old" "authentic mac key f" "linked mac key (pget f ''hmac'') rs"
    using assms(1) by (auto simp: chain_spec_def nonblank_def)
  have q: "Json (PDict q) \<in> set (nonblank cs)" "\<not> legacy (Json (PDict q))"
    using assms(2,3) by (auto simp: nonblank_def legacy_def)
  consider us where "old = nonblank cs @ us" | us where "nonblank cs = old @ us"
      "us @ nonblank ds = map (\<lambda>r. Json (PDict r)) (f # rs)"
    using c(1) by (auto simp: append_eq_append_conv2)
  then show ?thesis
  proof cases
    case 1
    then show ?thesis using c(2) q by (auto simp: list_all_iff)
  next
    case 2
    have "us \<noteq> []" using 2(1) c(2) q by (auto simp: list_all_iff)
    moreover obtain ps qs where "f # rs = ps @ qs" "us = map (\<lambda>r. Json (PDict r)) ps"
      using 2(2) unfolding append_eq_map_conv by blast
    ultimately obtain gs where gs: "rs = gs @ qs" "us = map (\<lambda>r. Json (PDict r)) (f # gs)"
      by (cases ps) auto
    have "linked mac key (pget f ''hmac'') gs" using c(4) linked_prefix unfolding gs(1) by blast
    then show ?thesis
      using 2(1) gs(2) c(2,3) unfolding chain_spec_def nonblank_def by blast
  qed
qed

lemma file_bytes_append [simp]: "file_bytes (xs @ ys) = file_bytes xs + file_bytes ys"
  by (simp add: file_bytes_def)

lemma compare_snapshots:
  "compare_witness (snapshot path t d) (snapshot path t' d') =
   (if segments_of path d = [] then [] else compare_segments (segments_of path d) (segments_of path d'))"
  by (simp add: compare_witness_def)

text \<open>
  A cut at the end of the main file is invisible to the chain and visible to the witness:
  when at least one signed row is left the shortened log still verifies, and comparing it with
  a witness taken before reports a violation, unless the main file ends in the signature the
  backup ends in.
\<close>
theorem cut_tail_needs_witness:
  assumes "marker_file d \<noteq> None" and "verify_chain mac st d = Inr (True, [])"
    and "main_file d = Some (xs @ ys)" and "file_bytes ys > 0"
    and "Json (PDict q) \<in> set (file_rows (backup_file d) @ map snd xs)" and "has_hmac q"
    and "\<not> py_eq (last_chained_hmac (backup_file d)) (last_chained_hmac (main_file d))"
  shows "verify_chain mac st (d\<lparr>main_file := Some xs\<rparr>) = Inr (True, []) \<and>
    compare_witness (snapshot path t d) (snapshot path t' (d\<lparr>main_file := Some xs\<rparr>)) \<noteq> []"
proof
  have "chain_spec mac (as_hmac_key st) ((file_rows (backup_file d) @ map snd xs) @ map snd ys)"
    using assms(1-3) by (simp add: verify_with_marker rows_def)
  then have "chain_spec mac (as_hmac_key st) (file_rows (backup_file d) @ map snd xs)"
    using assms(5,6) by (rule chain_spec_prefix)
  then show "verify_chain mac st (d\<lparr>main_file := Some xs\<rparr>) = Inr (True, [])"
    using assms(1) by (simp add: verify_with_marker rows_def)
  have bytes: "\<not> file_bytes (xs @ ys) \<le> file_bytes xs" using assms(4) by simp
  show "compare_witness (snapshot path t d) (snapshot path t' (d\<lparr>main_file := Some xs\<rparr>)) \<noteq> []"
  proof (cases "backup_file d")
    case None
    then show ?thesis
      using assms(3) bytes
      by (simp add: compare_snapshots segments_of_def compare_segments_def segment_violations_def
          segment_of_def)
  next
    case (Some bs)
    then show ?thesis
      using assms(3,7) bytes
      by (simp add: compare_snapshots segments_of_def compare_segments_def segment_violations_def
          segment_of_def last_chained_hmac_def)
  qed
qed

text \<open>
  Between the two halves of a rotation, when the main file has been renamed and the new one
  does not exist yet, the comparison with any witness of the log before always reports a
  violation: the tolerance for this moment never applies.
\<close>
theorem rotation_window_alarms:
  assumes "main_file d = Some ls" and "m \<le> int (file_bytes ls)"
  shows "SegmentMissing (main_name path) (length (nonblank (map snd ls))) (file_bytes ls)
    \<in> set (compare_witness (snapshot path t d) (snapshot path t' (rotate_if_needed m d)))"
proof -
  have "rotate_if_needed m d = d\<lparr>backup_file := Some ls, main_file := None\<rparr>"
    using assms by (simp add: rotate_if_needed_def)
  moreover have "length (filter (\<lambda>l. snd l \<noteq> Blank) ls) = length (nonblank (map snd ls))"
    by (simp add: nonblank_def filter_map comp_def)
  ultimately show ?thesis
    using assms(1)
    by (simp add: compare_snapshots segments_of_def compare_segments_def segment_violations_def
        segment_of_def Let_def)
qed

section \<open>A concrete log\<close>

definition demo_mac :: mac where
  "demo_mac key txt = key @ nat_str (length txt)"

definition demo_event :: "string \<Rightarrow> audit_event" where
  "demo_event cmd =
     \<lparr>ae_event_id = ''e'', ae_event_type = ''t'', ae_agent_id = [], ae_agent_name = [], ae_tool = [],
      ae_command = cmd, ae_risk = [], ae_action = [], ae_reason = [], ae_details = [],
      ae_timestamp = 0, ae_source_type = [], ae_sandbox = [], ae_seccomp = [], ae_jit_token = [],
      ae_jit_expires_at = 0, ae_jit_granted_by = [], ae_prev_hash = PStr [], ae_hmac = []\<rparr>"

definition demo_store :: audit_store where
  "demo_store = \<lparr>as_path = ''d/a.jsonl'', as_max_bytes = 1000, as_hmac_key = ''k'', as_last_hash = None\<rparr>"

definition demo_world :: append_world where
  "demo_world = \<lparr>aw_now = 0, aw_log_ok = True, aw_marker_ok = True, aw_witness_ok = True\<rparr>"

definition demo_disk :: "string list \<Rightarrow> disk" where
  "demo_disk cmds = fold (append_op demo_mac) (map (\<lambda>c. (demo_world, demo_event c, demo_store)) cmds) empty_disk"

lemma demo_sound: "sound_disk demo_mac ''k'' (demo_disk cmds)"
  unfolding demo_disk_def
  by (rule audit.good_run)
    (auto simp: sound_disk_def no_chain_def empty_disk_def rows_def list_all_iff same_key_def
       demo_store_def demo_world_def)

lemma demo_verifies: "verify_chain demo_mac demo_store (demo_disk cmds) = Inr (True, [])"
  using demo_sound by (intro sound_verifies) (simp add: demo_store_def)


definition with_command :: "string \<Rightarrow> audit_record \<Rightarrow> audit_record" where
  "with_command c r = AList.update ''command'' (PStr c) r"

definition demo_e1 :: audit_event where
  "demo_e1 = sign_event demo_mac ''k'' (PStr []) (demo_event ''a'')"

definition demo_e2 :: audit_event where
  "demo_e2 = sign_event demo_mac ''k'' (PStr (ae_hmac demo_e1)) (demo_event ''bb'')"

lemma demo_small: "fst (event_line demo_e1) < 1000"
  by code_simp

lemma demo_first:
  "append_op demo_mac (demo_world, demo_event ''a'', demo_store) empty_disk =
   \<lparr>main_file = Some [event_line demo_e1], backup_file = None, marker_file = Some (ae_hmac demo_e1),
    witness_file = witness_file (append_op demo_mac (demo_world, demo_event ''a'', demo_store) empty_disk)\<rparr>"
  by (simp add: append_result disk_after_def Let_def demo_world_def demo_store_def empty_disk_def
      current_prev_hash_def rotate_if_needed_def tail_hmac_def tail_record_def has_content_def
      last_chained_hmac_def write_line_def write_marker_def record_witness_def demo_e1_def)

lemma demo_main:
  "main_file (demo_disk [''a'', ''bb'']) = Some [event_line demo_e1, event_line demo_e2]"
  "backup_file (demo_disk [''a'', ''bb'']) = None"
  "marker_file (demo_disk [''a'', ''bb'']) \<noteq> None"
proof -
  let ?d = "append_op demo_mac (demo_world, demo_event ''a'', demo_store) empty_disk"
  have two: "demo_disk [''a'', ''bb''] =
      disk_after (append demo_mac demo_world (demo_event ''bb'') demo_store ?d)"
    by (simp add: demo_disk_def)
  have d: "main_file ?d = Some [event_line demo_e1]" "backup_file ?d = None" "marker_file ?d \<noteq> None"
    by (subst demo_first, simp)+
  have "current_prev_hash ?d = PStr (ae_hmac demo_e1)"
    using d(1) by (simp add: current_prev_hash_def tail_hmac_def tail_record_def event_line_def
        has_hmac_def model_dump_def pget_def)
  moreover have "rotate_if_needed (as_max_bytes demo_store) ?d = ?d"
    using d(1) demo_small by (simp add: rotate_if_needed_def demo_store_def file_bytes_def)
  ultimately show "main_file (demo_disk [''a'', ''bb'']) = Some [event_line demo_e1, event_line demo_e2]"
    "backup_file (demo_disk [''a'', ''bb'']) = None" "marker_file (demo_disk [''a'', ''bb'']) \<noteq> None"
    using d unfolding two
    by (simp_all add: append_result disk_after_def Let_def demo_world_def write_line_def demo_e2_def)
      (simp_all add: demo_store_def write_marker_def)
qed

lemma demo_rows:
  "has_hmac (model_dump e)" "0 < file_bytes [event_line e]"
  "event_line e = (fst (event_line e), Json (PDict (model_dump e)))"
  by (simp_all add: has_hmac_def model_dump_def file_bytes_def event_line_def)

theorem changed_row_rejected_witness:
  "verify_chain demo_mac demo_store ((demo_disk [''a'', ''bb''])
     \<lparr>main_file := Some ([] @ (9, Json (PDict (with_command ''rm'' (model_dump demo_e1)))) # [event_line demo_e2])\<rparr>)
   \<noteq> Inr (True, [])"
proof (rule changed_row_rejected)
  show "marker_file (demo_disk [''a'', ''bb'']) \<noteq> None" by (rule demo_main)
  show "verify_chain demo_mac demo_store (demo_disk [''a'', ''bb'']) = Inr (True, [])"
    by (rule demo_verifies)
  show "main_file (demo_disk [''a'', ''bb'']) =
      Some ([] @ (fst (event_line demo_e1), Json (PDict (model_dump demo_e1))) # [event_line demo_e2])"
    by (simp add: demo_main flip: demo_rows(3))
  show "has_hmac (model_dump demo_e1)" by (rule demo_rows)
  show "pget (with_command ''rm'' (model_dump demo_e1)) ''hmac'' = pget (model_dump demo_e1) ''hmac''"
    by code_simp
  show "has_hmac (with_command ''rm'' (model_dump demo_e1))" by code_simp
  show "compute_hash demo_mac (as_hmac_key demo_store) (without_hmac (with_command ''rm'' (model_dump demo_e1))) \<noteq>
      compute_hash demo_mac (as_hmac_key demo_store) (without_hmac (model_dump demo_e1))"
    by code_simp
qed

theorem cut_tail_needs_witness_witness:
  "verify_chain demo_mac demo_store ((demo_disk [''a'', ''bb''])\<lparr>main_file := Some [event_line demo_e1]\<rparr>)
     = Inr (True, []) \<and>
   compare_witness (snapshot ''d/a.jsonl'' 0 (demo_disk [''a'', ''bb'']))
     (snapshot ''d/a.jsonl'' 1 ((demo_disk [''a'', ''bb''])\<lparr>main_file := Some [event_line demo_e1]\<rparr>)) \<noteq> []"
proof (rule cut_tail_needs_witness)
  show "marker_file (demo_disk [''a'', ''bb'']) \<noteq> None" by (rule demo_main)
  show "verify_chain demo_mac demo_store (demo_disk [''a'', ''bb'']) = Inr (True, [])"
    by (rule demo_verifies)
  show "main_file (demo_disk [''a'', ''bb'']) = Some ([event_line demo_e1] @ [event_line demo_e2])"
    by (simp add: demo_main)
  show "0 < file_bytes [event_line demo_e2]" by (rule demo_rows)
  show "Json (PDict (model_dump demo_e1))
      \<in> set (file_rows (backup_file (demo_disk [''a'', ''bb''])) @ map snd [event_line demo_e1])"
    by (simp add: event_line_def)
  show "has_hmac (model_dump demo_e1)" by (rule demo_rows)
  show "\<not> py_eq (last_chained_hmac (backup_file (demo_disk [''a'', ''bb''])))
      (last_chained_hmac (main_file (demo_disk [''a'', ''bb''])))"
    by code_simp
qed

theorem rotation_window_alarms_witness:
  "SegmentMissing (main_name ''d/a.jsonl'') (length (nonblank (map snd [event_line demo_e1, event_line demo_e2])))
      (file_bytes [event_line demo_e1, event_line demo_e2])
    \<in> set (compare_witness (snapshot ''d/a.jsonl'' 0 (demo_disk [''a'', ''bb'']))
            (snapshot ''d/a.jsonl'' 0 (rotate_if_needed 1 (demo_disk [''a'', ''bb'']))))"
proof (rule rotation_window_alarms)
  show "main_file (demo_disk [''a'', ''bb'']) = Some [event_line demo_e1, event_line demo_e2]"
    by (rule demo_main)
  show "1 \<le> int (file_bytes [event_line demo_e1, event_line demo_e2])" by (simp add: file_bytes_def event_line_def)
qed

text \<open>
  A completed rotation whose two segments have the same number of rows and bytes is reported as
  a rewritten backup by a witness from before it.
\<close>
lemma equal_segments_alarm:
  assumes "main_file d = Some ls" and "backup_file d = Some bs" and "m \<le> int (file_bytes ls)"
    and "length (nonblank (map snd ls)) = length (nonblank (map snd bs))"
    and "file_bytes ls = file_bytes bs"
    and "\<not> py_eq (last_chained_hmac (Some ls)) (last_chained_hmac (Some bs))"
  shows "\<exists>v \<in> set (compare_witness (snapshot path t d)
           (snapshot path t' (write_line l (rotate_if_needed m d)))).
         \<exists>n b h h'. v = Rewritten (backup_name path) n b h h'"
proof -
  have "length (filter (\<lambda>l. snd l \<noteq> Blank) xs) = length (nonblank (map snd xs))" for xs :: "file_line list"
    by (simp add: nonblank_def filter_map comp_def)
  then show ?thesis using assms
    by (simp add: rotate_if_needed_def write_line_def compare_snapshots segments_of_def
        compare_segments_def segment_violations_def segment_of_def Let_def last_chained_hmac_def)
qed

end
