(* ===== verification/Behavior.thy ===== *)
theory Behavior
  imports Models
begin

text \<open>
  The behaviour baseline (\<open>behavior_monitor.py\<close>): a bounded history of records per agent,
  counters per kind of command, and the three verdicts on a command.  A call reads the clock
  once (\<open>now\<close>).  The theory proves that the counters agree with the history as long as
  the history is not full, and what happens when it is.
\<close>

section \<open>Kinds of commands\<close>

definition ACTION_TYPE_COMMANDS :: "(string \<times> string list) list" where
  "ACTION_TYPE_COMMANDS =
     [(''file_read'', [''cat'', ''less'', ''more'', ''head'', ''tail'', ''read'']),
      (''file_write'', [''echo'', ''tee'', ''write'', ''touch'']),
      (''file_delete'', [''rm'', ''trash'', ''unlink'']),
      (''file_move'', [''cp'', ''mv'', ''rename'']),
      (''file_permission'', [''chmod'', ''chown'']),
      (''disk_write'', [''dd'']),
      (''network_request'', [''curl'', ''wget'', ''fetch'', ''http'']),
      (''network_remote'', [''ssh'', ''scp'', ''rsync'']),
      (''network_raw'', [''nc'', ''ncat'', ''socat'']),
      (''process_list'', [''ps'', ''top'', ''htop'']),
      (''process_kill'', [''kill'', ''pkill'']),
      (''system_mount'', [''mount'', ''unmount'']),
      (''container'', [''docker'', ''podman'', ''nerdctl'']),
      (''vcs_operation'', [''git'', ''svn'', ''hg'']),
      (''build_tool'', [''make'', ''cmake'', ''cargo'', ''npm'', ''pip''])]"

definition COMMAND_TO_ACTION_TYPE :: "(string \<times> string) list" where
  "COMMAND_TO_ACTION_TYPE =
     concat (map (\<lambda>(ty, cmds). map (\<lambda>c. (c, ty)) cmds) ACTION_TYPE_COMMANDS)"

definition classify_command :: "string \<Rightarrow> string" where
  "classify_command command =
     (let cmd = py_strip (py_lower command)
      in if cmd = [] then ''unknown''
         else case map_of COMMAND_TO_ACTION_TYPE (hd (split_ws cmd)) of
                None \<Rightarrow> ''other'' | Some ty \<Rightarrow> ty)"

definition rate_threshold :: "string \<Rightarrow> rat" where
  "rate_threshold ty =
     (case map_of [(''file_write'', 30), (''file_delete'', 20), (''network_request'', 20),
                   (''network_remote'', 5), (''disk_write'', 2), (''container'', 5),
                   (''process_kill'', 10)] ty of
        None \<Rightarrow> 40 | Some t \<Rightarrow> t)"

section \<open>State\<close>

record behavior_record =
  br_action_type :: string
  br_target :: string
  br_sandbox :: string
  br_timestamp :: time

text \<open>The tables of one agent; \<open>anomaly_count\<close> is read and never written by the code.\<close>

record baseline =
  bl_history :: "behavior_record list"
  bl_counts :: "(string, int) dict"
  bl_targets :: "string set"

record behavior_monitor =
  bm_window :: time
  bm_agents :: "(string, baseline) dict"

definition MAX_HISTORY :: nat where
  "MAX_HISTORY = 1000"

definition no_baseline :: baseline where
  "no_baseline = \<lparr>bl_history = [], bl_counts = [], bl_targets = {}\<rparr>"

definition baseline_of :: "behavior_monitor \<Rightarrow> string \<Rightarrow> baseline" where
  "baseline_of bm agent = (case map_of (bm_agents bm) agent of None \<Rightarrow> no_baseline | Some b \<Rightarrow> b)"

definition get_count :: "(string, int) dict \<Rightarrow> string \<Rightarrow> int" where
  "get_count counts ty = (case map_of counts ty of None \<Rightarrow> 0 | Some n \<Rightarrow> n)"

section \<open>Operations\<close>

definition decrement :: "string \<Rightarrow> (string, int) dict \<Rightarrow> (string, int) dict" where
  "decrement ty counts =
     (let n = get_count counts ty - 1
      in if n \<le> 0 then AList.delete ty counts else AList.update ty n counts)"

fun prune_queue ::
    "time \<Rightarrow> behavior_record list \<Rightarrow> (string, int) dict \<Rightarrow> behavior_record list \<times> (string, int) dict" where
  "prune_queue cutoff [] counts = ([], counts)"
| "prune_queue cutoff (old # q) counts =
     (if br_timestamp old < cutoff then prune_queue cutoff q (decrement (br_action_type old) counts)
      else (old # q, counts))"

text \<open>Appending to a \<open>deque(maxlen=1000)\<close>.\<close>

definition push_record :: "behavior_record \<Rightarrow> behavior_record list \<Rightarrow> behavior_record list" where
  "push_record r q = (if length q = MAX_HISTORY then tl q else q) @ [r]"

definition record_baseline :: "time \<Rightarrow> time \<Rightarrow> behavior_record \<Rightarrow> baseline \<Rightarrow> baseline" where
  "record_baseline window now r b =
     (let ty = br_action_type r;
          pruned = prune_queue (now - window) (push_record r (bl_history b))
                     (AList.update ty (get_count (bl_counts b) ty + 1) (bl_counts b))
      in \<lparr>bl_history = fst pruned, bl_counts = snd pruned,
          bl_targets = (if br_target r \<noteq> [] then insert (br_target r) (bl_targets b) else bl_targets b)\<rparr>)"

definition record_behavior ::
    "time \<Rightarrow> string \<Rightarrow> string \<Rightarrow> string \<Rightarrow> string \<Rightarrow> behavior_monitor \<Rightarrow> behavior_monitor" where
  "record_behavior now agent ty target sandbox bm =
     bm\<lparr>bm_agents := AList.update agent
          (record_baseline (bm_window bm) now
             \<lparr>br_action_type = ty, br_target = target, br_sandbox = sandbox, br_timestamp = now\<rparr>
             (baseline_of bm agent)) (bm_agents bm)\<rparr>"

definition record_command ::
    "time \<Rightarrow> string \<Rightarrow> string \<Rightarrow> string \<Rightarrow> behavior_monitor \<Rightarrow> string \<times> behavior_monitor" where
  "record_command now agent command sandbox bm =
     (classify_command command,
      record_behavior now agent (classify_command command) command sandbox bm)"

definition get_oldest :: "time \<Rightarrow> baseline \<Rightarrow> time" where
  "get_oldest now b = (case bl_history b of [] \<Rightarrow> now | r # _ \<Rightarrow> br_timestamp r)"

definition action_rate :: "time \<Rightarrow> time \<Rightarrow> baseline \<Rightarrow> string \<Rightarrow> rat option" where
  "action_rate window now b ty =
     (let count = get_count (bl_counts b) ty;
          elapsed = min window (now - get_oldest now b)
      in if count \<le> 1 then None
         else if elapsed \<le> 0 then None
         else Some (of_int count / (elapsed / 60)))"

datatype behavior_verdict = Normal | Suspicious | Anomaly

definition check_command :: "time \<Rightarrow> string \<Rightarrow> string \<Rightarrow> string \<Rightarrow> behavior_monitor \<Rightarrow> behavior_verdict" where
  "check_command now agent command sandbox bm =
     (let b = baseline_of bm agent; ty = classify_command command
      in if (case action_rate (bm_window bm) now b ty of None \<Rightarrow> False | Some r \<Rightarrow> rate_threshold ty < r)
         then Anomaly
         else if bl_counts b = [] then Normal
         else if bl_history b \<noteq> [] \<and> sandbox \<notin> set (map br_sandbox (bl_history b)) then Suspicious
         else Normal)"

record behavior_stats =
  total_actions :: nat
  action_type_counts :: "(string, int) dict"
  known_targets_count :: nat
  anomaly_count :: nat

definition get_stats :: "behavior_monitor \<Rightarrow> string \<Rightarrow> behavior_stats" where
  "get_stats bm agent =
     (let b = baseline_of bm agent
      in \<lparr>total_actions = length (bl_history b), action_type_counts = bl_counts b,
          known_targets_count = card (bl_targets b), anomaly_count = 0\<rparr>)"

definition get_all_stats :: "behavior_monitor \<Rightarrow> (string, behavior_stats) dict" where
  "get_all_stats bm =
     map (\<lambda>(agent, b). (agent, get_stats bm agent))
       (filter (\<lambda>(agent, b). bl_history b \<noteq> []) (bm_agents bm))"

section \<open>Counters and history\<close>

definition occurrences :: "string \<Rightarrow> behavior_record list \<Rightarrow> int" where
  "occurrences ty q = int (length (filter (\<lambda>r. br_action_type r = ty) q))"

definition counts_exact :: "behavior_record list \<Rightarrow> (string, int) dict \<Rightarrow> bool" where
  "counts_exact q counts \<longleftrightarrow>
     (\<forall>ty. get_count counts ty = occurrences ty q) \<and> (\<forall>n \<in> ran (map_of counts). n > 0)"

lemma get_count_simps [simp]:
  "get_count (AList.update ty n counts) t = (if t = ty then n else get_count counts t)"
  "get_count (AList.delete ty counts) t = (if t = ty then 0 else get_count counts t)"
  by (simp_all add: get_count_def dict_simps)

lemma occurrences_simps [simp]:
  "occurrences ty [] = 0"
  "occurrences ty (r # q) = (if br_action_type r = ty then 1 else 0) + occurrences ty q"
  "occurrences ty (q @ q') = occurrences ty q + occurrences ty q'"
  by (simp_all add: occurrences_def)

lemma occurrences_nonneg [simp]: "0 \<le> occurrences ty q"
  by (simp add: occurrences_def)

lemma ran_update: "x \<in> ran (f(k \<mapsto> n)) \<Longrightarrow> x = n \<or> x \<in> ran f"
  by (auto simp: ran_def split: if_splits)

lemma ran_delete: "x \<in> ran (f(k := None)) \<Longrightarrow> x \<in> ran f"
  by (auto simp: ran_def split: if_splits)

lemma prune_exact:
  "counts_exact q counts \<Longrightarrow>
   counts_exact (fst (prune_queue cutoff q counts)) (snd (prune_queue cutoff q counts))"
proof (induction q arbitrary: counts)
  case (Cons r q)
  have "counts_exact q (decrement (br_action_type r) counts)"
  proof -
    let ?ty = "br_action_type r"
    have c: "get_count counts t = (if ?ty = t then 1 else 0) + occurrences t q" for t
      using Cons.prems by (auto simp: counts_exact_def)
    have pos: "\<forall>n \<in> ran (map_of counts). n > 0" using Cons.prems by (simp add: counts_exact_def)
    show ?thesis
      using c [of ?ty] c pos occurrences_nonneg [of ?ty q]
      by (auto simp: counts_exact_def decrement_def Let_def dict_simps dest!: ran_update ran_delete
          simp del: occurrences_nonneg)
  qed
  with Cons show ?case by simp
qed simp

text \<open>The counters stay exact while the history has room.\<close>

lemma record_exact:
  assumes "counts_exact (bl_history b) (bl_counts b)" "length (bl_history b) < MAX_HISTORY"
  shows "counts_exact (bl_history (record_baseline w now r b)) (bl_counts (record_baseline w now r b))"
proof -
  have pos: "0 < get_count (bl_counts b) t + 1" for t
    using assms(1) occurrences_nonneg [of t "bl_history b"] by (simp add: counts_exact_def)
  have "counts_exact (push_record r (bl_history b))
      (AList.update (br_action_type r) (get_count (bl_counts b) (br_action_type r) + 1) (bl_counts b))"
    using assms pos occurrences_nonneg [of "br_action_type r" "bl_history b"]
    by (auto simp: counts_exact_def push_record_def dict_simps dest!: ran_update)
  then show ?thesis by (simp add: record_baseline_def Let_def prune_exact)
qed

text \<open>
  A full history loses its oldest record and keeps its count: when nothing has expired yet,
  the counters then sum to one more than the history has records.
\<close>

lemma full_history_drift:
  assumes "counts_exact (bl_history b) (bl_counts b)" "length (bl_history b) = MAX_HISTORY"
    and "\<forall>q \<in> set (bl_history b). br_timestamp q \<ge> now - w" and "br_timestamp r \<ge> now - w"
  shows "get_count (bl_counts (record_baseline w now r b)) (br_action_type (hd (bl_history b))) =
    occurrences (br_action_type (hd (bl_history b))) (bl_history (record_baseline w now r b)) + 1"
proof -
  obtain o1 rest where h: "bl_history b = o1 # rest"
    using assms(2) by (cases "bl_history b") (auto simp: MAX_HISTORY_def)
  have keep: "prune_queue (now - w) q c = (q, c)" if "\<forall>x \<in> set q. br_timestamp x \<ge> now - w" for q c
    using that by (cases q) auto
  have "push_record r (bl_history b) = rest @ [r]" using assms(2) h by (simp add: push_record_def)
  moreover have "\<forall>x \<in> set (rest @ [r]). br_timestamp x \<ge> now - w" using assms(3,4) h by auto
  ultimately have "bl_history (record_baseline w now r b) = rest @ [r]"
    "bl_counts (record_baseline w now r b) =
     AList.update (br_action_type r) (get_count (bl_counts b) (br_action_type r) + 1) (bl_counts b)"
    by (simp_all add: record_baseline_def Let_def keep)
  moreover have "get_count (bl_counts b) t = occurrences t (o1 # rest)" for t
    using assms(1) h by (simp add: counts_exact_def)
  ultimately show ?thesis using h by auto
qed

end
