(* ===== verification/Security_Rule.thy ===== *)
theory Security_Rule
  imports Policy_Engine Behavior Approvals Tarl
begin

text \<open>
  The decision layer of the sandbox (\<open>security_rule.py\<close>): access between agents, execution
  of a command from the policy verdict, the behaviour baseline and the resource limits, the
  confirmation of a decision, workflow peers and the escape check.  The resource controller is
  an injected object: its two answers are parameters.  Notifications to a log are not modelled.
\<close>

datatype decision_action = D_ALLOW | D_CONFIRM | D_DENY | D_PENDING

record decision =
  dc_action :: decision_action
  dc_reason :: string
  dc_risk_level :: string
  dc_requires_confirmation :: bool
  dc_metadata :: "(string, pyval) dict"

definition decide :: "decision_action \<Rightarrow> string \<Rightarrow> string \<Rightarrow> decision" where
  "decide a reason risk =
     \<lparr>dc_action = a, dc_reason = reason, dc_risk_level = risk, dc_requires_confirmation = False,
      dc_metadata = []\<rparr>"

definition needs_confirmation :: "string \<Rightarrow> string \<Rightarrow> (string, pyval) dict \<Rightarrow> decision" where
  "needs_confirmation reason risk meta =
     \<lparr>dc_action = D_CONFIRM, dc_reason = reason, dc_risk_level = risk, dc_requires_confirmation = True,
      dc_metadata = meta\<rparr>"

definition decision_value :: "decision_action \<Rightarrow> string" where
  "decision_value a =
     (case a of D_ALLOW \<Rightarrow> ''allow'' | D_CONFIRM \<Rightarrow> ''confirm'' | D_DENY \<Rightarrow> ''deny'' | D_PENDING \<Rightarrow> ''pending'')"

definition decision_dict :: "decision \<Rightarrow> (string, pyval) dict" where
  "decision_dict d =
     [(''action'', PStr (decision_value (dc_action d))), (''reason'', PStr (dc_reason d)),
      (''risk_level'', PStr (dc_risk_level d)),
      (''requires_confirmation'', PBool (dc_requires_confirmation d)), (''metadata'', PDict (dc_metadata d))]"

section \<open>Peers and access\<close>

record security_rule =
  sr_rules :: "policy_rule list"
  sr_enforce_limits :: bool
  sr_peers :: "(string, string set) dict"
  sr_limits :: "(string, rat) dict"

definition default_limits :: "(string, rat) dict" where
  "default_limits =
     [(''max_file_writes_per_minute'', 60), (''max_network_requests_per_minute'', 30),
      (''max_cpu_percent'', 80), (''max_memory_mb'', 512)]"

definition new_security_rule :: "policy_rule list \<Rightarrow> bool \<Rightarrow> security_rule" where
  "new_security_rule rules enforce =
     \<lparr>sr_rules = rules, sr_enforce_limits = enforce, sr_peers = [], sr_limits = default_limits\<rparr>"

definition peers_of :: "security_rule \<Rightarrow> string \<Rightarrow> string set" where
  "peers_of sr aid = (case map_of (sr_peers sr) aid of None \<Rightarrow> {} | Some ps \<Rightarrow> ps)"

definition register_workflow_peers :: "string list \<Rightarrow> security_rule \<Rightarrow> security_rule" where
  "register_workflow_peers ids sr =
     fold (\<lambda>aid s. s\<lparr>sr_peers := AList.update aid (peers_of s aid \<union> (set ids - {aid})) (sr_peers s)\<rparr>) ids sr"

definition is_workflow_peer :: "security_rule \<Rightarrow> string \<Rightarrow> string \<Rightarrow> bool" where
  "is_workflow_peer sr source target \<longleftrightarrow> target \<in> peers_of sr source"

text \<open>The arrow of the messages, in UTF-8.\<close>

definition arrow :: string where
  "arrow = [CHR 0xE2, CHR 0x86, CHR 0x92]"

definition can_access ::
    "security_rule \<Rightarrow> string \<Rightarrow> string \<Rightarrow> string \<Rightarrow> string \<Rightarrow> string \<Rightarrow> decision" where
  "can_access sr source target access_type source_sandbox target_sandbox =
     (if source_sandbox = target_sandbox \<and> source = target then
        decide D_ALLOW ''same sandbox and agent'' ''low''
      else if source_sandbox \<noteq> target_sandbox \<and> source_sandbox = ''host'' then
        decide D_DENY ''host cannot access sandbox'' ''high''
      else if source_sandbox \<noteq> target_sandbox then
        needs_confirmation (''cross-sandbox access: '' @ source @ '' '' @ arrow @ '' '' @ target) ''high''
          [(''source_id'', PStr source), (''target_id'', PStr target),
           (''source_sandbox'', PStr source_sandbox), (''target_sandbox'', PStr target_sandbox),
           (''access_type'', PStr access_type)]
      else if source_sandbox = target_sandbox \<and> source \<noteq> target then
        (if is_workflow_peer sr source target then decide D_ALLOW ''workflow peer'' ''low''
         else needs_confirmation (''cross-tool access: '' @ source @ '' '' @ arrow @ '' '' @ target) ''medium''
                [(''source_id'', PStr source), (''target_id'', PStr target),
                 (''sandbox'', PStr source_sandbox), (''access_type'', PStr access_type)])
      else decide D_ALLOW ''default allow'' ''low'')"

section \<open>Execution\<close>

record resource_usage =
  ru_cpu_percent :: pyval
  ru_memory_mb :: pyval

text \<open>
  What a decision reads from outside: the regular expression search, the clock, \<open>float\<close> on
  strings, the fresh request id, the lifetime of a request, and the answers of the resource
  controller (\<^const>\<open>None\<close> when reading the usage raises).
\<close>

record rule_world =
  rw_search :: re_search
  rw_now :: time
  rw_float :: "string \<Rightarrow> time option"
  rw_fresh :: string
  rw_ttl :: ttl_sources
  rw_usage :: "string \<Rightarrow> resource_usage option"
  rw_within_limits :: "string \<Rightarrow> resource_usage \<Rightarrow> bool"

text \<open>\<^const>\<open>False\<close> where the check raises \<open>RESOURCE_LIMIT_EXCEEDED\<close>.\<close>

definition within_limits :: "rule_world \<Rightarrow> string \<Rightarrow> (string, pyval) dict \<Rightarrow> bool" where
  "within_limits w agent ctx =
     (let usage = (case rw_usage w agent of
                     Some u \<Rightarrow> u
                   | None \<Rightarrow> \<lparr>ru_cpu_percent = pget_default ctx ''cpu_percent'' (PInt 0),
                              ru_memory_mb = pget_default ctx ''memory_mb'' (PInt 0)\<rparr>)
      in rw_within_limits w agent usage)"

definition request_approval ::
    "rule_world \<Rightarrow> string \<Rightarrow> string \<Rightarrow> string \<Rightarrow> string \<Rightarrow> string \<Rightarrow> approval_store option
       \<Rightarrow> (string, pyval) dict \<times> approval_store option" where
  "request_approval w agent command cwd risk reason store =
     (case store of
        None \<Rightarrow> ([], None)
      | Some st \<Rightarrow>
          (case ap_request (rw_float w) (rw_now w) (rw_fresh w) (rw_ttl w)
                  \<lparr>rc_agent_id = agent, rc_tool = ''shell'', rc_command = command, rc_cwd = cwd,
                   rc_risk_level = risk, rc_reason = reason\<rparr> st of
             (r, st') \<Rightarrow> ([(''approval_id'', PStr (ap_id r))], Some st')))"

definition ANOMALY_REASON :: string where
  "ANOMALY_REASON = ''behavior anomaly detected for command''"

definition combine ::
    "rule_world \<Rightarrow> string \<Rightarrow> string \<Rightarrow> string \<Rightarrow> verdict \<Rightarrow> behavior_verdict option \<Rightarrow> approval_store option
       \<Rightarrow> decision \<times> approval_store option" where
  "combine w agent command sandbox v monitor store =
     (case v of (risk, action, reason) \<Rightarrow>
        if risk = RISK_CRITICAL then (decide D_DENY (''critical risk: '' @ reason) ''critical'', store)
        else if monitor = Some Anomaly then
          (case request_approval w agent command sandbox ''high'' ANOMALY_REASON store of (meta, store') \<Rightarrow>
             (needs_confirmation ANOMALY_REASON ''high'' ((''monitor_verdict'', PStr ''anomaly'') # meta), store'))
        else if action = ACT_DENY then (decide D_DENY reason (risk_value risk), store)
        else if action = ACT_CONFIRM then
          (case request_approval w agent command sandbox (risk_value risk) reason store of (meta, store') \<Rightarrow>
             (needs_confirmation reason (risk_value risk) meta, store'))
        else (decide D_ALLOW reason (risk_value risk), store))"

definition can_execute ::
    "rule_world \<Rightarrow> security_rule \<Rightarrow> behavior_monitor option \<Rightarrow> string \<Rightarrow> string \<Rightarrow> string
       \<Rightarrow> (string, pyval) dict \<Rightarrow> source_type option \<Rightarrow> approval_store option
       \<Rightarrow> (py_error + decision) \<times> approval_store option" where
  "can_execute w sr monitor agent command sandbox ctx source store =
     (case policy_evaluate (rw_search w) (sr_rules sr) command source of
        Inl e \<Rightarrow> (Inl e, store)
      | Inr v \<Rightarrow>
          if sr_enforce_limits sr \<and> \<not> within_limits w agent ctx
          then (Inl (Trm RESOURCE_LIMIT_EXCEEDED), store)
          else (case combine w agent command sandbox v
                       (map_option (check_command (rw_now w) agent command sandbox) monitor) store of
                  (d, store') \<Rightarrow> (Inr d, store')))"

text \<open>The resource field of a TARL line, with its two numeric entries converted.\<close>

definition tarl_resources :: "(string \<Rightarrow> time option) \<Rightarrow> string \<Rightarrow> (string, pyval) dict" where
  "tarl_resources float_of s =
     (if s = [] then []
      else map (\<lambda>(k, v). (k, if k \<in> {''cpu_percent'', ''memory_mb''}
                              then (case float_of v of None \<Rightarrow> PStr v | Some r \<Rightarrow> PFloat r)
                              else PStr v)) (parse_line s))"

definition can_execute_tarl ::
    "rule_world \<Rightarrow> security_rule \<Rightarrow> behavior_monitor option \<Rightarrow> string \<Rightarrow> string \<Rightarrow> string
       \<Rightarrow> approval_store option \<Rightarrow> (py_error + decision) \<times> approval_store option" where
  "can_execute_tarl w sr monitor agent tarl_line sandbox store =
     (let kvs = parse_line tarl_line;
          cmds = extract_prefix tarl_line ''cmd'';
          command = (if cmds = [] then tarl_line else hd cmds);
          effective = (case map_of kvs ''sandbox'' of None \<Rightarrow> sandbox | Some s \<Rightarrow> s);
          resource = (case map_of kvs ''resource'' of None \<Rightarrow> [] | Some s \<Rightarrow> s)
      in can_execute w sr monitor agent command effective (tarl_resources (rw_float w) resource) None store)"

definition confirm_decision :: "decision \<Rightarrow> bool option \<Rightarrow> decision" where
  "confirm_decision d response =
     (if \<not> dc_requires_confirmation d then d
      else case response of
        Some True \<Rightarrow> decide D_ALLOW (''user confirmed: '' @ dc_reason d) (dc_risk_level d)
      | Some False \<Rightarrow> decide D_DENY (''user denied: '' @ dc_reason d) (dc_risk_level d)
      | None \<Rightarrow>
          \<lparr>dc_action = D_PENDING, dc_reason = ''awaiting user confirmation: '' @ dc_reason d,
           dc_risk_level = dc_risk_level d, dc_requires_confirmation = True, dc_metadata = dc_metadata d\<rparr>)"

definition check_landlock_path :: "string \<Rightarrow> string \<Rightarrow> string \<Rightarrow> decision" where
  "check_landlock_path agent path access =
     (decide D_ALLOW (''landlock stub: '' @ agent @ '' '' @ access @ '' '' @ path) ''low'')
       \<lparr>dc_metadata := [(''landlock_version'', PInt 0), (''enforced'', PBool False)]\<rparr>"

definition set_resource_limit :: "string \<Rightarrow> rat \<Rightarrow> security_rule \<Rightarrow> security_rule" where
  "set_resource_limit name v sr =
     (if name \<in> fst ` set (sr_limits sr) then sr\<lparr>sr_limits := AList.update name v (sr_limits sr)\<rparr> else sr)"

section \<open>Escape risks\<close>

datatype escape_risk =
    DockerSocket | Privileged | HostPid | HostNetwork | SystemPath string | CrossContainer | NoRisk

definition SYSTEM_PATHS :: "string list" where
  "SYSTEM_PATHS = [''/etc'', ''/usr'', ''/boot'', ''/sys'']"

definition path_risks :: "string list \<Rightarrow> escape_risk list" where
  "path_risks paths = map SystemPath (filter (\<lambda>mp. \<exists>s \<in> set SYSTEM_PATHS. sublist s mp) paths)"

definition flag_risk :: "(string, pyval) dict \<Rightarrow> string \<Rightarrow> escape_risk \<Rightarrow> escape_risk list" where
  "flag_risk config k risk = (if py_truthy (pget_default config k (PBool False)) then [risk] else [])"

text \<open>The mounted paths of the configuration are the list \<open>paths\<close>.\<close>

definition get_escape_risks :: "(string, pyval) dict \<Rightarrow> string list \<Rightarrow> escape_risk list" where
  "get_escape_risks config paths =
     (let risks = flag_risk config ''docker_socket_mounted'' DockerSocket @
                  flag_risk config ''privileged'' Privileged @ flag_risk config ''host_pid'' HostPid @
                  flag_risk config ''host_network'' HostNetwork @ path_risks paths @
                  flag_risk config ''cross_container_network'' CrossContainer
      in if risks = [] then [NoRisk] else risks)"

section \<open>Decisions\<close>

lemma decide_simps [simp]:
  "dc_action (decide a r k) = a" "dc_reason (decide a r k) = r" "dc_risk_level (decide a r k) = k"
  "dc_requires_confirmation (decide a r k) = False"
  "dc_action (needs_confirmation r k m) = D_CONFIRM" "dc_reason (needs_confirmation r k m) = r"
  "dc_risk_level (needs_confirmation r k m) = k" "dc_requires_confirmation (needs_confirmation r k m)"
  by (simp_all add: decide_def needs_confirmation_def)

lemma combine_action:
  "dc_action (fst (combine w agent command sandbox (risk, action, reason) monitor store)) =
   (if risk = RISK_CRITICAL then D_DENY
    else if monitor = Some Anomaly then D_CONFIRM
    else case action of ACT_DENY \<Rightarrow> D_DENY | ACT_CONFIRM \<Rightarrow> D_CONFIRM | ACT_AUTO \<Rightarrow> D_ALLOW)"
  by (cases action) (auto simp: combine_def split: prod.splits)

text \<open>
  With resource limits off (the gateway's setting) a decision depends on the policy verdict
  and the behaviour verdict alone: critical risk denies, otherwise an anomaly asks for
  confirmation, otherwise the policy action decides.  In particular an anomaly turns a policy
  denial into a question.
\<close>
theorem can_execute_table:
  assumes "\<not> sr_enforce_limits sr"
    and "policy_evaluate (rw_search w) (sr_rules sr) command source = Inr (risk, action, reason)"
  shows "\<exists>d store'. can_execute w sr monitor agent command sandbox ctx source store = (Inr d, store') \<and>
    dc_action d =
      (if risk = RISK_CRITICAL then D_DENY
       else if map_option (check_command (rw_now w) agent command sandbox) monitor = Some Anomaly then D_CONFIRM
       else case action of ACT_DENY \<Rightarrow> D_DENY | ACT_CONFIRM \<Rightarrow> D_CONFIRM | ACT_AUTO \<Rightarrow> D_ALLOW)"
proof -
  obtain d store' where c: "combine w agent command sandbox (risk, action, reason)
      (map_option (check_command (rw_now w) agent command sandbox) monitor) store = (d, store')"
    by force
  then have "can_execute w sr monitor agent command sandbox ctx source store = (Inr d, store')"
    using assms by (simp add: can_execute_def)
  then show ?thesis
    using combine_action [of w agent command sandbox risk action reason _ store] c by (metis fst_conv)
qed

text \<open>Confirmation settles exactly the decisions that ask for it.\<close>

lemma confirm_settles:
  "dc_requires_confirmation d \<Longrightarrow>
   dc_action (confirm_decision d r) = (case r of None \<Rightarrow> D_PENDING | Some b \<Rightarrow> if b then D_ALLOW else D_DENY)"
  by (auto simp: confirm_decision_def split: option.split bool.split)

text \<open>Registered peers trust each other in both directions, and nobody trusts himself by it.\<close>

lemma peers_fold:
  "peers_of (fold (\<lambda>aid s. s\<lparr>sr_peers := AList.update aid (peers_of s aid \<union> (A - {aid})) (sr_peers s)\<rparr>) ids sr) a =
   (if a \<in> set ids then peers_of sr a \<union> (A - {a}) else peers_of sr a)"
  by (induction ids arbitrary: sr) (auto simp: peers_of_def dict_simps)

lemma peers_symmetric:
  "a \<in> set ids \<Longrightarrow> b \<in> set ids \<Longrightarrow> a \<noteq> b \<Longrightarrow>
   is_workflow_peer (register_workflow_peers ids sr) a b \<and> is_workflow_peer (register_workflow_peers ids sr) b a"
  by (simp add: is_workflow_peer_def register_workflow_peers_def peers_fold)

lemma access_from_host: "target_sandbox \<noteq> ''host'' \<Longrightarrow> dc_action (can_access sr s t k ''host'' target_sandbox) = D_DENY"
  by (simp add: can_access_def)

end
