(* ===== verification/Sec_Monitor.thy ===== *)
theory Sec_Monitor
  imports Audit_Chain
begin

text \<open>
  Threat matching and the response to a match (\<open>sec_monitor.py\<close>, \<open>sec_executor.py\<close>):
  the bounded command history per agent, the classification of a history, matching of one
  command and of the joined history, the scan, and the dispatch of the top threat to the bus,
  the signed security log and the process signals.  The case insensitive regular expression
  search is a parameter: \<open>search\<close> on the patterns of the signatures and \<open>probe\<close> on the
  fixed patterns of the classifier.  The theory proves that a scan reports exactly the
  signatures that match, in order of confidence, and that the signed log always verifies.
\<close>

section \<open>Vocabulary\<close>

datatype threat_category = PRIV_ESCAPE | MALWARE | DATA_THEFT | C2_BOTNET | SUPPLY_CHAIN | LLM_ATTACK

fun category_value :: "threat_category \<Rightarrow> string" where
  "category_value PRIV_ESCAPE = ''priv_escape''"
| "category_value MALWARE = ''malware''"
| "category_value DATA_THEFT = ''data_theft''"
| "category_value C2_BOTNET = ''c2_botnet''"
| "category_value SUPPLY_CHAIN = ''supply_chain''"
| "category_value LLM_ATTACK = ''llm_attack''"

datatype defense_action = DEF_DENY | DEF_CONFIRM | DEF_ALLOW | DEF_FREEZE | DEF_KILL | DEF_ISOLATE | DEF_WORKFLOW

fun defense_value :: "defense_action \<Rightarrow> string" where
  "defense_value DEF_DENY = ''deny''"
| "defense_value DEF_CONFIRM = ''confirm''"
| "defense_value DEF_ALLOW = ''allow''"
| "defense_value DEF_FREEZE = ''freeze''"
| "defense_value DEF_KILL = ''kill''"
| "defense_value DEF_ISOLATE = ''isolate''"
| "defense_value DEF_WORKFLOW = ''workflow''"

datatype op_context =
    OP_NORMAL | DOWNLOAD_THEN_EXEC | WRITE_THEN_EXEC | WRITE_THEN_ENCRYPT | KEY_STEAL | SUID_STORM
  | CLONE_THEN_BUILD | COMPILE_THEN_EXEC

record threat_signature =
  ts_name :: string
  ts_category :: threat_category
  ts_defense :: defense_action
  ts_patterns :: "string list"
  ts_min_confidence :: rat
  ts_trigger_workflow :: string

record threat_match =
  tm_threat_name :: string
  tm_category :: threat_category
  tm_defense :: defense_action
  tm_confidence :: rat
  tm_matched_pattern :: string
  tm_workflow_name :: string
  tm_reason :: string

section \<open>Command history\<close>

type_synonym op_cache = "(string, string list) dict"

definition WINDOW :: nat where "WINDOW = 20"

definition agent_key :: "string \<Rightarrow> string" where
  "agent_key agent = (if agent = [] then ''unknown'' else agent)"

definition get_ops :: "op_cache \<Rightarrow> string \<Rightarrow> string list" where
  "get_ops cache agent = (case map_of cache (agent_key agent) of None \<Rightarrow> [] | Some q \<Rightarrow> q)"

text \<open>Appending to a \<open>deque(maxlen=20)\<close>; an empty command is not recorded.\<close>

definition push_op :: "string \<Rightarrow> string list \<Rightarrow> string list" where
  "push_op cmd q = (if length q = WINDOW then tl q else q) @ [cmd]"

definition record_op :: "string \<Rightarrow> string \<Rightarrow> op_cache \<Rightarrow> op_cache" where
  "record_op agent cmd cache =
     (if cmd = [] then cache
      else AList.update (agent_key agent) (push_op cmd (get_ops cache agent)) cache)"

text \<open>The patterns of the classifier, named after the commands they look for.\<close>

datatype probe =
    PipeToShell | GitClone | BuildTool | Compiler | RunLocal | SetUid | CryptoTool | EncryptOut
  | SshKeys | WriteOut | RunScript

definition classify_ops :: "(probe \<Rightarrow> string \<Rightarrow> bool) \<Rightarrow> string list \<Rightarrow> op_context" where
  "classify_ops probe history =
     (let joined = py_lower (join_with '' '' history);
          last_cmd = (if history = [] then [] else py_lower (last history))
      in if probe PipeToShell joined then DOWNLOAD_THEN_EXEC
         else if probe GitClone joined \<and> probe BuildTool joined then CLONE_THEN_BUILD
         else if probe Compiler joined \<and> probe RunLocal last_cmd then COMPILE_THEN_EXEC
         else if probe SetUid joined then SUID_STORM
         else if probe CryptoTool joined \<and> probe EncryptOut joined then WRITE_THEN_ENCRYPT
         else if probe SshKeys joined then KEY_STEAL
         else if probe WriteOut joined \<and> probe RunScript joined then WRITE_THEN_EXEC
         else OP_NORMAL)"

definition get_op_context :: "(probe \<Rightarrow> string \<Rightarrow> bool) \<Rightarrow> op_cache \<Rightarrow> string \<Rightarrow> op_context" where
  "get_op_context probe cache agent =
     (let history = get_ops cache agent
      in if history = [] then OP_NORMAL else classify_ops probe history)"

section \<open>Matching\<close>

definition threat_of :: "threat_signature \<Rightarrow> rat \<Rightarrow> string \<Rightarrow> string \<Rightarrow> threat_match" where
  "threat_of sig confidence pat why =
     \<lparr>tm_threat_name = ts_name sig, tm_category = ts_category sig, tm_defense = ts_defense sig,
      tm_confidence = confidence, tm_matched_pattern = pat,
      tm_workflow_name = ts_trigger_workflow sig, tm_reason = ts_name sig @ why @ pat\<rparr>"

text \<open>An empty pattern that matches counts as no match in \<open>match\<close>, whose test is on the text.\<close>

definition matched_pattern :: "(string \<Rightarrow> string \<Rightarrow> bool) \<Rightarrow> string \<Rightarrow> threat_signature \<Rightarrow> string" where
  "matched_pattern search cmd sig =
     (case find (\<lambda>p. search p cmd) (ts_patterns sig) of None \<Rightarrow> [] | Some p \<Rightarrow> p)"

text \<open>\<open>sort(key=confidence, reverse=True)\<close> keeps the order of equal elements.\<close>

definition by_confidence :: "threat_match list \<Rightarrow> threat_match list" where
  "by_confidence ts = sort_key (\<lambda>t. - tm_confidence t) ts"

definition match_command :: "(string \<Rightarrow> string \<Rightarrow> bool) \<Rightarrow> threat_signature list \<Rightarrow> string \<Rightarrow> threat_match list" where
  "match_command search sigs cmd =
     by_confidence
       (map (\<lambda>sig. threat_of sig (ts_min_confidence sig) (matched_pattern search cmd sig) '' detected: '')
         (filter (\<lambda>sig. matched_pattern search cmd sig \<noteq> []) sigs))"

definition sequence_hits ::
    "(string \<Rightarrow> string \<Rightarrow> bool) \<Rightarrow> threat_signature list \<Rightarrow> string \<Rightarrow> (threat_signature \<times> string) list" where
  "sequence_hits search sigs joined =
     concat (map (\<lambda>sig. map (Pair sig) (filter (\<lambda>p. search p joined) (ts_patterns sig))) sigs)"

definition match_sequence ::
    "(string \<Rightarrow> string \<Rightarrow> bool) \<Rightarrow> threat_signature list \<Rightarrow> string list \<Rightarrow> threat_match option" where
  "match_sequence search sigs ops =
     (if ops = [] then None
      else case sequence_hits search sigs (py_lower (join_with '' '' ops)) of
             [] \<Rightarrow> None
           | (sig, p) # _ \<Rightarrow>
               Some (threat_of sig (min 1 (ts_min_confidence sig + 1 / 20)) p '' sequence detected: ''))"

definition add_sequence :: "threat_match option \<Rightarrow> threat_match list \<Rightarrow> threat_match list" where
  "add_sequence sq ts =
     (case sq of
        None \<Rightarrow> ts
      | Some t \<Rightarrow> if tm_threat_name t \<in> set (map tm_threat_name ts) then ts else ts @ [t])"

definition scan_command ::
    "(string \<Rightarrow> string \<Rightarrow> bool) \<Rightarrow> threat_signature list \<Rightarrow> string \<Rightarrow> string \<Rightarrow> op_cache
       \<Rightarrow> threat_match list \<times> op_cache" where
  "scan_command search sigs agent cmd cache =
     (let cache' = record_op agent cmd cache
      in (by_confidence (add_sequence (match_sequence search sigs (get_ops cache' agent))
            (match_command search sigs cmd)), cache'))"

section \<open>The signed security log\<close>

text \<open>The fields of the audit record that the executor sets, the others at their defaults.\<close>

record sec_record =
  sr_timestamp :: time
  sr_event_id :: string
  sr_agent_id :: string
  sr_command :: string
  sr_threat :: string
  sr_verdict :: string
  sr_reason :: string
  sr_sandbox :: string
  sr_layer_hit :: string

definition sec_dump :: "sec_record \<Rightarrow> pyval \<Rightarrow> audit_record" where
  "sec_dump r prev =
     [(''timestamp'', PFloat (sr_timestamp r)), (''event_id'', PStr (sr_event_id r)),
      (''agent_id'', PStr (sr_agent_id r)), (''command'', PStr (sr_command r)),
      (''threat'', PStr (sr_threat r)), (''verdict'', PStr (sr_verdict r)),
      (''reason'', PStr (sr_reason r)), (''context'', PStr ''normal''),
      (''sandbox'', PStr (sr_sandbox r)), (''layer_hit'', PStr (sr_layer_hit r)),
      (''prev_hash'', prev), (''workflow_id'', PStr []), (''node_id'', PStr []),
      (''source'', PStr []), (''status'', PStr ''completed''), (''output'', PNone),
      (''output_data'', PDict []), (''error'', PStr []), (''duration'', PFloat 0),
      (''token_estimate'', PInt 0)]"

type_synonym sec_file = "file_line list option"

definition last_content :: "sec_file \<Rightarrow> content option" where
  "last_content f =
     (case f of None \<Rightarrow> None
      | Some ls \<Rightarrow>
          (let cs = filter (\<lambda>c. c \<noteq> Blank) (map snd ls) in if cs = [] then None else Some (last cs)))"

definition read_last_hash :: "sec_file \<Rightarrow> py_error + pyval" where
  "read_last_hash f =
     (case last_content f of
        Some (Json (PDict r)) \<Rightarrow> Inr (pget_default r ''hmac'' (PStr []))
      | Some (Json _) \<Rightarrow> Inl AttributeError
      | _ \<Rightarrow> Inr (PStr []))"

definition signed_record :: "mac \<Rightarrow> string \<Rightarrow> pyval \<Rightarrow> sec_record \<Rightarrow> audit_record" where
  "signed_record mac key prev r =
     sec_dump r prev @ [(''hmac'', PStr (compute_hash mac key (sec_dump r prev)))]"

definition sec_line :: "audit_record \<Rightarrow> file_line" where
  "sec_line d = (utf8_bytes (json_text True False '', '' '': '' (PDict d)) + 1, Json (PDict d))"

definition sec_log :: "mac \<Rightarrow> string \<Rightarrow> sec_record \<Rightarrow> sec_file \<Rightarrow> py_error + sec_file" where
  "sec_log mac key r f =
     (case read_last_hash f of
        Inl e \<Rightarrow> Inl e
      | Inr prev \<Rightarrow>
          Inr (Some ((case f of None \<Rightarrow> [] | Some ls \<Rightarrow> ls) @ [sec_line (signed_record mac key prev r)])))"

definition strict_options :: chain_options where
  "strict_options = \<lparr>tolerate_legacy = False, chain_start = None, allow_missing_anchor = False, allow_stale_anchor = False\<rparr>"

definition verify_sec_log :: "mac \<Rightarrow> string \<Rightarrow> sec_file \<Rightarrow> py_error + bool \<times> chain_error list" where
  "verify_sec_log mac key f = verify_chain_files mac key strict_options [(''security.log'', f)]"

section \<open>Response\<close>

text \<open>The event a scan is made for, with the payload fields the gateway sets.\<close>

record exec_event =
  xe_event_type :: string
  xe_agent_id :: string
  xe_command :: string
  xe_pid :: int
  xe_sandbox :: string
  xe_layer_hit :: string

datatype sec_effect = Publish sys_event | Signal string int

definition sec_event :: "string \<Rightarrow> string \<Rightarrow> severity \<Rightarrow> (string, pyval) dict \<Rightarrow> sys_event" where
  "sec_event ty source sev payload =
     \<lparr>ev_type = ty, ev_source = source, ev_source_type = SRC_UNKNOWN, ev_severity = sev,
      ev_payload = payload, ev_timestamp = None\<rparr>"

definition monitor_result_payload :: "threat_match \<Rightarrow> exec_event \<Rightarrow> (string, pyval) dict" where
  "monitor_result_payload t e =
     [(''threat_name'', PStr (tm_threat_name t)), (''category'', PStr (category_value (tm_category t))),
      (''defense'', PStr (defense_value (tm_defense t))), (''confidence'', PFloat (tm_confidence t)),
      (''matched_pattern'', PStr (tm_matched_pattern t)), (''workflow_name'', PStr (tm_workflow_name t)),
      (''reason'', PStr (tm_reason t)), (''agent_id'', PStr (agent_key (xe_agent_id e))),
      (''command'', PStr (xe_command e)), (''pid'', PInt (xe_pid e)), (''sandbox'', PStr (xe_sandbox e)),
      (''layer_hit'', PStr (xe_layer_hit e)), (''source_event_type'', PStr (xe_event_type e))]"

definition notif_payload :: "threat_match \<Rightarrow> exec_event \<Rightarrow> (string, pyval) dict" where
  "notif_payload t e =
     [(''threat_name'', PStr (tm_threat_name t)), (''defense'', PStr (defense_value (tm_defense t))),
      (''agent_id'', PStr (xe_agent_id e)), (''command'', PStr (xe_command e)), (''reason'', PStr (tm_reason t))]"

definition notif_alert :: "threat_match \<Rightarrow> exec_event \<Rightarrow> sec_effect" where
  "notif_alert t e = Publish (sec_event ''security.alert'' ''sec_executor'' SEV_WARNING (notif_payload t e))"

definition notif_blocked :: "threat_match \<Rightarrow> exec_event \<Rightarrow> sec_effect" where
  "notif_blocked t e = Publish (sec_event ''security.blocked'' ''sec_executor'' SEV_CRITICAL (notif_payload t e))"

text \<open>A signal is sent to a positive process id only; a failing \<open>kill\<close> is swallowed.\<close>

definition send_signal :: "string \<Rightarrow> int \<Rightarrow> sec_effect list" where
  "send_signal name pid = (if pid \<le> 0 then [] else [Signal name pid])"

fun defend :: "threat_match \<Rightarrow> exec_event \<Rightarrow> defense_action \<Rightarrow> sec_effect list" where
  "defend t e DEF_DENY = [notif_blocked t e]"
| "defend t e DEF_FREEZE = send_signal ''SIGSTOP'' (xe_pid e) @ [notif_alert t e]"
| "defend t e DEF_KILL = send_signal ''SIGKILL'' (xe_pid e) @ [notif_blocked t e]"
| "defend t e _ = [notif_alert t e]"

record sec_executor =
  sx_has_log :: bool
  sx_key :: string

definition executor_record :: "time \<Rightarrow> string \<Rightarrow> threat_match \<Rightarrow> exec_event \<Rightarrow> sec_record" where
  "executor_record now fresh t e =
     \<lparr>sr_timestamp = now, sr_event_id = ''sec_'' @ fresh, sr_agent_id = xe_agent_id e,
      sr_command = xe_command e, sr_threat = tm_threat_name t, sr_verdict = defense_value (tm_defense t),
      sr_reason = tm_reason t, sr_sandbox = xe_sandbox e, sr_layer_hit = xe_layer_hit e\<rparr>"

definition sec_execute ::
    "mac \<Rightarrow> time \<Rightarrow> string \<Rightarrow> sec_executor \<Rightarrow> threat_match \<Rightarrow> exec_event \<Rightarrow> sec_file
       \<Rightarrow> py_error + sec_effect list \<times> sec_file" where
  "sec_execute mac now fresh sx t e f =
     (if \<not> sx_has_log sx then Inr (defend t e (tm_defense t), f)
      else case sec_log mac (sx_key sx) (executor_record now fresh t e) f of
             Inl err \<Rightarrow> Inl err
           | Inr f' \<Rightarrow> Inr (defend t e (tm_defense t), f'))"

definition monitor_result :: "threat_match \<Rightarrow> exec_event \<Rightarrow> sec_effect" where
  "monitor_result t e =
     Publish (sec_event ''security.monitor_result'' ''sec_monitor'' SEV_WARNING (monitor_result_payload t e))"

text \<open>The result is published before the executor is called, whatever the executor does.\<close>

definition dispatch_threat ::
    "mac \<Rightarrow> time \<Rightarrow> string \<Rightarrow> sec_executor option \<Rightarrow> threat_match \<Rightarrow> exec_event \<Rightarrow> sec_file
       \<Rightarrow> (py_error + sec_file) \<times> sec_effect list" where
  "dispatch_threat mac now fresh sx t e f =
     (case sx of
        None \<Rightarrow> (Inr f, [monitor_result t e])
      | Some x \<Rightarrow>
          (case sec_execute mac now fresh x t e f of
             Inl err \<Rightarrow> (Inl err, [monitor_result t e])
           | Inr (effects, f') \<Rightarrow> (Inr f', monitor_result t e # effects)))"

record sec_state =
  ss_ops :: op_cache
  ss_file :: sec_file
  ss_effects :: "sec_effect list"

definition inspect ::
    "(string \<Rightarrow> string \<Rightarrow> bool) \<Rightarrow> threat_signature list \<Rightarrow> mac \<Rightarrow> time \<Rightarrow> string \<Rightarrow> sec_executor option
       \<Rightarrow> exec_event \<Rightarrow> sec_state \<Rightarrow> (py_error + threat_match list) \<times> sec_state" where
  "inspect search sigs mac now fresh sx e s =
     (case scan_command search sigs (agent_key (xe_agent_id e)) (xe_command e) (ss_ops s) of
        (threats, ops) \<Rightarrow>
          let s1 = s\<lparr>ss_ops := ops\<rparr>
          in case threats of
               [] \<Rightarrow> (Inr [], s1)
             | worst # _ \<Rightarrow>
                 (case dispatch_threat mac now fresh sx worst e (ss_file s) of
                    (Inl err, effects) \<Rightarrow> (Inl err, s1\<lparr>ss_effects := ss_effects s @ effects\<rparr>)
                  | (Inr f, effects) \<Rightarrow>
                      (Inr threats, s1\<lparr>ss_file := f, ss_effects := ss_effects s @ effects\<rparr>)))"

section \<open>What a scan reports\<close>

lemma set_by_confidence [simp]: "set (by_confidence ts) = set ts"
  by (simp add: by_confidence_def)

lemma by_confidence_sorted: "sorted_wrt (\<lambda>a b. tm_confidence b \<le> tm_confidence a) (by_confidence ts)"
proof -
  have "sorted (map (\<lambda>t. - tm_confidence t) (by_confidence ts))"
    unfolding by_confidence_def by (rule sorted_sort_key)
  then show ?thesis by (simp add: sorted_map)
qed

definition hits :: "(string \<Rightarrow> string \<Rightarrow> bool) \<Rightarrow> string \<Rightarrow> threat_signature \<Rightarrow> bool" where
  "hits search txt sig \<longleftrightarrow> (\<exists>p \<in> set (ts_patterns sig). search p txt)"

lemma find_SomeD: "find P xs = Some x \<Longrightarrow> x \<in> set xs \<and> P x"
  by (auto simp: find_Some_iff)

lemma matched_pattern_hits:
  assumes "[] \<notin> set (ts_patterns sig)"
  shows "matched_pattern search cmd sig \<noteq> [] \<longleftrightarrow> hits search cmd sig"
proof (cases "find (\<lambda>p. search p cmd) (ts_patterns sig)")
  case None
  then have "matched_pattern search cmd sig = []" by (simp add: matched_pattern_def)
  moreover have "\<not> hits search cmd sig" using None by (auto simp: hits_def find_None_iff)
  ultimately show ?thesis by simp
next
  case (Some p)
  then show ?thesis using find_SomeD [OF Some] assms by (auto simp: matched_pattern_def hits_def)
qed

lemma sequence_hits_facts:
  "sequence_hits search sigs joined = [] \<longleftrightarrow> \<not> (\<exists>sig \<in> set sigs. hits search joined sig)"
  "(sig, p) \<in> set (sequence_hits search sigs joined) \<Longrightarrow> sig \<in> set sigs \<and> hits search joined sig"
  by (auto simp: sequence_hits_def hits_def filter_empty_conv)

lemma match_sequence_hits:
  "ops \<noteq> [] \<Longrightarrow>
   match_sequence search sigs ops = None \<longleftrightarrow>
    \<not> (\<exists>sig \<in> set sigs. hits search (py_lower (join_with '' '' ops)) sig)"
  unfolding sequence_hits_facts(1) [symmetric]
  by (auto simp: match_sequence_def split: list.splits)

lemma match_sequence_name:
  assumes "match_sequence search sigs ops = Some t"
  shows "\<exists>sig \<in> set sigs. tm_threat_name t = ts_name sig \<and> tm_defense t = ts_defense sig \<and>
     hits search (py_lower (join_with '' '' ops)) sig"
proof -
  obtain sig p rest where h: "sequence_hits search sigs (py_lower (join_with '' '' ops)) = (sig, p) # rest"
    and t: "t = threat_of sig (min 1 (ts_min_confidence sig + 1 / 20)) p '' sequence detected: ''"
    using assms by (auto simp: match_sequence_def split: if_splits list.splits)
  have "(sig, p) \<in> set (sequence_hits search sigs (py_lower (join_with '' '' ops)))"
    by (subst h) simp
  then have "sig \<in> set sigs \<and> hits search (py_lower (join_with '' '' ops)) sig"
    by (rule sequence_hits_facts(2))
  with t show ?thesis by (auto simp: threat_of_def)
qed

lemma get_ops_record:
  "cmd \<noteq> [] \<Longrightarrow> get_ops (record_op agent cmd cache) agent = push_op cmd (get_ops cache agent)"
  by (simp add: record_op_def get_ops_def dict_simps)

lemma push_op_bound: "length q \<le> WINDOW \<Longrightarrow> length (push_op c q) \<le> WINDOW \<and> last (push_op c q) = c"
  by (auto simp: push_op_def WINDOW_def)

text \<open>
  For a nonempty command, a scan reports no threat exactly when no signature matches the
  command and none matches the lower case text of the agent's last twenty commands joined by
  spaces, this one included; the threats come in order of falling confidence.
\<close>
theorem scan_reports_matches:
  assumes "cmd \<noteq> []" and "\<forall>sig \<in> set sigs. [] \<notin> set (ts_patterns sig)"
  shows "(fst (scan_command search sigs agent cmd cache) = [] \<longleftrightarrow>
      (\<forall>sig \<in> set sigs. \<not> hits search cmd sig \<and>
         \<not> hits search (py_lower (join_with '' '' (push_op cmd (get_ops cache agent)))) sig)) \<and>
    sorted_wrt (\<lambda>a b. tm_confidence b \<le> tm_confidence a) (fst (scan_command search sigs agent cmd cache))"
proof
  let ?sq = "match_sequence search sigs (push_op cmd (get_ops cache agent))"
  have ne: "push_op cmd (get_ops cache agent) \<noteq> []" by (simp add: push_op_def)
  have scan: "fst (scan_command search sigs agent cmd cache) =
      by_confidence (add_sequence ?sq (match_command search sigs cmd))"
    using assms(1) by (simp add: scan_command_def Let_def get_ops_record)
  have empty: "by_confidence ts = [] \<longleftrightarrow> ts = []" for ts
    by (metis set_by_confidence set_empty)
  have "add_sequence ?sq (match_command search sigs cmd) = [] \<longleftrightarrow>
      ?sq = None \<and> match_command search sigs cmd = []"
    by (auto simp: add_sequence_def split: option.splits)
  moreover have "match_command search sigs cmd = [] \<longleftrightarrow> (\<forall>sig \<in> set sigs. \<not> hits search cmd sig)"
    using assms(2) matched_pattern_hits [of _ search cmd]
    by (simp add: match_command_def empty filter_empty_conv)
  ultimately show "fst (scan_command search sigs agent cmd cache) = [] \<longleftrightarrow>
      (\<forall>sig \<in> set sigs. \<not> hits search cmd sig \<and>
         \<not> hits search (py_lower (join_with '' '' (push_op cmd (get_ops cache agent)))) sig)"
    using match_sequence_hits [OF ne, of search sigs] by (auto simp: scan empty)
  show "sorted_wrt (\<lambda>a b. tm_confidence b \<le> tm_confidence a) (fst (scan_command search sigs agent cmd cache))"
    unfolding scan by (rule by_confidence_sorted)
qed

definition demo_signature :: threat_signature where
  "demo_signature =
     \<lparr>ts_name = ''miner'', ts_category = MALWARE, ts_defense = DEF_KILL, ts_patterns = [''xmrig''],
      ts_min_confidence = 7 / 10, ts_trigger_workflow = []\<rparr>"

theorem scan_reports_matches_witness:
  "fst (scan_command (=) [demo_signature] ''a'' ''xmrig'' []) \<noteq> []"
proof -
  have "\<forall>sig \<in> set [demo_signature]. [] \<notin> set (ts_patterns sig)" "hits (=) ''xmrig'' demo_signature"
    by (simp_all add: demo_signature_def hits_def)
  then show ?thesis
    using scan_reports_matches [of "''xmrig''" "[demo_signature]" "(=)" "''a''" "[]"] by simp
qed

section \<open>The security log verifies\<close>

fun sec_log_all :: "mac \<Rightarrow> string \<Rightarrow> sec_record list \<Rightarrow> sec_file \<Rightarrow> py_error + sec_file" where
  "sec_log_all mac key [] f = Inr f"
| "sec_log_all mac key (r # rs) f =
     (case sec_log mac key r f of Inl e \<Rightarrow> Inl e | Inr f' \<Rightarrow> sec_log_all mac key rs f')"

definition sec_rows :: "audit_record list \<Rightarrow> file_line list" where
  "sec_rows ds = map sec_line ds"

definition chain_head :: "audit_record list \<Rightarrow> pyval" where
  "chain_head ds = (if ds = [] then PStr [] else pget (last ds) ''hmac'')"

lemma signed_record_facts:
  "authentic mac key (signed_record mac key prev r)"
  "pget (signed_record mac key prev r) ''prev_hash'' = prev"
  by (simp_all add: authentic_def signed_record_def sec_dump_def without_hmac_def pget_def)

lemma read_last_hash_rows:
  assumes "f = Some (sec_rows ds) \<or> f = None \<and> ds = []" "linked mac key (PStr []) ds"
  shows "read_last_hash f = Inr (chain_head ds)"
proof (cases ds rule: rev_cases)
  case Nil
  then show ?thesis using assms(1) by (auto simp: read_last_hash_def last_content_def sec_rows_def chain_head_def)
next
  case (snoc ds' d)
  have "has_hmac d" using assms(2) snoc authentic_has_hmac [of mac key d]
    by (simp add: linked_append)
  then show ?thesis using assms(1) snoc
    by (auto simp: read_last_hash_def last_content_def sec_rows_def chain_head_def sec_line_def has_hmac_get)
qed

lemma sec_log_step:
  assumes "f = Some (sec_rows ds) \<or> f = None \<and> ds = []" "linked mac key (PStr []) ds"
  shows "\<exists>d. sec_log mac key r f = Inr (Some (sec_rows (ds @ [d]))) \<and> linked mac key (PStr []) (ds @ [d])"
proof -
  let ?d = "signed_record mac key (chain_head ds) r"
  have "sec_log mac key r f = Inr (Some (sec_rows (ds @ [?d])))"
    using assms(1) read_last_hash_rows [OF assms] by (auto simp: sec_log_def sec_rows_def)
  moreover have "linked mac key (PStr []) (ds @ [?d])"
    using assms(2) by (simp add: linked_append signed_record_facts chain_head_def)
  ultimately show ?thesis by blast
qed

lemma sec_log_all_chain:
  "f = Some (sec_rows ds) \<or> f = None \<and> ds = [] \<Longrightarrow> linked mac key (PStr []) ds \<Longrightarrow>
   \<exists>f' ds'. sec_log_all mac key rs f = Inr f' \<and>
     (f' = Some (sec_rows (ds @ ds')) \<or> f' = None \<and> ds @ ds' = []) \<and>
     linked mac key (PStr []) (ds @ ds') \<and> length ds' = length rs"
proof (induction rs arbitrary: f ds)
  case Nil
  then show ?case by (intro exI [of _ f] exI [of _ "[]"]) auto
next
  case (Cons r rs)
  obtain d where d: "sec_log mac key r f = Inr (Some (sec_rows (ds @ [d])))"
      "linked mac key (PStr []) (ds @ [d])"
    using sec_log_step [OF Cons.prems] by blast
  obtain f' ds' where "sec_log_all mac key rs (Some (sec_rows (ds @ [d]))) = Inr f'"
      "f' = Some (sec_rows ((ds @ [d]) @ ds')) \<or> f' = None \<and> (ds @ [d]) @ ds' = []"
      "linked mac key (PStr []) ((ds @ [d]) @ ds')" "length ds' = length rs"
    using Cons.IH [of "Some (sec_rows (ds @ [d]))" "ds @ [d]"] d(2) by auto
  then show ?case using d(1) by (intro exI [of _ f'] exI [of _ "d # ds'"]) auto
qed

lemma strict_options_simps [simp]:
  "\<not> tolerate_legacy strict_options" "chain_start strict_options = None"
  "\<not> allow_missing_anchor strict_options" "\<not> allow_stale_anchor strict_options"
  by (simp_all add: strict_options_def)

lemma verify_linked:
  assumes "linked mac key (PStr []) ds"
  shows "verify_sec_log mac key (Some (sec_rows ds)) = Inr (True, [])"
proof -
  let ?xs = "lines_of [(''security.log'', Some (sec_rows ds))]"
  have xs: "?xs = map (\<lambda>d. (''security.log'', Json (PDict d))) ds"
    by (simp add: lines_of_def sec_rows_def sec_line_def comp_def)
  have "accepts mac key strict_options ?xs initial_chain"
  proof (cases ds)
    case Nil
    then show ?thesis unfolding xs by (simp add: accepts_Nil)
  next
    case (Cons d ds')
    let ?st = "verify_record mac key strict_options d initial_chain"
    obtain s where s: "pget d ''hmac'' = PStr s" using assms Cons linked_next by blast
    have d: "authentic mac key d" "pget d ''prev_hash'' = PStr []" "linked mac key (PStr s) ds'"
      using assms Cons s by auto
    have st: "chain_errors ?st = []" "chain_started ?st" "prev_hmac ?st = PStr s"
      using d(1,2) s authentic_has_hmac [OF d(1)]
      by (simp_all add: verify_record_def initial_chain_def Let_def has_hmac_get)
    have "accepts mac key strict_options (map (\<lambda>d. (''security.log'', Json (PDict d))) ds') ?st"
    proof (subst accepts_started [of _ _ s])
      show "\<exists>rs. filter (\<lambda>c. c \<noteq> Blank) (map snd (map (\<lambda>d. (''security.log'', Json (PDict d))) ds')) =
          map (\<lambda>r. Json (PDict r)) rs \<and> linked mac key (PStr s) rs"
        using d(3) by (intro exI [of _ ds']) (simp add: comp_def filter_map)
    qed (use st in auto)
    then show ?thesis using st(1) unfolding xs by (simp add: Cons accepts_Cons initial_chain_def)
  qed
  then show ?thesis by (simp add: verify_sec_log_def verify_chain_files_accepts)
qed

text \<open>
  However many records the executor logs into a new file, each write succeeds and the strict
  verification of the file, without any tolerance, accepts it.
\<close>

lemma sec_log_verifies:
  assumes "rs \<noteq> []"
  shows "\<exists>f. sec_log_all mac key rs None = Inr f \<and> verify_sec_log mac key f = Inr (True, [])"
proof -
  obtain f ds where "sec_log_all mac key rs None = Inr f"
      "f = Some (sec_rows ds) \<or> f = None \<and> ds = []" "linked mac key (PStr []) ds" "length ds = length rs"
    using sec_log_all_chain [of None "[]" mac key rs] by auto
  then show ?thesis using assms verify_linked by fastforce
qed

end
