(* ===== verification/Tool_Gateway.thy ===== *)
theory Tool_Gateway
  imports Security_Rule Sec_Monitor Capability Audit_Store
begin

text \<open>
  The execution gate (\<open>tool_gateway.py\<close>): every layer that a request passes before a tool
  runs, in the order of \<open>ToolGateway.execute\<close>, the JIT tokens, the confirmation prompts, the
  request for approval, the run itself, redaction and the audit record of every outcome.

  A layer maps what has been decided so far and the state of the gateway to an outcome: it
  stops with a response, goes on, or an exception leaves \<open>execute\<close>.  The state logs prompts,
  runs, published events and audit records in \<open>gs_trace\<close>.
\<close>

section \<open>Requests and responses\<close>

datatype tool_type =
    SHELL | FILE_READ | FILE_WRITE | FILE_DELETE | FILE_LIST | FILE_MOVE | FILE_COPY | FILE_SEARCH
  | GIT | GIT_STATUS | GIT_DIFF | GIT_LOG | GIT_COMMIT | GIT_PUSH | GIT_PULL | GIT_BRANCH
  | HTTP | HTTP_GET | HTTP_POST | PROCESS | PROCESS_LIST | PROCESS_KILL
  | SYSTEM | SYSTEM_INFO | SYSTEM_DISK | SYSTEM_MEMORY | KNOWLEDGE_SEARCH | KNOWLEDGE_STORE
  | NOTIFICATION | NOTIFICATION_SEND | MCP_TOOLS_LIST | MCP_TOOLS_CALL | ENV_GET | ENV_LIST
  | BROWSER | CUSTOM

fun tool_value :: "tool_type \<Rightarrow> string" where
  "tool_value SHELL = ''shell''" | "tool_value FILE_READ = ''file.read''"
| "tool_value FILE_WRITE = ''file.write''" | "tool_value FILE_DELETE = ''file.delete''"
| "tool_value FILE_LIST = ''file.list''" | "tool_value FILE_MOVE = ''file.move''"
| "tool_value FILE_COPY = ''file.copy''" | "tool_value FILE_SEARCH = ''file.search''"
| "tool_value GIT = ''git''" | "tool_value GIT_STATUS = ''git.status''"
| "tool_value GIT_DIFF = ''git.diff''" | "tool_value GIT_LOG = ''git.log''"
| "tool_value GIT_COMMIT = ''git.commit''" | "tool_value GIT_PUSH = ''git.push''"
| "tool_value GIT_PULL = ''git.pull''" | "tool_value GIT_BRANCH = ''git.branch''"
| "tool_value HTTP = ''http''" | "tool_value HTTP_GET = ''http.get''"
| "tool_value HTTP_POST = ''http.post''" | "tool_value PROCESS = ''process''"
| "tool_value PROCESS_LIST = ''process.list''" | "tool_value PROCESS_KILL = ''process.kill''"
| "tool_value SYSTEM = ''system''" | "tool_value SYSTEM_INFO = ''system.info''"
| "tool_value SYSTEM_DISK = ''system.disk''" | "tool_value SYSTEM_MEMORY = ''system.memory''"
| "tool_value KNOWLEDGE_SEARCH = ''knowledge.search''" | "tool_value KNOWLEDGE_STORE = ''knowledge.store''"
| "tool_value NOTIFICATION = ''notification''" | "tool_value NOTIFICATION_SEND = ''notification.send''"
| "tool_value MCP_TOOLS_LIST = ''mcp.tools.list''" | "tool_value MCP_TOOLS_CALL = ''mcp.tools.call''"
| "tool_value ENV_GET = ''env.get''" | "tool_value ENV_LIST = ''env.list''"
| "tool_value BROWSER = ''browser''" | "tool_value CUSTOM = ''custom''"

record manifest =
  am_name :: string
  am_exec :: "string list"
  am_deny_exec :: "string list"
  am_read :: "string list"
  am_write :: "string list"
  am_work_dir :: string

record exec_request =
  rq_tool :: tool_type
  rq_args :: "string list"
  rq_agent_id :: "string option"
  rq_manifest :: "manifest option"
  rq_cwd :: "string option"
  rq_source_type :: source_type
  rq_jit_token :: "string option"
  rq_approval_rules :: pyval
  rq_raw_command :: string
  rq_skip_cwd_check :: bool
  rq_sandbox :: string
  rq_seccomp :: string

record exec_response =
  rs_execution_id :: string
  rs_status :: string
  rs_output :: string
  rs_error :: string
  rs_exit_code :: int
  rs_risk :: risk_level
  rs_action :: policy_action
  rs_reason :: string
  rs_sandbox :: string
  rs_seccomp :: string

definition refusal :: "string \<Rightarrow> string \<Rightarrow> string \<Rightarrow> int \<Rightarrow> risk_level \<Rightarrow> policy_action \<Rightarrow> string \<Rightarrow> exec_response" where
  "refusal exec_id status err code risk action reason =
     \<lparr>rs_execution_id = exec_id, rs_status = status, rs_output = [], rs_error = err, rs_exit_code = code,
      rs_risk = risk, rs_action = action, rs_reason = reason, rs_sandbox = [], rs_seccomp = []\<rparr>"

text \<open>\<open>None or ""\<close> is the empty string.\<close>

definition opt_str :: "string option \<Rightarrow> string" where
  "opt_str x = (case x of None \<Rightarrow> [] | Some s \<Rightarrow> s)"

definition agent_or :: "string \<Rightarrow> exec_request \<Rightarrow> string" where
  "agent_or d rq = (if opt_str (rq_agent_id rq) = [] then d else opt_str (rq_agent_id rq))"

definition build_cmd_str :: "exec_request \<Rightarrow> string" where
  "build_cmd_str rq = py_strip (join_with '' '' (rq_args rq))"

text \<open>The command of audit records and of the JIT check.\<close>

definition audit_command :: "exec_request \<Rightarrow> string" where
  "audit_command rq = (if rq_args rq \<noteq> [] then join_with '' '' (rq_args rq) else rq_raw_command rq)"

section \<open>State\<close>

record jit_token =
  jt_agent_id :: string
  jt_tool :: string
  jt_command :: string
  jt_expires_at :: time
  jt_granted_by :: string
  jt_used :: bool

datatype gw_effect =
    Prompted string risk_level string string
  | RanFile string exec_request
  | Dispatched exec_request
  | PublishedAudit string severity

record gw_state =
  gs_tokens :: "(string, jit_token) dict"
  gs_audit_log :: "audit_event list"
  gs_behavior :: "behavior_monitor option"
  gs_learning :: "string list option"
  gs_sec :: sec_state
  gs_rule_store :: "approval_store option"
  gs_approvals :: "approval_store option"
  gs_store :: "audit_store option"
  gs_disk :: disk
  gs_trace :: "gw_effect list"

text \<open>The settings of a gateway; a tool definition counts by its name.\<close>

record gateway =
  gw_cwd_jail :: bool
  gw_redact :: bool
  gw_audit :: bool
  gw_jit :: bool
  gw_interactive :: bool
  gw_work_dir :: string
  gw_rules :: "policy_rule list"
  gw_security_rule :: "security_rule option"
  gw_signatures :: "threat_signature list option"
  gw_executor :: "sec_executor option"
  gw_tools :: "string list"
  gw_has_bus :: bool
  gw_allow_config :: "pyval option"

text \<open>
  What one execution reads from outside: the worlds of the layers, path resolution (the parts
  of the resolved path, or the text of the exception), the verdict of the optional language model
  layer (\<^const>\<open>None\<close> when there is none, its mode is \<open>regex\<close> or it fails), the certificates, the
  answers to the prompts, the tools, the sandbox plan, and the redaction of a text.
\<close>

record gw_world =
  wd_rule :: rule_world
  wd_exec_id :: string
  wd_event_id :: "nat \<Rightarrow> string"
  wd_resolve :: "string \<Rightarrow> string + string list"
  wd_llm :: "verdict option"
  wd_caps :: cap_env
  wd_clock :: string
  wd_cap_text :: "tight_reason \<Rightarrow> string"
  wd_cap_error_text :: "py_error \<Rightarrow> string"
  wd_limit_text :: string
  wd_threats :: "string \<Rightarrow> string \<Rightarrow> bool"
  wd_mac :: mac
  wd_answer :: "nat \<Rightarrow> bool"
  wd_deny_search :: "string \<Rightarrow> string \<Rightarrow> bool"
  wd_plan :: "exec_request \<Rightarrow> string \<times> string"
  wd_file_tool :: "string \<Rightarrow> (exec_request \<Rightarrow> exec_response option) option"
  wd_dispatch :: "exec_request \<Rightarrow> py_error + exec_response"
  wd_redact :: "string \<Rightarrow> string"
  wd_append :: append_world

definition now_of :: "gw_world \<Rightarrow> time" where
  "now_of w = rw_now (wd_rule w)"

section \<open>Recording an outcome\<close>

definition log_effect :: "gw_effect \<Rightarrow> gw_state \<Rightarrow> gw_state" where
  "log_effect e s = s\<lparr>gs_trace := gs_trace s @ [e]\<rparr>"

definition DENY_AUDIT_EVENTS :: "string list" where
  "DENY_AUDIT_EVENTS = [''policy_denied'', ''security_blocked'', ''cwd_jail'', ''user_cancelled'']"

definition AUDIT_WARN_EVENTS :: "string list" where
  "AUDIT_WARN_EVENTS = [''policy_denied'', ''security_blocked'', ''cwd_jail'', ''jit_auth'']"

definition observe_behavior :: "gw_world \<Rightarrow> string \<Rightarrow> exec_request \<Rightarrow> gw_state \<Rightarrow> gw_state" where
  "observe_behavior w event_type rq s =
     (let agent = agent_or ''unknown'' rq; cmd = build_cmd_str rq
      in s\<lparr>gs_behavior :=
             (if cmd = [] then gs_behavior s
              else map_option (\<lambda>bm. snd (record_command (now_of w) agent cmd
                     (source_type_value (rq_source_type rq)) bm)) (gs_behavior s)),
           gs_learning :=
             (if event_type \<in> set DENY_AUDIT_EVENTS then map_option (\<lambda>l. l @ [agent]) (gs_learning s)
              else gs_learning s)\<rparr>)"

fun source_type_name :: "source_type \<Rightarrow> string" where
  "source_type_name SRC_HUMAN = ''SourceType.HUMAN''"
| "source_type_name SRC_AI = ''SourceType.AI''"
| "source_type_name SRC_WORKFLOW = ''SourceType.WORKFLOW''"
| "source_type_name SRC_SYSTEM = ''SourceType.SYSTEM''"
| "source_type_name SRC_UNKNOWN = ''SourceType.UNKNOWN''"

definition or_str :: "string \<Rightarrow> string \<Rightarrow> string" where
  "or_str a b = (if a = [] then b else a)"

definition gateway_event :: "gw_world \<Rightarrow> string \<Rightarrow> exec_request \<Rightarrow> exec_response \<Rightarrow> nat \<Rightarrow> audit_event" where
  "gateway_event w event_type rq resp n =
     (let sandbox = or_str (rs_sandbox resp) (rq_sandbox rq);
          seccomp = or_str (rs_seccomp resp) (rq_seccomp rq)
      in \<lparr>ae_event_id = wd_event_id w n, ae_event_type = event_type,
          ae_agent_id = agent_or ''unknown'' rq,
          ae_agent_name = (case rq_manifest rq of None \<Rightarrow> ''unknown'' | Some m \<Rightarrow> am_name m),
          ae_tool = tool_value (rq_tool rq), ae_command = take 500 (audit_command rq),
          ae_risk = risk_value (rs_risk resp), ae_action = action_value (rs_action resp),
          ae_reason = rs_reason resp,
          ae_details =
            [(''execution_id'', PStr (rs_execution_id resp)), (''exit_code'', PInt (rs_exit_code resp)),
             (''cwd'', PStr (opt_str (rq_cwd rq))),
             (''source_type'', PStr (source_type_value (rq_source_type rq))),
             (''sandbox'', PStr sandbox), (''seccomp'', PStr seccomp)],
          ae_timestamp = now_of w, ae_source_type = source_type_name (rq_source_type rq),
          ae_sandbox = sandbox, ae_seccomp = seccomp, ae_jit_token = opt_str (rq_jit_token rq),
          ae_jit_expires_at = 0, ae_jit_granted_by = [], ae_prev_hash = PStr [], ae_hmac = []\<rparr>)"

definition keep_last :: "nat \<Rightarrow> 'a list \<Rightarrow> 'a list" where
  "keep_last n xs = drop (length xs - n) xs"

definition AUDIT_MAX :: nat where "AUDIT_MAX = 1000"

text \<open>Storing signs the event object itself, which the ring buffer holds as well.\<close>

definition store_audit :: "gw_world \<Rightarrow> audit_event \<Rightarrow> gw_state \<Rightarrow> audit_event \<times> gw_state" where
  "store_audit w e s =
     (case gs_store s of
        None \<Rightarrow> (e, s)
      | Some st \<Rightarrow>
          (case append (wd_mac w) (wd_append w) e st (gs_disk s) of (ok, e', st', d) \<Rightarrow>
             (e', s\<lparr>gs_store := Some st', gs_disk := d\<rparr>)))"

definition remember_audit :: "audit_event \<Rightarrow> gw_state \<Rightarrow> gw_state" where
  "remember_audit e s = s\<lparr>gs_audit_log := keep_last AUDIT_MAX (gs_audit_log s @ [e])\<rparr>"

definition publish_audit :: "gateway \<Rightarrow> string \<Rightarrow> gw_state \<Rightarrow> gw_state" where
  "publish_audit g event_type s =
     (if gw_has_bus g
      then log_effect (PublishedAudit (''audit.'' @ event_type)
             (if event_type \<in> set AUDIT_WARN_EVENTS then SEV_WARNING else SEV_INFO)) s
      else s)"

definition record_audit ::
    "gateway \<Rightarrow> gw_world \<Rightarrow> string \<Rightarrow> exec_request \<Rightarrow> exec_response \<Rightarrow> gw_state \<Rightarrow> gw_state" where
  "record_audit g w event_type rq resp s =
     (let s1 = observe_behavior w event_type rq s
      in if \<not> gw_audit g then s1
         else
           case store_audit w (gateway_event w event_type rq resp (length (gs_audit_log s1)))
                  s1 of
             (e, s2) \<Rightarrow> publish_audit g event_type (remember_audit e s2))"

section \<open>Outcomes\<close>

record pass =
  ps_risk :: risk_level
  ps_action :: policy_action
  ps_reason :: string

datatype outcome = Stop exec_response | Go pass | Crash py_error

fun and_then :: "outcome \<times> gw_state \<Rightarrow> (pass \<Rightarrow> gw_state \<Rightarrow> outcome \<times> gw_state) \<Rightarrow> outcome \<times> gw_state" where
  "and_then (Go p, s) f = f p s"
| "and_then (Stop r, s) f = (Stop r, s)"
| "and_then (Crash e, s) f = (Crash e, s)"

definition stop_with ::
    "gateway \<Rightarrow> gw_world \<Rightarrow> exec_request \<Rightarrow> string \<Rightarrow> exec_response \<Rightarrow> gw_state \<Rightarrow> outcome \<times> gw_state" where
  "stop_with g w rq event_type resp s = (Stop resp, record_audit g w event_type rq resp s)"

definition prompts :: "gw_state \<Rightarrow> nat" where
  "prompts s = length (filter (\<lambda>e. case e of Prompted _ _ _ _ \<Rightarrow> True | _ \<Rightarrow> False) (gs_trace s))"

text \<open>
  A prompt and its answer.  Without a terminal the answer is no.  A confirmed prompt turns the
  action into \<open>auto\<close>, a declined one ends the execution.
\<close>

definition prompt_confirm ::
    "gw_world \<Rightarrow> string \<Rightarrow> risk_level \<Rightarrow> string \<Rightarrow> string \<Rightarrow> gw_state \<Rightarrow> bool \<times> gw_state" where
  "prompt_confirm w cmd risk reason caller s =
     (wd_answer w (prompts s), log_effect (Prompted cmd risk reason caller) s)"

definition confirm_interactively ::
    "gateway \<Rightarrow> gw_world \<Rightarrow> exec_request \<Rightarrow> string \<Rightarrow> risk_level \<Rightarrow> string \<Rightarrow> pass \<Rightarrow> gw_state
       \<Rightarrow> outcome \<times> gw_state" where
  "confirm_interactively g w rq cmd risk reason p s =
     (case prompt_confirm w cmd risk reason (agent_or ''terminal'' rq) s of (yes, s1) \<Rightarrow>
        if yes then (Go (p\<lparr>ps_action := ACT_AUTO, ps_reason := ''User confirmed: '' @ reason\<rparr>), s1)
        else stop_with g w rq ''user_cancelled''
               (refusal (wd_exec_id w) ''denied'' ''User cancelled'' 1 risk ACT_DENY
                  ''User declined confirmation prompt'') s1)"

section \<open>Layer 0: the working directory\<close>

definition SKIP_JAIL :: "tool_type list" where
  "SKIP_JAIL =
     [KNOWLEDGE_SEARCH, KNOWLEDGE_STORE, NOTIFICATION, NOTIFICATION_SEND, MCP_TOOLS_LIST,
      MCP_TOOLS_CALL, CUSTOM, SHELL, BROWSER]"

definition quoted :: "string \<Rightarrow> string" where
  "quoted s = [CHR 0x27] @ s @ [CHR 0x27]"

definition jail_dir :: "gateway \<Rightarrow> exec_request \<Rightarrow> string" where
  "jail_dir g rq =
     (case rq_manifest rq of
        Some m \<Rightarrow> if am_work_dir m \<noteq> [] then am_work_dir m else gw_work_dir g
      | None \<Rightarrow> gw_work_dir g)"

definition check_cwd_jail :: "gateway \<Rightarrow> gw_world \<Rightarrow> exec_request \<Rightarrow> string option" where
  "check_cwd_jail g w rq =
     (if rq_tool rq \<in> set SKIP_JAIL then None
      else
        let work = jail_dir g rq; cwd = or_str (opt_str (rq_cwd rq)) work
        in case (wd_resolve w cwd, wd_resolve w work) of
             (Inr c, Inr d) \<Rightarrow>
               if prefix d c then None
               else Some (''cwd '' @ quoted cwd @ '' is outside allowed work directory '' @ quoted work)
           | (Inl e, _) \<Rightarrow> Some (''Path resolution error: '' @ e)
           | (_, Inl e) \<Rightarrow> Some (''Path resolution error: '' @ e))"

definition layer0 :: "gateway \<Rightarrow> gw_world \<Rightarrow> exec_request \<Rightarrow> pass \<Rightarrow> gw_state \<Rightarrow> outcome \<times> gw_state" where
  "layer0 g w rq p s =
     (if gw_cwd_jail g \<and> \<not> rq_skip_cwd_check rq then
        (case check_cwd_jail g w rq of
           Some why \<Rightarrow>
             stop_with g w rq ''cwd_jail''
               (refusal (wd_exec_id w) ''denied'' (''cwd jail: '' @ why) 1 RISK_HIGH ACT_DENY why) s
         | None \<Rightarrow> (Go p, s))
      else (Go p, s))"

section \<open>Layer 1: the policy\<close>

text \<open>The verdict of the rules, replaced by that of the language model unless the rules deny.\<close>

definition policy_verdict :: "gateway \<Rightarrow> gw_world \<Rightarrow> exec_request \<Rightarrow> py_error + verdict" where
  "policy_verdict g w rq =
     (case policy_evaluate (rw_search (wd_rule w)) (gw_rules g) (build_cmd_str rq) (Some (rq_source_type rq)) of
        Inl e \<Rightarrow> Inl e
      | Inr (risk, action, reason) \<Rightarrow>
          (case wd_llm w of
             Some v \<Rightarrow> Inr (if action \<noteq> ACT_DENY then v else (risk, action, reason))
           | None \<Rightarrow> Inr (risk, action, reason)))"

fun layer1_verdict ::
    "gateway \<Rightarrow> gw_world \<Rightarrow> exec_request \<Rightarrow> verdict \<Rightarrow> gw_state \<Rightarrow> outcome \<times> gw_state" where
  "layer1_verdict g w rq (risk, action, reason) s =
     (if action = ACT_DENY then
        stop_with g w rq ''policy_denied''
          (refusal (wd_exec_id w) ''denied'' (''Policy denied: '' @ reason) 1 risk action reason) s
      else if action = ACT_CONFIRM \<and> gw_interactive g then
        confirm_interactively g w rq (build_cmd_str rq) risk reason
          \<lparr>ps_risk = risk, ps_action = action, ps_reason = reason\<rparr> s
      else (Go \<lparr>ps_risk = risk, ps_action = action, ps_reason = reason\<rparr>, s))"

definition layer1 :: "gateway \<Rightarrow> gw_world \<Rightarrow> exec_request \<Rightarrow> pass \<Rightarrow> gw_state \<Rightarrow> outcome \<times> gw_state" where
  "layer1 g w rq p s =
     (case policy_verdict g w rq of Inl e \<Rightarrow> (Crash e, s) | Inr v \<Rightarrow> layer1_verdict g w rq v s)"

section \<open>Layer 2: the permissions of the agent\<close>

definition first_word :: "string \<Rightarrow> string" where
  "first_word cmd = (if cmd = [] then [] else py_lower (hd (split_ws cmd)))"

definition exec_allows :: "string \<Rightarrow> string \<Rightarrow> bool" where
  "exec_allows cmd allowed \<longleftrightarrow> first_word cmd = py_lower allowed \<or> prefix (py_lower allowed) cmd"

definition rstrip_char :: "char \<Rightarrow> string \<Rightarrow> string" where
  "rstrip_char c s = rev (dropWhile (\<lambda>x. x = c) (rev s))"

definition path_allowed :: "string \<Rightarrow> string \<Rightarrow> bool" where
  "path_allowed p ap \<longleftrightarrow> prefix (rstrip_char CHR ''/'' (rstrip_char CHR ''*'' ap)) p"

definition path_words :: "string \<Rightarrow> string list" where
  "path_words cmd =
     filter (\<lambda>p. CHR ''/'' \<in> set p \<or> CHR 0x5C \<in> set p \<or> prefix ''.'' p) (split_ws cmd)"

definition named_tool :: "gateway \<Rightarrow> exec_request \<Rightarrow> string option" where
  "named_tool g rq =
     (if tool_value (rq_tool rq) \<in> set (gw_tools g) then Some (tool_value (rq_tool rq)) else None)"

definition path_denial :: "string \<Rightarrow> manifest \<Rightarrow> string \<Rightarrow> string option" where
  "path_denial cmd m tool =
     (let paths = path_words cmd;
          allowed = (if tool = ''file.read'' then am_read m else am_write m)
      in if paths = [] then None
         else if allowed = [] then
           Some (''Agent '' @ quoted (am_name m) @ '' has no '' @ split_on CHR ''.'' tool ! 1 @ '' path permissions'')
         else case find (\<lambda>p. \<not> (\<exists>ap \<in> set allowed. path_allowed p ap)) paths of
                None \<Rightarrow> None
              | Some p \<Rightarrow> Some (''Agent '' @ quoted (am_name m) @ '' is not allowed to access path '' @ quoted p @
                     ''. Allowed: '' @ join_with '', '' allowed))"

definition check_agent_permissions :: "string \<Rightarrow> manifest option \<Rightarrow> string option \<Rightarrow> string option" where
  "check_agent_permissions cmd mo tool =
     (case mo of
        None \<Rightarrow> None
      | Some m \<Rightarrow>
          if first_word cmd \<in> set (map py_lower (am_deny_exec m)) then
            Some (''Agent '' @ quoted (am_name m) @ '' is not allowed to execute '' @ quoted (first_word cmd) @ '' (deny_exec rule)'')
          else if am_exec m \<noteq> [] \<and> \<not> (\<exists>a \<in> set (am_exec m). exec_allows cmd a) then
            Some (''Agent '' @ quoted (am_name m) @ '' may only execute: '' @ join_with '', '' (am_exec m) @
                  ''. Got '' @ quoted (first_word cmd))
          else case tool of
                 None \<Rightarrow> None
               | Some t \<Rightarrow>
                   if t \<in> {''file.read'', ''file.write''} then path_denial cmd m t else None)"

definition layer2 :: "gateway \<Rightarrow> gw_world \<Rightarrow> exec_request \<Rightarrow> pass \<Rightarrow> gw_state \<Rightarrow> outcome \<times> gw_state" where
  "layer2 g w rq p s =
     (case check_agent_permissions (build_cmd_str rq) (rq_manifest rq) (named_tool g rq) of
        Some why \<Rightarrow>
          stop_with g w rq ''policy_denied''
            (refusal (wd_exec_id w) ''denied'' (''Agent permission denied: '' @ why) 1 RISK_HIGH ACT_DENY why) s
      | None \<Rightarrow> (Go p, s))"

section \<open>Layer 2.5: the decision layer\<close>

text \<open>
  An exceeded resource limit is a denial, any other exception lets the request through.
\<close>

definition check_security_rule ::
    "gateway \<Rightarrow> gw_world \<Rightarrow> exec_request \<Rightarrow> gw_state \<Rightarrow> decision option \<times> gw_state" where
  "check_security_rule g w rq s =
     (case gw_security_rule g of
        None \<Rightarrow> (None, s)
      | Some sr \<Rightarrow>
          (case can_execute (wd_rule w) sr (gs_behavior s) (agent_or ''unknown'' rq) (build_cmd_str rq)
                  (source_type_value (rq_source_type rq)) [] (Some (rq_source_type rq)) (gs_rule_store s) of
             (Inr d, store) \<Rightarrow> (Some d, s\<lparr>gs_rule_store := store\<rparr>)
           | (Inl e, store) \<Rightarrow>
               (if e = Trm RESOURCE_LIMIT_EXCEEDED
                then Some (decide D_DENY (wd_limit_text w) ''high'') else None,
                s\<lparr>gs_rule_store := store\<rparr>)))"

definition risk_from_decision :: "decision \<Rightarrow> risk_level" where
  "risk_from_decision d = (case risk_of_string (dc_risk_level d) of Some r \<Rightarrow> r | None \<Rightarrow> RISK_MEDIUM)"

definition layer25_decision ::
    "gateway \<Rightarrow> gw_world \<Rightarrow> exec_request \<Rightarrow> decision option \<Rightarrow> pass \<Rightarrow> gw_state \<Rightarrow> outcome \<times> gw_state" where
  "layer25_decision g w rq dec p s =
     (case dec of
        None \<Rightarrow> (Go p, s)
      | Some d \<Rightarrow>
          if dc_action d = D_DENY then
            stop_with g w rq ''security_blocked''
              (refusal (wd_exec_id w) ''denied'' (''Security rule denied: '' @ dc_reason d) 1
                 (risk_from_decision d) ACT_DENY (dc_reason d)) s
          else if dc_action d = D_CONFIRM then
            (if gw_interactive g then
               confirm_interactively g w rq (build_cmd_str rq) (risk_from_decision d)
                 (''SecurityRule: '' @ dc_reason d) p s
             else (Go (p\<lparr>ps_action := ACT_CONFIRM, ps_reason := ''SecurityRule: '' @ dc_reason d\<rparr>), s))
          else (Go p, s))"

definition layer25 :: "gateway \<Rightarrow> gw_world \<Rightarrow> exec_request \<Rightarrow> pass \<Rightarrow> gw_state \<Rightarrow> outcome \<times> gw_state" where
  "layer25 g w rq p s =
     (case check_security_rule g w rq s of (dec, s1) \<Rightarrow> layer25_decision g w rq dec p s1)"

section \<open>Layer 2.6: the certificates\<close>

text \<open>The action and the text of a tightening; an exception counts as a confirmation.\<close>

definition check_capabilities :: "gateway \<Rightarrow> gw_world \<Rightarrow> exec_request \<Rightarrow> risk_level \<Rightarrow> (cap_action \<times> string) option" where
  "check_capabilities g w rq risk =
     (case tighten (wd_clock w) (wd_caps w) (agent_or ''unknown'' rq) (tool_value (rq_tool rq))
             (risk_value risk) (case named_tool g rq of None \<Rightarrow> [] | Some t \<Rightarrow> t) [] of
        Inl e \<Rightarrow> Some (CAP_CONFIRM, wd_cap_error_text w e)
      | Inr None \<Rightarrow> None
      | Inr (Some t) \<Rightarrow> Some (tg_action t, wd_cap_text w (tg_reason t)))"

definition layer26 :: "gateway \<Rightarrow> gw_world \<Rightarrow> exec_request \<Rightarrow> pass \<Rightarrow> gw_state \<Rightarrow> outcome \<times> gw_state" where
  "layer26 g w rq p s =
     (case check_capabilities g w rq (ps_risk p) of
        None \<Rightarrow> (Go p, s)
      | Some (a, txt) \<Rightarrow>
          if a = CAP_DENY then
            stop_with g w rq ''capability_denied''
              (refusal (wd_exec_id w) ''denied'' (''Capability denied: '' @ txt) 1 (ps_risk p) ACT_DENY txt) s
          else if a = CAP_CONFIRM then
            (if gw_interactive g then
               confirm_interactively g w rq (build_cmd_str rq) (ps_risk p) (''capabilities: '' @ txt) p s
             else (Go (p\<lparr>ps_action := ACT_CONFIRM, ps_reason := ''capabilities: '' @ txt\<rparr>), s))
          else (Go p, s))"

section \<open>Layer 4: the threat scan\<close>

fun layer4_gateway_action :: "defense_action \<Rightarrow> policy_action option" where
  "layer4_gateway_action DEF_DENY = Some ACT_DENY"
| "layer4_gateway_action DEF_KILL = Some ACT_DENY"
| "layer4_gateway_action DEF_FREEZE = Some ACT_DENY"
| "layer4_gateway_action DEF_ISOLATE = Some ACT_DENY"
| "layer4_gateway_action DEF_CONFIRM = Some ACT_CONFIRM"
| "layer4_gateway_action _ = None"

definition gateway_exec_event :: "exec_request \<Rightarrow> exec_event" where
  "gateway_exec_event rq =
     \<lparr>xe_event_type = ''agent.executing'', xe_agent_id = agent_or ''unknown'' rq,
      xe_command = build_cmd_str rq, xe_pid = 0, xe_sandbox = source_type_value (rq_source_type rq),
      xe_layer_hit = ''L4''\<rparr>"

definition inspect_request ::
    "gateway \<Rightarrow> gw_world \<Rightarrow> exec_request \<Rightarrow> gw_state \<Rightarrow> (py_error + threat_match list) \<times> gw_state" where
  "inspect_request g w rq s =
     (case gw_signatures g of
        None \<Rightarrow> (Inr [], s)
      | Some sigs \<Rightarrow>
          (case inspect (wd_threats w) sigs (wd_mac w) (now_of w) (rw_fresh (wd_rule w)) (gw_executor g)
                  (gateway_exec_event rq) (gs_sec s) of
             (r, sec) \<Rightarrow> (r, s\<lparr>gs_sec := sec\<rparr>)))"

definition layer4_threat ::
    "gateway \<Rightarrow> gw_world \<Rightarrow> exec_request \<Rightarrow> threat_match \<Rightarrow> pass \<Rightarrow> gw_state \<Rightarrow> outcome \<times> gw_state" where
  "layer4_threat g w rq t p s =
     (case layer4_gateway_action (tm_defense t) of
        Some ACT_DENY \<Rightarrow>
          stop_with g w rq ''security_blocked''
            (refusal (wd_exec_id w) ''denied'' (''[SECURITY BLOCKED] '' @ tm_reason t) 137 RISK_CRITICAL
               ACT_DENY (tm_reason t)) s
      | Some ACT_CONFIRM \<Rightarrow>
          (if gw_interactive g then
             confirm_interactively g w rq (build_cmd_str rq) RISK_HIGH (''[L4] '' @ tm_reason t) p s
           else (Go (p\<lparr>ps_action := ACT_CONFIRM, ps_reason := ''[L4] '' @ tm_reason t\<rparr>), s))
      | _ \<Rightarrow> (Go p, s))"

definition layer4 :: "gateway \<Rightarrow> gw_world \<Rightarrow> exec_request \<Rightarrow> pass \<Rightarrow> gw_state \<Rightarrow> outcome \<times> gw_state" where
  "layer4 g w rq p s =
     (case inspect_request g w rq s of
        (Inl e, s1) \<Rightarrow> (Crash e, s1)
      | (Inr [], s1) \<Rightarrow> (Go p, s1)
      | (Inr (t # ts), s1) \<Rightarrow> layer4_threat g w rq t p s1)"

section \<open>Layer 3: JIT tokens\<close>

definition issue_jit_token ::
    "time \<Rightarrow> string \<Rightarrow> string \<Rightarrow> string \<Rightarrow> string \<Rightarrow> string \<Rightarrow> time \<Rightarrow> gw_state \<Rightarrow> string \<times> gw_state" where
  "issue_jit_token now fresh agent tool command granted_by ttl s =
     (fresh, s\<lparr>gs_tokens := AList.update fresh
        \<lparr>jt_agent_id = agent, jt_tool = tool, jt_command = command, jt_expires_at = now + ttl,
         jt_granted_by = granted_by, jt_used = False\<rparr> (gs_tokens s)\<rparr>)"

definition revoke_jit_token :: "string \<Rightarrow> gw_state \<Rightarrow> bool \<times> gw_state" where
  "revoke_jit_token tok s =
     (if map_of (gs_tokens s) tok \<noteq> None then (True, s\<lparr>gs_tokens := AList.delete tok (gs_tokens s)\<rparr>)
      else (False, s))"

text \<open>The reason of a refusal, or \<^const>\<open>None\<close> after the token has been marked as used.\<close>

definition verify_jit_token ::
    "gw_world \<Rightarrow> string \<Rightarrow> string \<Rightarrow> string \<Rightarrow> string \<Rightarrow> gw_state \<Rightarrow> string option \<times> gw_state" where
  "verify_jit_token w tok agent tool command s =
     (case map_of (gs_tokens s) tok of
        None \<Rightarrow> (Some ''JIT token not found or already consumed'', s)
      | Some t \<Rightarrow>
          if jt_expires_at t > 0 \<and> now_of w > jt_expires_at t then
            (Some ''JIT token has expired'', s\<lparr>gs_tokens := AList.delete tok (gs_tokens s)\<rparr>)
          else if jt_used t then (Some ''JIT token has already been used'', s)
          else if jt_agent_id t \<noteq> [] \<and> agent \<noteq> [] \<and> jt_agent_id t \<noteq> agent then
            (Some (''JIT token is bound to agent '' @ quoted (jt_agent_id t) @ '', not '' @ quoted agent), s)
          else if jt_tool t \<noteq> [] \<and> jt_tool t \<noteq> tool then
            (Some (''JIT token is bound to tool '' @ quoted (jt_tool t) @ '', not '' @ quoted tool), s)
          else if jt_command t \<noteq> [] \<and> command \<noteq> [] \<and> \<not> rw_search (wd_rule w) (jt_command t) command then
            (Some ''JIT token command pattern mismatch'', s)
          else (None, s\<lparr>gs_tokens := AList.update tok (t\<lparr>jt_used := True\<rparr>) (gs_tokens s)\<rparr>))"

datatype jit_result = JitOk | JitNeeded string | JitCrash py_error

definition deny_listed :: "gw_world \<Rightarrow> manifest \<Rightarrow> string \<Rightarrow> bool" where
  "deny_listed w m cmd \<longleftrightarrow> (\<exists>pat \<in> set (am_deny_exec m). wd_deny_search w pat cmd)"

text \<open>
  The variable \<open>cmd_str\<close> is assigned in the branch for the action \<open>auto\<close> only; verifying
  a token reads it in every case.
\<close>

definition check_jit_auth ::
    "gw_world \<Rightarrow> exec_request \<Rightarrow> risk_level \<Rightarrow> policy_action \<Rightarrow> gw_state \<Rightarrow> jit_result \<times> gw_state" where
  "check_jit_auth w rq risk action s =
     (let token = opt_str (rq_jit_token rq);
          bound = (action = ACT_AUTO \<and> rq_manifest rq \<noteq> None)
      in if risk = RISK_CRITICAL \<and> token = [] then
           (JitNeeded ''CRITICAL risk operation requires JIT authorization'', s)
         else if bound \<and> deny_listed w (the (rq_manifest rq)) (audit_command rq) \<and> token = [] then
           (JitNeeded ''Command is deny_listed; requires JIT authorization'', s)
         else if token = [] then (JitOk, s)
         else if \<not> bound then (JitCrash UnboundLocalError, s)
         else case verify_jit_token w token (opt_str (rq_agent_id rq)) (tool_value (rq_tool rq))
                     (audit_command rq) s of
                (Some why, s1) \<Rightarrow> (JitNeeded why, s1)
              | (None, s1) \<Rightarrow> (JitOk, s1))"

text \<open>A passed check sets the action to \<open>auto\<close>, with or without a token.\<close>

definition layer3 :: "gateway \<Rightarrow> gw_world \<Rightarrow> exec_request \<Rightarrow> pass \<Rightarrow> gw_state \<Rightarrow> outcome \<times> gw_state" where
  "layer3 g w rq p s =
     (if gw_jit g \<and> rq_manifest rq \<noteq> None then
        (case check_jit_auth w rq (ps_risk p) (ps_action p) s of
           (JitNeeded why, s1) \<Rightarrow>
             stop_with g w rq ''jit_auth''
               (refusal (wd_exec_id w) ''jit_required'' (''JIT authorization required: '' @ why) 1 RISK_HIGH
                  ACT_CONFIRM why) s1
         | (JitCrash e, s1) \<Rightarrow> (Crash e, s1)
         | (JitOk, s1) \<Rightarrow> (Go (p\<lparr>ps_action := ACT_AUTO\<rparr>), s1))
      else (Go p, s))"

section \<open>The request for approval\<close>

definition preauthorized_here :: "gateway \<Rightarrow> exec_request \<Rightarrow> bool" where
  "preauthorized_here g rq \<longleftrightarrow>
     (let tool = tool_value (rq_tool rq); cwd = or_str (opt_str (rq_cwd rq)) (gw_work_dir g)
      in preauthorized (gw_allow_config g) tool cwd \<or> match_allow_rules (rq_approval_rules rq) tool cwd)"

definition approval_response :: "gw_world \<Rightarrow> string \<Rightarrow> pass \<Rightarrow> exec_response" where
  "approval_response w aid p =
     refusal (wd_exec_id w) ''approval_required''
       (if aid \<noteq> [] then ''approval required: run `trm approve '' @ aid @ ''`''
        else ''approval required (approval store unavailable)'')
       1 (ps_risk p) ACT_CONFIRM (ps_reason p)"

definition approval_stage :: "gateway \<Rightarrow> gw_world \<Rightarrow> exec_request \<Rightarrow> pass \<Rightarrow> gw_state \<Rightarrow> outcome \<times> gw_state" where
  "approval_stage g w rq p s =
     (case gs_approvals s of
        None \<Rightarrow> (Go p, s)
      | Some store \<Rightarrow>
          if ps_action p = ACT_CONFIRM \<and> \<not> gw_interactive g then
            (if preauthorized_here g rq then
               let p1 = p\<lparr>ps_action := ACT_AUTO, ps_reason := ''[preauthorized] '' @ ps_reason p\<rparr>
               in (Go p1, record_audit g w ''approval_preauthorized'' rq
                     (refusal (wd_exec_id w) ''allowed'' [] 0 (ps_risk p1) ACT_AUTO (ps_reason p1)) s)
             else
               case ap_request (rw_float (wd_rule w)) (now_of w) (rw_fresh (wd_rule w)) (rw_ttl (wd_rule w))
                      \<lparr>rc_agent_id = opt_str (rq_agent_id rq), rc_tool = tool_value (rq_tool rq),
                       rc_command = build_cmd_str rq,
                       rc_cwd = or_str (opt_str (rq_cwd rq)) (gw_work_dir g),
                       rc_risk_level = risk_value (ps_risk p), rc_reason = ps_reason p\<rparr> store of
                 (r, store') \<Rightarrow>
                   stop_with g w rq ''approval_required'' (approval_response w (ap_id r) p)
                     (s\<lparr>gs_approvals := Some store'\<rparr>))
          else (Go p, s))"

section \<open>The run\<close>

fun risk_rank :: "risk_level \<Rightarrow> nat" where
  "risk_rank RISK_LOW = 0"
| "risk_rank RISK_MEDIUM = 1"
| "risk_rank RISK_HIGH = 2"
| "risk_rank RISK_CRITICAL = 3"

definition merge_decision :: "string \<Rightarrow> pass \<Rightarrow> exec_response \<Rightarrow> exec_response" where
  "merge_decision status p r =
     r\<lparr>rs_status := (if rs_status r \<in> {[], ''allowed''} then status else rs_status r),
       rs_action := (if ps_action p \<in> {ACT_DENY, ACT_CONFIRM} then ps_action p else rs_action r),
       rs_risk := (if risk_rank (rs_risk r) < risk_rank (ps_risk p) then ps_risk p else rs_risk r),
       rs_reason := or_str (rs_reason r) (ps_reason p)\<rparr>"

definition redact_credentials :: "gw_world \<Rightarrow> exec_response \<Rightarrow> exec_response" where
  "redact_credentials w r =
     (if rs_output r = [] then r
      else r\<lparr>rs_error := (if rs_error r = [] then [] else wd_redact w (rs_error r)),
             rs_output := wd_redact w (rs_output r)\<rparr>)"

text \<open>What both ways of running a tool do with the response.\<close>

definition finish ::
    "gateway \<Rightarrow> gw_world \<Rightarrow> exec_request \<Rightarrow> pass \<Rightarrow> exec_response \<Rightarrow> gw_state \<Rightarrow> outcome \<times> gw_state" where
  "finish g w rq p r s =
     (let status = (if ps_action p = ACT_AUTO then ''allowed'' else ''confirmed'');
          r1 = merge_decision status p (r\<lparr>rs_execution_id := or_str (rs_execution_id r) (wd_exec_id w)\<rparr>);
          r2 = (if gw_redact g then redact_credentials w r1 else r1)
      in stop_with g w rq ''tool_executed'' r2 s)"

definition run_dispatcher ::
    "gateway \<Rightarrow> gw_world \<Rightarrow> exec_request \<Rightarrow> pass \<Rightarrow> gw_state \<Rightarrow> outcome \<times> gw_state" where
  "run_dispatcher g w rq p s =
     (let s1 = log_effect (Dispatched rq) s
      in case wd_dispatch w rq of Inl e \<Rightarrow> (Crash e, s1) | Inr r \<Rightarrow> finish g w rq p r s1)"

text \<open>The sandbox plan is written into the request before the run.\<close>

definition planned :: "gw_world \<Rightarrow> exec_request \<Rightarrow> exec_request" where
  "planned w rq = rq\<lparr>rq_sandbox := fst (wd_plan w rq), rq_seccomp := snd (wd_plan w rq)\<rparr>"

definition run_tool :: "gateway \<Rightarrow> gw_world \<Rightarrow> exec_request \<Rightarrow> pass \<Rightarrow> gw_state \<Rightarrow> outcome \<times> gw_state" where
  "run_tool g w rq0 p s =
     (let rq = planned w rq0
      in case (case named_tool g rq of None \<Rightarrow> None | Some t \<Rightarrow> wd_file_tool w t) of
           None \<Rightarrow> run_dispatcher g w rq p s
         | Some f \<Rightarrow>
             let s1 = log_effect (RanFile (tool_value (rq_tool rq)) rq) s
             in case f rq of
                  Some r \<Rightarrow> finish g w rq p r s1
                | None \<Rightarrow> run_dispatcher g w rq p s1)"

section \<open>The whole execution\<close>

definition initial_pass :: pass where
  "initial_pass = \<lparr>ps_risk = RISK_LOW, ps_action = ACT_AUTO, ps_reason = []\<rparr>"

definition gate :: "gateway \<Rightarrow> gw_world \<Rightarrow> exec_request \<Rightarrow> gw_state \<Rightarrow> outcome \<times> gw_state" where
  "gate g w rq s =
     and_then (and_then (and_then (and_then (and_then (and_then (and_then
       (layer0 g w rq initial_pass s)
       (layer1 g w rq)) (layer2 g w rq)) (layer25 g w rq)) (layer26 g w rq)) (layer4 g w rq))
       (layer3 g w rq)) (approval_stage g w rq)"

definition gateway_execute :: "gateway \<Rightarrow> gw_world \<Rightarrow> exec_request \<Rightarrow> gw_state \<Rightarrow> outcome \<times> gw_state" where
  "gateway_execute g w rq0 s =
     (let rq = rq0\<lparr>rq_raw_command := build_cmd_str rq0\<rparr>
      in if build_cmd_str rq = [] \<and> rq_tool rq = SHELL then
           stop_with g w rq ''policy_denied''
             (refusal (wd_exec_id w) ''denied'' ''Empty command'' 1 RISK_CRITICAL ACT_DENY ''No command provided'') s
         else and_then (gate g w rq s) (run_tool g w rq))"

end
