(* ===== verification/Gateway_Facts.thy ===== *)
theory Gateway_Facts
  imports Tool_Gateway Audit_Log
begin

text \<open>
  Properties of the execution gate: what has passed when a tool runs, when a confirmation is
  enforced and when it is lost, JIT tokens, and the audit log over any number of requests.
\<close>

section \<open>What recording leaves alone\<close>

fun is_run :: "gw_effect \<Rightarrow> bool" where
  "is_run (RanFile t rq) = True"
| "is_run (Dispatched rq) = True"
| "is_run _ = False"

definition runs :: "gw_state \<Rightarrow> gw_effect list" where
  "runs s = filter is_run (gs_trace s)"

lemma observe_simps [simp]:
  "gs_tokens (observe_behavior w t rq s) = gs_tokens s" "gs_sec (observe_behavior w t rq s) = gs_sec s"
  "gs_rule_store (observe_behavior w t rq s) = gs_rule_store s"
  "gs_approvals (observe_behavior w t rq s) = gs_approvals s"
  "gs_store (observe_behavior w t rq s) = gs_store s" "gs_disk (observe_behavior w t rq s) = gs_disk s"
  "gs_trace (observe_behavior w t rq s) = gs_trace s"
  by (simp_all add: observe_behavior_def Let_def)

lemma log_effect_simps [simp]:
  "gs_tokens (log_effect e s) = gs_tokens s" "gs_sec (log_effect e s) = gs_sec s"
  "gs_rule_store (log_effect e s) = gs_rule_store s" "gs_approvals (log_effect e s) = gs_approvals s"
  "gs_store (log_effect e s) = gs_store s" "gs_disk (log_effect e s) = gs_disk s"
  "gs_behavior (log_effect e s) = gs_behavior s" "gs_trace (log_effect e s) = gs_trace s @ [e]"
  by (simp_all add: log_effect_def)

lemma remember_simps [simp]:
  "gs_tokens (remember_audit e s) = gs_tokens s" "gs_sec (remember_audit e s) = gs_sec s"
  "gs_rule_store (remember_audit e s) = gs_rule_store s" "gs_approvals (remember_audit e s) = gs_approvals s"
  "gs_store (remember_audit e s) = gs_store s" "gs_disk (remember_audit e s) = gs_disk s"
  "gs_trace (remember_audit e s) = gs_trace s"
  by (simp_all add: remember_audit_def)

lemma store_audit_simps [simp]:
  "gs_tokens (snd (store_audit w e s)) = gs_tokens s" "gs_sec (snd (store_audit w e s)) = gs_sec s"
  "gs_rule_store (snd (store_audit w e s)) = gs_rule_store s"
  "gs_approvals (snd (store_audit w e s)) = gs_approvals s"
  "gs_trace (snd (store_audit w e s)) = gs_trace s"
  by (simp_all add: store_audit_def split: option.split prod.split)

lemma publish_simps [simp]:
  "gs_tokens (publish_audit g t s) = gs_tokens s" "gs_sec (publish_audit g t s) = gs_sec s"
  "gs_rule_store (publish_audit g t s) = gs_rule_store s"
  "gs_approvals (publish_audit g t s) = gs_approvals s"
  "gs_store (publish_audit g t s) = gs_store s" "gs_disk (publish_audit g t s) = gs_disk s"
  by (simp_all add: publish_audit_def)

lemma record_audit_simps [simp]:
  "gs_tokens (record_audit g w t rq r s) = gs_tokens s" "gs_sec (record_audit g w t rq r s) = gs_sec s"
  "gs_rule_store (record_audit g w t rq r s) = gs_rule_store s"
  "gs_approvals (record_audit g w t rq r s) = gs_approvals s"
  by (simp_all add: record_audit_def case_prod_beta Let_def)

lemma runs_log [simp]: "runs (log_effect e s) = runs s @ (if is_run e then [e] else [])"
  by (simp add: runs_def)

lemma runs_record [simp]: "runs (record_audit g w t rq r s) = runs s"
  by (simp add: record_audit_def runs_def case_prod_beta publish_audit_def Let_def)

lemma runs_update [simp]:
  "runs (s\<lparr>gs_sec := x\<rparr>) = runs s" "runs (s\<lparr>gs_rule_store := y\<rparr>) = runs s"
  "runs (s\<lparr>gs_tokens := z\<rparr>) = runs s" "runs (s\<lparr>gs_approvals := a\<rparr>) = runs s"
  by (simp_all add: runs_def)

section \<open>Stages that only decide\<close>

lemma stop_with_runs [simp]:
  "fst (stop_with g w rq t r s) = Stop r" "runs (snd (stop_with g w rq t r s)) = runs s"
  "gs_tokens (snd (stop_with g w rq t r s)) = gs_tokens s"
  by (simp_all add: stop_with_def)

lemma confirm_cases:
  assumes "confirm_interactively g w rq cmd risk reason p s = (out, s')"
  obtains (yes) "out = Go (p\<lparr>ps_action := ACT_AUTO, ps_reason := ''User confirmed: '' @ reason\<rparr>)"
      "s' = log_effect (Prompted cmd risk reason (agent_or ''terminal'' rq)) s"
  | (no) r where "out = Stop r"
      "s' = record_audit g w ''user_cancelled'' rq r (log_effect (Prompted cmd risk reason (agent_or ''terminal'' rq)) s)"
  using assms
  by (auto simp: confirm_interactively_def prompt_confirm_def stop_with_def split: if_splits)

lemma confirm_runs: "runs (snd (confirm_interactively g w rq cmd risk reason p s)) = runs s"
  by (simp add: confirm_interactively_def prompt_confirm_def)

lemma confirm_tokens: "gs_tokens (snd (confirm_interactively g w rq cmd risk reason p s)) = gs_tokens s"
  by (simp add: confirm_interactively_def prompt_confirm_def)

lemma layer_runs [simp]:
  "runs (snd (layer0 g w rq p s)) = runs s" "runs (snd (layer1 g w rq p s)) = runs s"
  "runs (snd (layer2 g w rq p s)) = runs s" "runs (snd (layer25 g w rq p s)) = runs s"
  "runs (snd (layer26 g w rq p s)) = runs s" "runs (snd (layer4 g w rq p s)) = runs s"
  "runs (snd (layer3 g w rq p s)) = runs s" "runs (snd (approval_stage g w rq p s)) = runs s"
proof -
  show "runs (snd (layer0 g w rq p s)) = runs s" by (simp add: layer0_def split: option.split)
  show "runs (snd (layer1 g w rq p s)) = runs s"
    by (auto simp: layer1_def confirm_runs split: sum.split)
  show "runs (snd (layer2 g w rq p s)) = runs s" by (simp add: layer2_def split: option.split)
  have c: "runs (snd (check_security_rule g w rq s)) = runs s"
    by (simp add: check_security_rule_def split: option.split prod.split sum.split)
  show "runs (snd (layer25 g w rq p s)) = runs s"
    using c by (simp add: layer25_def layer25_decision_def confirm_runs case_prod_beta split: option.split)
  show "runs (snd (layer26 g w rq p s)) = runs s"
    by (simp add: layer26_def confirm_runs split: option.split prod.split)
  have i: "runs (snd (inspect_request g w rq s)) = runs s"
    by (simp add: inspect_request_def split: option.split prod.split)
  have t: "runs (snd (layer4_threat g w rq t p s1)) = runs s1" for t s1
    by (simp add: layer4_threat_def confirm_runs split: option.split policy_action.split)
  show "runs (snd (layer4 g w rq p s)) = runs s"
    using i by (auto simp: layer4_def t split: prod.split sum.split list.split)
  have v: "runs (snd (verify_jit_token w tok a tl c s)) = runs s" for tok a tl c
    by (simp add: verify_jit_token_def split: option.split)
  have j: "runs (snd (check_jit_auth w rq rk ac s)) = runs s" for rk ac
    using v [of "opt_str (rq_jit_token rq)" "opt_str (rq_agent_id rq)" "tool_value (rq_tool rq)" "audit_command rq"]
    by (auto simp: check_jit_auth_def Let_def split: prod.split option.split)
  show "runs (snd (layer3 g w rq p s)) = runs s"
    using j [of "ps_risk p" "ps_action p"] by (auto simp: layer3_def split: prod.split jit_result.split)
  show "runs (snd (approval_stage g w rq p s)) = runs s"
    by (simp add: approval_stage_def Let_def split: option.split prod.split)
qed

section \<open>Going on\<close>

lemma and_then_Go:
  "and_then r f = (Go p', s') \<longleftrightarrow> (\<exists>p s1. r = (Go p, s1) \<and> f p s1 = (Go p', s'))"
  by (cases "(r, f)" rule: and_then.cases) auto

lemma stop_with_not_Go [simp]: "stop_with g w rq t r s \<noteq> (Go p, s')" "stop_with g w rq t r s \<noteq> (Crash e, s')"
  by (simp_all add: stop_with_def)

text \<open>Only the trace differs.\<close>

definition trace_only :: "gw_state \<Rightarrow> gw_state \<Rightarrow> bool" where
  "trace_only s s' \<longleftrightarrow> (\<exists>t. s' = s\<lparr>gs_trace := t\<rparr>)"

lemma trace_only_simps [simp]: "trace_only s s" "trace_only s (log_effect e s)"
  by (auto simp: trace_only_def log_effect_def intro: exI [of _ "gs_trace s"])

lemma trace_only_trans: "trace_only s s1 \<Longrightarrow> trace_only s1 s2 \<Longrightarrow> trace_only s s2"
  by (auto simp: trace_only_def)

lemma trace_onlyD:
  assumes "trace_only s s'"
  shows "fst (check_security_rule g w rq s') = fst (check_security_rule g w rq s)"
    "fst (inspect_request g w rq s') = fst (inspect_request g w rq s)"
    "gs_sec s' = gs_sec s" "gs_tokens s' = gs_tokens s" "gs_approvals s' = gs_approvals s"
  using assms
  by (auto simp: trace_only_def check_security_rule_def inspect_request_def
      split: option.split prod.split sum.split)

lemma confirm_Go:
  assumes "confirm_interactively g w rq cmd risk reason p s = (Go p', s')"
  shows "trace_only s s'" "ps_risk p' = ps_risk p" "ps_action p' = ACT_AUTO"
proof -
  from assms have "p' = p\<lparr>ps_action := ACT_AUTO, ps_reason := ''User confirmed: '' @ reason\<rparr>"
    "s' = log_effect (Prompted cmd risk reason (agent_or ''terminal'' rq)) s"
    by (auto simp: confirm_interactively_def prompt_confirm_def split: if_splits)
  then show "trace_only s s'" "ps_risk p' = ps_risk p" "ps_action p' = ACT_AUTO" by simp_all
qed

definition jail_passed :: "gateway \<Rightarrow> gw_world \<Rightarrow> exec_request \<Rightarrow> bool" where
  "jail_passed g w rq \<longleftrightarrow>
     (gw_cwd_jail g \<and> \<not> rq_skip_cwd_check rq \<longrightarrow> check_cwd_jail g w rq = None)"

definition rule_passed :: "gateway \<Rightarrow> gw_world \<Rightarrow> exec_request \<Rightarrow> gw_state \<Rightarrow> bool" where
  "rule_passed g w rq s \<longleftrightarrow>
     (case fst (check_security_rule g w rq s) of None \<Rightarrow> True | Some d \<Rightarrow> dc_action d \<noteq> D_DENY)"

definition caps_passed :: "gateway \<Rightarrow> gw_world \<Rightarrow> exec_request \<Rightarrow> risk_level \<Rightarrow> bool" where
  "caps_passed g w rq risk \<longleftrightarrow>
     (case check_capabilities g w rq risk of None \<Rightarrow> True | Some (a, msg) \<Rightarrow> a \<noteq> CAP_DENY)"

definition scan_passed :: "gateway \<Rightarrow> gw_world \<Rightarrow> exec_request \<Rightarrow> gw_state \<Rightarrow> bool" where
  "scan_passed g w rq s \<longleftrightarrow>
     (case fst (inspect_request g w rq s) of
        Inl e \<Rightarrow> False
      | Inr [] \<Rightarrow> True
      | Inr (t # ts) \<Rightarrow> layer4_gateway_action (tm_defense t) \<noteq> Some ACT_DENY)"

lemma layer0_Go:
  "layer0 g w rq p s = (Go p', s') \<Longrightarrow> jail_passed g w rq \<and> p' = p \<and> s' = s"
  by (auto simp: layer0_def jail_passed_def split: if_splits option.splits)

lemma layer1_Go:
  assumes "layer1 g w rq p s = (Go p', s')"
  shows "\<exists>action reason. policy_verdict g w rq = Inr (ps_risk p', action, reason) \<and> action \<noteq> ACT_DENY \<and>
    trace_only s s' \<and> (ps_action p' = action \<or> ps_action p' = ACT_AUTO)"
proof -
  obtain risk action reason where v: "policy_verdict g w rq = Inr (risk, action, reason)"
    using assms by (auto simp: layer1_def split: sum.splits)
  have nd: "action \<noteq> ACT_DENY" using assms by (auto simp: layer1_def v)
  show ?thesis
  proof (cases "action = ACT_CONFIRM \<and> gw_interactive g")
    case True
    then have "confirm_interactively g w rq (build_cmd_str rq) risk reason
        \<lparr>ps_risk = risk, ps_action = action, ps_reason = reason\<rparr> s = (Go p', s')"
      using assms by (simp add: layer1_def v)
    from confirm_Go [OF this] show ?thesis using v nd by simp
  next
    case False
    then have "p' = \<lparr>ps_risk = risk, ps_action = action, ps_reason = reason\<rparr>" "s' = s"
      using assms nd by (auto simp: layer1_def v split: if_splits)
    then show ?thesis using v nd by simp
  qed
qed

lemma layer2_Go:
  "layer2 g w rq p s = (Go p', s') \<Longrightarrow>
   check_agent_permissions (build_cmd_str rq) (rq_manifest rq) (named_tool g rq) = None \<and> p' = p \<and> s' = s"
  by (auto simp: layer2_def split: option.splits)

lemma check_security_rule_keeps [simp]:
  "gs_sec (snd (check_security_rule g w rq s)) = gs_sec s"
  "gs_tokens (snd (check_security_rule g w rq s)) = gs_tokens s"
  "gs_approvals (snd (check_security_rule g w rq s)) = gs_approvals s"
  by (simp_all add: check_security_rule_def split: option.split prod.split sum.split)

lemma layer25_Go:
  assumes "layer25 g w rq p s = (Go p', s')"
  shows "rule_passed g w rq s \<and> ps_risk p' = ps_risk p \<and> gs_sec s' = gs_sec s \<and>
    gs_tokens s' = gs_tokens s \<and> gs_approvals s' = gs_approvals s"
proof -
  obtain dec s1 where c: "check_security_rule g w rq s = (dec, s1)" by force
  have keep: "gs_sec s1 = gs_sec s" "gs_tokens s1 = gs_tokens s" "gs_approvals s1 = gs_approvals s"
    using check_security_rule_keeps [of g w rq s] by (simp_all add: c)
  have d: "layer25_decision g w rq dec p s1 = (Go p', s')" using assms by (simp add: layer25_def c)
  show ?thesis
  proof (cases dec)
    case None
    then show ?thesis using d c keep by (auto simp: layer25_decision_def rule_passed_def)
  next
    case (Some x)
    have nd: "dc_action x \<noteq> D_DENY" using d by (auto simp: layer25_decision_def Some)
    have "ps_risk p' = ps_risk p \<and> trace_only s1 s'"
      using d nd confirm_Go [of g w rq "build_cmd_str rq" "risk_from_decision x" _ p s1 p' s']
      by (auto simp: layer25_decision_def Some split: if_splits)
    then show ?thesis using nd c keep Some trace_onlyD(3-5) [of s1 s'] by (simp add: rule_passed_def)
  qed
qed

lemma layer26_Go:
  assumes "layer26 g w rq p s = (Go p', s')"
  shows "caps_passed g w rq (ps_risk p) \<and> ps_risk p' = ps_risk p \<and> trace_only s s'"
proof (cases "check_capabilities g w rq (ps_risk p)")
  case None
  then show ?thesis using assms by (simp add: layer26_def caps_passed_def)
next
  case (Some x)
  obtain a msg where x: "x = (a, msg)" by force
  have nd: "a \<noteq> CAP_DENY" using assms by (auto simp: layer26_def Some x)
  have "ps_risk p' = ps_risk p \<and> trace_only s s'"
    using assms nd confirm_Go [of g w rq "build_cmd_str rq" "ps_risk p" _ p s p' s']
    by (auto simp: layer26_def Some x split: if_splits)
  then show ?thesis using nd by (simp add: caps_passed_def Some x)
qed

lemma inspect_request_keeps [simp]:
  "gs_tokens (snd (inspect_request g w rq s)) = gs_tokens s"
  "gs_approvals (snd (inspect_request g w rq s)) = gs_approvals s"
  by (simp_all add: inspect_request_def split: option.split prod.split)

lemma layer4_Go:
  assumes "layer4 g w rq p s = (Go p', s')"
  shows "scan_passed g w rq s \<and> ps_risk p' = ps_risk p \<and> gs_tokens s' = gs_tokens s \<and>
    gs_approvals s' = gs_approvals s"
proof -
  obtain r s1 where i: "inspect_request g w rq s = (r, s1)" by force
  have keep: "gs_tokens s1 = gs_tokens s" "gs_approvals s1 = gs_approvals s"
    using inspect_request_keeps [of g w rq s] by (simp_all add: i)
  obtain ts where r: "r = Inr ts" using assms by (cases r) (auto simp: layer4_def i)
  show ?thesis
  proof (cases ts)
    case Nil
    then show ?thesis using assms keep by (auto simp: layer4_def i r scan_passed_def)
  next
    case (Cons t ts')
    then have t: "layer4_threat g w rq t p s1 = (Go p', s')" using assms by (simp add: layer4_def i r)
    then have nd: "layer4_gateway_action (tm_defense t) \<noteq> Some ACT_DENY"
      by (auto simp: layer4_threat_def)
    have "ps_risk p' = ps_risk p \<and> trace_only s1 s'"
      using t nd confirm_Go [of g w rq "build_cmd_str rq" RISK_HIGH _ p s1 p' s']
      by (auto simp: layer4_threat_def split: option.splits policy_action.splits if_splits)
    then show ?thesis using nd keep trace_onlyD(4,5) [of s1 s'] by (simp add: scan_passed_def i r Cons)
  qed
qed

section \<open>A tool runs only after every check\<close>

text \<open>Every check of the gate on a request, evaluated in the state the request arrives in.\<close>

definition all_passed :: "gateway \<Rightarrow> gw_world \<Rightarrow> exec_request \<Rightarrow> gw_state \<Rightarrow> bool" where
  "all_passed g w rq s \<longleftrightarrow>
     jail_passed g w rq \<and>
     (\<exists>risk action reason. policy_verdict g w rq = Inr (risk, action, reason) \<and> action \<noteq> ACT_DENY \<and>
        caps_passed g w rq risk) \<and>
     check_agent_permissions (build_cmd_str rq) (rq_manifest rq) (named_tool g rq) = None \<and>
     rule_passed g w rq s \<and> scan_passed g w rq s"

definition front :: "gateway \<Rightarrow> gw_world \<Rightarrow> exec_request \<Rightarrow> gw_state \<Rightarrow> outcome \<times> gw_state" where
  "front g w rq s =
     and_then (and_then (and_then (and_then (and_then
       (layer0 g w rq initial_pass s)
       (layer1 g w rq)) (layer2 g w rq)) (layer25 g w rq)) (layer26 g w rq)) (layer4 g w rq)"

lemma gate_front: "gate g w rq s = and_then (and_then (front g w rq s) (layer3 g w rq)) (approval_stage g w rq)"
  by (simp add: gate_def front_def)

lemma front_Go:
  assumes "front g w rq s = (Go p', s')"
  shows "all_passed g w rq s \<and>
    (\<exists>action reason. policy_verdict g w rq = Inr (ps_risk p', action, reason)) \<and>
    gs_tokens s' = gs_tokens s \<and> gs_approvals s' = gs_approvals s"
proof -
  obtain p0 s0 p1 s1 p2 s2 p3 s3 p4 s4 where
    l0: "layer0 g w rq initial_pass s = (Go p0, s0)" and l1: "layer1 g w rq p0 s0 = (Go p1, s1)" and
    l2: "layer2 g w rq p1 s1 = (Go p2, s2)" and l3: "layer25 g w rq p2 s2 = (Go p3, s3)" and
    l4: "layer26 g w rq p3 s3 = (Go p4, s4)" and l5: "layer4 g w rq p4 s4 = (Go p', s')"
    using assms unfolding front_def and_then_Go by blast
  note f0 = layer0_Go [OF l0] and f2 = layer2_Go [OF l2] and f3 = layer25_Go [OF l3]
    and f4 = layer26_Go [OF l4] and f5 = layer4_Go [OF l5]
  obtain action reason where f1: "policy_verdict g w rq = Inr (ps_risk p1, action, reason)"
      "action \<noteq> ACT_DENY" "trace_only s0 s1"
    using layer1_Go [OF l1] by blast
  have rule: "rule_passed g w rq s" using f3 f0 f2 trace_onlyD(1) [OF f1(3)] by (simp add: rule_passed_def)
  have sec: "gs_sec s4 = gs_sec s"
    using f3 f4 f0 f2 trace_onlyD(3) [OF f1(3)] trace_onlyD(3) [of s3 s4] by simp
  have scan: "scan_passed g w rq s"
    using f5 sec by (auto simp: scan_passed_def inspect_request_def split: option.splits prod.splits)
  have risk: "ps_risk p2 = ps_risk p1" "ps_risk p' = ps_risk p1" "ps_risk p3 = ps_risk p1"
    using f2 f3 f4 f5 by simp_all
  have keep: "gs_tokens s' = gs_tokens s" "gs_approvals s' = gs_approvals s"
    using f0 f2 f3 f4 f5 trace_onlyD(4,5) [OF f1(3)] trace_onlyD(4,5) [of s3 s4] by simp_all
  show ?thesis
    using f0 f1 f2 f4 risk rule scan keep unfolding all_passed_def by auto
qed

lemma and_then_runs:
  assumes "\<And>p s. runs (snd (f p s)) = runs s"
  shows "runs (snd (and_then r f)) = runs (snd r)"
  using assms by (cases "(r, f)" rule: and_then.cases) auto

lemma gate_runs: "runs (snd (gate g w rq s)) = runs s"
  unfolding gate_def by (simp add: and_then_runs)

lemma gate_Go:
  "gate g w rq s = (Go p', s') \<Longrightarrow> \<exists>p1 s1. front g w rq s = (Go p1, s1)"
  unfolding gate_front and_then_Go by blast

lemma raw_command_irrelevant [simp]: "build_cmd_str (rq\<lparr>rq_raw_command := c\<rparr>) = build_cmd_str rq"
  by (simp add: build_cmd_str_def)

text \<open>The request with its command recorded, as every layer sees it.\<close>

definition named_request :: "exec_request \<Rightarrow> exec_request" where
  "named_request rq = rq\<lparr>rq_raw_command := build_cmd_str rq\<rparr>"

lemma execute_cases:
  obtains (empty) r where "gateway_execute g w rq s = stop_with g w (named_request rq) ''policy_denied'' r s"
  | (gate) "gateway_execute g w rq s = and_then (gate g w (named_request rq) s) (run_tool g w (named_request rq))"
  by (cases "build_cmd_str rq = [] \<and> rq_tool rq = SHELL")
    (simp_all add: gateway_execute_def named_request_def Let_def)

lemma execute_nonempty:
  assumes "build_cmd_str rq \<noteq> []"
  shows "gateway_execute g w rq s = and_then (gate g w (named_request rq) s) (run_tool g w (named_request rq))"
  using assms by (simp add: gateway_execute_def named_request_def Let_def)

lemma execute_runs_gate:
  assumes "runs (snd (gateway_execute g w rq s)) \<noteq> runs s"
  shows "\<exists>p s1. gate g w (named_request rq) s = (Go p, s1)"
proof (cases rule: execute_cases [of g w rq s])
  case (empty r)
  then show ?thesis using assms by simp
next
  case gate
  obtain out s1 where o: "gate g w (named_request rq) s = (out, s1)" by force
  have "runs s1 = runs s" using gate_runs [of g w "named_request rq" s] o by simp
  then show ?thesis using assms o gate by (cases out) auto
qed

text \<open>
  C1: If an execution runs a tool at all, by its own file or through the dispatcher, then the
  working directory passed the jail, the policy verdict was not a denial, the agent's
  permissions allow the command, and neither the decision layer, nor a certificate, nor the
  threat scan denied it, all judged in the state the request arrived in.
\<close>
theorem run_needs_all_checks:
  assumes "runs (snd (gateway_execute g w rq s)) \<noteq> runs s"
  shows "all_passed g w (named_request rq) s"
  using execute_runs_gate [OF assms] gate_Go front_Go by blast

section \<open>Confirmations without a terminal\<close>

definition rule_confirms :: "gateway \<Rightarrow> gw_world \<Rightarrow> exec_request \<Rightarrow> gw_state \<Rightarrow> bool" where
  "rule_confirms g w rq s \<longleftrightarrow>
     (case fst (check_security_rule g w rq s) of None \<Rightarrow> False | Some d \<Rightarrow> dc_action d = D_CONFIRM)"

definition caps_confirm :: "gateway \<Rightarrow> gw_world \<Rightarrow> exec_request \<Rightarrow> risk_level \<Rightarrow> bool" where
  "caps_confirm g w rq risk \<longleftrightarrow>
     (case check_capabilities g w rq risk of None \<Rightarrow> False | Some (a, msg) \<Rightarrow> a = CAP_CONFIRM)"

definition scan_confirms :: "gateway \<Rightarrow> gw_world \<Rightarrow> exec_request \<Rightarrow> gw_state \<Rightarrow> bool" where
  "scan_confirms g w rq s \<longleftrightarrow>
     (case fst (inspect_request g w rq s) of
        Inr (t # ts) \<Rightarrow> layer4_gateway_action (tm_defense t) = Some ACT_CONFIRM
      | _ \<Rightarrow> False)"

text \<open>Some layer asks for a confirmation.\<close>

definition confirm_wanted :: "gateway \<Rightarrow> gw_world \<Rightarrow> exec_request \<Rightarrow> gw_state \<Rightarrow> bool" where
  "confirm_wanted g w rq s \<longleftrightarrow>
     (\<exists>risk action reason. policy_verdict g w rq = Inr (risk, action, reason) \<and>
        (action = ACT_CONFIRM \<or> caps_confirm g w rq risk)) \<or>
     rule_confirms g w rq s \<or> scan_confirms g w rq s"

text \<open>
  Without a terminal every layer that has passed goes on, and the action is a confirmation
  from the first layer that asks for one.
\<close>

lemma layer0_on: "jail_passed g w rq \<Longrightarrow> layer0 g w rq p s = (Go p, s)"
  by (auto simp: layer0_def jail_passed_def)

lemma layer1_on:
  "\<not> gw_interactive g \<Longrightarrow> policy_verdict g w rq = Inr (risk, action, reason) \<Longrightarrow> action \<noteq> ACT_DENY \<Longrightarrow>
   layer1 g w rq p s = (Go \<lparr>ps_risk = risk, ps_action = action, ps_reason = reason\<rparr>, s)"
  by (simp add: layer1_def)

lemma layer25_on:
  assumes "\<not> gw_interactive g" "rule_passed g w rq s"
  shows "\<exists>p'. layer25 g w rq p s = (Go p', snd (check_security_rule g w rq s)) \<and> ps_risk p' = ps_risk p \<and>
    ps_action p' = (if rule_confirms g w rq s then ACT_CONFIRM else ps_action p)"
proof -
  obtain dec s1 where "check_security_rule g w rq s = (dec, s1)" by force
  then show ?thesis using assms
    by (auto simp: layer25_def layer25_decision_def rule_passed_def rule_confirms_def split: option.splits)
qed

lemma layer26_on:
  assumes "\<not> gw_interactive g" "caps_passed g w rq (ps_risk p)"
  shows "\<exists>p'. layer26 g w rq p s = (Go p', s) \<and> ps_risk p' = ps_risk p \<and>
    ps_action p' = (if caps_confirm g w rq (ps_risk p) then ACT_CONFIRM else ps_action p)"
  using assms
  by (auto simp: layer26_def caps_passed_def caps_confirm_def split: option.splits prod.splits)

lemma layer4_on:
  assumes "\<not> gw_interactive g" "scan_passed g w rq s"
  shows "\<exists>p'. layer4 g w rq p s = (Go p', snd (inspect_request g w rq s)) \<and> ps_risk p' = ps_risk p \<and>
    ps_action p' = (if scan_confirms g w rq s then ACT_CONFIRM else ps_action p)"
proof -
  obtain r s1 where i: "inspect_request g w rq s = (r, s1)" by force
  obtain ts where r: "r = Inr ts" using assms(2) by (cases r) (auto simp: scan_passed_def i)
  show ?thesis
  proof (cases ts)
    case Nil
    then show ?thesis by (simp add: layer4_def i r scan_confirms_def)
  next
    case (Cons t ts')
    have "layer4_gateway_action (tm_defense t) \<noteq> Some ACT_DENY"
      using assms(2) by (simp add: scan_passed_def i r Cons)
    then show ?thesis using assms(1)
      by (cases "layer4_gateway_action (tm_defense t)"; cases "the (layer4_gateway_action (tm_defense t))")
        (simp_all add: layer4_def i r Cons layer4_threat_def scan_confirms_def)
  qed
qed

lemma scan_after_rule:
  "scan_passed g w rq (snd (check_security_rule g w rq s)) = scan_passed g w rq s"
  "scan_confirms g w rq (snd (check_security_rule g w rq s)) = scan_confirms g w rq s"
  by (simp_all add: scan_passed_def scan_confirms_def inspect_request_def split: option.split prod.split)

lemma front_on:
  assumes "\<not> gw_interactive g" "all_passed g w rq s"
  shows "\<exists>p s'. front g w rq s = (Go p, s') \<and>
    (\<exists>action reason. policy_verdict g w rq = Inr (ps_risk p, action, reason)) \<and>
    ps_action p = (if confirm_wanted g w rq s then ACT_CONFIRM else ACT_AUTO) \<and>
    gs_tokens s' = gs_tokens s \<and> gs_approvals s' = gs_approvals s"
proof -
  obtain risk action reason where v: "policy_verdict g w rq = Inr (risk, action, reason)"
      "action \<noteq> ACT_DENY" "caps_passed g w rq risk"
    using assms(2) by (auto simp: all_passed_def)
  let ?p1 = "\<lparr>ps_risk = risk, ps_action = action, ps_reason = reason\<rparr>"
  let ?s1 = "snd (check_security_rule g w rq s)" and ?s2 = "snd (inspect_request g w rq (snd (check_security_rule g w rq s)))"
  obtain p2 where p2: "layer25 g w rq ?p1 s = (Go p2, ?s1)" "ps_risk p2 = risk"
      "ps_action p2 = (if rule_confirms g w rq s then ACT_CONFIRM else action)"
    using layer25_on [OF assms(1), of w rq s ?p1] assms(2) by (auto simp: all_passed_def)
  obtain p3 where p3: "layer26 g w rq p2 ?s1 = (Go p3, ?s1)" "ps_risk p3 = risk"
      "ps_action p3 = (if caps_confirm g w rq risk then ACT_CONFIRM else ps_action p2)"
    using layer26_on [OF assms(1), of w rq p2 ?s1] v(3) p2(2) by auto
  obtain p4 where p4: "layer4 g w rq p3 ?s1 = (Go p4, ?s2)" "ps_risk p4 = risk"
      "ps_action p4 = (if scan_confirms g w rq s then ACT_CONFIRM else ps_action p3)"
    using layer4_on [OF assms(1), of w rq ?s1 p3] assms(2) p3(2) by (auto simp: all_passed_def scan_after_rule)
  have "layer2 g w rq ?p1 s = (Go ?p1, s)" using assms(2) by (simp add: all_passed_def layer2_def)
  moreover have "layer0 g w rq initial_pass s = (Go initial_pass, s)"
    using assms(2) by (simp add: all_passed_def layer0_on)
  ultimately have "front g w rq s = (Go p4, ?s2)"
    using layer1_on [OF assms(1) v(1,2)] p2(1) p3(1) p4(1) by (simp add: front_def)
  moreover have "ps_action p4 = (if confirm_wanted g w rq s then ACT_CONFIRM else ACT_AUTO)"
    using p2(3) p3(3) p4(3) v(1,2) by (cases action) (auto simp: confirm_wanted_def)
  ultimately show ?thesis using v(1) p4(2) by simp
qed

lemma run_tool_runs: "\<exists>es. es \<noteq> [] \<and> runs (snd (run_tool g w rq p s)) = runs s @ es"
proof -
  have f: "runs (snd (finish g w rq p r s)) = runs s" for rq r s by (simp add: finish_def Let_def)
  have d: "runs (snd (run_dispatcher g w rq p s)) = runs s @ [Dispatched rq]" for rq s
    by (simp add: run_dispatcher_def Let_def f split: sum.split)
  show ?thesis by (auto simp: run_tool_def Let_def d f split: option.split)
qed

text \<open>
  C2: On a gateway without a terminal and with an approval store, a confirmation asked for by
  any layer stops the request: unless a declared rule preauthorizes it, no tool runs.  This
  holds for requests without an agent manifest, or with JIT checks switched off.
\<close>
theorem confirmation_enforced:
  assumes "\<not> gw_interactive g" and "gs_approvals s \<noteq> None"
    and "confirm_wanted g w (named_request rq) s" and "\<not> preauthorized_here g (named_request rq)"
    and "\<not> gw_jit g \<or> rq_manifest rq = None"
  shows "runs (snd (gateway_execute g w rq s)) = runs s"
proof (rule ccontr)
  let ?rq = "named_request rq"
  assume "runs (snd (gateway_execute g w rq s)) \<noteq> runs s"
  then obtain p s1 where go: "gate g w ?rq s = (Go p, s1)" using execute_runs_gate by blast
  then obtain p1 s2 where fr: "front g w ?rq s = (Go p1, s2)" using gate_Go by blast
  have "all_passed g w ?rq s" using front_Go [OF fr] by blast
  then have "ps_action p1 = ACT_CONFIRM \<and> gs_approvals s2 = gs_approvals s"
    using front_on [OF assms(1), of w ?rq s] fr assms(3) by auto
  moreover have "layer3 g w ?rq p1 s2 = (Go p1, s2)"
    using assms(5) by (auto simp: layer3_def named_request_def)
  ultimately have "approval_stage g w ?rq p1 s2 = (Go p, s1)" "gs_approvals s2 \<noteq> None"
      "ps_action p1 = ACT_CONFIRM"
    using go fr assms(2) by (simp_all add: gate_front)
  then show False
    using assms(1,4) by (auto simp: approval_stage_def split: option.splits prod.splits)
qed

text \<open>
  With an agent manifest and JIT checks on, the same confirmations are lost: a request that
  passes every check, needs no JIT token and carries none runs its tool, whatever layer asked
  for a confirmation.
\<close>
theorem manifest_drops_confirmation:
  assumes "\<not> gw_interactive g" and "gw_jit g" and "rq_manifest rq = Some m"
    and "all_passed g w (named_request rq) s"
    and "policy_verdict g w (named_request rq) = Inr (risk, action, reason)" and "risk \<noteq> RISK_CRITICAL"
    and "opt_str (rq_jit_token rq) = []" and "\<not> deny_listed w m (audit_command (named_request rq))"
    and "build_cmd_str rq \<noteq> []"
  shows "runs (snd (gateway_execute g w rq s)) \<noteq> runs s"
proof -
  let ?rq = "named_request rq"
  obtain p s1 where fr: "front g w ?rq s = (Go p, s1)" "ps_risk p = risk"
    using front_on [OF assms(1,4)] assms(5) by auto
  have "check_jit_auth w ?rq (ps_risk p) (ps_action p) s1 = (JitOk, s1)"
    using assms(3,6,7,8) fr(2) by (simp add: check_jit_auth_def Let_def named_request_def)
  then have "layer3 g w ?rq p s1 = (Go (p\<lparr>ps_action := ACT_AUTO\<rparr>), s1)"
    using assms(2,3) by (simp add: layer3_def named_request_def)
  then have "gate g w ?rq s = (Go (p\<lparr>ps_action := ACT_AUTO\<rparr>), s1)"
    using fr(1) by (simp add: gate_front approval_stage_def split: option.split)
  moreover from this have "runs s1 = runs s" using gate_runs [of g w ?rq s] by simp
  ultimately show ?thesis
    using assms(9) run_tool_runs [of g w ?rq "p\<lparr>ps_action := ACT_AUTO\<rparr>" s1]
    by (auto simp: gateway_execute_def named_request_def Let_def)
qed

text \<open>
  C6: Presenting a JIT token with a request that some layer wants confirmed never reaches the
  verification of the token: with a manifest, JIT checks on and no terminal, the execution
  ends in an \<open>UnboundLocalError\<close>.
\<close>
theorem jit_token_crashes_on_confirm:
  assumes "\<not> gw_interactive g" and "gw_jit g" and "rq_manifest rq \<noteq> None"
    and "all_passed g w (named_request rq) s" and "confirm_wanted g w (named_request rq) s"
    and "opt_str (rq_jit_token rq) \<noteq> []" and "build_cmd_str rq \<noteq> []"
  shows "fst (gateway_execute g w rq s) = Crash UnboundLocalError"
proof -
  let ?rq = "named_request rq"
  obtain p s1 where fr: "front g w ?rq s = (Go p, s1)" "ps_action p = ACT_CONFIRM"
    using front_on [OF assms(1,4)] assms(5) by auto
  have "check_jit_auth w ?rq (ps_risk p) (ps_action p) s1 = (JitCrash UnboundLocalError, s1)"
    using assms(6) fr(2) by (simp add: check_jit_auth_def Let_def named_request_def)
  then have "layer3 g w ?rq p s1 = (Crash UnboundLocalError, s1)"
    using assms(2,3) by (auto simp: layer3_def named_request_def)
  then have "gate g w ?rq s = (Crash UnboundLocalError, s1)" using fr(1) by (simp add: gate_front)
  then show ?thesis using assms(7) by (simp add: gateway_execute_def named_request_def Let_def)
qed

section \<open>JIT tokens\<close>

text \<open>A token that can no longer be used: removed, or marked as used.\<close>

definition spent :: "string \<Rightarrow> gw_state \<Rightarrow> bool" where
  "spent tok s \<longleftrightarrow> (case map_of (gs_tokens s) tok of None \<Rightarrow> True | Some t \<Rightarrow> jt_used t)"

lemma spent_cong: "gs_tokens s' = gs_tokens s \<Longrightarrow> spent tok s' = spent tok s"
  by (simp add: spent_def)

lemma spent_refused: "spent tok s \<Longrightarrow> fst (verify_jit_token w tok agent tool cmd s) \<noteq> None"
  by (auto simp: spent_def verify_jit_token_def split: option.splits)

lemma verified_spent: "verify_jit_token w tok agent tool cmd s = (None, s') \<Longrightarrow> spent tok s'"
  by (auto simp: spent_def verify_jit_token_def dict_simps split: option.splits if_splits)

lemma verify_tokens:
  "gs_tokens (snd (verify_jit_token w tok' agent tool cmd s)) = gs_tokens s \<or>
   gs_tokens (snd (verify_jit_token w tok' agent tool cmd s)) = AList.delete tok' (gs_tokens s) \<or>
   (\<exists>t. gs_tokens (snd (verify_jit_token w tok' agent tool cmd s)) =
      AList.update tok' (t\<lparr>jt_used := True\<rparr>) (gs_tokens s))"
proof (cases "map_of (gs_tokens s) tok'")
  case None
  then show ?thesis by (simp add: verify_jit_token_def)
next
  case (Some t)
  then show ?thesis by (simp add: verify_jit_token_def) blast
qed

lemma verify_keeps_spent:
  assumes "spent tok s"
  shows "spent tok (snd (verify_jit_token w tok' agent tool cmd s))"
proof -
  have "map_of (gs_tokens s) tok = None \<or> (\<exists>t. map_of (gs_tokens s) tok = Some t \<and> jt_used t)"
    using assms by (auto simp: spent_def split: option.splits)
  then show ?thesis
    using verify_tokens [of w tok' agent tool cmd s]
    by (elim disjE exE) (simp_all add: spent_def dict_simps)
qed

lemma layer3_keeps_spent: "spent tok s \<Longrightarrow> spent tok (snd (layer3 g w rq p s))"
proof -
  assume sp: "spent tok s"
  have "spent tok (snd (check_jit_auth w rq r a s))" for r a
    using sp verify_keeps_spent [OF sp, of w "opt_str (rq_jit_token rq)" "opt_str (rq_agent_id rq)"
        "tool_value (rq_tool rq)" "audit_command rq"]
    by (auto simp: check_jit_auth_def Let_def split: prod.splits option.splits)
  then show ?thesis
    using sp by (auto simp: layer3_def stop_with_def spent_def split: prod.split jit_result.split)
      (metis record_audit_simps(1) snd_conv spent_def)+
qed

lemma layer_tokens [simp]:
  "gs_tokens (snd (layer0 g w rq p s)) = gs_tokens s" "gs_tokens (snd (layer1 g w rq p s)) = gs_tokens s"
  "gs_tokens (snd (layer2 g w rq p s)) = gs_tokens s" "gs_tokens (snd (layer25 g w rq p s)) = gs_tokens s"
  "gs_tokens (snd (layer26 g w rq p s)) = gs_tokens s" "gs_tokens (snd (layer4 g w rq p s)) = gs_tokens s"
  "gs_tokens (snd (approval_stage g w rq p s)) = gs_tokens s"
proof -
  show "gs_tokens (snd (layer0 g w rq p s)) = gs_tokens s" by (simp add: layer0_def split: option.split)
  show "gs_tokens (snd (layer1 g w rq p s)) = gs_tokens s"
    by (auto simp: layer1_def confirm_tokens split: sum.split)
  show "gs_tokens (snd (layer2 g w rq p s)) = gs_tokens s" by (simp add: layer2_def split: option.split)
  show "gs_tokens (snd (layer25 g w rq p s)) = gs_tokens s"
    by (simp add: layer25_def layer25_decision_def confirm_tokens case_prod_beta split: option.split)
  show "gs_tokens (snd (layer26 g w rq p s)) = gs_tokens s"
    by (simp add: layer26_def confirm_tokens split: option.split prod.split)
  have t: "gs_tokens (snd (layer4_threat g w rq t p s1)) = gs_tokens s1" for t s1
    by (simp add: layer4_threat_def confirm_tokens split: option.split policy_action.split)
  obtain ins s1 where i: "inspect_request g w rq s = (ins, s1)" by force
  then have "gs_tokens s1 = gs_tokens s" using inspect_request_keeps(1) [of g w rq s] by simp
  then show "gs_tokens (snd (layer4 g w rq p s)) = gs_tokens s"
    by (simp add: layer4_def i t split: sum.split list.split)
  show "gs_tokens (snd (approval_stage g w rq p s)) = gs_tokens s"
    by (simp add: approval_stage_def Let_def split: option.split prod.split)
qed

lemma run_tool_tokens [simp]: "gs_tokens (snd (run_tool g w rq p s)) = gs_tokens s"
proof -
  have f: "gs_tokens (snd (finish g w rq p r s)) = gs_tokens s" for rq r s by (simp add: finish_def Let_def)
  have "gs_tokens (snd (run_dispatcher g w rq p s)) = gs_tokens s" for rq s
    by (simp add: run_dispatcher_def Let_def f split: sum.split)
  then show ?thesis by (simp add: run_tool_def Let_def f split: option.split)
qed

lemma spent_and_then:
  assumes "spent tok (snd r)" "\<And>p s. spent tok s \<Longrightarrow> spent tok (snd (f p s))"
  shows "spent tok (snd (and_then r f))"
  using assms by (cases "(r, f)" rule: and_then.cases) auto

lemma spent_same: "gs_tokens s' = gs_tokens s \<Longrightarrow> spent tok s \<Longrightarrow> spent tok s'"
  by (simp add: spent_def)

lemma execute_keeps_spent: "spent tok s \<Longrightarrow> spent tok (snd (gateway_execute g w rq s))"
proof (cases rule: execute_cases [of g w rq s])
  case (empty r)
  assume "spent tok s"
  then show ?thesis using empty by (simp add: spent_def)
next
  case gate
  assume sp: "spent tok s"
  show ?thesis
    unfolding gate(1) gate_def
    by (intro spent_and_then layer3_keeps_spent) (auto intro: sp spent_same [OF _ sp] spent_same layer_tokens)
qed

definition execute_all :: "(gateway \<times> gw_world \<times> exec_request) list \<Rightarrow> gw_state \<Rightarrow> gw_state" where
  "execute_all ops s = fold (\<lambda>(g, w, rq) s. snd (gateway_execute g w rq s)) ops s"

text \<open>
  C5: A JIT token works once: after a successful verification, and any further executions,
  every verification of the same token is refused, whatever agent, tool or command it is
  presented for.
\<close>
theorem jit_token_single_use:
  assumes "verify_jit_token w tok agent tool cmd s = (None, s1)"
  shows "fst (verify_jit_token w' tok agent' tool' cmd' (execute_all ops s1)) \<noteq> None"
proof -
  have "spent tok s1" using assms by (rule verified_spent)
  then have "spent tok (execute_all ops s1)"
    unfolding execute_all_def by (induction ops arbitrary: s1) (auto intro: execute_keeps_spent)
  then show ?thesis by (rule spent_refused)
qed

section \<open>The audit log behind the gate\<close>

definition log_good :: "mac \<Rightarrow> string \<Rightarrow> gw_state \<Rightarrow> bool" where
  "log_good mac key s \<longleftrightarrow>
     sound_disk mac key (gs_disk s) \<and> (\<forall>st. gs_store s = Some st \<longrightarrow> as_hmac_key st = key)"

definition log_world :: "mac \<Rightarrow> gw_world \<Rightarrow> bool" where
  "log_world mac w \<longleftrightarrow> wd_mac w = mac \<and> aw_marker_ok (wd_append w)"

lemma append_key: "append mac w e st d = (ok, e', st', d') \<Longrightarrow> as_hmac_key st' = as_hmac_key st"
  by (auto simp: append_result Let_def split: if_splits)

lemma store_audit_good:
  assumes "log_world mac w" "log_good mac key s"
  shows "log_good mac key (snd (store_audit w e s))"
proof (cases "gs_store s")
  case None
  then show ?thesis using assms(2) by (simp add: store_audit_def)
next
  case (Some st)
  obtain ok e' st' d where a: "append mac (wd_append w) e st (gs_disk s) = (ok, e', st', d)"
    by (metis prod_cases4)
  have key: "as_hmac_key st = key" using assms(2) Some by (simp add: log_good_def)
  have "sound_disk mac key d"
    using sound_append [of mac key "gs_disk s" st "wd_append w" e] assms key a
    by (simp add: log_good_def log_world_def disk_after_def)
  then show ?thesis using a append_key [OF a] key assms(1) Some
    by (simp add: store_audit_def log_world_def log_good_def)
qed

lemma record_audit_good:
  assumes "log_world mac w" "log_good mac key s"
  shows "log_good mac key (record_audit g w t rq r s)"
proof -
  have "log_good mac key (observe_behavior w t rq s)"
    using assms(2) by (simp add: log_good_def)
  from store_audit_good [OF assms(1) this] show ?thesis
    using assms(2) by (simp add: record_audit_def Let_def case_prod_beta log_good_def)
qed

lemma stop_with_good:
  "log_world mac w \<Longrightarrow> log_good mac key s \<Longrightarrow> log_good mac key (snd (stop_with g w rq t r s))"
  by (simp add: stop_with_def record_audit_good)

lemma log_effect_good [simp]: "log_good mac key (log_effect e s) = log_good mac key s"
  by (simp add: log_good_def)

lemma update_good [simp]:
  "log_good mac key (s\<lparr>gs_tokens := x1\<rparr>) = log_good mac key s"
  "log_good mac key (s\<lparr>gs_sec := x2\<rparr>) = log_good mac key s"
  "log_good mac key (s\<lparr>gs_rule_store := x3\<rparr>) = log_good mac key s"
  "log_good mac key (s\<lparr>gs_approvals := x4\<rparr>) = log_good mac key s"
  by (simp_all add: log_good_def)

lemma confirm_good:
  "log_world mac w \<Longrightarrow> log_good mac key s \<Longrightarrow>
   log_good mac key (snd (confirm_interactively g w rq cmd risk reason p s))"
  by (simp add: confirm_interactively_def prompt_confirm_def stop_with_good)

lemmas good_intros = stop_with_good confirm_good record_audit_good

lemma verify_jit_good [simp]:
  "log_good mac key (snd (verify_jit_token w tok a t c s)) = log_good mac key s"
  by (simp add: verify_jit_token_def split: option.split)

lemma check_jit_good [simp]: "log_good mac key (snd (check_jit_auth w rq r a s)) = log_good mac key s"
proof -
  let ?v = "verify_jit_token w (opt_str (rq_jit_token rq)) (opt_str (rq_agent_id rq))
    (tool_value (rq_tool rq)) (audit_command rq) s"
  obtain o' s1 where v: "?v = (o', s1)" by force
  then have "log_good mac key s1 = log_good mac key s" using verify_jit_good by (metis snd_conv)
  then show ?thesis by (simp add: check_jit_auth_def Let_def v split: option.split)
qed

lemma check_rule_good [simp]: "log_good mac key (snd (check_security_rule g w rq s)) = log_good mac key s"
  by (simp add: check_security_rule_def split: option.split prod.split sum.split)

lemma inspect_good [simp]: "log_good mac key (snd (inspect_request g w rq s)) = log_good mac key s"
  by (simp add: inspect_request_def split: option.split prod.split)

lemma layers_good:
  assumes "log_world mac w" "log_good mac key s"
  shows "log_good mac key (snd (layer0 g w rq p s))" "log_good mac key (snd (layer1 g w rq p s))"
    "log_good mac key (snd (layer2 g w rq p s))" "log_good mac key (snd (layer25 g w rq p s))"
    "log_good mac key (snd (layer26 g w rq p s))" "log_good mac key (snd (layer4 g w rq p s))"
    "log_good mac key (snd (layer3 g w rq p s))" "log_good mac key (snd (approval_stage g w rq p s))"
    "log_good mac key (snd (run_tool g w rq p s))"
proof -
  note intros = good_intros [OF assms(1)]
  show "log_good mac key (snd (layer0 g w rq p s))"
    using assms(2) by (simp add: layer0_def intros split: option.split)
  show "log_good mac key (snd (layer1 g w rq p s))"
    using assms(2) by (auto simp: layer1_def intros split: sum.split)
  show "log_good mac key (snd (layer2 g w rq p s))"
    using assms(2) by (simp add: layer2_def intros split: option.split)
  obtain dec s1 where c: "check_security_rule g w rq s = (dec, s1)" by force
  then have "log_good mac key s1" using check_rule_good assms(2) by (metis snd_conv)
  then show "log_good mac key (snd (layer25 g w rq p s))"
    by (simp add: layer25_def layer25_decision_def c intros split: option.split)
  show "log_good mac key (snd (layer26 g w rq p s))"
    using assms(2) by (simp add: layer26_def intros split: option.split prod.split)
  obtain ins s2 where i: "inspect_request g w rq s = (ins, s2)" by force
  then have s2: "log_good mac key s2" using inspect_good assms(2) by (metis snd_conv)
  then have "log_good mac key (snd (layer4_threat g w rq t p s2))" for t
    by (simp add: layer4_threat_def intros split: option.split policy_action.split)
  then show "log_good mac key (snd (layer4 g w rq p s))"
    using s2 by (simp add: layer4_def i split: sum.split list.split)
  obtain j s3 where j: "check_jit_auth w rq (ps_risk p) (ps_action p) s = (j, s3)" by force
  then have "log_good mac key s3" using check_jit_good assms(2) by (metis snd_conv)
  then show "log_good mac key (snd (layer3 g w rq p s))"
    using assms(2) by (simp add: layer3_def j intros split: jit_result.split)
  show "log_good mac key (snd (approval_stage g w rq p s))"
    using assms(2) by (simp add: approval_stage_def Let_def intros split: option.split prod.split)
  have f: "log_good mac key s' \<Longrightarrow> log_good mac key (snd (finish g w rq' p r s'))" for rq' r s'
    by (simp add: finish_def Let_def intros)
  have d: "log_good mac key s' \<Longrightarrow> log_good mac key (snd (run_dispatcher g w rq' p s'))" for rq' s'
    by (simp add: run_dispatcher_def Let_def f split: sum.split)
  show "log_good mac key (snd (run_tool g w rq p s))"
    using assms(2) by (simp add: run_tool_def Let_def f d split: option.split)
qed

lemma good_and_then:
  assumes "log_good mac key (snd r)" "\<And>p s. log_good mac key s \<Longrightarrow> log_good mac key (snd (f p s))"
  shows "log_good mac key (snd (and_then r f))"
  using assms by (cases "(r, f)" rule: and_then.cases) auto

lemma execute_good:
  assumes "log_world mac w" "log_good mac key s"
  shows "log_good mac key (snd (gateway_execute g w rq s))"
proof (cases rule: execute_cases [of g w rq s])
  case (empty r)
  then show ?thesis using assms by (simp add: stop_with_good)
next
  case gate
  show ?thesis unfolding gate(1) gate_def
    by (intro good_and_then layers_good) (rule assms layers_good | assumption)+
qed

text \<open>The gate as an instance of a log that verifies after every operation.\<close>

definition gate_op :: "gateway \<times> gw_world \<times> exec_request \<Rightarrow> gw_state \<Rightarrow> gw_state" where
  "gate_op op s = (case op of (g, w, rq) \<Rightarrow> snd (gateway_execute g w rq s))"

lemma gate_op_good:
  "log_good mac key s \<Longrightarrow> (case op of (g, w, rq) \<Rightarrow> log_world mac w) \<Longrightarrow> log_good mac key (gate_op op s)"
  by (cases op) (simp add: gate_op_def execute_good)

lemma good_verifies: "log_good mac key s \<Longrightarrow> verifies mac key (gs_disk s)"
  by (auto simp: log_good_def verifies_def sound_verifies)

interpretation gate_log: verified_log "log_good mac key" gate_op "\<lambda>(g, w, rq). log_world mac w"
    "\<lambda>s. verifies mac key (gs_disk s)" for mac key
  by unfold_locales (rule gate_op_good good_verifies | assumption)+

lemma execute_all_ops: "execute_all ops s = fold gate_op ops s"
  unfolding execute_all_def by (rule fold_cong) (auto simp: gate_op_def)

text \<open>
  C3: The audit chain survives whatever the gate is asked: after any requests, by any gateways
  that write to the log with the same key and in worlds where the marker file can be written,
  the chain of the log verifies if it was sound before.
\<close>
theorem gateway_log_verifies:
  assumes "log_good mac key s" and "list_all (\<lambda>(g, w, rq). log_world mac w) ops"
    and "as_hmac_key st = key"
  shows "verify_chain mac st (gs_disk (execute_all ops s)) = Inr (True, [])"
  using gate_log.accepted_run [OF assms(1,2)] assms(3)
  by (simp add: verifies_def execute_all_ops)

section \<open>Every outcome is on record\<close>

text \<open>An event without what signing adds to it.\<close>

definition unsigned :: "audit_event \<Rightarrow> audit_event" where
  "unsigned e = e\<lparr>ae_prev_hash := PStr [], ae_hmac := []\<rparr>"

text \<open>
  The newest event of the ring buffer describes the response \<open>r\<close> to the request \<open>rq\<close> (whose sandbox
  fields the plan may have set), and with a store that can be written it is the last line of the log.
\<close>

definition recorded :: "gw_world \<Rightarrow> exec_request \<Rightarrow> exec_response \<Rightarrow> gw_state \<Rightarrow> bool" where
  "recorded w rq r s \<longleftrightarrow>
     (\<exists>event_type n sandbox seccomp e earlier.
        gs_audit_log s = keep_last AUDIT_MAX (earlier @ [e]) \<and>
        unsigned e = gateway_event w event_type (rq\<lparr>rq_sandbox := sandbox, rq_seccomp := seccomp\<rparr>) r n \<and>
        (gs_store s = None \<or> \<not> aw_log_ok (wd_append w) \<or>
         (\<exists>ls. main_file (gs_disk s) = Some (ls @ [event_line e]))))"

text \<open>A stage that leaves every response it ends with on record.\<close>

definition stops_audited :: "gw_world \<Rightarrow> exec_request \<Rightarrow> outcome \<times> gw_state \<Rightarrow> bool" where
  "stops_audited w rq res \<longleftrightarrow> (case fst res of Stop r \<Rightarrow> recorded w rq r (snd res) | _ \<Rightarrow> True)"

lemma store_audit_result:
  assumes "store_audit w e s = (e', s')"
  shows "unsigned e' = unsigned e" "gs_audit_log s' = gs_audit_log s"
    "gs_store s' = None \<or> \<not> aw_log_ok (wd_append w) \<or> (\<exists>ls. main_file (gs_disk s') = Some (ls @ [event_line e']))"
  using assms
  by (auto simp: store_audit_def append_result unsigned_def sign_event_def write_line_def Let_def
      split: option.splits if_splits)

lemma gateway_event_unsigned [simp]: "unsigned (gateway_event w t rq r n) = gateway_event w t rq r n"
  by (simp add: unsigned_def gateway_event_def Let_def)

lemma log_effect_audit [simp]:
  "gs_audit_log (log_effect x s) = gs_audit_log s" "gs_store (log_effect x s) = gs_store s"
  "gs_disk (log_effect x s) = gs_disk s"
  by (simp_all add: log_effect_def)

lemma record_audit_recorded:
  assumes "gw_audit g"
  shows "recorded w rq r (record_audit g w t (rq\<lparr>rq_sandbox := a, rq_seccomp := b\<rparr>) r s)"
proof -
  let ?rq = "rq\<lparr>rq_sandbox := a, rq_seccomp := b\<rparr>"
  let ?s1 = "observe_behavior w t ?rq s"
  let ?e = "gateway_event w t ?rq r (length (gs_audit_log ?s1))"
  obtain e s2 where st: "store_audit w ?e ?s1 = (e, s2)" by (metis surj_pair)
  have "record_audit g w t ?rq r s = publish_audit g t (remember_audit e s2)"
    using assms st by (simp add: record_audit_def Let_def)
  then show ?thesis
    unfolding recorded_def using store_audit_result [OF st]
    by (intro exI [of _ t] exI [of _ "length (gs_audit_log ?s1)"] exI [of _ a] exI [of _ b] exI [of _ e]
        exI [of _ "gs_audit_log s2"]) (auto simp: publish_audit_def remember_audit_def)
qed

lemma stop_with_planned:
  "gw_audit g \<Longrightarrow> stops_audited w rq (stop_with g w (rq\<lparr>rq_sandbox := a, rq_seccomp := b\<rparr>) t r s)"
  by (simp add: stops_audited_def stop_with_def record_audit_recorded)

lemma stop_with_audited [simp]: "gw_audit g \<Longrightarrow> stops_audited w rq (stop_with g w rq t r s)"
  using stop_with_planned [where a = "rq_sandbox rq" and b = "rq_seccomp rq" and rq = rq] by simp

lemma stops_audited_simps [simp]: "stops_audited w rq (Go p, s)" "stops_audited w rq (Crash e, s)"
  by (simp_all add: stops_audited_def)

lemma confirm_audited [simp]:
  "gw_audit g \<Longrightarrow> stops_audited w rq (confirm_interactively g w rq cmd risk reason p s)"
  by (simp add: confirm_interactively_def prompt_confirm_def)

lemma and_then_audited:
  assumes "stops_audited w rq r" "\<And>p s. stops_audited w rq (f p s)"
  shows "stops_audited w rq (and_then r f)"
  using assms by (cases "(r, f)" rule: and_then.cases) auto

lemma layers_audited:
  assumes "gw_audit g"
  shows "stops_audited w rq (layer0 g w rq p s)" "stops_audited w rq (layer1 g w rq p s)"
    "stops_audited w rq (layer2 g w rq p s)" "stops_audited w rq (layer25 g w rq p s)"
    "stops_audited w rq (layer26 g w rq p s)" "stops_audited w rq (layer4 g w rq p s)"
    "stops_audited w rq (layer3 g w rq p s)" "stops_audited w rq (approval_stage g w rq p s)"
    "stops_audited w rq (run_tool g w rq p s)"
proof -
  show "stops_audited w rq (layer0 g w rq p s)" using assms by (simp add: layer0_def split: option.split)
  show "stops_audited w rq (layer1 g w rq p s)" using assms by (auto simp: layer1_def split: sum.split)
  show "stops_audited w rq (layer2 g w rq p s)" using assms by (simp add: layer2_def split: option.split)
  show "stops_audited w rq (layer25 g w rq p s)"
    using assms by (simp add: layer25_def layer25_decision_def split: option.split prod.split)
  show "stops_audited w rq (layer26 g w rq p s)"
    using assms by (simp add: layer26_def split: option.split prod.split)
  show "stops_audited w rq (layer4 g w rq p s)"
    using assms by (simp add: layer4_def layer4_threat_def split: prod.split sum.split list.split option.split policy_action.split)
  show "stops_audited w rq (layer3 g w rq p s)"
    using assms by (simp add: layer3_def split: prod.split jit_result.split)
  show "stops_audited w rq (approval_stage g w rq p s)"
    using assms by (simp add: approval_stage_def Let_def split: option.split prod.split)
  have "stops_audited w rq (finish g w (planned w rq) p r s')" for r s'
    using assms by (simp add: finish_def planned_def Let_def stop_with_planned)
  then have "stops_audited w rq (run_dispatcher g w (planned w rq) p s')"
    "stops_audited w rq (finish g w (planned w rq) p r s')" for r s'
    by (simp_all add: run_dispatcher_def Let_def split: sum.split)
  then show "stops_audited w rq (run_tool g w rq p s)"
    by (simp add: run_tool_def Let_def split: option.split)
qed

text \<open>
  C4: With auditing on, no request ends unrecorded: whatever response an execution returns, be it a
  refusal of any layer or the result of a tool, the newest event of the ring buffer (the last of at most
  a thousand) carries that response's risk, action, reason and exit code, and the agent, tool and command
  of the request; and if the gate has a store that can be written, this very event, signed, is the last
  line of the log on disk.
\<close>
theorem every_response_audited:
  assumes "gw_audit g" and "gateway_execute g w rq s = (Stop r, s')"
  shows "\<exists>event_type n sandbox seccomp e earlier.
    gs_audit_log s' = keep_last AUDIT_MAX (earlier @ [e]) \<and>
    unsigned e = gateway_event w event_type
      ((named_request rq)\<lparr>rq_sandbox := sandbox, rq_seccomp := seccomp\<rparr>) r n \<and>
    (gs_store s' = None \<or> \<not> aw_log_ok (wd_append w) \<or>
     (\<exists>ls. main_file (gs_disk s') = Some (ls @ [event_line e])))"
proof -
  have "stops_audited w (named_request rq) (gateway_execute g w rq s)"
  proof (cases rule: execute_cases [of g w rq s])
    case (empty r)
    then show ?thesis using assms(1) by simp
  next
    case gate
    show ?thesis unfolding gate(1) gate_def
      by (intro and_then_audited layers_audited assms(1))
  qed
  then show ?thesis using assms(2) by (simp add: stops_audited_def recorded_def)
qed

text \<open>An allowed command is only a prefix: what follows it is not looked at.\<close>

lemma exec_list_is_prefix:
  "am_deny_exec m = [] \<Longrightarrow> am_exec m = [a] \<Longrightarrow>
   check_agent_permissions (py_lower a @ rest) (Some m) None = None"
  by (simp add: check_agent_permissions_def exec_allows_def)

text \<open>An error text is not redacted when the output is empty.\<close>

lemma empty_output_not_redacted: "rs_output r = [] \<Longrightarrow> rs_error (redact_credentials w r) = rs_error r"
  by (simp add: redact_credentials_def)

end
