(* ===== verification/Gateway_Examples.thy ===== *)
theory Gateway_Examples
  imports Gateway_Facts
begin

text \<open>
  Concrete requests for the properties of the gate: a gateway without rules, so that the
  default verdict asks for a confirmation, and a request with and without an agent manifest.
\<close>

definition ex_gateway :: gateway where
  "ex_gateway =
     \<lparr>gw_cwd_jail = True, gw_redact = False, gw_audit = True, gw_jit = True, gw_interactive = False,
      gw_work_dir = ''/w'', gw_rules = [], gw_security_rule = None, gw_signatures = None,
      gw_executor = None, gw_tools = [], gw_has_bus = False, gw_allow_config = None\<rparr>"

definition ex_ttl :: ttl_sources where
  "ex_ttl = \<lparr>ttl_arg = PNone, ttl_env = PNone, ttl_config = PNone, ttl_default = PInt 300\<rparr>"

definition ex_rule_world :: rule_world where
  "ex_rule_world =
     \<lparr>rw_search = (\<lambda>p t. sublist p t), rw_now = 10, rw_float = (\<lambda>s. None), rw_fresh = ''r1'',
      rw_ttl = ex_ttl, rw_usage = (\<lambda>a. None), rw_within_limits = (\<lambda>a u. True)\<rparr>"

definition ex_result :: exec_response where
  "ex_result = refusal [] [] [] 0 RISK_LOW ACT_AUTO []"

definition ex_world :: gw_world where
  "ex_world =
     \<lparr>wd_rule = ex_rule_world, wd_exec_id = ''x1'', wd_event_id = nat_str, wd_resolve = (\<lambda>p. Inr (split_on CHR ''/'' p)),
      wd_llm = None, wd_caps = \<lparr>env_agent_cert = (\<lambda>a. None), env_identity = None, env_untrusted = []\<rparr>,
      wd_clock = ''2026'', wd_cap_text = (\<lambda>r. []), wd_cap_error_text = (\<lambda>e. []), wd_limit_text = [],
      wd_threats = (\<lambda>p t. sublist p t), wd_mac = demo_mac, wd_answer = (\<lambda>n. False),
      wd_deny_search = (\<lambda>p t. sublist p t), wd_plan = (\<lambda>rq. (''off'', ''off'')), wd_file_tool = (\<lambda>t. None),
      wd_dispatch = (\<lambda>rq. Inr ex_result), wd_redact = id, wd_append = demo_world\<rparr>"

definition ex_manifest :: manifest where
  "ex_manifest = \<lparr>am_name = ''a'', am_exec = [], am_deny_exec = [], am_read = [], am_write = [], am_work_dir = []\<rparr>"

definition ex_request :: "manifest option \<Rightarrow> string option \<Rightarrow> exec_request" where
  "ex_request m tok =
     \<lparr>rq_tool = SHELL, rq_args = [''ls''], rq_agent_id = Some ''a1'', rq_manifest = m, rq_cwd = None,
      rq_source_type = SRC_AI, rq_jit_token = tok, rq_approval_rules = PList [], rq_raw_command = [],
      rq_skip_cwd_check = False, rq_sandbox = [], rq_seccomp = []\<rparr>"

definition ex_state :: gw_state where
  "ex_state =
     \<lparr>gs_tokens = [], gs_audit_log = [], gs_behavior = None, gs_learning = None,
      gs_sec = \<lparr>ss_ops = [], ss_file = None, ss_effects = []\<rparr>, gs_rule_store = None,
      gs_approvals = Some \<lparr>st_files = [], st_claims = []\<rparr>, gs_store = Some demo_store,
      gs_disk = empty_disk, gs_trace = []\<rparr>"

lemmas ex_defs = ex_gateway_def ex_world_def ex_rule_world_def ex_request_def ex_state_def ex_manifest_def
  named_request_def

lemma ex_cmd: "build_cmd_str (ex_request m tok) = ''ls''"
  by (simp add: ex_request_def build_cmd_str_def py_strip_no_space py_is_space_def)

lemma ex_policy:
  "policy_verdict ex_gateway ex_world (named_request (ex_request m tok)) =
   Inr (RISK_MEDIUM, ACT_CONFIRM, ''No rule matched, AI default'')"
  by (simp add: policy_verdict_def policy_evaluate_def ex_defs)

lemma ex_caps: "check_capabilities ex_gateway ex_world (named_request (ex_request m tok)) risk = None"
  by (simp add: check_capabilities_def tighten_def tighten_candidates_def identity_capabilities_def
      agent_capabilities_def untrusted_installs_def ex_defs pget_def py_or_def candidate_verdicts_def
      STRICTNESS_def List.map_filter_simps)

lemma ex_passed:
  assumes "m = None \<or> m = Some ex_manifest"
  shows "all_passed ex_gateway ex_world (named_request (ex_request m tok)) ex_state"
proof -
  have "check_agent_permissions ''ls'' m (named_tool ex_gateway (named_request (ex_request m tok))) = None"
    using assms by (auto simp: check_agent_permissions_def named_tool_def ex_defs)
  moreover have "rule_passed ex_gateway ex_world rq ex_state" "scan_passed ex_gateway ex_world rq ex_state" for rq
    by (simp_all add: rule_passed_def scan_passed_def check_security_rule_def inspect_request_def ex_gateway_def)
  moreover have "jail_passed ex_gateway ex_world (named_request (ex_request m tok))"
    by (simp add: jail_passed_def check_cwd_jail_def SKIP_JAIL_def ex_defs)
  moreover have "caps_passed ex_gateway ex_world (named_request (ex_request m tok)) RISK_MEDIUM"
    by (simp add: caps_passed_def ex_caps)
  moreover have "build_cmd_str (named_request (ex_request m tok)) = ''ls''"
    "rq_manifest (named_request (ex_request m tok)) = m"
    by (simp_all add: named_request_def ex_cmd) (simp add: ex_request_def)
  ultimately show ?thesis by (auto simp: all_passed_def ex_policy)
qed

lemma ex_confirm: "confirm_wanted ex_gateway ex_world (named_request (ex_request m tok)) ex_state"
  by (auto simp: confirm_wanted_def ex_policy)

lemma ex_runs: "runs ex_state = []"
  by (simp add: runs_def ex_state_def)

theorem confirmation_enforced_witness:
  "runs (snd (gateway_execute ex_gateway ex_world (ex_request None None) ex_state)) = runs ex_state"
proof (rule confirmation_enforced)
  show "\<not> gw_interactive ex_gateway" by (simp add: ex_gateway_def)
  show "gs_approvals ex_state \<noteq> None" by (simp add: ex_state_def)
  show "confirm_wanted ex_gateway ex_world (named_request (ex_request None None)) ex_state" by (rule ex_confirm)
  show "\<not> preauthorized_here ex_gateway (named_request (ex_request None None))"
    by (simp add: preauthorized_here_def preauthorized_def match_allow_rules_def load_allow_rules_def ex_defs)
  show "\<not> gw_jit ex_gateway \<or> rq_manifest (ex_request None None) = None" by (simp add: ex_request_def)
qed

theorem manifest_drops_confirmation_witness:
  "runs (snd (gateway_execute ex_gateway ex_world (ex_request (Some ex_manifest) None) ex_state)) \<noteq> runs ex_state"
proof (rule manifest_drops_confirmation)
  show "\<not> gw_interactive ex_gateway" "gw_jit ex_gateway" by (simp_all add: ex_gateway_def)
  show "rq_manifest (ex_request (Some ex_manifest) None) = Some ex_manifest" by (simp add: ex_request_def)
  show "all_passed ex_gateway ex_world (named_request (ex_request (Some ex_manifest) None)) ex_state"
    by (rule ex_passed) simp
  show "policy_verdict ex_gateway ex_world (named_request (ex_request (Some ex_manifest) None)) =
      Inr (RISK_MEDIUM, ACT_CONFIRM, ''No rule matched, AI default'')"
    by (rule ex_policy)
  show "RISK_MEDIUM \<noteq> RISK_CRITICAL" by simp
  show "opt_str (rq_jit_token (ex_request (Some ex_manifest) None)) = []" by (simp add: ex_request_def opt_str_def)
  show "\<not> deny_listed ex_world ex_manifest (audit_command (named_request (ex_request (Some ex_manifest) None)))"
    by (simp add: deny_listed_def ex_manifest_def)
  show "build_cmd_str (ex_request (Some ex_manifest) None) \<noteq> []" by (simp add: ex_cmd)
qed

theorem jit_token_crashes_on_confirm_witness:
  "fst (gateway_execute ex_gateway ex_world (ex_request (Some ex_manifest) (Some ''t0k'')) ex_state) =
   Crash UnboundLocalError"
proof (rule jit_token_crashes_on_confirm)
  show "\<not> gw_interactive ex_gateway" "gw_jit ex_gateway" by (simp_all add: ex_gateway_def)
  show "rq_manifest (ex_request (Some ex_manifest) (Some ''t0k'')) \<noteq> None" by (simp add: ex_request_def)
  show "all_passed ex_gateway ex_world (named_request (ex_request (Some ex_manifest) (Some ''t0k''))) ex_state"
    by (rule ex_passed) simp
  show "confirm_wanted ex_gateway ex_world (named_request (ex_request (Some ex_manifest) (Some ''t0k''))) ex_state"
    by (rule ex_confirm)
  show "opt_str (rq_jit_token (ex_request (Some ex_manifest) (Some ''t0k''))) \<noteq> []"
    by (simp add: ex_request_def opt_str_def)
  show "build_cmd_str (ex_request (Some ex_manifest) (Some ''t0k'')) \<noteq> []" by (simp add: ex_cmd)
qed

lemma ex_run:
  "runs (snd (gateway_execute ex_gateway ex_world (ex_request (Some ex_manifest) None) ex_state)) \<noteq> []"
proof -
  let ?rq = "ex_request (Some ex_manifest) None"
  have "\<exists>p s1. gate ex_gateway ex_world (named_request ?rq) ex_state = (Go p, s1)"
  proof -
    obtain p s1 where f: "front ex_gateway ex_world (named_request ?rq) ex_state = (Go p, s1)" "ps_risk p = RISK_MEDIUM"
      using front_on [of ex_gateway ex_world "named_request ?rq" ex_state] ex_passed [of "Some ex_manifest" None] ex_policy
      by (auto simp: ex_gateway_def)
    have "layer3 ex_gateway ex_world (named_request ?rq) p s1 = (Go (p\<lparr>ps_action := ACT_AUTO\<rparr>), s1)"
      using f(2) by (simp add: layer3_def check_jit_auth_def Let_def opt_str_def deny_listed_def ex_defs)
    then show ?thesis using f(1) by (simp add: gate_front approval_stage_def split: option.split)
  qed
  then obtain p s1 where "gate ex_gateway ex_world (named_request ?rq) ex_state = (Go p, s1)" by blast
  then have "gateway_execute ex_gateway ex_world ?rq ex_state = run_tool ex_gateway ex_world (named_request ?rq) p s1"
    by (simp add: execute_nonempty ex_cmd)
  then show ?thesis
    using run_tool_runs [of ex_gateway ex_world "named_request ?rq" p s1] by auto
qed

theorem run_needs_all_checks_witness:
  "all_passed ex_gateway ex_world (named_request (ex_request (Some ex_manifest) None)) ex_state"
  by (rule run_needs_all_checks) (use ex_run in \<open>simp add: ex_runs\<close>)

theorem jit_token_single_use_witness:
  "fst (verify_jit_token ex_world ''t'' ''a1'' ''shell'' ''ls''
     (execute_all [(ex_gateway, ex_world, ex_request None (Some ''t''))]
       (snd (verify_jit_token ex_world ''t'' ''a1'' ''shell'' ''ls''
          (snd (issue_jit_token 10 ''t'' ''a1'' ''shell'' ''l'' ''admin'' 300 ex_state)))))) \<noteq> None"
proof (rule jit_token_single_use)
  let ?s = "snd (issue_jit_token 10 ''t'' ''a1'' ''shell'' ''l'' ''admin'' 300 ex_state)"
  have "fst (verify_jit_token ex_world ''t'' ''a1'' ''shell'' ''ls'' ?s) = None"
    by (simp add: issue_jit_token_def verify_jit_token_def now_of_def ex_defs)
  then show "verify_jit_token ex_world ''t'' ''a1'' ''shell'' ''ls'' ?s =
      (None, snd (verify_jit_token ex_world ''t'' ''a1'' ''shell'' ''ls'' ?s))"
    by (metis prod.collapse)
qed

theorem gateway_log_verifies_witness:
  "verify_chain demo_mac demo_store
     (gs_disk (execute_all (replicate 7 (ex_gateway, ex_world, ex_request None None)) ex_state)) = Inr (True, [])"
proof (rule gateway_log_verifies)
  show "log_good demo_mac ''k'' ex_state"
    by (simp add: log_good_def ex_state_def sound_disk_def no_chain_def empty_disk_def rows_def demo_store_def)
  show "list_all (\<lambda>(g, w, rq). log_world demo_mac w) (replicate 7 (ex_gateway, ex_world, ex_request None None))"
    by (simp add: list_all_iff log_world_def ex_world_def demo_world_def)
  show "as_hmac_key demo_store = ''k''" by (simp add: demo_store_def)
qed

text \<open>The empty command, refused and recorded.\<close>

theorem every_response_audited_witness:
  "\<exists>event_type n sandbox seccomp e earlier.
     gs_audit_log (snd (gateway_execute ex_gateway ex_world ((ex_request None None)\<lparr>rq_args := []\<rparr>) ex_state)) =
       keep_last AUDIT_MAX (earlier @ [e]) \<and>
     unsigned e = gateway_event ex_world event_type
       ((named_request ((ex_request None None)\<lparr>rq_args := []\<rparr>))\<lparr>rq_sandbox := sandbox, rq_seccomp := seccomp\<rparr>)
       (refusal ''x1'' ''denied'' ''Empty command'' 1 RISK_CRITICAL ACT_DENY ''No command provided'') n"
proof -
  let ?rq = "(ex_request None None)\<lparr>rq_args := []\<rparr>"
  have "build_cmd_str ?rq = []" "rq_tool ?rq = SHELL" "wd_exec_id ex_world = ''x1''"
    by (simp_all add: build_cmd_str_def py_strip_no_space ex_request_def ex_world_def)
  then have "gateway_execute ex_gateway ex_world ?rq ex_state =
      (Stop (refusal ''x1'' ''denied'' ''Empty command'' 1 RISK_CRITICAL ACT_DENY ''No command provided''),
       snd (gateway_execute ex_gateway ex_world ?rq ex_state))"
    by (simp add: gateway_execute_def Let_def stop_with_def)
  moreover have "gw_audit ex_gateway" by (simp add: ex_gateway_def)
  ultimately show ?thesis using every_response_audited by blast
qed

end
