(* ===== verification/Seccomp.thy ===== *)
theory Seccomp
  imports Models "HOL-Library.Word"
begin

unbundle bit_operations_syntax

text \<open>
  System call filters (\<open>seccomp_exec.py\<close>): the profiles, the construction of a plan from a
  profile and the declared names, its installation through libseccomp, and the command line
  entry.  The resolver from names to numbers and the library calls are parameters.  The texts of
  the notes are constructors.  The verdict of an installed filter is the documented one of
  libseccomp: the action of the rule that matches, the default action when none does.
\<close>

section \<open>Profiles\<close>

definition PROFILE_OFF :: string where "PROFILE_OFF = ''off''"
definition PROFILE_L1 :: string where "PROFILE_L1 = ''l1''"
definition PROFILE_STRICT :: string where "PROFILE_STRICT = ''strict''"
definition DEFAULT_PROFILE :: string where "DEFAULT_PROFILE = PROFILE_L1"

definition PROFILE_RANK :: "(string, nat) dict" where
  "PROFILE_RANK = [(PROFILE_OFF, 2), (PROFILE_L1, 1), (PROFILE_STRICT, 0)]"

definition ALIASES :: "(string, string) dict" where
  "ALIASES =
     [(''off'', PROFILE_OFF), (''none'', PROFILE_OFF), (''l0'', PROFILE_OFF),
      (''l0_unrestricted'', PROFILE_OFF), (''l1'', PROFILE_L1), (''l1_standard'', PROFILE_L1),
      (''standard'', PROFILE_L1), (''l2'', PROFILE_STRICT), (''l2_restricted'', PROFILE_STRICT),
      (''l3'', PROFILE_STRICT), (''l3_jail'', PROFILE_STRICT), (''jail'', PROFILE_STRICT),
      (''strict'', PROFILE_STRICT)]"

lemmas profile_defs = PROFILE_OFF_def PROFILE_L1_def PROFILE_STRICT_def DEFAULT_PROFILE_def

definition normalize_profile :: "pyval \<Rightarrow> string option" where
  "normalize_profile v =
     (if v = PNone then None
      else
        let text = map (\<lambda>c. if c = CHR ''-'' then CHR ''_'' else c) (py_lower (py_strip (py_str v)))
        in if text = [] then None else map_of ALIASES text)"

section \<open>The lists of system calls\<close>

definition KERNEL_BLOCK :: "string list" where
  "KERNEL_BLOCK =
     [''init_module'', ''finit_module'', ''delete_module'', ''kexec_load'', ''kexec_file_load'',
      ''bpf'', ''ptrace'', ''process_vm_readv'', ''process_vm_writev'', ''kcmp'',
      ''perf_event_open'', ''userfaultfd'',
      ''io_uring_setup'', ''io_uring_enter'', ''io_uring_register'',
      ''setns'', ''unshare'', ''mount'', ''umount'', ''umount2'', ''pivot_root'', ''chroot'',
      ''swapon'', ''swapoff'', ''reboot'',
      ''iopl'', ''ioperm'',
      ''add_key'', ''keyctl'', ''request_key'', ''open_by_handle_at'']"

definition NET_FAMILIES :: "(string \<times> int) list" where
  "NET_FAMILIES = [(''AF_INET'', 2), (''AF_INET6'', 10), (''AF_PACKET'', 17), (''AF_NETLINK'', 16)]"

definition STRICT_BLOCK :: "string list" where
  "STRICT_BLOCK = [''pidfd_getfd'', ''process_madvise'', ''kexec_load'']"

definition WHITELIST_BASELINE :: "string list" where
  "WHITELIST_BASELINE =
     [''read'', ''write'', ''close'', ''openat'', ''open'', ''stat'', ''fstat'', ''lstat'', ''newfstatat'',
      ''lseek'', ''pread64'', ''pwrite64'', ''readv'', ''writev'',
      ''mmap'', ''mprotect'', ''munmap'', ''brk'', ''mremap'', ''madvise'',
      ''rt_sigaction'', ''rt_sigprocmask'', ''rt_sigreturn'', ''sigaltstack'',
      ''execve'', ''execveat'', ''exit'', ''exit_group'', ''wait4'', ''waitid'',
      ''getpid'', ''getppid'', ''gettid'', ''getuid'', ''geteuid'', ''getgid'', ''getegid'',
      ''clock_gettime'', ''clock_nanosleep'', ''nanosleep'', ''gettimeofday'', ''times'',
      ''arch_prctl'', ''set_tid_address'', ''set_robust_list'', ''futex'', ''sched_yield'',
      ''prlimit64'', ''getrlimit'', ''getrandom'', ''uname'', ''fcntl'', ''dup'', ''dup2'', ''dup3'',
      ''pipe'', ''pipe2'', ''faccessat'', ''faccessat2'', ''getcwd'', ''chdir'', ''fchdir'',
      ''ioctl'', ''getdents64'', ''readlink'', ''readlinkat'', ''sysinfo'', ''umask'', ''prctl'']"

definition SCMP_ACT_ALLOW :: "32 word" where "SCMP_ACT_ALLOW = 0x7FFF0000"
definition SCMP_ACT_ERRNO :: "32 word" where "SCMP_ACT_ERRNO = 0x00050000"
definition EPERM :: "32 word" where "EPERM = 1"
definition NR_SCMP_UNDEF :: int where "NR_SCMP_UNDEF = - 10190"
definition NR_SCMP_ERROR :: int where "NR_SCMP_ERROR = - 1"

definition DENY_ACTION :: "32 word" where "DENY_ACTION = SCMP_ACT_ERRNO OR EPERM"

lemma deny_not_allow [simp]: "DENY_ACTION \<noteq> SCMP_ACT_ALLOW" "SCMP_ACT_ALLOW \<noteq> DENY_ACTION"
  by (simp_all add: DENY_ACTION_def SCMP_ACT_ALLOW_def SCMP_ACT_ERRNO_def EPERM_def)

section \<open>Plans\<close>

record seccomp_capability =
  scc_supported :: bool
  scc_api_level :: int
  scc_reason :: string

datatype rule_note =
  NoteDeclaredAllow | NoteBaseline | NoteDeclaredBlock | NoteKernel | NoteStrict | NoteFamily string

record seccomp_rule =
  scr_name :: string
  scr_nr :: int
  scr_action :: "32 word"
  scr_arg_index :: "int option"
  scr_arg_value :: "int option"
  scr_note :: rule_note

datatype seccomp_note =
    UnknownProfile string
  | WhitelistMode
  | AllowIgnored string "string list"
  | EmptyProfile

record seccomp_plan =
  scp_profile :: string
  scp_supported :: bool
  scp_api_level :: int
  scp_fail_closed :: bool
  scp_reason :: string
  scp_whitelist :: bool
  scp_default_action :: "32 word"
  scp_rules :: "seccomp_rule list"
  scp_unknown :: "string list"
  scp_notes :: "seccomp_note list"
  scp_state :: string

definition scp_enforcing :: "seccomp_plan \<Rightarrow> bool" where
  "scp_enforcing p \<longleftrightarrow> scp_supported p \<and> scp_profile p \<noteq> PROFILE_OFF"

definition count_denied :: "seccomp_plan \<Rightarrow> nat" where
  "count_denied p = length (filter (\<lambda>r. scr_action r \<noteq> SCMP_ACT_ALLOW) (scp_rules p))"

definition count_allowed :: "seccomp_plan \<Rightarrow> nat" where
  "count_allowed p = length (filter (\<lambda>r. scr_action r = SCMP_ACT_ALLOW) (scp_rules p))"

text \<open>
  \<open>as_names\<close>: a text is split at commas and white space, a list gives the stripped texts of its
  items, a mapping those of its keys; a number or a truth value is not iterable.
\<close>

definition clean_names :: "string list \<Rightarrow> string list" where
  "clean_names xs = filter (\<lambda>t. t \<noteq> []) (map py_strip xs)"

definition as_names :: "pyval \<Rightarrow> py_error + string list" where
  "as_names v =
     (case v of
        PNone \<Rightarrow> Inr []
      | PStr s \<Rightarrow> Inr (clean_names (map py_strip (split_ws (map (\<lambda>c. if c = CHR '','' then CHR '' '' else c) s))))
      | PList xs \<Rightarrow> Inr (clean_names (map py_str xs))
      | PDict d \<Rightarrow> Inr (clean_names (map fst d))
      | _ \<Rightarrow> Inl TypeError)"

definition add_rule ::
    "(string \<Rightarrow> int) \<Rightarrow> string \<Rightarrow> 32 word \<Rightarrow> int option \<Rightarrow> int option \<Rightarrow> rule_note \<Rightarrow> seccomp_plan \<Rightarrow> seccomp_plan" where
  "add_rule resolver name action idx val note p =
     (let nr = resolver name
      in if nr = NR_SCMP_ERROR \<or> nr = NR_SCMP_UNDEF then p\<lparr>scp_unknown := scp_unknown p @ [name]\<rparr>
         else p\<lparr>scp_rules := scp_rules p @
                  [\<lparr>scr_name = name, scr_nr = nr, scr_action = action, scr_arg_index = idx,
                    scr_arg_value = val, scr_note = note\<rparr>]\<rparr>)"

definition add_names ::
    "(string \<Rightarrow> int) \<Rightarrow> 32 word \<Rightarrow> rule_note \<Rightarrow> string list \<Rightarrow> seccomp_plan \<Rightarrow> seccomp_plan" where
  "add_names resolver action note names p =
     fold (\<lambda>n. add_rule resolver n action None None note) names p"

definition add_families :: "(string \<Rightarrow> int) \<Rightarrow> seccomp_plan \<Rightarrow> seccomp_plan" where
  "add_families resolver p =
     fold (\<lambda>(family, v). add_rule resolver ''socket'' DENY_ACTION (Some 0) (Some v) (NoteFamily family))
       NET_FAMILIES p"

definition rule_key :: "seccomp_rule \<Rightarrow> string \<times> int option \<times> int option" where
  "rule_key r = (scr_name r, scr_arg_index r, scr_arg_value r)"

fun keep_first :: "(string \<times> int option \<times> int option) list \<Rightarrow> seccomp_rule list \<Rightarrow> seccomp_rule list" where
  "keep_first seen [] = []"
| "keep_first seen (r # rs) =
     (if rule_key r \<in> set seen then keep_first seen rs
      else r # keep_first (rule_key r # seen) rs)"

definition dedupe :: "seccomp_plan \<Rightarrow> seccomp_plan" where
  "dedupe p = p\<lparr>scp_rules := keep_first [] (scp_rules p)\<rparr>"

definition initial_plan :: "string \<Rightarrow> seccomp_capability \<Rightarrow> bool \<Rightarrow> seccomp_plan" where
  "initial_plan profile cap fail_closed =
     \<lparr>scp_profile = profile, scp_supported = scc_supported cap, scp_api_level = scc_api_level cap,
      scp_fail_closed = fail_closed, scp_reason = scc_reason cap, scp_whitelist = False,
      scp_default_action = SCMP_ACT_ALLOW, scp_rules = [], scp_unknown = [], scp_notes = [],
      scp_state = []\<rparr>"

text \<open>The rules of the two shapes of a plan.\<close>

definition whitelist_rules :: "(string \<Rightarrow> int) \<Rightarrow> string list \<Rightarrow> seccomp_plan \<Rightarrow> seccomp_plan" where
  "whitelist_rules resolver allow_names p =
     add_names resolver SCMP_ACT_ALLOW NoteBaseline WHITELIST_BASELINE
       (add_names resolver SCMP_ACT_ALLOW NoteDeclaredAllow allow_names
         (p\<lparr>scp_whitelist := True, scp_default_action := DENY_ACTION,
            scp_notes := scp_notes p @ [WhitelistMode]\<rparr>))"

definition denylist_rules :: "(string \<Rightarrow> int) \<Rightarrow> string \<Rightarrow> string list \<Rightarrow> seccomp_plan \<Rightarrow> seccomp_plan" where
  "denylist_rules resolver profile block_names p =
     (let base = add_names resolver DENY_ACTION NoteKernel KERNEL_BLOCK
                   (add_names resolver DENY_ACTION NoteDeclaredBlock block_names p)
      in if profile = PROFILE_STRICT then
           add_families resolver (add_names resolver DENY_ACTION NoteStrict STRICT_BLOCK base)
         else base)"

definition all_rules ::
    "(string \<Rightarrow> int) \<Rightarrow> string \<Rightarrow> string list \<Rightarrow> string list \<Rightarrow> seccomp_plan \<Rightarrow> seccomp_plan" where
  "all_rules resolver profile allow_names block_names p =
     (if profile = PROFILE_STRICT \<and> allow_names \<noteq> [] then whitelist_rules resolver allow_names p
      else denylist_rules resolver profile block_names
             (if allow_names \<noteq> [] then p\<lparr>scp_notes := scp_notes p @ [AllowIgnored profile allow_names]\<rparr>
              else p))"

definition build_plan ::
    "(string \<Rightarrow> int) \<Rightarrow> seccomp_capability \<Rightarrow> bool \<Rightarrow> pyval \<Rightarrow> string list \<Rightarrow> string list \<Rightarrow> seccomp_plan" where
  "build_plan resolver cap fail_closed profile allow block =
     (case (if profile = PNone then Some DEFAULT_PROFILE else normalize_profile profile) of
        None \<Rightarrow>
          (initial_plan (py_str profile) cap fail_closed)
            \<lparr>scp_state := py_str profile @ '':failed'', scp_notes := [UnknownProfile (py_str profile)]\<rparr>
      | Some resolved \<Rightarrow>
          let p = initial_plan resolved cap fail_closed
          in if resolved = PROFILE_OFF then p\<lparr>scp_state := ''off''\<rparr>
             else if \<not> scc_supported cap then p\<lparr>scp_state := ''unsupported''\<rparr>
             else
               let q = dedupe (all_rules resolver resolved (clean_names allow) (clean_names block) p)
               in if scp_rules q = [] then
                    q\<lparr>scp_state := resolved @ '':failed'', scp_notes := scp_notes q @ [EmptyProfile]\<rparr>
                  else q\<lparr>scp_state := resolved\<rparr>)"

section \<open>Installation\<close>

text \<open>
  The argument comparison of a rule (\<open>scmp_arg_cmp\<close> with the operator for equality): the index
  and the datum at their C widths.
\<close>

definition rule_cmp :: "seccomp_rule \<Rightarrow> (32 word \<times> 64 word) option" where
  "rule_cmp r =
     (case scr_arg_index r of
        None \<Rightarrow> None
      | Some i \<Rightarrow> Some (word_of_int i, word_of_int (case scr_arg_value r of None \<Rightarrow> 0 | Some v \<Rightarrow> v)))"

record scmp_lib =
  lib_init :: "32 word \<Rightarrow> bool"
  lib_rule_add :: "seccomp_rule list \<Rightarrow> seccomp_rule \<Rightarrow> int"
  lib_load :: "seccomp_rule list \<Rightarrow> int"

datatype seccomp_error = FilterEmpty | LibraryMissing | InitFailed | RuleAddFailed string int | LoadFailed int

type_synonym scmp_filter = "32 word \<times> seccomp_rule list"

fun add_all :: "scmp_lib \<Rightarrow> seccomp_rule list \<Rightarrow> seccomp_rule list \<Rightarrow> seccomp_error + seccomp_rule list" where
  "add_all lib added [] = Inr added"
| "add_all lib added (r # rs) =
     (if lib_rule_add lib added r \<noteq> 0 then Inl (RuleAddFailed (scr_name r) (lib_rule_add lib added r))
      else add_all lib (added @ [r]) rs)"

definition seccomp_apply :: "scmp_lib option \<Rightarrow> seccomp_plan \<Rightarrow> seccomp_error + scmp_filter" where
  "seccomp_apply olib p =
     (if scp_rules p = [] then Inl FilterEmpty
      else case olib of
        None \<Rightarrow> Inl LibraryMissing
      | Some lib \<Rightarrow>
          if \<not> lib_init lib (scp_default_action p) then Inl InitFailed
          else (case add_all lib [] (scp_rules p) of
                  Inl e \<Rightarrow> Inl e
                | Inr rs \<Rightarrow>
                    if lib_load lib rs \<noteq> 0 then Inl (LoadFailed (lib_load lib rs))
                    else Inr (scp_default_action p, rs)))"

text \<open>The verdict of an installed filter on a call number and its arguments.\<close>

definition rule_matches :: "int \<Rightarrow> (32 word \<Rightarrow> 64 word) \<Rightarrow> seccomp_rule \<Rightarrow> bool" where
  "rule_matches nr args r \<longleftrightarrow>
     scr_nr r = nr \<and> (case rule_cmp r of None \<Rightarrow> True | Some (i, v) \<Rightarrow> args i = v)"

definition filter_action :: "scmp_filter \<Rightarrow> int \<Rightarrow> (32 word \<Rightarrow> 64 word) \<Rightarrow> 32 word" where
  "filter_action f nr args =
     (case find (rule_matches nr args) (snd f) of None \<Rightarrow> fst f | Some r \<Rightarrow> scr_action r)"

section \<open>State and command line\<close>

definition seccomp_current_state :: "seccomp_capability \<Rightarrow> string option \<Rightarrow> pyval \<Rightarrow> string" where
  "seccomp_current_state cap env config =
     (let raw = (case env of Some e \<Rightarrow> if py_strip e = [] then config else PStr e | None \<Rightarrow> config)
      in case (if py_truthy raw then normalize_profile raw else Some DEFAULT_PROFILE) of
           None \<Rightarrow> py_str raw
         | Some profile \<Rightarrow>
             if profile = PROFILE_OFF then ''off''
             else if \<not> scc_supported cap then ''unsupported''
             else profile)"

datatype main_outcome = Printed seccomp_plan | UsageError | Execs "string list" "scmp_filter option" | Exits int

definition seccomp_main ::
    "(string \<Rightarrow> int) \<Rightarrow> seccomp_capability \<Rightarrow> scmp_lib option \<Rightarrow> bool \<Rightarrow> string option
       \<Rightarrow> string list \<Rightarrow> string list \<Rightarrow> string list \<Rightarrow> main_outcome" where
  "seccomp_main resolver cap olib status profile allow block args =
     (let plan = build_plan resolver cap True (case profile of None \<Rightarrow> PNone | Some p \<Rightarrow> PStr p) allow block
      in if status \<or> args = [] then Printed plan
         else
           let cmd = (if hd args = ''--'' then tl args else args)
           in if cmd = [] then UsageError
              else if scp_profile plan = PROFILE_OFF \<or> scp_state plan = ''unsupported'' then Execs cmd None
              else if scp_rules plan = [] then Exits 126
              else case seccomp_apply olib plan of
                     Inl e \<Rightarrow> Exits 126
                   | Inr f \<Rightarrow> Execs cmd (Some f))"

end
