(* ===== verification/Sandbox_Plan.thy ===== *)
theory Sandbox_Plan
  imports Seccomp
begin

text \<open>
  The plan of the kernel sandbox (\<open>sandbox_exec.py\<close>): access rights as 64 bit masks, the mode,
  the read and write roots with the source of each, the rules, and the attached system call plan.
  The file system, the environment, the configuration and the capabilities of the machine are
  the fields of \<open>sandbox_world\<close>; \<open>sw_expand p\<close> is the text of \<open>Path(p).expanduser()\<close> and
  \<open>sw_resolve p\<close> that of \<open>Path(p).resolve()\<close>.  Log lines are left out, texts of notes and blockers
  are constructors.
\<close>

section \<open>Modes and sources\<close>

definition MODE_OFF :: string where "MODE_OFF = ''off''"
definition MODE_READONLY :: string where "MODE_READONLY = ''readonly''"
definition MODE_WORKSPACE :: string where "MODE_WORKSPACE = ''workspace-write''"
definition MODE_STRICT :: string where "MODE_STRICT = ''strict''"
definition MODES :: "string list" where "MODES = [MODE_READONLY, MODE_WORKSPACE, MODE_STRICT, MODE_OFF]"
definition DEFAULT_MODE :: string where "DEFAULT_MODE = MODE_WORKSPACE"

definition MODE_RANK :: "(string, nat) dict" where
  "MODE_RANK = [(MODE_OFF, 3), (MODE_WORKSPACE, 2), (MODE_STRICT, 1), (MODE_READONLY, 0)]"

lemmas mode_defs = MODE_OFF_def MODE_READONLY_def MODE_WORKSPACE_def MODE_STRICT_def DEFAULT_MODE_def

datatype source =
    SOURCE_BUILTIN | SOURCE_CONFIG | SOURCE_ENV | SOURCE_MANIFEST | SOURCE_REQUEST
  | SOURCE_EXPLICIT | SOURCE_DEFAULT | SOURCE_UNKNOWN

definition FALSEY :: "string list" where "FALSEY = [''0'', ''false'', ''no'', ''off'']"

section \<open>Access rights\<close>

type_synonym rights = "64 word"

definition A_EXECUTE :: rights where "A_EXECUTE = push_bit 0 1"
definition A_WRITE_FILE :: rights where "A_WRITE_FILE = push_bit 1 1"
definition A_READ_FILE :: rights where "A_READ_FILE = push_bit 2 1"
definition A_READ_DIR :: rights where "A_READ_DIR = push_bit 3 1"
definition A_REMOVE_DIR :: rights where "A_REMOVE_DIR = push_bit 4 1"
definition A_REMOVE_FILE :: rights where "A_REMOVE_FILE = push_bit 5 1"
definition A_MAKE_CHAR :: rights where "A_MAKE_CHAR = push_bit 6 1"
definition A_MAKE_DIR :: rights where "A_MAKE_DIR = push_bit 7 1"
definition A_MAKE_REG :: rights where "A_MAKE_REG = push_bit 8 1"
definition A_MAKE_SOCK :: rights where "A_MAKE_SOCK = push_bit 9 1"
definition A_MAKE_FIFO :: rights where "A_MAKE_FIFO = push_bit 10 1"
definition A_MAKE_BLOCK :: rights where "A_MAKE_BLOCK = push_bit 11 1"
definition A_MAKE_SYM :: rights where "A_MAKE_SYM = push_bit 12 1"
definition A_REFER :: rights where "A_REFER = push_bit 13 1"
definition A_TRUNCATE :: rights where "A_TRUNCATE = push_bit 14 1"
definition A_IOCTL_DEV :: rights where "A_IOCTL_DEV = push_bit 15 1"

lemmas right_defs = A_EXECUTE_def A_WRITE_FILE_def A_READ_FILE_def A_READ_DIR_def A_REMOVE_DIR_def
  A_REMOVE_FILE_def A_MAKE_CHAR_def A_MAKE_DIR_def A_MAKE_REG_def A_MAKE_SOCK_def A_MAKE_FIFO_def
  A_MAKE_BLOCK_def A_MAKE_SYM_def A_REFER_def A_TRUNCATE_def A_IOCTL_DEV_def

definition ABI1_FS :: rights where
  "ABI1_FS = A_EXECUTE OR A_WRITE_FILE OR A_READ_FILE OR A_READ_DIR OR A_REMOVE_DIR OR A_REMOVE_FILE
     OR A_MAKE_CHAR OR A_MAKE_DIR OR A_MAKE_REG OR A_MAKE_SOCK OR A_MAKE_FIFO OR A_MAKE_BLOCK OR A_MAKE_SYM"

definition since :: "int \<Rightarrow> int \<Rightarrow> rights \<Rightarrow> rights" where
  "since abi n r = (if abi \<ge> n then r else 0)"

definition handled_mask :: "int \<Rightarrow> rights" where
  "handled_mask abi = ABI1_FS OR since abi 2 A_REFER OR since abi 3 A_TRUNCATE OR since abi 5 A_IOCTL_DEV"

definition read_rights :: "int \<Rightarrow> rights" where
  "read_rights abi = A_EXECUTE OR A_READ_FILE OR A_READ_DIR"

definition file_read_rights :: "int \<Rightarrow> rights" where
  "file_read_rights abi = A_EXECUTE OR A_READ_FILE"

definition write_rights :: "int \<Rightarrow> rights" where
  "write_rights abi =
     (read_rights abi OR A_WRITE_FILE OR A_REMOVE_DIR OR A_REMOVE_FILE)
       OR (A_MAKE_CHAR OR A_MAKE_DIR OR A_MAKE_REG OR A_MAKE_SOCK OR A_MAKE_FIFO OR A_MAKE_BLOCK OR A_MAKE_SYM)
       OR since abi 2 A_REFER OR since abi 3 A_TRUNCATE"

definition file_write_rights :: "int \<Rightarrow> rights" where
  "file_write_rights abi =
     (A_EXECUTE OR A_WRITE_FILE OR A_READ_FILE) OR since abi 3 A_TRUNCATE OR since abi 5 A_IOCTL_DEV"

section \<open>Paths\<close>

definition SYSTEM_READ :: "string list" where
  "SYSTEM_READ = [''/usr'', ''/bin'', ''/sbin'', ''/lib'', ''/lib64'', ''/etc'', ''/proc'', ''/sys'', ''/dev'']"

definition ALWAYS_WRITE :: "string list" where
  "ALWAYS_WRITE =
     [''/dev/null'', ''/dev/zero'', ''/dev/full'', ''/dev/random'', ''/dev/urandom'',
      ''/dev/tty'', ''/dev/console'', ''/dev/ptmx'', ''/dev/pts'', ''/dev/shm'',
      ''/dev/fd'', ''/dev/stdin'', ''/dev/stdout'', ''/dev/stderr'']"

definition NEVER_WORKSPACE :: "string list" where
  "NEVER_WORKSPACE =
     [''/'', ''/etc'', ''/usr'', ''/boot'', ''/efi'', ''/bin'', ''/sbin'', ''/lib'', ''/lib64'',
      ''/proc'', ''/sys'', ''/dev'', ''/run'', ''/var'']"

definition TMP_ROOTS :: "string list" where "TMP_ROOTS = [''/tmp'', ''/var/tmp'']"

datatype file_kind = Directory | Regular | Special

record landlock_capability =
  llc_supported :: bool
  llc_abi :: int
  llc_reason :: string

record sandbox_world =
  sw_env :: "string \<Rightarrow> string option"
  sw_expand :: "string \<Rightarrow> string"
  sw_resolve :: "string \<Rightarrow> string"
  sw_stat :: "string \<Rightarrow> file_kind option"
  sw_cwd :: string
  sw_home :: string
  sw_data :: string
  sw_config :: "(string, pyval) dict"
  sw_allow_write :: "string \<Rightarrow> string list"
  sw_landlock :: landlock_capability
  sw_seccomp :: seccomp_capability
  sw_resolver :: "string \<Rightarrow> int"

definition env_value :: "sandbox_world \<Rightarrow> string \<Rightarrow> pyval" where
  "env_value w name = (case sw_env w name of None \<Rightarrow> PNone | Some v \<Rightarrow> PStr v)"

definition opt_value :: "string option \<Rightarrow> pyval" where
  "opt_value x = (case x of None \<Rightarrow> PNone | Some v \<Rightarrow> PStr v)"

definition is_dir :: "sandbox_world \<Rightarrow> string \<Rightarrow> bool" where
  "is_dir w p \<longleftrightarrow> sw_stat w p = Some Directory"

definition landlockable :: "sandbox_world \<Rightarrow> string \<Rightarrow> bool" where
  "landlockable w p \<longleftrightarrow> sw_stat w p = Some Directory \<or> sw_stat w p = Some Regular"

definition resolve_fail_closed :: "sandbox_world \<Rightarrow> bool" where
  "resolve_fail_closed w =
     (case sw_env w ''TRIMUM_SANDBOX_FAIL_CLOSED'' of
        Some raw \<Rightarrow>
          if py_strip raw \<noteq> [] then py_lower (py_strip raw) \<notin> set FALSEY
          else (case pget (sw_config w) ''fail_closed'' of PBool b \<Rightarrow> b | _ \<Rightarrow> True)
      | None \<Rightarrow> (case pget (sw_config w) ''fail_closed'' of PBool b \<Rightarrow> b | _ \<Rightarrow> True))"

text \<open>A number or a truth value in place of a list of paths raises.\<close>

definition clean_paths :: "sandbox_world \<Rightarrow> string list \<Rightarrow> string list" where
  "clean_paths w xs = map (sw_expand w) (filter (\<lambda>t. t \<noteq> []) (map py_strip xs))"

definition as_paths :: "sandbox_world \<Rightarrow> pyval \<Rightarrow> py_error + string list" where
  "as_paths w v =
     (case v of
        PNone \<Rightarrow> Inr []
      | PStr s \<Rightarrow> Inr (clean_paths w [s])
      | PList xs \<Rightarrow> Inr (clean_paths w (map py_str xs))
      | PDict d \<Rightarrow> Inr (clean_paths w (map fst d))
      | _ \<Rightarrow> Inl TypeError)"

definition norm_path :: "sandbox_world \<Rightarrow> string \<Rightarrow> string" where
  "norm_path w p = sw_resolve w (sw_expand w p)"

section \<open>The mode\<close>

definition text_or :: "string \<Rightarrow> pyval \<Rightarrow> string" where
  "text_or d v = (if py_strip (py_str v) = [] then d else py_strip (py_str v))"

definition resolve_mode ::
    "string option \<Rightarrow> pyval \<Rightarrow> (string, pyval) dict \<Rightarrow> (string, pyval) dict \<Rightarrow> string \<times> source" where
  "resolve_mode explicit env declared cfg =
     (let base = text_or DEFAULT_MODE
                   (py_or (py_or (py_or (opt_value explicit) env) (pget cfg ''mode'')) (PStr DEFAULT_MODE));
          mode_source =
            (if py_truthy (opt_value explicit) then SOURCE_EXPLICIT
             else if py_truthy env then SOURCE_ENV
             else if py_truthy (pget cfg ''mode'') then SOURCE_CONFIG
             else SOURCE_DEFAULT)
      in case py_or (pget declared ''mode'') (pget declared ''profile'') of
           PStr d \<Rightarrow>
             (case (map_of MODE_RANK (py_strip d), map_of MODE_RANK base) of
                (Some m, Some n) \<Rightarrow> if m < n then (py_strip d, SOURCE_MANIFEST) else (base, mode_source)
              | _ \<Rightarrow> (base, mode_source))
         | _ \<Rightarrow> (base, mode_source))"

section \<open>Roots\<close>

definition is_workspace :: "sandbox_world \<Rightarrow> string \<Rightarrow> bool" where
  "is_workspace w p =
     (let text = sw_resolve w p
      in list_all (\<lambda>b. text \<noteq> b \<and> text \<noteq> (if b = ''/'' then [] else b) \<and>
           (b = ''/'' \<or> \<not> prefix (b @ ''/'') text)) NEVER_WORKSPACE)"

definition always_write_roots :: "sandbox_world \<Rightarrow> string list" where
  "always_write_roots w =
     ALWAYS_WRITE @
     fold (\<lambda>p extra. if landlockable w p then extra
                     else if path_parent p \<notin> set extra \<and> is_dir w (path_parent p)
                     then extra @ [path_parent p] else extra) ALWAYS_WRITE []"

definition socket_dirs :: "sandbox_world \<Rightarrow> string list" where
  "socket_dirs w =
     (case sw_env w ''TRIMUM_SOCKET'' of Some s \<Rightarrow> if s = [] then [] else [path_parent s] | None \<Rightarrow> []) @
     (case sw_env w ''XDG_RUNTIME_DIR'' of Some d \<Rightarrow> if d = [] then [] else [path_text d] | None \<Rightarrow> []) @
     [''/run/trimum'']"

datatype skip_reason = MissingPath | NotLandlockable
datatype face = ReadFace | WriteFace

type_synonym candidate = "string \<times> source"
type_synonym skip = "string \<times> face \<times> source \<times> skip_reason"

fun collect ::
    "sandbox_world \<Rightarrow> face \<Rightarrow> candidate list \<Rightarrow> string list \<Rightarrow> skip list \<Rightarrow> string list \<times> skip list" where
  "collect w kind [] out report = (out, report)"
| "collect w kind ((raw, src) # cs) out report =
     (let path = sw_expand w raw
      in if raw = [] then collect w kind cs out report
         else if path \<in> set out then collect w kind cs out report
         else if sw_stat w path = None then
           collect w kind cs out (report @ [(path, kind, src, MissingPath)])
         else if \<not> landlockable w path then
           collect w kind cs out (report @ [(path, kind, src, NotLandlockable)])
         else collect w kind cs (out @ [path]) report)"

fun sources_of :: "sandbox_world \<Rightarrow> candidate list \<Rightarrow> string list \<Rightarrow> (string, source) dict \<Rightarrow> (string, source) dict" where
  "sources_of w [] seen out = out"
| "sources_of w ((raw, src) # cs) seen out =
     (let path = sw_expand w raw
      in if raw \<noteq> [] \<and> path \<in> set seen \<and> path \<notin> fst ` set out
         then sources_of w cs seen (out @ [(path, src)])
         else sources_of w cs seen out)"

section \<open>Plans\<close>

datatype sandbox_note =
    SeccompTightened string
  | WriteHeldReadonly "string list"
  | WriteGranted string "string list"
  | WriteIgnored string "string list"

datatype blocker = UnknownMode string | NoReadRoots | UnknownSeccomp string

record sandbox_plan =
  sb_mode :: string
  sb_supported :: bool
  sb_abi :: int
  sb_fail_closed :: bool
  sb_reason :: string
  sb_read_roots :: "string list"
  sb_write_roots :: "string list"
  sb_rules :: "(string \<times> rights) list"
  sb_blockers :: "blocker list"
  sb_notes :: "sandbox_note list"
  sb_state :: string
  sb_seccomp :: "seccomp_plan option"
  sb_mode_source :: source
  sb_sources :: "(string, source) dict"
  sb_skipped :: "skip list"
  sb_ignored :: "string list"

definition sb_enforcing :: "sandbox_plan \<Rightarrow> bool" where
  "sb_enforcing p \<longleftrightarrow> sb_supported p \<and> sb_mode p \<noteq> MODE_OFF \<and> sb_blockers p = []"

definition seccomp_enforcing :: "sandbox_plan \<Rightarrow> bool" where
  "seccomp_enforcing p \<longleftrightarrow> (case sb_seccomp p of None \<Rightarrow> False | Some s \<Rightarrow> scp_enforcing s)"

text \<open>The two states written back into the request; the second stays when there is no system call plan.\<close>

definition sync_states :: "sandbox_plan \<Rightarrow> string \<times> string \<Rightarrow> string \<times> string" where
  "sync_states p target =
     (sb_state p, case sb_seccomp p of None \<Rightarrow> snd target | Some s \<Rightarrow> scp_state s)"

record sandbox_manifest =
  sm_name :: string
  sm_work_dir :: string
  sm_sandbox :: pyval

record plan_args =
  pa_cwd :: "string option"
  pa_manifest :: "sandbox_manifest option"
  pa_cwd_arg :: "string option"
  pa_mode :: "string option"
  pa_profile :: "string option"
  pa_allow :: "string list"
  pa_block :: "string list"
  pa_extra_read :: "string list"
  pa_extra_write :: "string list"
  pa_base :: "string option"

definition declared_of :: "plan_args \<Rightarrow> (string, pyval) dict" where
  "declared_of a =
     (case pa_manifest a of
        None \<Rightarrow> []
      | Some m \<Rightarrow> (case sm_sandbox m of PDict d \<Rightarrow> d | _ \<Rightarrow> []))"

text \<open>The profile: parameter, environment, configuration, default; a manifest may only tighten it.\<close>

definition seccomp_base ::
    "sandbox_world \<Rightarrow> plan_args \<Rightarrow> (string, pyval) dict \<Rightarrow> string \<times> sandbox_note list" where
  "seccomp_base w a declared =
     (let base = text_or DEFAULT_PROFILE
                   (py_or (py_or (py_or (opt_value (pa_profile a)) (env_value w ''TRIMUM_SECCOMP''))
                     (pget (sw_config w) ''seccomp'')) (PStr DEFAULT_PROFILE))
      in case py_or (pget declared ''seccomp_profile'') (pget declared ''seccomp'') of
           PStr d \<Rightarrow>
             (if py_strip d = [] then (base, [])
              else case (normalize_profile (PStr d), normalize_profile (PStr base)) of
                     (Some want, Some cur) \<Rightarrow>
                       if the (map_of PROFILE_RANK want) < the (map_of PROFILE_RANK cur)
                       then (want, [SeccompTightened want]) else (base, [])
                   | _ \<Rightarrow> (base, []))
         | _ \<Rightarrow> (base, []))"

definition build_seccomp ::
    "sandbox_world \<Rightarrow> plan_args \<Rightarrow> bool \<Rightarrow> string list \<Rightarrow> string list \<Rightarrow> py_error + seccomp_plan \<times> sandbox_note list" where
  "build_seccomp w a fail_closed allow block =
     (let declared = declared_of a; cfg = sw_config w; (base, notes) = seccomp_base w a declared
      in try_then (as_names (py_or (pget declared ''seccomp_allow'') (pget declared ''extra_syscalls''))) (\<lambda>ignored.
         try_then (as_names (pget cfg ''seccomp_allow'')) (\<lambda>cfg_allow.
         try_then (as_names (pget cfg ''seccomp_block'')) (\<lambda>cfg_block.
         try_then (as_names (pget declared ''seccomp_block'')) (\<lambda>decl_block.
         try_then (as_names (pget declared ''extra_block'')) (\<lambda>extra_block.
           Inr (build_plan (sw_resolver w) (sw_seccomp w) fail_closed (PStr base)
                  (cfg_allow @ clean_names allow)
                  (cfg_block @ clean_names block @ decl_block @ extra_block), notes)))))))"

text \<open>The first candidate that is a directory and may serve as workspace.\<close>

definition workspace_candidates :: "sandbox_world \<Rightarrow> plan_args \<Rightarrow> string list" where
  "workspace_candidates w a =
     map (sw_expand w) (filter (\<lambda>t. t \<noteq> [])
       (List.map_filter id [pa_cwd a, pa_cwd_arg a, pa_base a, map_option sm_work_dir (pa_manifest a),
          Some (sw_cwd w)]))"

definition find_workspace :: "sandbox_world \<Rightarrow> plan_args \<Rightarrow> string" where
  "find_workspace w a =
     (case find (\<lambda>t. is_dir w t \<and> is_workspace w t) (workspace_candidates w a) of
        None \<Rightarrow> [] | Some t \<Rightarrow> sw_resolve w t)"

record path_inputs =
  pi_cfg_write :: "string list"
  pi_cfg_read :: "string list"
  pi_extra_write :: "string list"
  pi_extra_read :: "string list"
  pi_declared_read :: "string list"
  pi_declared_write :: "string list"

definition path_inputs_of :: "sandbox_world \<Rightarrow> plan_args \<Rightarrow> py_error + path_inputs" where
  "path_inputs_of w a =
     (let declared = declared_of a
      in try_then (as_paths w (pget (sw_config w) ''write_paths'')) (\<lambda>cw.
         try_then (as_paths w (pget (sw_config w) ''read_paths'')) (\<lambda>cr.
         try_then (as_paths w (py_or (py_or (pget declared ''read'') (pget declared ''fs_read''))
                     (pget declared ''allowed_read''))) (\<lambda>dr.
         try_then (as_paths w (py_or (py_or (pget declared ''write'') (pget declared ''fs_write''))
                     (pget declared ''allowed_write''))) (\<lambda>dw.
           Inr \<lparr>pi_cfg_write = cw, pi_cfg_read = cr, pi_extra_write = clean_paths w (pa_extra_write a),
                pi_extra_read = clean_paths w (pa_extra_read a), pi_declared_read = dr,
                pi_declared_write = dw\<rparr>)))))"

definition agent_name :: "plan_args \<Rightarrow> string" where
  "agent_name a = (case pa_manifest a of None \<Rightarrow> [] | Some m \<Rightarrow> sm_name m)"

text \<open>A declared write path counts only when the operator grants the same path to the agent.\<close>

definition is_granted :: "sandbox_world \<Rightarrow> plan_args \<Rightarrow> string \<Rightarrow> bool" where
  "is_granted w a p \<longleftrightarrow>
     agent_name a \<noteq> [] \<and> norm_path w p \<in> norm_path w ` set (sw_allow_write w (agent_name a))"

definition granted_writes :: "sandbox_world \<Rightarrow> plan_args \<Rightarrow> string list \<Rightarrow> string list" where
  "granted_writes w a declared_write = filter (is_granted w a) declared_write"

definition ignored_writes :: "sandbox_world \<Rightarrow> plan_args \<Rightarrow> string list \<Rightarrow> string list" where
  "ignored_writes w a declared_write = filter (\<lambda>p. \<not> is_granted w a p) declared_write"

definition write_notes :: "string \<Rightarrow> bool \<Rightarrow> string list \<Rightarrow> string list \<Rightarrow> sandbox_note list" where
  "write_notes name readonly granted ignored =
     (let label = (if name = [] then ''?'' else name)
      in (if granted = [] then []
          else if readonly then [WriteHeldReadonly granted] else [WriteGranted label granted]) @
         (if ignored = [] then [] else [WriteIgnored label ignored]))"

definition tag :: "source \<Rightarrow> string list \<Rightarrow> candidate list" where
  "tag src ps = map (\<lambda>p. (p, src)) ps"

definition read_candidates :: "sandbox_world \<Rightarrow> bool \<Rightarrow> string \<Rightarrow> path_inputs \<Rightarrow> candidate list" where
  "read_candidates w strict workspace i =
     tag SOURCE_BUILTIN ((if strict then SYSTEM_READ else [''/'']) @ [workspace, sw_home w, sw_data w]) @
     tag SOURCE_MANIFEST (pi_declared_read i) @ tag SOURCE_CONFIG (pi_cfg_read i) @
     tag SOURCE_REQUEST (pi_extra_read i)"

definition builtin_writes :: "sandbox_world \<Rightarrow> string list" where
  "builtin_writes w = always_write_roots w @ socket_dirs w"

definition write_candidates ::
    "sandbox_world \<Rightarrow> bool \<Rightarrow> string \<Rightarrow> path_inputs \<Rightarrow> string list \<Rightarrow> candidate list" where
  "write_candidates w readonly workspace i granted =
     (if readonly then tag SOURCE_BUILTIN (builtin_writes w @ [sw_home w, sw_data w])
      else tag SOURCE_BUILTIN (builtin_writes w @ [workspace, sw_home w, sw_data w] @ TMP_ROOTS) @
           tag SOURCE_CONFIG (pi_cfg_write i) @ tag SOURCE_REQUEST (pi_extra_write i) @
           tag SOURCE_MANIFEST granted)"

text \<open>The rights of every root, write roots overriding read roots, ordered by depth and name.\<close>

definition build_rules :: "sandbox_world \<Rightarrow> int \<Rightarrow> string list \<Rightarrow> string list \<Rightarrow> (string \<times> rights) list" where
  "build_rules w abi read_roots write_roots =
     (let reads = fold (\<lambda>p. AList.update p (if is_dir w p then read_rights abi else file_read_rights abi)) read_roots [];
          rules = fold (\<lambda>p. AList.update p (if is_dir w p then write_rights abi else file_write_rights abi)) write_roots reads
      in sort_key (\<lambda>r. count_list (fst r) CHR ''/'') (sort_key fst rules))"

definition empty_sandbox :: "sandbox_world \<Rightarrow> string \<Rightarrow> source \<Rightarrow> sandbox_plan" where
  "empty_sandbox w mode src =
     \<lparr>sb_mode = mode, sb_supported = llc_supported (sw_landlock w), sb_abi = llc_abi (sw_landlock w),
      sb_fail_closed = resolve_fail_closed w, sb_reason = llc_reason (sw_landlock w), sb_read_roots = [],
      sb_write_roots = [], sb_rules = [], sb_blockers = [], sb_notes = [], sb_state = [],
      sb_seccomp = None, sb_mode_source = src, sb_sources = [], sb_skipped = [], sb_ignored = []\<rparr>"

text \<open>The switch for everything: both halves are off.\<close>

definition plan_off :: "sandbox_world \<Rightarrow> plan_args \<Rightarrow> sandbox_plan \<Rightarrow> py_error + sandbox_plan" where
  "plan_off w a p =
     try_then (build_seccomp w a (sb_fail_closed p) [] []) (\<lambda>(s, notes).
       Inr (p\<lparr>sb_notes := notes,
              sb_seccomp := Some (s\<lparr>scp_profile := PROFILE_OFF, scp_state := ''off'', scp_rules := []\<rparr>),
              sb_state := ''off''\<rparr>))"

definition plan_unsupported :: "sandbox_world \<Rightarrow> plan_args \<Rightarrow> sandbox_plan \<Rightarrow> py_error + sandbox_plan" where
  "plan_unsupported w a p =
     try_then (build_seccomp w a (sb_fail_closed p) (pa_allow a) (pa_block a)) (\<lambda>(s, notes).
       Inr (p\<lparr>sb_notes := notes, sb_seccomp := Some s, sb_state := ''unsupported''\<rparr>))"

definition unknown_profile_blockers :: "seccomp_plan \<Rightarrow> blocker list" where
  "unknown_profile_blockers s =
     List.map_filter (\<lambda>n. case n of UnknownProfile t \<Rightarrow> Some (UnknownSeccomp t) | _ \<Rightarrow> None) (scp_notes s)"

definition plan_roots :: "sandbox_world \<Rightarrow> plan_args \<Rightarrow> path_inputs \<Rightarrow> sandbox_plan \<Rightarrow> sandbox_plan" where
  "plan_roots w a i p =
     (let readonly = (sb_mode p = MODE_READONLY);
          workspace = find_workspace w a;
          granted = granted_writes w a (pi_declared_write i);
          ignored = ignored_writes w a (pi_declared_write i);
          reads = read_candidates w (sb_mode p = MODE_STRICT) workspace i;
          writes = write_candidates w readonly workspace i granted;
          (read_seen, skips) = collect w ReadFace reads [] [];
          (write_seen, skips') = collect w WriteFace writes [] skips;
          read_roots = filter (\<lambda>r. r \<notin> set write_seen) read_seen
      in p\<lparr>sb_notes := sb_notes p @ write_notes (agent_name a) readonly granted ignored,
           sb_ignored := ignored, sb_read_roots := read_roots, sb_write_roots := write_seen,
           sb_skipped := skips',
           sb_sources := fold (\<lambda>(k, v). AList.update k v) (sources_of w writes write_seen [])
                           (sources_of w reads read_seen []),
           sb_rules := build_rules w (sb_abi p) read_roots write_seen\<rparr>)"

definition plan_supported :: "sandbox_world \<Rightarrow> plan_args \<Rightarrow> sandbox_plan \<Rightarrow> py_error + sandbox_plan" where
  "plan_supported w a p =
     try_then (path_inputs_of w a) (\<lambda>i.
     try_then (build_seccomp w a (sb_fail_closed p) (pa_allow a) (pa_block a)) (\<lambda>(s, notes).
       let q = plan_roots w a i p;
           blockers = (if sb_read_roots q = [] then [NoReadRoots] else []) @ unknown_profile_blockers s
       in Inr (q\<lparr>sb_notes := sb_notes q @ notes, sb_seccomp := Some s, sb_blockers := blockers,
                 sb_state := (if blockers \<noteq> [] then sb_mode q @ '':failed'' else sb_mode q)\<rparr>)))"

definition plan_for :: "sandbox_world \<Rightarrow> plan_args \<Rightarrow> py_error + sandbox_plan" where
  "plan_for w a =
     (let (mode, src) = resolve_mode (pa_mode a) (env_value w ''TRIMUM_SANDBOX'') (declared_of a) (sw_config w);
          p = empty_sandbox w mode src
      in if mode \<notin> set MODES then
           Inr (p\<lparr>sb_blockers := [UnknownMode mode], sb_state := mode @ '':failed''\<rparr>)
         else if mode = MODE_OFF then plan_off w a p
         else if \<not> sb_supported p then plan_unsupported w a p
         else plan_supported w a p)"

definition sandbox_current_state :: "sandbox_world \<Rightarrow> string" where
  "sandbox_current_state w =
     (let mode = py_strip (py_str (py_or (py_or (env_value w ''TRIMUM_SANDBOX'') (pget (sw_config w) ''mode''))
                   (PStr DEFAULT_MODE)))
      in if mode = MODE_OFF then ''off''
         else if \<not> llc_supported (sw_landlock w) then ''unsupported'' else mode)"

end
