(* ===== verification/Seccomp_Filter.thy ===== *)
theory Seccomp_Filter
  imports Seccomp
begin

text \<open>
  What an installed filter denies.  The rules of a plan are computed by folds that record
  unknown names, then duplicates are removed by name; the reference \<open>reference_denies\<close> speaks of
  the numbers of the listed names only.
\<close>

definition resolves :: "(string \<Rightarrow> int) \<Rightarrow> string \<Rightarrow> bool" where
  "resolves resolver n \<longleftrightarrow> resolver n \<noteq> NR_SCMP_ERROR \<and> resolver n \<noteq> NR_SCMP_UNDEF"

definition numbers :: "(string \<Rightarrow> int) \<Rightarrow> string list \<Rightarrow> int set" where
  "numbers resolver names = resolver ` {n \<in> set names. resolves resolver n}"

definition effective_profile :: "pyval \<Rightarrow> string option" where
  "effective_profile profile = (if profile = PNone then Some DEFAULT_PROFILE else normalize_profile profile)"

definition whitelisting :: "string \<Rightarrow> string list \<Rightarrow> bool" where
  "whitelisting profile allow \<longleftrightarrow> profile = PROFILE_STRICT \<and> clean_names allow \<noteq> []"

definition reference_denies ::
    "(string \<Rightarrow> int) \<Rightarrow> string \<Rightarrow> string list \<Rightarrow> string list \<Rightarrow> int \<Rightarrow> (32 word \<Rightarrow> 64 word) \<Rightarrow> bool" where
  "reference_denies resolver profile allow block nr args \<longleftrightarrow>
     (if whitelisting profile allow then nr \<notin> numbers resolver (clean_names allow @ WHITELIST_BASELINE)
      else nr \<in> numbers resolver (clean_names block @ KERNEL_BLOCK) \<or>
        profile = PROFILE_STRICT \<and>
          (nr \<in> numbers resolver STRICT_BLOCK \<or>
           nr \<in> numbers resolver [''socket''] \<and> args 0 \<in> {2, 10, 17, 16}))"

section \<open>The rules of a plan\<close>

definition named_rule :: "(string \<Rightarrow> int) \<Rightarrow> 32 word \<Rightarrow> rule_note \<Rightarrow> string \<Rightarrow> seccomp_rule" where
  "named_rule resolver action note n =
     \<lparr>scr_name = n, scr_nr = resolver n, scr_action = action, scr_arg_index = None,
      scr_arg_value = None, scr_note = note\<rparr>"

definition family_rule :: "(string \<Rightarrow> int) \<Rightarrow> string \<times> int \<Rightarrow> seccomp_rule" where
  "family_rule resolver f =
     \<lparr>scr_name = ''socket'', scr_nr = resolver ''socket'', scr_action = DENY_ACTION,
      scr_arg_index = Some 0, scr_arg_value = Some (snd f), scr_note = NoteFamily (fst f)\<rparr>"

lemma add_names_Nil [simp]: "add_names resolver a note [] p = p"
  by (simp add: add_names_def)

lemma add_names_Cons:
  "add_names resolver a note (n # ns) p =
   add_names resolver a note ns (add_rule resolver n a None None note p)"
  by (simp add: add_names_def)

lemma add_names_rules [simp]:
  "scp_rules (add_names resolver a note ns p) =
   scp_rules p @ map (named_rule resolver a note) (filter (resolves resolver) ns)"
  by (induction ns arbitrary: p) (auto simp: add_names_Cons add_rule_def named_rule_def resolves_def Let_def)

lemma add_names_default [simp]:
  "scp_default_action (add_names resolver a note ns p) = scp_default_action p"
  by (induction ns arbitrary: p) (auto simp: add_names_Cons add_rule_def Let_def)

lemma add_families_rules [simp]:
  "scp_rules (add_families resolver p) =
   scp_rules p @ (if resolves resolver ''socket'' then map (family_rule resolver) NET_FAMILIES else [])"
  "scp_default_action (add_families resolver p) = scp_default_action p"
  by (auto simp: add_families_def add_rule_def family_rule_def resolves_def Let_def NET_FAMILIES_def)

definition calls_match :: "(string \<Rightarrow> int) \<Rightarrow> seccomp_rule list \<Rightarrow> bool" where
  "calls_match resolver rs \<longleftrightarrow> (\<forall>r \<in> set rs. scr_nr r = resolver (scr_name r))"

lemma dedupe_simps:
  "scp_rules (dedupe p) = keep_first [] (scp_rules p)" "scp_default_action (dedupe p) = scp_default_action p"
  by (simp_all add: dedupe_def)

lemma keep_first_subset: "set (keep_first seen rs) \<subseteq> set rs"
  by (induction seen rs rule: keep_first.induct) auto

lemma keep_first_keys:
  "rule_key ` set rs \<subseteq> set seen \<union> rule_key ` set (keep_first seen rs)"
proof (induction seen rs rule: keep_first.induct)
  case (2 seen r rs)
  then show ?case by (cases "rule_key r \<in> set seen") auto
qed simp

lemma same_key_matches:
  assumes "rule_key r = rule_key r'" and "scr_nr r = resolver (scr_name r)" and "scr_nr r' = resolver (scr_name r')"
  shows "rule_matches nr args r = rule_matches nr args r'"
  using assms by (auto simp: rule_matches_def rule_cmp_def rule_key_def split: option.splits)

lemma keep_first_matches:
  assumes "calls_match resolver rs"
  shows "(\<exists>r \<in> set (keep_first [] rs). rule_matches nr args r) \<longleftrightarrow> (\<exists>r \<in> set rs. rule_matches nr args r)"
proof
  assume "\<exists>r \<in> set rs. rule_matches nr args r"
  then obtain r where r: "r \<in> set rs" "rule_matches nr args r" by blast
  then have "rule_key r \<in> rule_key ` set (keep_first [] rs)" using keep_first_keys [of rs "[]"] by auto
  then obtain r' where r': "r' \<in> set (keep_first [] rs)" "rule_key r = rule_key r'" by auto
  then have "r' \<in> set rs" using keep_first_subset [of "[]" rs] by blast
  then have "rule_matches nr args r = rule_matches nr args r'"
    using same_key_matches [OF r'(2)] assms r(1) unfolding calls_match_def by blast
  then show "\<exists>r \<in> set (keep_first [] rs). rule_matches nr args r" using r(2) r'(1) by blast
qed (use keep_first_subset [of "[]" rs] in blast)

lemma filter_action_uniform:
  assumes "\<forall>r \<in> set rs. scr_action r = a"
  shows "filter_action (d, rs) nr args = (if \<exists>r \<in> set rs. rule_matches nr args r then a else d)"
proof (cases "find (rule_matches nr args) rs")
  case None
  then have "\<not> (\<exists>r \<in> set rs. rule_matches nr args r)" by (auto simp: find_None_iff)
  then show ?thesis by (simp add: filter_action_def None)
next
  case (Some r)
  then have "r \<in> set rs \<and> rule_matches nr args r" by (auto simp: find_Some_iff)
  then show ?thesis using Some assms by (auto simp: filter_action_def)
qed

lemma deduped_verdict:
  assumes "calls_match resolver rs" and "\<forall>r \<in> set rs. scr_action r = a"
  shows "filter_action (d, keep_first [] rs) nr args = (if \<exists>r \<in> set rs. rule_matches nr args r then a else d)"
proof -
  have "\<forall>r \<in> set (keep_first [] rs). scr_action r = a"
    using keep_first_subset [of "[]" rs] assms(2) by blast
  then show ?thesis by (simp only: filter_action_uniform keep_first_matches [OF assms(1)])
qed

lemma named_rule_simps [simp]:
  "scr_action (named_rule resolver a note n) = a"
  "scr_nr (named_rule resolver a note n) = resolver n"
  "scr_name (named_rule resolver a note n) = n"
  "rule_matches nr args (named_rule resolver a note n) \<longleftrightarrow> resolver n = nr"
  by (simp_all add: named_rule_def rule_matches_def rule_cmp_def)

lemma family_rule_simps [simp]:
  "scr_action (family_rule resolver f) = DENY_ACTION"
  "scr_nr (family_rule resolver f) = resolver ''socket''"
  "scr_name (family_rule resolver f) = ''socket''"
  "rule_matches nr args (family_rule resolver f) \<longleftrightarrow> resolver ''socket'' = nr \<and> args 0 = word_of_int (snd f)"
  by (simp_all add: family_rule_def rule_matches_def rule_cmp_def)

lemma named_rules_match:
  "(\<exists>r \<in> set (map (named_rule resolver a note) (filter (resolves resolver) ns)). rule_matches nr args r) \<longleftrightarrow>
   nr \<in> numbers resolver ns"
  by (auto simp: numbers_def)

lemma family_rules_match:
  "(\<exists>r \<in> set (map (family_rule resolver) NET_FAMILIES). rule_matches nr args r) \<longleftrightarrow>
   resolver ''socket'' = nr \<and> args 0 \<in> {2, 10, 17, 16}"
  by (auto simp: NET_FAMILIES_def)

lemma numbers_append: "numbers resolver (xs @ ys) = numbers resolver xs \<union> numbers resolver ys"
  by (auto simp: numbers_def)

section \<open>The verdict of the two shapes\<close>

lemma whitelist_verdict:
  assumes "scp_rules p = []"
  shows "filter_action (scp_default_action (dedupe (whitelist_rules resolver allow p)),
           scp_rules (dedupe (whitelist_rules resolver allow p))) nr args =
         (if nr \<in> numbers resolver (allow @ WHITELIST_BASELINE) then SCMP_ACT_ALLOW else DENY_ACTION)"
proof -
  let ?rs = "map (named_rule resolver SCMP_ACT_ALLOW NoteDeclaredAllow) (filter (resolves resolver) allow) @
     map (named_rule resolver SCMP_ACT_ALLOW NoteBaseline) (filter (resolves resolver) WHITELIST_BASELINE)"
  have rules: "scp_rules (whitelist_rules resolver allow p) = ?rs"
      "scp_default_action (whitelist_rules resolver allow p) = DENY_ACTION"
    using assms by (simp_all add: whitelist_rules_def)
  have "calls_match resolver ?rs" by (auto simp: calls_match_def)
  moreover have "(\<exists>r \<in> set ?rs. rule_matches nr args r) \<longleftrightarrow> nr \<in> numbers resolver (allow @ WHITELIST_BASELINE)"
    unfolding set_append bex_Un named_rules_match numbers_append by blast
  moreover have "\<forall>r \<in> set ?rs. scr_action r = SCMP_ACT_ALLOW" by auto
  ultimately have "filter_action (DENY_ACTION, keep_first [] ?rs) nr args =
      (if nr \<in> numbers resolver (allow @ WHITELIST_BASELINE) then SCMP_ACT_ALLOW else DENY_ACTION)"
    by (simp only: deduped_verdict)
  then show ?thesis by (simp only: dedupe_simps rules)
qed

lemma denylist_verdict:
  assumes "scp_rules p = []" and "scp_default_action p = SCMP_ACT_ALLOW"
  shows "filter_action (scp_default_action (dedupe (denylist_rules resolver profile block p)),
           scp_rules (dedupe (denylist_rules resolver profile block p))) nr args =
         (if nr \<in> numbers resolver (block @ KERNEL_BLOCK) \<or>
             profile = PROFILE_STRICT \<and>
               (nr \<in> numbers resolver STRICT_BLOCK \<or>
                nr \<in> numbers resolver [''socket''] \<and> args 0 \<in> {2, 10, 17, 16})
          then DENY_ACTION else SCMP_ACT_ALLOW)"
proof -
  let ?named = "\<lambda>note ns. map (named_rule resolver DENY_ACTION note) (filter (resolves resolver) ns)"
  let ?fam = "if resolves resolver ''socket'' then map (family_rule resolver) NET_FAMILIES else []"
  let ?rs = "?named NoteDeclaredBlock block @ ?named NoteKernel KERNEL_BLOCK @
     (if profile = PROFILE_STRICT then ?named NoteStrict STRICT_BLOCK @ ?fam else [])"
  have rules: "scp_rules (denylist_rules resolver profile block p) = ?rs"
    "scp_default_action (denylist_rules resolver profile block p) = SCMP_ACT_ALLOW"
    using assms by (simp_all add: denylist_rules_def Let_def)
  have "calls_match resolver ?rs" by (auto simp: calls_match_def split: if_splits)
  moreover have "(\<exists>r \<in> set ?fam. rule_matches nr args r) \<longleftrightarrow>
      nr \<in> numbers resolver [''socket''] \<and> args 0 \<in> {2, 10, 17, 16}"
    using family_rules_match [of resolver nr args] by (auto simp: numbers_def)
  then have "(\<exists>r \<in> set ?rs. rule_matches nr args r) \<longleftrightarrow>
      nr \<in> numbers resolver (block @ KERNEL_BLOCK) \<or>
      profile = PROFILE_STRICT \<and>
        (nr \<in> numbers resolver STRICT_BLOCK \<or> nr \<in> numbers resolver [''socket''] \<and> args 0 \<in> {2, 10, 17, 16})"
    unfolding set_append bex_Un named_rules_match numbers_append
    by (cases "profile = PROFILE_STRICT") (simp_all add: bex_Un named_rules_match del: set_map)
  moreover have "\<forall>r \<in> set ?rs. scr_action r = DENY_ACTION" by (auto split: if_splits)
  ultimately have "filter_action (SCMP_ACT_ALLOW, keep_first [] ?rs) nr args =
      (if nr \<in> numbers resolver (block @ KERNEL_BLOCK) \<or>
          profile = PROFILE_STRICT \<and>
            (nr \<in> numbers resolver STRICT_BLOCK \<or>
             nr \<in> numbers resolver [''socket''] \<and> args 0 \<in> {2, 10, 17, 16})
       then DENY_ACTION else SCMP_ACT_ALLOW)"
    by (simp only: deduped_verdict)
  then show ?thesis by (simp only: dedupe_simps rules)
qed

lemma all_rules_verdict:
  "filter_action (scp_default_action (dedupe (all_rules resolver profile (clean_names allow) (clean_names block)
       (initial_plan profile cap fc))),
     scp_rules (dedupe (all_rules resolver profile (clean_names allow) (clean_names block)
       (initial_plan profile cap fc)))) nr args =
   (if reference_denies resolver profile allow block nr args then DENY_ACTION else SCMP_ACT_ALLOW)"
  by (simp add: all_rules_def reference_denies_def whitelisting_def whitelist_verdict denylist_verdict
      initial_plan_def)

lemma add_all_rules: "add_all lib added rs = Inr rs' \<Longrightarrow> rs' = added @ rs"
  by (induction lib added rs rule: add_all.induct) (auto split: if_splits)

lemma apply_installs:
  "seccomp_apply olib p = Inr f \<Longrightarrow> scp_rules p \<noteq> [] \<and> f = (scp_default_action p, scp_rules p)"
  by (auto simp: seccomp_apply_def split: if_splits option.splits sum.splits dest: add_all_rules)

lemma build_plan_rules:
  assumes "scp_rules (build_plan resolver cap fc profile allow block) \<noteq> []"
  obtains resolved where "effective_profile profile = Some resolved" "resolved \<noteq> PROFILE_OFF"
    "scc_supported cap"
    "build_plan resolver cap fc profile allow block =
       (dedupe (all_rules resolver resolved (clean_names allow) (clean_names block) (initial_plan resolved cap fc)))
         \<lparr>scp_state := resolved\<rparr>"
proof (cases "effective_profile profile")
  case None
  then have "scp_rules (build_plan resolver cap fc profile allow block) = []"
    by (simp add: build_plan_def effective_profile_def initial_plan_def)
  then show ?thesis using assms by simp
next
  case (Some resolved)
  then have b: "build_plan resolver cap fc profile allow block =
     (let p = initial_plan resolved cap fc
      in if resolved = PROFILE_OFF then p\<lparr>scp_state := ''off''\<rparr>
         else if \<not> scc_supported cap then p\<lparr>scp_state := ''unsupported''\<rparr>
         else let q = dedupe (all_rules resolver resolved (clean_names allow) (clean_names block) p)
              in if scp_rules q = [] then
                   q\<lparr>scp_state := resolved @ '':failed'', scp_notes := scp_notes q @ [EmptyProfile]\<rparr>
                 else q\<lparr>scp_state := resolved\<rparr>)"
    by (simp add: build_plan_def effective_profile_def)
  have "resolved \<noteq> PROFILE_OFF" "scc_supported cap"
    using assms by (auto simp: b Let_def initial_plan_def split: if_splits)
  then show ?thesis
    using assms by (intro that [of resolved]) (auto simp: b Some Let_def split: if_splits)
qed

text \<open>
  C19: An installed filter denies exactly what its profile says: in the whitelist form every call
  outside the declared and the built in names, otherwise the declared and the built in dangerous
  calls and, in the strict profile, sockets of the four network families; names the library
  does not know are left out, and duplicates and the order of the rules make no difference.
\<close>
theorem seccomp_filter_correct:
  assumes "seccomp_apply olib (build_plan resolver cap fc profile allow block) = Inr f"
  shows "\<exists>resolved. effective_profile profile = Some resolved \<and> resolved \<noteq> PROFILE_OFF \<and>
    (\<forall>nr args. filter_action f nr args =
       (if reference_denies resolver resolved allow block nr args then DENY_ACTION else SCMP_ACT_ALLOW))"
proof -
  let ?p = "build_plan resolver cap fc profile allow block"
  have ne: "scp_rules ?p \<noteq> []" and f: "f = (scp_default_action ?p, scp_rules ?p)"
    using apply_installs [OF assms] by simp_all
  obtain resolved where r: "effective_profile profile = Some resolved" "resolved \<noteq> PROFILE_OFF"
    "?p = (dedupe (all_rules resolver resolved (clean_names allow) (clean_names block)
        (initial_plan resolved cap fc)))\<lparr>scp_state := resolved\<rparr>"
    using build_plan_rules [OF ne] by blast
  then show ?thesis using all_rules_verdict [of resolver resolved allow block cap fc] by (auto simp: f)
qed

text \<open>
  Declaring names to block has no effect at all once the whitelist form is chosen: with the
  strict profile and a nonempty list of allowed names the plan is the one built without them, so
  a call of the built in baseline stays allowed although it was declared as blocked.
\<close>
theorem whitelist_ignores_block:
  assumes "effective_profile profile = Some PROFILE_STRICT" and "clean_names allow \<noteq> []"
  shows "build_plan resolver cap fc profile allow block = build_plan resolver cap fc profile allow []"
proof -
  have "all_rules resolver PROFILE_STRICT (clean_names allow) (clean_names block) p =
      all_rules resolver PROFILE_STRICT (clean_names allow) (clean_names []) p" for p
    using assms(2) by (simp add: all_rules_def)
  then show ?thesis
    using assms(1) by (simp add: build_plan_def effective_profile_def Let_def cong: if_cong)
qed

text \<open>Tightening from the default to the strict profile keeps every denial, unless names are allowed.\<close>

lemma strict_covers_l1:
  assumes "clean_names allow = []" and "reference_denies resolver PROFILE_L1 allow block nr args"
  shows "reference_denies resolver PROFILE_STRICT allow block nr args"
  using assms by (auto simp: reference_denies_def whitelisting_def)

lemma allowed_names_pass:
  assumes "n \<in> set (clean_names allow)" and "resolves resolver n"
  shows "\<not> reference_denies resolver PROFILE_STRICT allow block (resolver n) args"
  using assms by (auto simp: reference_denies_def whitelisting_def numbers_def)

section \<open>Concrete profiles\<close>

definition demo_resolver :: "string \<Rightarrow> int" where
  "demo_resolver n = (case map_of [(''ptrace'', 101), (''socket'', 41), (''read'', 0), (''execve'', 59)] n of
     None \<Rightarrow> - 1 | Some k \<Rightarrow> k)"

definition demo_capability :: seccomp_capability where
  "demo_capability = \<lparr>scc_supported = True, scc_api_level = 6, scc_reason = []\<rparr>"

definition demo_lib :: scmp_lib where
  "demo_lib = \<lparr>lib_init = (\<lambda>a. True), lib_rule_add = (\<lambda>rs r. 0), lib_load = (\<lambda>rs. 0)\<rparr>"

lemma demo_add_all [simp]: "add_all demo_lib added rs = Inr (added @ rs)"
  by (induction rs arbitrary: added) (simp_all add: demo_lib_def)

lemma normalize_strict [simp]: "normalize_profile (PStr ''strict'') = Some PROFILE_STRICT"
proof -
  have "py_strip ''strict'' = ''strict''" by (simp add: strings_simps py_is_space_def)
  then show ?thesis
    by (simp add: normalize_profile_def py_str_def py_lower_def py_lower_char_def ALIASES_def profile_defs)
qed

theorem seccomp_filter_correct_witness:
  "\<exists>resolved. effective_profile PNone = Some resolved \<and> resolved \<noteq> PROFILE_OFF \<and>
    (\<forall>nr args. filter_action
         (scp_default_action (build_plan demo_resolver demo_capability True PNone [] []),
          scp_rules (build_plan demo_resolver demo_capability True PNone [] [])) nr args =
       (if reference_denies demo_resolver resolved [] [] nr args then DENY_ACTION else SCMP_ACT_ALLOW))"
proof (rule seccomp_filter_correct)
  let ?p = "build_plan demo_resolver demo_capability True PNone [] []"
  have "''ptrace'' \<in> set (filter (resolves demo_resolver) KERNEL_BLOCK)"
    by (simp add: KERNEL_BLOCK_def resolves_def demo_resolver_def NR_SCMP_ERROR_def NR_SCMP_UNDEF_def)
  then have "filter (resolves demo_resolver) KERNEL_BLOCK \<noteq> []" by (metis list.set(1) empty_iff)
  then have "scp_rules (denylist_rules demo_resolver PROFILE_L1 [] (initial_plan PROFILE_L1 demo_capability True)) \<noteq> []"
    by (simp add: denylist_rules_def profile_defs)
  then have "keep_first [] (scp_rules (denylist_rules demo_resolver PROFILE_L1 []
      (initial_plan PROFILE_L1 demo_capability True))) \<noteq> []"
    using keep_first_keys [of "scp_rules (denylist_rules demo_resolver PROFILE_L1 []
      (initial_plan PROFILE_L1 demo_capability True))" "[]"] by auto
  then have "scp_rules ?p \<noteq> []"
    by (simp add: build_plan_def all_rules_def clean_names_def dedupe_def DEFAULT_PROFILE_def demo_capability_def
        Let_def profile_defs)
  then show "seccomp_apply (Some demo_lib) ?p = Inr (scp_default_action ?p, scp_rules ?p)"
    by (simp add: seccomp_apply_def) (simp add: demo_lib_def)
qed

theorem whitelist_ignores_block_witness:
  "build_plan demo_resolver demo_capability True (PStr ''strict'') [''socket''] [''execve''] =
   build_plan demo_resolver demo_capability True (PStr ''strict'') [''socket''] []"
proof (rule whitelist_ignores_block)
  show "effective_profile (PStr ''strict'') = Some PROFILE_STRICT" by (simp add: effective_profile_def)
  have "py_strip ''socket'' = ''socket''" by (simp add: strings_simps py_is_space_def)
  then show "clean_names [''socket''] \<noteq> []" by (simp add: clean_names_def)
qed

end
