(* ===== verification/Sandbox_Spawn.thy ===== *)
theory Sandbox_Spawn
  imports Sandbox_Plan Seccomp_Filter
begin

text \<open>
  Applying a sandbox plan and starting processes (\<open>sandbox_exec.py\<close>).  The answers of the system
  calls are the fields of \<open>kernel\<close>; a started process is represented by its confinement, the
  installed Landlock rules and the installed filter, or \<^const>\<open>None\<close> for none at all.  What a rule
  set permits is the documented rule of Landlock: an access that is not handled is free, a
  handled one needs a rule on the path or on a directory above it.
\<close>

section \<open>Applying a plan\<close>

definition EBADFD :: int where "EBADFD = 77"

record kernel =
  kn_prctl :: bool
  kn_create :: "rights \<Rightarrow> bool"
  kn_open :: "string \<Rightarrow> bool"
  kn_add :: "string \<Rightarrow> rights \<Rightarrow> int"
  kn_restrict :: bool
  kn_lib :: "scmp_lib option"
  kn_start :: bool

datatype sandbox_error =
    SandboxEmpty | PrctlFailed | RulesetFailed | OpenFailed string | AddFailed string int | RestrictFailed
  | FilterFailed seccomp_error | PlanBlocked blocker

type_synonym landlock = "rights \<times> (string \<times> rights) list"

fun add_paths :: "kernel \<Rightarrow> (string \<times> rights) list \<Rightarrow> (string \<times> rights) list \<Rightarrow> sandbox_error + (string \<times> rights) list" where
  "add_paths k added [] = Inr added"
| "add_paths k added ((path, r) # rest) =
     (if \<not> kn_open k path then Inl (OpenFailed path)
      else if kn_add k path r = 0 then add_paths k (added @ [(path, r)]) rest
      else if kn_add k path r = EBADFD then add_paths k added rest
      else Inl (AddFailed path (kn_add k path r)))"

definition landlock_apply :: "kernel \<Rightarrow> sandbox_plan \<Rightarrow> sandbox_error + landlock" where
  "landlock_apply k p =
     (if sb_rules p = [] then Inl SandboxEmpty
      else if \<not> kn_prctl k then Inl PrctlFailed
      else if \<not> kn_create k (handled_mask (sb_abi p)) then Inl RulesetFailed
      else try_then (add_paths k [] (sb_rules p)) (\<lambda>rules.
             if \<not> kn_restrict k then Inl RestrictFailed else Inr (handled_mask (sb_abi p), rules)))"

type_synonym confinement = "landlock \<times> scmp_filter option"

definition apply_plan :: "kernel \<Rightarrow> sandbox_plan \<Rightarrow> sandbox_error + confinement" where
  "apply_plan k p =
     try_then (landlock_apply k p) (\<lambda>ll.
       if seccomp_enforcing p then
         (case seccomp_apply (kn_lib k) (the (sb_seccomp p)) of
            Inl e \<Rightarrow> Inl (FilterFailed e)
          | Inr f \<Rightarrow> Inr (ll, Some f))
       else Inr (ll, None))"

section \<open>Starting a process\<close>

datatype spawn_outcome = Started | Refused sandbox_error | NotStarted

definition mark :: "string \<Rightarrow> sandbox_plan \<Rightarrow> sandbox_plan" where
  "mark ending p =
     p\<lparr>sb_state := sb_mode p @ ending,
       sb_seccomp := (case sb_seccomp p of
                        None \<Rightarrow> None
                      | Some s \<Rightarrow>
                          if scp_enforcing s then Some (s\<lparr>scp_state := scp_profile s @ ending\<rparr>) else Some s)\<rparr>"

definition start :: "kernel \<Rightarrow> confinement option \<Rightarrow> spawn_outcome \<times> confinement option list" where
  "start k c = (if kn_start k then (Started, [c]) else (NotStarted, []))"

definition spawn :: "kernel \<Rightarrow> sandbox_plan \<Rightarrow> spawn_outcome \<times> sandbox_plan \<times> confinement option list" where
  "spawn k p =
     (let unconfined = (\<lambda>q. case start k None of (out, ps) \<Rightarrow> (out, q, ps))
      in if sb_mode p = MODE_OFF then unconfined (p\<lparr>sb_state := ''off''\<rparr>)
         else if \<not> sb_supported p then unconfined (p\<lparr>sb_state := ''unsupported''\<rparr>)
         else if sb_blockers p \<noteq> [] then
           (if sb_fail_closed p then (Refused (PlanBlocked (hd (sb_blockers p))), mark '':failed'' p, [])
            else unconfined (mark '':degraded'' p))
         else
           (case apply_plan k p of
              Inr c \<Rightarrow>
                (case start k (Some c) of
                   (Started, ps) \<Rightarrow> (Started, mark [] p, ps)
                 | (out, ps) \<Rightarrow> (out, p, ps))
            | Inl e \<Rightarrow>
                if sb_fail_closed p then (Refused e, mark '':failed'' p, [])
                else unconfined (mark '':degraded'' p)))"

section \<open>What a confinement permits\<close>

definition beneath :: "sandbox_world \<Rightarrow> string \<Rightarrow> string list \<Rightarrow> bool" where
  "beneath w base path \<longleftrightarrow> prefix (path_parts (sw_resolve w base)) path"

definition permits :: "sandbox_world \<Rightarrow> landlock \<Rightarrow> string list \<Rightarrow> rights \<Rightarrow> bool" where
  "permits w ll path r \<longleftrightarrow>
     r AND fst ll = 0 \<or> (\<exists>(base, rs) \<in> set (snd ll). beneath w base path \<and> r AND rs = r)"

section \<open>The rights of the rules\<close>

definition rights_in :: "rights \<Rightarrow> rights \<Rightarrow> bool" where
  "rights_in a b \<longleftrightarrow> a AND (NOT b) = 0"

lemma rights_in_bits: "rights_in a b \<longleftrightarrow> (\<forall>n < 64. bit a n \<longrightarrow> bit b n)"
proof
  assume "rights_in a b"
  then have "\<not> bit (a AND (NOT b)) n" for n by (simp add: rights_in_def)
  then show "\<forall>n < 64. bit a n \<longrightarrow> bit b n" by (simp add: bit_simps)
next
  assume "\<forall>n < 64. bit a n \<longrightarrow> bit b n"
  then show "rights_in a b" unfolding rights_in_def by (intro bit_word_eqI) (auto simp: bit_simps)
qed

lemma rights_in_or [simp]: "rights_in (a OR b) c \<longleftrightarrow> rights_in a c \<and> rights_in b c"
  by (auto simp: rights_in_bits bit_simps)

lemma rights_in_refl [simp]: "rights_in a a"
  by (simp add: rights_in_bits)

lemma rights_in_zero [simp]: "rights_in 0 a"
  by (simp add: rights_in_bits)

lemma rights_in_orI: "rights_in a b \<or> rights_in a c \<Longrightarrow> rights_in a (b OR c)"
  by (auto simp: rights_in_bits bit_simps)

lemma rights_in_since [simp]: "rights_in (since abi n r) (since abi n r)"
  by simp

lemma base_rights_handled:
  "rights_in r ABI1_FS \<Longrightarrow> rights_in r (handled_mask abi)"
  by (auto simp: handled_mask_def intro!: rights_in_orI)

lemma since_handled [simp]:
  "rights_in (since abi 2 A_REFER) (handled_mask abi)"
  "rights_in (since abi 3 A_TRUNCATE) (handled_mask abi)"
  "rights_in (since abi 5 A_IOCTL_DEV) (handled_mask abi)"
  by (auto simp: handled_mask_def intro!: rights_in_orI)

lemma abi1_rights [simp]:
  "rights_in A_EXECUTE ABI1_FS" "rights_in A_WRITE_FILE ABI1_FS" "rights_in A_READ_FILE ABI1_FS"
  "rights_in A_READ_DIR ABI1_FS" "rights_in A_REMOVE_DIR ABI1_FS" "rights_in A_REMOVE_FILE ABI1_FS"
  "rights_in A_MAKE_CHAR ABI1_FS" "rights_in A_MAKE_DIR ABI1_FS" "rights_in A_MAKE_REG ABI1_FS"
  "rights_in A_MAKE_SOCK ABI1_FS" "rights_in A_MAKE_FIFO ABI1_FS" "rights_in A_MAKE_BLOCK ABI1_FS"
  "rights_in A_MAKE_SYM ABI1_FS"
  by (simp_all add: ABI1_FS_def rights_in_orI)

lemma rights_handled:
  "rights_in (read_rights abi) (handled_mask abi)" "rights_in (file_read_rights abi) (handled_mask abi)"
  "rights_in (write_rights abi) (handled_mask abi)" "rights_in (file_write_rights abi) (handled_mask abi)"
  by (simp_all add: read_rights_def file_read_rights_def write_rights_def file_write_rights_def
      base_rights_handled)

text \<open>The rights the kernel accepts for a path that is not a directory.\<close>

definition FILE_RIGHTS :: rights where
  "FILE_RIGHTS = A_EXECUTE OR A_WRITE_FILE OR A_READ_FILE OR A_TRUNCATE OR A_IOCTL_DEV"

lemma rights_in_since_right: "rights_in r c \<Longrightarrow> rights_in (since abi n r) c"
  by (simp add: since_def)

lemma file_rights_within:
  "rights_in (file_read_rights abi) FILE_RIGHTS" "rights_in (file_write_rights abi) FILE_RIGHTS"
  by (simp_all add: file_read_rights_def file_write_rights_def FILE_RIGHTS_def rights_in_orI rights_in_since_right)

lemma read_rights_no_write:
  "A_WRITE_FILE AND read_rights abi \<noteq> A_WRITE_FILE" "A_WRITE_FILE AND file_read_rights abi \<noteq> A_WRITE_FILE"
  by (simp_all add: read_rights_def file_read_rights_def right_defs)

lemma write_rights_write [simp]:
  "A_WRITE_FILE AND write_rights abi = A_WRITE_FILE" "A_WRITE_FILE AND file_write_rights abi = A_WRITE_FILE"
  by (auto intro!: bit_word_eqI
      simp: write_rights_def file_write_rights_def bit_simps A_WRITE_FILE_def)

lemma write_handled [simp]: "A_WRITE_FILE AND handled_mask abi \<noteq> 0"
proof -
  have "bit (A_WRITE_FILE AND handled_mask abi) 1"
    by (simp add: handled_mask_def ABI1_FS_def bit_simps A_WRITE_FILE_def)
  then show ?thesis by (metis bit_0_eq bot_apply bot_bool_def)
qed

end
