(* ===== verification/Sandbox_Facts.thy ===== *)
theory Sandbox_Facts
  imports Sandbox_Spawn
begin

text \<open>
  The properties of the kernel sandbox: where the roots of a plan come from, that its rules are
  acceptable to the kernel, what a started process may write, and what the recorded states say.
\<close>

section \<open>Collecting roots\<close>

lemma collect_keeps: "set out \<subseteq> set (fst (collect w kind cs out rep))"
  by (induction w kind cs out rep rule: collect.induct) (auto simp: Let_def)

lemma collect_from:
  "p \<in> set (fst (collect w kind cs out rep)) \<Longrightarrow>
   p \<in> set out \<or> (\<exists>(raw, src) \<in> set cs. raw \<noteq> [] \<and> p = sw_expand w raw \<and> landlockable w p)"
  by (induction w kind cs out rep rule: collect.induct) (auto simp: Let_def split: if_splits)

lemma collect_takes:
  "(raw, src) \<in> set cs \<Longrightarrow> raw \<noteq> [] \<Longrightarrow> landlockable w (sw_expand w raw) \<Longrightarrow>
   sw_expand w raw \<in> set (fst (collect w kind cs out rep))"
proof (induction w kind cs out rep rule: collect.induct)
  case (2 w kind raw' src' cs out report)
  have new: "sw_expand w raw' \<in> set (fst (collect w kind cs (out @ [sw_expand w raw']) report))"
    using collect_keeps [of "out @ [sw_expand w raw']" w kind cs report] by auto
  show ?case
  proof (cases "(raw, src) = (raw', src')")
    case True
    then have stat: "sw_stat w (sw_expand w raw') \<noteq> None" "landlockable w (sw_expand w raw')"
      using "2.prems"(3) by (auto simp: landlockable_def)
    show ?thesis using True "2.prems"(2) stat new collect_keeps [of out w kind cs report]
      by (auto simp: Let_def)
  next
    case False
    then have "(raw, src) \<in> set cs" using "2.prems"(1) by auto
    then show ?thesis using 2 by (auto simp: Let_def)
  qed
qed simp

section \<open>The rules\<close>

definition root_rights :: "sandbox_world \<Rightarrow> int \<Rightarrow> string list \<Rightarrow> string \<Rightarrow> rights" where
  "root_rights w abi write_roots p =
     (if p \<in> set write_roots then (if is_dir w p then write_rights abi else file_write_rights abi)
      else (if is_dir w p then read_rights abi else file_read_rights abi))"

lemma build_rules_set:
  "set (build_rules w abi read_roots write_roots) =
   {(p, root_rights w abi write_roots p) | p. p \<in> set read_roots \<union> set write_roots}"
proof -
  let ?r = "\<lambda>p. if is_dir w p then read_rights abi else file_read_rights abi"
  let ?w = "\<lambda>p. if is_dir w p then write_rights abi else file_write_rights abi"
  let ?d = "fold (\<lambda>p. AList.update p (?w p)) write_roots (fold (\<lambda>p. AList.update p (?r p)) read_roots [])"
  have "distinct (map fst ?d)" by (intro distinct_fold_update) simp
  then have "(p, r) \<in> set ?d \<longleftrightarrow> map_of ?d p = Some r" for p r by simp
  also have "map_of ?d p = Some r \<longleftrightarrow>
      p \<in> set read_roots \<union> set write_roots \<and> r = root_rights w abi write_roots p" for p r
    by (auto simp: map_of_fold_update root_rights_def)
  finally have "set ?d = {(p, root_rights w abi write_roots p) | p. p \<in> set read_roots \<union> set write_roots}"
    by auto
  then show ?thesis by (simp add: build_rules_def Let_def)
qed

lemma root_rights_ok:
  "rights_in (root_rights w abi ws p) (handled_mask abi)"
  "\<not> is_dir w p \<Longrightarrow> rights_in (root_rights w abi ws p) FILE_RIGHTS"
  by (simp_all add: root_rights_def rights_handled file_rights_within)

lemma root_rights_write:
  "A_WRITE_FILE AND root_rights w abi ws p = A_WRITE_FILE \<longleftrightarrow> p \<in> set ws"
  by (simp add: root_rights_def read_rights_no_write)

section \<open>The shape of a plan\<close>

definition sandbox_mode :: "sandbox_world \<Rightarrow> plan_args \<Rightarrow> string" where
  "sandbox_mode w a =
     fst (resolve_mode (pa_mode a) (env_value w ''TRIMUM_SANDBOX'') (declared_of a) (sw_config w))"

definition write_roots_of :: "sandbox_world \<Rightarrow> plan_args \<Rightarrow> path_inputs \<Rightarrow> string list" where
  "write_roots_of w a i =
     fst (collect w WriteFace
       (write_candidates w (sandbox_mode w a = MODE_READONLY) (find_workspace w a) i
          (granted_writes w a (pi_declared_write i))) [] [])"

definition read_seen_of :: "sandbox_world \<Rightarrow> plan_args \<Rightarrow> path_inputs \<Rightarrow> string list" where
  "read_seen_of w a i =
     fst (collect w ReadFace (read_candidates w (sandbox_mode w a = MODE_STRICT) (find_workspace w a) i) [] [])"

lemma collect_report: "fst (collect w kind cs out rep) = fst (collect w kind cs out rep')"
proof (induction cs arbitrary: out rep rep')
  case (Cons c cs)
  obtain raw src where c: "c = (raw, src)" by force
  show ?case by (auto simp: c Let_def intro: Cons.IH)
qed simp

lemma plan_roots_simps:
  assumes "sb_mode p = sandbox_mode w a"
  shows "sb_write_roots (plan_roots w a i p) = write_roots_of w a i"
    "sb_read_roots (plan_roots w a i p) = filter (\<lambda>r. r \<notin> set (write_roots_of w a i)) (read_seen_of w a i)"
    "sb_rules (plan_roots w a i p) =
       build_rules w (sb_abi p) (filter (\<lambda>r. r \<notin> set (write_roots_of w a i)) (read_seen_of w a i))
         (write_roots_of w a i)"
    "sb_mode (plan_roots w a i p) = sb_mode p" "sb_abi (plan_roots w a i p) = sb_abi p"
    "sb_supported (plan_roots w a i p) = sb_supported p" "sb_fail_closed (plan_roots w a i p) = sb_fail_closed p"
proof -
  let ?reads = "read_candidates w (sandbox_mode w a = MODE_STRICT) (find_workspace w a) i"
  let ?writes = "write_candidates w (sandbox_mode w a = MODE_READONLY) (find_workspace w a) i
      (granted_writes w a (pi_declared_write i))"
  obtain rs rep where r: "collect w ReadFace ?reads [] [] = (rs, rep)" by force
  obtain ws rep' where ws: "collect w WriteFace ?writes [] rep = (ws, rep')" by force
  have roots: "read_seen_of w a i = rs" "write_roots_of w a i = ws"
    using collect_report [of w WriteFace ?writes "[]" rep "[]"]
    by (simp_all add: read_seen_of_def write_roots_of_def r ws)
  show "sb_write_roots (plan_roots w a i p) = write_roots_of w a i"
    "sb_read_roots (plan_roots w a i p) = filter (\<lambda>r. r \<notin> set (write_roots_of w a i)) (read_seen_of w a i)"
    "sb_rules (plan_roots w a i p) =
       build_rules w (sb_abi p) (filter (\<lambda>r. r \<notin> set (write_roots_of w a i)) (read_seen_of w a i))
         (write_roots_of w a i)"
    "sb_mode (plan_roots w a i p) = sb_mode p" "sb_abi (plan_roots w a i p) = sb_abi p"
    "sb_supported (plan_roots w a i p) = sb_supported p" "sb_fail_closed (plan_roots w a i p) = sb_fail_closed p"
    by (simp_all add: plan_roots_def Let_def assms r ws roots)
qed

lemma plan_for_cases:
  assumes "plan_for w a = Inr p"
  obtains (bad) "sandbox_mode w a \<notin> set MODES" "sb_rules p = []" "sb_blockers p \<noteq> []"
      "sb_mode p = sandbox_mode w a" "sb_write_roots p = []" "sb_read_roots p = []"
  | (off) "sandbox_mode w a = MODE_OFF" "sb_rules p = []" "sb_mode p = MODE_OFF" "sb_blockers p = []"
      "sb_write_roots p = []" "sb_read_roots p = []"
  | (unsupported) "sandbox_mode w a \<in> set MODES" "sandbox_mode w a \<noteq> MODE_OFF"
      "\<not> llc_supported (sw_landlock w)" "\<not> sb_supported p" "sb_rules p = []"
      "sb_mode p = sandbox_mode w a" "sb_state p = ''unsupported''" "sb_blockers p = []"
      "sb_write_roots p = []" "sb_read_roots p = []"
  | (supported) i where "sandbox_mode w a \<in> set MODES" "sandbox_mode w a \<noteq> MODE_OFF" "path_inputs_of w a = Inr i"
      "sb_write_roots p = write_roots_of w a i" "sb_supported p"
      "sb_read_roots p = filter (\<lambda>r. r \<notin> set (write_roots_of w a i)) (read_seen_of w a i)"
      "sb_rules p = build_rules w (sb_abi p) (filter (\<lambda>r. r \<notin> set (write_roots_of w a i)) (read_seen_of w a i))
         (write_roots_of w a i)"
      "sb_mode p = sandbox_mode w a" "sb_abi p = llc_abi (sw_landlock w)"
      "sb_state p = (if sb_blockers p \<noteq> [] then sb_mode p @ '':failed'' else sb_mode p)"
proof -
  obtain mode src where r:
    "resolve_mode (pa_mode a) (env_value w ''TRIMUM_SANDBOX'') (declared_of a) (sw_config w) = (mode, src)"
    by force
  then have m: "sandbox_mode w a = mode" by (simp add: sandbox_mode_def)
  let ?p = "empty_sandbox w mode src"
  note pf = assms [unfolded plan_for_def r Let_def prod.case]
  show ?thesis
  proof (cases "mode \<in> set MODES")
    case False
    then show ?thesis using pf m by (intro bad) (auto simp: empty_sandbox_def)
  next
    case inm: True
    show ?thesis
    proof (cases "mode = MODE_OFF")
      case True
      then show ?thesis using pf inm m
        by (cases "build_seccomp w a (sb_fail_closed ?p) [] []") (auto intro!: off simp: plan_off_def empty_sandbox_def)
    next
      case noff: False
      show ?thesis
      proof (cases "sb_supported ?p")
        case False
        then show ?thesis using pf inm noff m
          by (cases "build_seccomp w a (sb_fail_closed ?p) (pa_allow a) (pa_block a)")
            (auto intro!: unsupported simp: plan_unsupported_def empty_sandbox_def)
      next
        case True
        have e: "sb_mode ?p = sandbox_mode w a" "sb_abi ?p = llc_abi (sw_landlock w)"
          using m by (simp_all add: empty_sandbox_def)
        show ?thesis
        proof (cases "path_inputs_of w a")
          case (Inl err)
          then show ?thesis using pf inm noff True by (simp add: plan_supported_def)
        next
          case (Inr i)
          then obtain s nts where
            b: "build_seccomp w a (sb_fail_closed ?p) (pa_allow a) (pa_block a) = Inr (s, nts)"
            using pf inm noff True
            by (cases "build_seccomp w a (sb_fail_closed ?p) (pa_allow a) (pa_block a)")
              (auto simp: plan_supported_def)
          note P = pf [unfolded plan_supported_def Inr b, simplified inm noff True, simplified Let_def, simplified]
          show ?thesis
            using P plan_roots_simps [OF e(1), of i] m inm noff True Inr e(2)
            by (intro supported [of i]) (auto simp: e)
        qed
      qed
    qed
  qed
qed

section \<open>Roots and rules of a plan\<close>

text \<open>
  Every rule of a plan is one the kernel accepts: its rights are among those the ruleset
  declares as handled for the Landlock version of the machine, and a path that is not a
  directory gets file rights only.
\<close>
theorem rules_acceptable:
  assumes "plan_for w a = Inr p" and "(path, r) \<in> set (sb_rules p)"
  shows "rights_in r (handled_mask (sb_abi p)) \<and> (is_dir w path \<or> rights_in r FILE_RIGHTS)"
  using assms(1)
proof (cases rule: plan_for_cases)
  case (supported i)
  then have "\<exists>ws. r = root_rights w (sb_abi p) ws path" using assms(2) by (auto simp: build_rules_set)
  then show ?thesis using root_rights_ok by blast
qed (use assms(2) in auto)

lemma write_candidates_from:
  assumes "(raw, src) \<in> set (write_candidates w readonly workspace i granted)"
  shows "raw \<in> set (builtin_writes w @ [sw_home w, sw_data w]) \<or>
    \<not> readonly \<and> (raw = workspace \<or> raw \<in> set (TMP_ROOTS @ pi_cfg_write i @ pi_extra_write i @ granted))"
  using assms by (auto simp: write_candidates_def tag_def split: if_splits)

lemma write_roots_from:
  assumes "r \<in> set (write_roots_of w a i)"
  shows "\<exists>raw. r = sw_expand w raw \<and>
    (raw \<in> set (builtin_writes w @ [sw_home w, sw_data w]) \<or>
     sandbox_mode w a \<noteq> MODE_READONLY \<and>
       (raw = find_workspace w a \<or>
        raw \<in> set (TMP_ROOTS @ pi_cfg_write i @ pi_extra_write i @ granted_writes w a (pi_declared_write i))))"
proof -
  obtain raw src where "(raw, src) \<in> set (write_candidates w (sandbox_mode w a = MODE_READONLY)
      (find_workspace w a) i (granted_writes w a (pi_declared_write i)))" "r = sw_expand w raw"
    using collect_from [OF assms [unfolded write_roots_of_def]] by auto
  then show ?thesis using write_candidates_from by blast
qed

text \<open>
  C9: A path that a package declares as writable becomes a write root only when the operator
  grants that path to the agent: every write root is a built in path, the workspace, a
  temporary directory, a path of the configuration or of the request, or a granted one.
\<close>
theorem declared_write_needs_grant:
  assumes "plan_for w a = Inr p" and "r \<in> set (sb_write_roots p)"
  shows "\<exists>i raw. path_inputs_of w a = Inr i \<and> r = sw_expand w raw \<and>
    (raw \<in> set (builtin_writes w @ [find_workspace w a, sw_home w, sw_data w] @ TMP_ROOTS @
              pi_cfg_write i @ pi_extra_write i) \<or>
     raw \<in> set (pi_declared_write i) \<and> is_granted w a raw)"
  using assms(1)
proof (cases rule: plan_for_cases)
  case (supported i)
  then show ?thesis using write_roots_from [of r w a i] assms(2) by (auto simp: granted_writes_def)
qed (use assms(2) in auto)

lemma supported_plan:
  assumes "plan_for w a = Inr p" and "sb_supported p" and "sb_mode p \<in> set MODES" and "sb_mode p \<noteq> MODE_OFF"
  obtains i where "path_inputs_of w a = Inr i" "sandbox_mode w a = sb_mode p"
    "sb_write_roots p = write_roots_of w a i"
    "sb_read_roots p = filter (\<lambda>r. r \<notin> set (write_roots_of w a i)) (read_seen_of w a i)"
    "sb_rules p = build_rules w (sb_abi p) (sb_read_roots p) (sb_write_roots p)"
  using assms(1)
proof (cases rule: plan_for_cases)
  case bad
  then show ?thesis using assms(3) by simp
next
  case (supported i)
  then show ?thesis by (intro that [of i]) simp_all
qed (use assms in auto)

lemma write_root_takes:
  assumes "(raw, src) \<in> set (write_candidates w (sandbox_mode w a = MODE_READONLY) (find_workspace w a) i
      (granted_writes w a (pi_declared_write i)))"
    and "raw \<noteq> []" and "landlockable w (sw_expand w raw)"
  shows "sw_expand w raw \<in> set (write_roots_of w a i)"
  using collect_takes [OF assms] by (simp add: write_roots_of_def)

text \<open>
  The working directory of a package's manifest is not subject to the grant: when neither the
  request nor the caller names a directory, it becomes the workspace and with it a write root,
  whatever the operator granted.
\<close>
theorem manifest_work_dir_writable:
  assumes "plan_for w a = Inr p" and "sb_supported p" and "sb_mode p \<in> {MODE_WORKSPACE, MODE_STRICT}"
    and "pa_cwd a = None" and "pa_cwd_arg a = None" and "pa_base a = None"
    and "pa_manifest a = Some m" and "sm_work_dir m \<noteq> []"
    and "is_dir w (sw_expand w (sm_work_dir m))" and "is_workspace w (sw_expand w (sm_work_dir m))"
    and "sw_resolve w (sw_expand w (sm_work_dir m)) = dir" and "dir \<noteq> []" and "landlockable w (sw_expand w dir)"
  shows "sw_expand w dir \<in> set (sb_write_roots p)"
proof -
  obtain i where i: "sandbox_mode w a = sb_mode p" "sb_write_roots p = write_roots_of w a i"
    using assms(3) by (auto simp: MODES_def mode_defs intro: supported_plan [OF assms(1,2)])
  have "find_workspace w a = dir"
    using assms(4-11) by (simp add: find_workspace_def workspace_candidates_def List.map_filter_simps)
  moreover have "sb_mode p \<noteq> MODE_READONLY" using assms(3) by (auto simp: mode_defs)
  ultimately have "(dir, SOURCE_BUILTIN) \<in> set (write_candidates w (sandbox_mode w a = MODE_READONLY)
      (find_workspace w a) i (granted_writes w a (pi_declared_write i)))"
    by (simp add: write_candidates_def tag_def i)
  then show ?thesis using write_root_takes assms(12,13) i(2) by simp
qed

section \<open>What a manifest may change\<close>

lemma mode_source_tightened:
  assumes "resolve_mode e v declared cfg = (m, s)" and "resolve_mode e v [] cfg = (m0, s0)"
  shows "m = m0 \<or> (\<exists>i j. map_of MODE_RANK m = Some i \<and> map_of MODE_RANK m0 = Some j \<and> i < j)"
  using assms
  by (auto simp: resolve_mode_def Let_def pget_def py_or_def split: pyval.splits option.splits if_splits)

text \<open>
  A manifest can only tighten the mode: the resolved mode is the one without the manifest, or
  one of a strictly lower rank.
\<close>
theorem manifest_mode_tightens:
  "fst (resolve_mode e v declared cfg) = fst (resolve_mode e v [] cfg) \<or>
   (\<exists>i j. map_of MODE_RANK (fst (resolve_mode e v declared cfg)) = Some i \<and>
      map_of MODE_RANK (fst (resolve_mode e v [] cfg)) = Some j \<and> i < j)"
  using mode_source_tightened by (metis prod.collapse)

lemma read_root_takes:
  assumes "(raw, src) \<in> set (read_candidates w (sandbox_mode w a = MODE_STRICT) (find_workspace w a) i)"
    and "raw \<noteq> []" and "landlockable w (sw_expand w raw)"
  shows "sw_expand w raw \<in> set (read_seen_of w a i)"
  using collect_takes [OF assms] by (simp add: read_seen_of_def)

text \<open>
  The ranks order the modes by their write side only: under an operator's strict mode, which
  reads system directories only, a manifest that asks for the readonly mode gets it and with it
  the whole file system as read root.
\<close>
theorem readonly_manifest_opens_strict:
  assumes "plan_for w a = Inr p" and "sb_supported p"
    and "fst (resolve_mode (pa_mode a) (env_value w ''TRIMUM_SANDBOX'') [] (sw_config w)) = MODE_STRICT"
    and "pget (declared_of a) ''mode'' = PStr MODE_READONLY" and "is_dir w (sw_expand w ''/'')"
  shows "sb_mode p = MODE_READONLY \<and> sw_expand w ''/'' \<in> set (sb_read_roots p) \<union> set (sb_write_roots p)"
proof -
  have strip: "py_strip ''readonly'' = ''readonly''" by (simp add: strings_simps py_is_space_def)
  have "sandbox_mode w a = MODE_READONLY"
    using assms(3,4) strip
    by (simp add: sandbox_mode_def resolve_mode_def Let_def pget_def [of "[]"] py_or_def mode_defs MODE_RANK_def)
  then have m: "sandbox_mode w a = MODE_READONLY" .
  from assms(1) show ?thesis
  proof (cases rule: plan_for_cases)
    case bad
    then show ?thesis using m by (simp add: MODES_def)
  next
    case off
    then show ?thesis using m by (simp add: mode_defs)
  next
    case unsupported
    then show ?thesis using assms(2) by simp
  next
    case (supported i)
    have "(''/'', SOURCE_BUILTIN) \<in> set (read_candidates w (sandbox_mode w a = MODE_STRICT) (find_workspace w a) i)"
      by (simp add: m mode_defs read_candidates_def tag_def)
    then have "sw_expand w ''/'' \<in> set (read_seen_of w a i)"
      using read_root_takes assms(5) by (simp add: landlockable_def is_dir_def)
    then show ?thesis using supported m by auto
  qed
qed

end
