(* ===== verification/Sandbox_Confinement.thy ===== *)
theory Sandbox_Confinement
  imports Sandbox_Facts
begin

text \<open>
  Started processes: when they are confined, what the recorded states say about it, and what the
  readonly mode lets them write.
\<close>

section \<open>Confined or not started\<close>

lemma add_paths_rules:
  "add_paths k added rules = Inr rules' \<Longrightarrow>
   set rules' \<subseteq> set added \<union> set rules \<and>
   (\<forall>(path, r) \<in> set rules. kn_add k path r \<noteq> EBADFD \<longrightarrow> (path, r) \<in> set rules') \<and> set added \<subseteq> set rules'"
  by (induction k added rules rule: add_paths.induct) (auto split: if_splits)

definition confines :: "kernel \<Rightarrow> sandbox_plan \<Rightarrow> confinement \<Rightarrow> bool" where
  "confines k p c \<longleftrightarrow>
     fst (fst c) = handled_mask (sb_abi p) \<and> set (snd (fst c)) \<subseteq> set (sb_rules p) \<and>
     (\<forall>(path, r) \<in> set (sb_rules p). kn_add k path r \<noteq> EBADFD \<longrightarrow> (path, r) \<in> set (snd (fst c))) \<and>
     snd c = (if seccomp_enforcing p
              then Some (scp_default_action (the (sb_seccomp p)), scp_rules (the (sb_seccomp p))) else None)"

lemma apply_plan_confines:
  assumes "apply_plan k p = Inr c"
  shows "confines k p c"
proof -
  obtain ll where ll: "landlock_apply k p = Inr ll"
    and c: "(if seccomp_enforcing p then
         (case seccomp_apply (kn_lib k) (the (sb_seccomp p)) of Inl e \<Rightarrow> Inl (FilterFailed e) | Inr f \<Rightarrow> Inr (ll, Some f))
       else Inr (ll, None)) = Inr c"
    using assms by (auto simp: apply_plan_def try_then_Inr)
  have "\<exists>rules. ll = (handled_mask (sb_abi p), rules) \<and> add_paths k [] (sb_rules p) = Inr rules"
    using ll by (auto simp: landlock_apply_def try_then_Inr split: if_splits)
  then obtain rules where r: "ll = (handled_mask (sb_abi p), rules)" "add_paths k [] (sb_rules p) = Inr rules" by blast
  have "snd c = (if seccomp_enforcing p
      then Some (scp_default_action (the (sb_seccomp p)), scp_rules (the (sb_seccomp p))) else None)" "fst c = ll"
    using c by (auto split: if_splits sum.splits dest: apply_installs)
  then show ?thesis using add_paths_rules [OF r(2)] by (simp add: confines_def r(1))
qed

lemma start_cases: "start k c = (out, ps) \<Longrightarrow> out = Started \<and> ps = [c] \<or> out = NotStarted \<and> ps = []"
  by (auto simp: start_def split: if_splits)

text \<open>
  C7: With fail closed on, in a mode that is not off and on a machine with Landlock, a process
  starts only if the plan could be applied: it is confined by the rules of the plan, those the
  kernel called not a file excepted, and by the system call filter if that is to be enforced.
  A plan with a blocker starts nothing.
\<close>
theorem spawn_fail_closed:
  assumes "spawn k p = (out, p', ps)" and "sb_fail_closed p" and "sb_supported p" and "sb_mode p \<noteq> MODE_OFF"
  shows "ps = [] \<and> out \<noteq> Started \<or>
    out = Started \<and> sb_blockers p = [] \<and> (\<exists>c. ps = [Some c] \<and> confines k p c)"
  using assms
  by (auto simp: spawn_def Let_def apply_plan_confines split: if_splits sum.splits prod.splits spawn_outcome.splits
      dest!: start_cases)

definition enforced :: "kernel \<Rightarrow> sandbox_plan \<Rightarrow> confinement option \<Rightarrow> bool" where
  "enforced k p oc \<longleftrightarrow> (\<exists>c. oc = Some c \<and> confines k p c)"

lemma spawn_Started:
  assumes "spawn k p = (Started, p', ps)"
  shows "sb_mode p = MODE_OFF \<and> sb_state p' = ''off'' \<and> ps = [None] \<or>
    sb_mode p \<noteq> MODE_OFF \<and> \<not> sb_supported p \<and> sb_state p' = ''unsupported'' \<and> ps = [None] \<or>
    \<not> sb_fail_closed p \<and> sb_state p' = sb_mode p @ '':degraded'' \<and> ps = [None] \<or>
    sb_mode p \<noteq> MODE_OFF \<and> sb_supported p \<and> sb_state p' = sb_mode p \<and> (\<exists>c. ps = [Some c] \<and> confines k p c)"
  using assms
  by (auto simp: spawn_def Let_def apply_plan_confines mark_def start_def
      split: if_splits sum.splits prod.splits spawn_outcome.splits)

text \<open>
  The recorded Landlock state tells how the process runs: it names the mode of the plan
  exactly when the process is confined by the plan; \<open>off\<close>, \<open>unsupported\<close> and the degraded state
  are recorded for processes without any confinement.
\<close>
theorem landlock_state_true:
  assumes "spawn k p = (Started, p', ps)" and "sb_mode p \<in> set MODES"
  shows "(sb_state p' = sb_mode p \<and> sb_mode p \<noteq> MODE_OFF \<longleftrightarrow> (\<exists>c. ps = [Some c] \<and> confines k p c)) \<and>
    ((\<exists>c. ps = [Some c] \<and> confines k p c) \<or>
     ps = [None] \<and> sb_state p' \<in> {''off'', ''unsupported'', sb_mode p @ '':degraded''})"
proof -
  have "sb_mode p \<noteq> ''unsupported''" using assms(2) by (auto simp: MODES_def mode_defs)
  then show ?thesis using spawn_Started [OF assms(1)] by auto
qed

section \<open>The recorded system call state\<close>

lemma add_rule_profile [simp]:
  "scp_profile (add_rule resolver n act i v note q) = scp_profile q"
  "scp_supported (add_rule resolver n act i v note q) = scp_supported q"
  by (simp_all add: add_rule_def Let_def)

lemma add_names_profile [simp]:
  "scp_profile (add_names resolver act note ns q) = scp_profile q"
  "scp_supported (add_names resolver act note ns q) = scp_supported q"
  by (induction ns arbitrary: q) (simp_all add: add_names_Cons)

lemma all_rules_profile [simp]:
  "scp_profile (dedupe (all_rules resolver profile allow block q)) = scp_profile q"
  "scp_supported (dedupe (all_rules resolver profile allow block q)) = scp_supported q"
  by (simp_all add: dedupe_def all_rules_def whitelist_rules_def denylist_rules_def Let_def add_families_def
      NET_FAMILIES_def)

lemma build_plan_state:
  assumes "scp_rules (build_plan resolver cap fc profile allow block) \<noteq> []"
  shows "scp_state (build_plan resolver cap fc profile allow block) =
      scp_profile (build_plan resolver cap fc profile allow block) \<and>
    scp_enforcing (build_plan resolver cap fc profile allow block)"
proof -
  obtain resolved where r: "resolved \<noteq> PROFILE_OFF" "scc_supported cap"
    "build_plan resolver cap fc profile allow block =
       (dedupe (all_rules resolver resolved (clean_names allow) (clean_names block) (initial_plan resolved cap fc)))
         \<lparr>scp_state := resolved\<rparr>"
    using build_plan_rules [OF assms] by metis
  then show ?thesis by (simp add: scp_enforcing_def) (simp add: initial_plan_def)
qed

lemma build_seccomp_plan:
  assumes "build_seccomp w a fc allow block = Inr (s, nts)"
  shows "\<exists>base allow' block'. s = build_plan (sw_resolver w) (sw_seccomp w) fc (PStr base) allow' block'"
  using assms by (auto simp: build_seccomp_def Let_def try_then_Inr split: prod.splits)

lemma unsupported_seccomp:
  assumes "plan_for w a = Inr p" and "sb_mode p \<in> set MODES" and "sb_mode p \<noteq> MODE_OFF" and "\<not> sb_supported p"
  shows "\<exists>fc base allow block.
    sb_seccomp p = Some (build_plan (sw_resolver w) (sw_seccomp w) fc (PStr base) allow block)"
proof -
  obtain mode src where r:
    "resolve_mode (pa_mode a) (env_value w ''TRIMUM_SANDBOX'') (declared_of a) (sw_config w) = (mode, src)"
    by force
  let ?p = "empty_sandbox w mode src"
  from assms(1) have m: "sb_mode p = mode"
    by (cases rule: plan_for_cases) (use r in \<open>simp_all add: sandbox_mode_def\<close>)
  have "sb_supported p = sb_supported ?p"
    using assms(1) by (cases rule: plan_for_cases) (use assms m in \<open>auto simp: empty_sandbox_def r sandbox_mode_def\<close>)
  then have "plan_unsupported w a ?p = Inr p"
    using assms m by (simp add: plan_for_def r)
  then obtain s nts where b: "build_seccomp w a (sb_fail_closed ?p) (pa_allow a) (pa_block a) = Inr (s, nts)"
      "sb_seccomp p = Some s"
    by (auto simp: plan_unsupported_def try_then_Inr)
  show ?thesis using build_seccomp_plan [OF b(1)] b(2) by blast
qed

text \<open>
  The recorded system call state does not: on a machine without Landlock the process runs
  without any confinement, and yet the state written into the request for the system call filter
  names the profile of the plan, as if the filter had been installed.
\<close>
theorem seccomp_state_untrue:
  assumes "plan_for w a = Inr p" and "sb_mode p \<in> set MODES" and "sb_mode p \<noteq> MODE_OFF"
    and "\<not> sb_supported p" and "sb_seccomp p = Some s" and "scp_rules s \<noteq> []"
    and "spawn k p = (Started, p', ps)"
  shows "ps = [None] \<and> snd (sync_states p' target) = scp_profile s \<and> scp_enforcing s"
proof -
  have "ps = [None]" "sb_seccomp p' = sb_seccomp p"
    using assms(3,4,7) by (auto simp: spawn_def Let_def start_def split: if_splits)
  moreover have "scp_state s = scp_profile s \<and> scp_enforcing s"
    using unsupported_seccomp [OF assms(1-4)] assms(5,6) build_plan_state by auto
  ultimately show ?thesis using assms(5) by (simp add: sync_states_def)
qed

section \<open>The readonly mode\<close>

text \<open>The rights to change a file, a directory, or what a device does.\<close>

definition CHANGING :: "rights list" where
  "CHANGING =
     [A_WRITE_FILE, A_REMOVE_DIR, A_REMOVE_FILE, A_MAKE_CHAR, A_MAKE_DIR, A_MAKE_REG, A_MAKE_SOCK, A_MAKE_FIFO,
      A_MAKE_BLOCK, A_MAKE_SYM, A_REFER, A_TRUNCATE, A_IOCTL_DEV]"

lemma read_rights_change_nothing:
  "x \<in> set CHANGING \<Longrightarrow> x AND read_rights abi \<noteq> x" "x \<in> set CHANGING \<Longrightarrow> x AND file_read_rights abi \<noteq> x"
  by (auto simp: CHANGING_def read_rights_def file_read_rights_def right_defs)

lemma root_rights_change:
  "x \<in> set CHANGING \<Longrightarrow> x AND root_rights w abi ws p = x \<Longrightarrow> p \<in> set ws"
  by (auto simp: root_rights_def read_rights_change_nothing split: if_splits)

lemma permits_write_root:
  assumes "plan_for w a = Inr p" and "confines k p (ll, f)" and "permits w ll path x"
    and "x \<in> set CHANGING" and "x AND handled_mask (sb_abi p) \<noteq> 0"
  shows "\<exists>base \<in> set (sb_write_roots p). beneath w base path"
proof -
  have h: "fst ll = handled_mask (sb_abi p)" "set (snd ll) \<subseteq> set (sb_rules p)"
    using assms(2) by (simp_all add: confines_def)
  then obtain base r where b: "(base, r) \<in> set (sb_rules p)" "beneath w base path" "x AND r = x"
    using assms(3,5) by (auto simp: permits_def)
  from assms(1) show ?thesis
  proof (cases rule: plan_for_cases)
    case (supported i)
    then have "r = root_rights w (sb_abi p) (sb_write_roots p) base" using b(1) by (auto simp: build_rules_set)
    then show ?thesis using b(2,3) root_rights_change [OF assms(4)] by blast
  qed (use b(1) in auto)
qed

text \<open>
  C8: In the readonly mode a confined process can change something only beneath the built in roots:
  the device and socket directories and the two data directories of the program, whatever the
  configuration, the request and the manifest name.  This holds for each of the rights to write, create,
  remove, move, truncate or control a device that the machine's version of Landlock handles at all
  (moving from version 2 on, truncating from 3, device control from 5).
\<close>
theorem readonly_confines:
  assumes "plan_for w a = Inr p" and "sb_mode p = MODE_READONLY" and "confines k p (ll, f)"
    and "x \<in> set CHANGING" and "x AND handled_mask (sb_abi p) \<noteq> 0" and "permits w ll path x"
  shows "\<exists>root \<in> set (builtin_writes w @ [sw_home w, sw_data w]). beneath w (sw_expand w root) path"
proof -
  obtain base where b: "base \<in> set (sb_write_roots p)" "beneath w base path"
    using permits_write_root [OF assms(1,3,6,4,5)] by blast
  from assms(1) show ?thesis
  proof (cases rule: plan_for_cases)
    case (supported i)
    then show ?thesis using write_roots_from [of base w a i] b assms(2) by auto
  qed (use b in auto)
qed

lemma permits_beneath_root:
  assumes "confines k p (ll, f)" and "(base, r) \<in> set (sb_rules p)" and "kn_add k base r \<noteq> EBADFD"
    and "beneath w base path" and "x AND r = x"
  shows "permits w ll path x"
  using assms by (force simp: permits_def confines_def)

text \<open>
  One of these roots is the data directory of the program, which holds the default working
  directory of the gateway: a workspace beneath it stays writable in the readonly mode, although
  the mode is meant to make the workspace read only.
\<close>
theorem readonly_data_directory_writable:
  assumes "plan_for w a = Inr p" and "sb_mode p = MODE_READONLY" and "sb_supported p" and "confines k p (ll, f)"
    and "sw_home w \<noteq> []" and "is_dir w (sw_expand w (sw_home w))"
    and "kn_add k (sw_expand w (sw_home w)) (write_rights (sb_abi p)) \<noteq> EBADFD"
    and "beneath w (sw_expand w (sw_home w)) (path_parts (find_workspace w a))"
    and "prefix (path_parts (find_workspace w a)) path"
  shows "permits w ll path A_WRITE_FILE"
proof -
  let ?home = "sw_expand w (sw_home w)"
  have "sb_mode p \<in> set MODES" "sb_mode p \<noteq> MODE_OFF" using assms(2) by (simp_all add: MODES_def mode_defs)
  then obtain i where i: "sandbox_mode w a = sb_mode p" "sb_write_roots p = write_roots_of w a i"
      "sb_rules p = build_rules w (sb_abi p) (sb_read_roots p) (sb_write_roots p)"
    by (rule supported_plan [OF assms(1,3)])
  have "(sw_home w, SOURCE_BUILTIN) \<in> set (write_candidates w (sandbox_mode w a = MODE_READONLY)
      (find_workspace w a) i (granted_writes w a (pi_declared_write i)))"
    by (simp add: write_candidates_def tag_def i assms(2))
  then have "?home \<in> set (sb_write_roots p)"
    using write_root_takes assms(5,6) i(2) by (simp add: landlockable_def is_dir_def)
  then have "(?home, write_rights (sb_abi p)) \<in> set (sb_rules p)"
    by (subst i(3)) (simp add: build_rules_set root_rights_def assms(6))
  then show ?thesis
    using permits_beneath_root [OF assms(4) _ assms(7)] assms(8,9)
    by (simp add: beneath_def)
qed

end
