(* ===== verification/Sandbox_Examples.thy ===== *)
theory Sandbox_Examples
  imports Sandbox_Confinement
begin

text \<open>
  A small machine for the properties of the sandbox: a home with the data directory of the
  program, the default working directory beneath it, and the directory of a package.
\<close>

definition home_dir :: string where "home_dir = ''/home/u/.trimum''"
definition work_dir :: string where "work_dir = ''/home/u/.trimum/workdir''"
definition pkg_dir :: string where "pkg_dir = ''/home/u/pkg''"

lemmas dir_defs = home_dir_def work_dir_def pkg_dir_def

definition demo_machine :: "bool \<Rightarrow> sandbox_world" where
  "demo_machine landlock =
     \<lparr>sw_env = (\<lambda>n. None), sw_expand = (\<lambda>p. p), sw_resolve = (\<lambda>p. p),
      sw_stat = (\<lambda>p. if p \<in> {''/'', home_dir, work_dir, pkg_dir} then Some Directory else None),
      sw_cwd = work_dir, sw_home = home_dir, sw_data = ''/home/u/.local/share/trimum'',
      sw_config = [], sw_allow_write = (\<lambda>n. []),
      sw_landlock = \<lparr>llc_supported = landlock, llc_abi = 4, llc_reason = []\<rparr>,
      sw_seccomp = demo_capability, sw_resolver = demo_resolver\<rparr>"

definition demo_args :: "string \<Rightarrow> sandbox_manifest option \<Rightarrow> plan_args" where
  "demo_args mode m =
     \<lparr>pa_cwd = None, pa_manifest = m, pa_cwd_arg = None, pa_mode = Some mode, pa_profile = None,
      pa_allow = [], pa_block = [], pa_extra_read = [], pa_extra_write = [], pa_base = None\<rparr>"

definition demo_package :: "(string \<times> pyval) list \<Rightarrow> sandbox_manifest" where
  "demo_package d = \<lparr>sm_name = ''pkg'', sm_work_dir = pkg_dir, sm_sandbox = PDict d\<rparr>"

definition demo_kernel :: kernel where
  "demo_kernel =
     \<lparr>kn_prctl = True, kn_create = (\<lambda>m. True), kn_open = (\<lambda>p. True), kn_add = (\<lambda>p r. 0),
      kn_restrict = True, kn_lib = Some demo_lib, kn_start = True\<rparr>"

lemmas demo_defs = demo_machine_def demo_args_def demo_package_def

lemma demo_mode:
  assumes "mode \<in> set MODES" and "declared_of (demo_args mode m) = []"
  shows "sandbox_mode (demo_machine l) (demo_args mode m) = mode"
proof -
  have "py_strip mode = mode" "mode \<noteq> []"
    using assms(1) by (auto simp: MODES_def mode_defs strings_simps py_is_space_def)
  then show ?thesis
    by (simp add: sandbox_mode_def resolve_mode_def assms(2) Let_def)
      (simp add: demo_defs py_or_def pget_def opt_value_def text_or_def py_str_def)
qed

lemma declared_none [simp]: "declared_of (demo_args mode None) = []"
  "declared_of (demo_args mode (Some (demo_package d))) = d"
  by (simp_all add: declared_of_def demo_defs)

lemma demo_inputs:
  assumes "m = None \<or> m = Some (demo_package []) \<or> m = Some (demo_package [(''mode'', v)])"
  shows "path_inputs_of (demo_machine l) (demo_args mode m) =
     Inr \<lparr>pi_cfg_write = [], pi_cfg_read = [], pi_extra_write = [], pi_extra_read = [],
          pi_declared_read = [], pi_declared_write = []\<rparr>"
proof -
  have "declared_of (demo_args mode m) = [] \<or> declared_of (demo_args mode m) = [(''mode'', v)]"
    using assms by auto
  then show ?thesis
    by (auto simp: path_inputs_of_def Let_def pget_def py_or_def as_paths_def clean_paths_def)
      (simp_all add: demo_defs pget_def as_paths_def clean_paths_def)
qed

lemma demo_seccomp:
  assumes "m = None \<or> m = Some (demo_package []) \<or> m = Some (demo_package [(''mode'', v)])"
  shows "build_seccomp (demo_machine l) (demo_args mode m) fc [] [] =
     Inr (build_plan demo_resolver demo_capability fc (PStr ''l1'') [] [], [])"
proof -
  have d: "declared_of (demo_args mode m) = [] \<or> declared_of (demo_args mode m) = [(''mode'', v)]"
    using assms by auto
  have "py_strip ''l1'' = ''l1''" by (simp add: strings_simps py_is_space_def)
  then have "seccomp_base (demo_machine l) (demo_args mode m) (declared_of (demo_args mode m)) = (''l1'', [])"
    using d by (auto simp: seccomp_base_def Let_def pget_def py_or_def)
      (simp_all add: demo_defs env_value_def opt_value_def pget_def text_or_def py_str_def profile_defs)
  then show ?thesis
    using d by (auto simp: build_seccomp_def Let_def pget_def py_or_def as_names_def clean_names_def)
      (simp_all add: demo_defs pget_def as_names_def clean_names_def)
qed

lemma demo_plan:
  assumes "m = None \<or> m = Some (demo_package []) \<or> m = Some (demo_package [(''mode'', v)])"
  shows "\<exists>p. plan_for (demo_machine l) (demo_args mode m) = Inr p"
proof -
  obtain md src where r: "resolve_mode (pa_mode (demo_args mode m)) (env_value (demo_machine l) ''TRIMUM_SANDBOX'')
      (declared_of (demo_args mode m)) (sw_config (demo_machine l)) = (md, src)" by force
  have "pa_allow (demo_args mode m) = []" "pa_block (demo_args mode m) = []" by (simp_all add: demo_args_def)
  then show ?thesis
    using demo_inputs [OF assms] demo_seccomp [OF assms]
    by (simp add: plan_for_def r plan_off_def plan_unsupported_def plan_supported_def Let_def)
qed

lemma demo_paths [simp]:
  "sw_expand (demo_machine l) q = q" "sw_resolve (demo_machine l) q = q"
  by (simp_all add: demo_machine_def)

lemma demo_home:
  assumes "plan_for (demo_machine True) (demo_args mode m) = Inr p"
    and "m = None \<or> m = Some (demo_package [])" and "mode \<in> {MODE_READONLY, MODE_WORKSPACE, MODE_STRICT}"
  shows "sb_mode p = mode \<and> sb_supported p \<and> sb_abi p = 4 \<and> home_dir \<in> set (sb_write_roots p) \<and>
    (home_dir, write_rights 4) \<in> set (sb_rules p)"
proof -
  have m: "sandbox_mode (demo_machine True) (demo_args mode m) = mode"
    using assms(2,3) by (intro demo_mode) (auto simp: MODES_def)
  have noff: "mode \<noteq> MODE_OFF" "mode \<in> set MODES" using assms(3) by (auto simp: MODES_def mode_defs)
  have home: "home_dir \<noteq> []" "is_dir (demo_machine True) home_dir"
    by (simp_all add: dir_defs is_dir_def demo_machine_def)
  from assms(1) show ?thesis
  proof (cases rule: plan_for_cases)
    case bad
    then show ?thesis using m noff by simp
  next
    case off
    then show ?thesis using m noff by simp
  next
    case unsupported
    then show ?thesis by (simp add: demo_machine_def)
  next
    case (supported i)
    have "(home_dir, SOURCE_BUILTIN) \<in> set (write_candidates (demo_machine True)
        (sandbox_mode (demo_machine True) (demo_args mode m) = MODE_READONLY)
        (find_workspace (demo_machine True) (demo_args mode m)) i
        (granted_writes (demo_machine True) (demo_args mode m) (pi_declared_write i)))"
      by (simp add: write_candidates_def tag_def) (simp add: demo_machine_def)
    from write_root_takes [OF this home(1)] have w: "home_dir \<in> set (sb_write_roots p)"
      using home(2) supported(4) by (simp add: landlockable_def is_dir_def)
    moreover have "sb_abi p = 4" using supported(9) by (simp add: demo_machine_def)
    ultimately show ?thesis using supported m home(2) by (simp add: build_rules_set root_rights_def)
  qed
qed

theorem rules_acceptable_witness:
  "\<exists>p. plan_for (demo_machine True) (demo_args MODE_READONLY None) = Inr p \<and>
     rights_in (write_rights 4) (handled_mask (sb_abi p))"
proof -
  obtain p where p: "plan_for (demo_machine True) (demo_args MODE_READONLY None) = Inr p"
    using demo_plan [of None] by blast
  then have "(home_dir, write_rights 4) \<in> set (sb_rules p)" using demo_home by blast
  then show ?thesis using rules_acceptable [OF p] p by blast
qed

theorem declared_write_needs_grant_witness:
  "\<exists>p i raw. plan_for (demo_machine True) (demo_args MODE_WORKSPACE (Some (demo_package []))) = Inr p \<and>
     path_inputs_of (demo_machine True) (demo_args MODE_WORKSPACE (Some (demo_package []))) = Inr i \<and>
     home_dir \<in> set (sb_write_roots p) \<and> home_dir = sw_expand (demo_machine True) raw"
proof -
  obtain p where p: "plan_for (demo_machine True) (demo_args MODE_WORKSPACE (Some (demo_package []))) = Inr p"
    using demo_plan [of "Some (demo_package [])"] by blast
  then have "home_dir \<in> set (sb_write_roots p)" using demo_home by blast
  then show ?thesis using declared_write_needs_grant [OF p] p by blast
qed

lemma workspace_ok: "p \<in> {work_dir, pkg_dir} \<Longrightarrow> is_workspace (demo_machine l) p"
  by (auto simp: is_workspace_def demo_machine_def dir_defs NEVER_WORKSPACE_def)

theorem manifest_work_dir_writable_witness:
  "\<exists>p. plan_for (demo_machine True) (demo_args MODE_WORKSPACE (Some (demo_package []))) = Inr p \<and>
     pkg_dir \<in> set (sb_write_roots p)"
proof -
  let ?w = "demo_machine True" and ?a = "demo_args MODE_WORKSPACE (Some (demo_package []))"
  obtain p where p: "plan_for ?w ?a = Inr p" using demo_plan [of "Some (demo_package [])"] by blast
  then have h: "sb_mode p = MODE_WORKSPACE \<and> sb_supported p" using demo_home by blast
  have wd: "sm_work_dir (demo_package []) = pkg_dir" by (simp add: demo_package_def)
  have "sw_expand ?w pkg_dir \<in> set (sb_write_roots p)"
  proof (rule manifest_work_dir_writable [OF p, where m = "demo_package []"])
    show "sb_supported p" "sb_mode p \<in> {MODE_WORKSPACE, MODE_STRICT}" using h by simp_all
    show "pa_cwd ?a = None" "pa_cwd_arg ?a = None" "pa_base ?a = None" "pa_manifest ?a = Some (demo_package [])"
      by (simp_all add: demo_args_def)
    show "sm_work_dir (demo_package []) \<noteq> []" "pkg_dir \<noteq> []" by (simp_all add: wd pkg_dir_def)
    show "is_dir ?w (sw_expand ?w (sm_work_dir (demo_package [])))" "landlockable ?w (sw_expand ?w pkg_dir)"
      by (simp_all add: wd is_dir_def landlockable_def) (simp_all add: demo_machine_def)
    show "is_workspace ?w (sw_expand ?w (sm_work_dir (demo_package [])))" by (simp add: wd workspace_ok)
    show "sw_resolve ?w (sw_expand ?w (sm_work_dir (demo_package []))) = pkg_dir" by (simp add: wd)
  qed
  then show ?thesis using p by auto
qed

theorem readonly_manifest_opens_strict_witness:
  "\<exists>p. plan_for (demo_machine True) (demo_args MODE_STRICT (Some (demo_package [(''mode'', PStr MODE_READONLY)]))) = Inr p \<and>
     sb_mode p = MODE_READONLY"
proof -
  let ?w = "demo_machine True" and ?m = "Some (demo_package [(''mode'', PStr MODE_READONLY)])"
  let ?a = "demo_args MODE_STRICT ?m"
  obtain p where p: "plan_for ?w ?a = Inr p" using demo_plan [of ?m] by blast
  have strip: "py_strip ''strict'' = ''strict''" "py_strip ''readonly'' = ''readonly''"
    by (simp_all add: strings_simps py_is_space_def)
  have "sb_mode p = MODE_READONLY \<and>
      sw_expand ?w ''/'' \<in> set (sb_read_roots p) \<union> set (sb_write_roots p)"
  proof (rule readonly_manifest_opens_strict [OF p])
    have env: "env_value ?w n = PNone" "sw_config ?w = []" for n by (simp_all add: env_value_def demo_machine_def)
    have "pa_mode ?a = Some MODE_STRICT" by (simp add: demo_args_def)
    then show "fst (resolve_mode (pa_mode ?a) (env_value ?w ''TRIMUM_SANDBOX'') [] (sw_config ?w)) = MODE_STRICT"
      using strip by (simp add: resolve_mode_def env Let_def pget_def py_or_def opt_value_def text_or_def py_str_def mode_defs)
    show "pget (declared_of ?a) ''mode'' = PStr MODE_READONLY" by (simp add: pget_def)
    show "is_dir ?w (sw_expand ?w ''/'')" by (simp add: is_dir_def demo_machine_def)
    have m: "sandbox_mode ?w ?a = MODE_READONLY"
      using strip \<open>pa_mode ?a = Some MODE_STRICT\<close>
      by (simp add: sandbox_mode_def resolve_mode_def env Let_def pget_def py_or_def opt_value_def text_or_def py_str_def
          mode_defs MODE_RANK_def)
    from p show "sb_supported p"
      by (cases rule: plan_for_cases) (use m in \<open>auto simp: MODES_def mode_defs demo_machine_def\<close>)
  qed
  then show ?thesis using p by blast
qed

section \<open>Processes on the small machine\<close>

definition bare_plan :: sandbox_plan where
  "bare_plan =
     (empty_sandbox (demo_machine True) MODE_READONLY SOURCE_EXPLICIT)\<lparr>sb_rules := [(''/'', read_rights 4)]\<rparr>"

lemma bare_plan_simps [simp]:
  "sb_mode bare_plan = MODE_READONLY" "sb_supported bare_plan" "sb_blockers bare_plan = []"
  "sb_rules bare_plan = [(''/'', read_rights 4)]" "sb_seccomp bare_plan = None" "sb_fail_closed bare_plan"
  by (simp_all add: bare_plan_def empty_sandbox_def) (simp_all add: demo_machine_def resolve_fail_closed_def pget_def)

lemma bare_spawn:
  "spawn demo_kernel bare_plan =
   (Started, mark [] bare_plan, [Some ((handled_mask (sb_abi bare_plan), [(''/'', read_rights 4)]), None)])"
  by (simp add: spawn_def apply_plan_def landlock_apply_def seccomp_enforcing_def start_def demo_kernel_def mode_defs)

theorem spawn_fail_closed_witness:
  "\<exists>out p' ps. spawn demo_kernel bare_plan = (out, p', ps) \<and>
     (ps = [] \<and> out \<noteq> Started \<or>
      out = Started \<and> sb_blockers bare_plan = [] \<and> (\<exists>c. ps = [Some c] \<and> confines demo_kernel bare_plan c))"
  using spawn_fail_closed [OF bare_spawn] bare_spawn by (auto simp: mode_defs)

theorem landlock_state_true_witness:
  "\<exists>p' ps c. spawn demo_kernel bare_plan = (Started, p', ps) \<and> sb_state p' = MODE_READONLY \<and>
     ps = [Some c] \<and> confines demo_kernel bare_plan c"
proof -
  have "sb_mode bare_plan \<in> set MODES" by (simp add: MODES_def)
  from landlock_state_true [OF bare_spawn this] show ?thesis
    using bare_spawn by (auto simp: mark_def mode_defs)
qed

lemma demo_filter_rules: "scp_rules (build_plan demo_resolver demo_capability fc (PStr ''l1'') [] []) \<noteq> []"
proof -
  have "py_strip ''l1'' = ''l1''" by (simp add: strings_simps py_is_space_def)
  then have n: "normalize_profile (PStr ''l1'') = Some PROFILE_L1"
    by (simp add: normalize_profile_def py_str_def py_lower_def py_lower_char_def ALIASES_def profile_defs)
  have "''ptrace'' \<in> set (filter (resolves demo_resolver) KERNEL_BLOCK)"
    by (simp add: KERNEL_BLOCK_def resolves_def demo_resolver_def NR_SCMP_ERROR_def NR_SCMP_UNDEF_def)
  then have "filter (resolves demo_resolver) KERNEL_BLOCK \<noteq> []" by (metis list.set(1) empty_iff)
  then have "scp_rules (denylist_rules demo_resolver PROFILE_L1 [] (initial_plan PROFILE_L1 demo_capability fc)) \<noteq> []"
    by (simp add: denylist_rules_def profile_defs)
  then have "keep_first [] (scp_rules (denylist_rules demo_resolver PROFILE_L1 []
      (initial_plan PROFILE_L1 demo_capability fc))) \<noteq> []"
    using keep_first_keys [of "scp_rules (denylist_rules demo_resolver PROFILE_L1 []
      (initial_plan PROFILE_L1 demo_capability fc))" "[]"] by auto
  then show ?thesis
    by (simp add: build_plan_def n all_rules_def clean_names_def dedupe_def demo_capability_def Let_def profile_defs)
qed

theorem seccomp_state_untrue_witness:
  "\<exists>p p' ps. plan_for (demo_machine False) (demo_args MODE_WORKSPACE None) = Inr p \<and>
     spawn demo_kernel p = (Started, p', ps) \<and> ps = [None] \<and> snd (sync_states p' ([], [])) = ''l1''"
proof -
  let ?w = "demo_machine False" and ?a = "demo_args MODE_WORKSPACE None"
  let ?fc = "resolve_fail_closed ?w"
  let ?s = "build_plan demo_resolver demo_capability ?fc (PStr ''l1'') [] []"
  have "sandbox_mode ?w ?a = MODE_WORKSPACE" by (rule demo_mode) (simp_all add: MODES_def)
  then obtain src where r: "resolve_mode (pa_mode ?a) (env_value ?w ''TRIMUM_SANDBOX'') (declared_of ?a) (sw_config ?w) =
      (MODE_WORKSPACE, src)"
    unfolding sandbox_mode_def by (metis prod.collapse)
  let ?p = "(empty_sandbox ?w MODE_WORKSPACE src)
      \<lparr>sb_notes := [], sb_seccomp := Some ?s, sb_state := ''unsupported''\<rparr>"
  have mode: "MODE_WORKSPACE \<in> set MODES" "MODE_WORKSPACE \<noteq> MODE_OFF" by (simp_all add: MODES_def mode_defs)
  have fields: "\<not> sb_supported (empty_sandbox ?w MODE_WORKSPACE src)"
      "sb_fail_closed (empty_sandbox ?w MODE_WORKSPACE src) = ?fc"
      "sb_mode (empty_sandbox ?w MODE_WORKSPACE src) = MODE_WORKSPACE" "pa_allow ?a = []" "pa_block ?a = []"
    by (simp_all add: empty_sandbox_def demo_args_def) (simp add: demo_machine_def)
  have p: "plan_for ?w ?a = Inr ?p"
    unfolding plan_for_def r using mode fields demo_seccomp [of None undefined False MODE_WORKSPACE ?fc]
    by (simp add: plan_unsupported_def)
  have sp: "spawn demo_kernel ?p = (Started, ?p\<lparr>sb_state := ''unsupported''\<rparr>, [None])"
    using mode fields by (simp add: spawn_def start_def demo_kernel_def)
  have "snd (sync_states (?p\<lparr>sb_state := ''unsupported''\<rparr>) ([], [])) = scp_profile ?s"
    using seccomp_state_untrue [OF p _ _ _ _ demo_filter_rules sp] mode fields by simp
  moreover have "scp_profile ?s = ''l1''"
  proof -
    have "py_strip ''l1'' = ''l1''" by (simp add: strings_simps py_is_space_def)
    then have "normalize_profile (PStr ''l1'') = Some PROFILE_L1"
      by (simp add: normalize_profile_def py_str_def py_lower_def py_lower_char_def ALIASES_def profile_defs)
    then have eff: "effective_profile (PStr ''l1'') = Some ''l1''"
      by (simp add: effective_profile_def PROFILE_L1_def)
    obtain resolved where "effective_profile (PStr ''l1'') = Some resolved"
      "?s = (dedupe (all_rules demo_resolver resolved (clean_names []) (clean_names [])
          (initial_plan resolved demo_capability ?fc)))\<lparr>scp_state := resolved\<rparr>"
      by (rule build_plan_rules [OF demo_filter_rules [of ?fc]])
    then have "scp_profile ?s = resolved" "resolved = ''l1''"
      using eff by simp_all (simp add: initial_plan_def)
    then show ?thesis by simp
  qed
  ultimately have st: "snd (sync_states (?p\<lparr>sb_state := ''unsupported''\<rparr>) ([], [])) = ''l1''" by simp
  show ?thesis
    by (rule exI [of _ ?p], rule exI [of _ "?p\<lparr>sb_state := ''unsupported''\<rparr>"], rule exI [of _ "[None]"])
      (intro conjI refl p sp st)
qed

section \<open>The readonly mode\<close>

lemma demo_readonly:
  obtains p where "plan_for (demo_machine True) (demo_args MODE_READONLY None) = Inr p"
    "sb_mode p = MODE_READONLY" "sb_supported p" "sb_abi p = 4" "(home_dir, write_rights 4) \<in> set (sb_rules p)"
    "home_dir \<in> set (sb_write_roots p)"
proof -
  obtain p where p: "plan_for (demo_machine True) (demo_args MODE_READONLY None) = Inr p"
    using demo_plan [of None] by blast
  from demo_home [OF p] p that show ?thesis by simp
qed

definition full_confinement :: "sandbox_plan \<Rightarrow> confinement" where
  "full_confinement p =
     ((handled_mask (sb_abi p), sb_rules p),
      if seccomp_enforcing p
      then Some (scp_default_action (the (sb_seccomp p)), scp_rules (the (sb_seccomp p))) else None)"

lemma full_confines: "confines k p (full_confinement p)"
  by (auto simp: confines_def full_confinement_def)

lemma demo_parts:
  "path_parts work_dir = [''home'', ''u'', ''.trimum'', ''workdir'']"
  "path_parts home_dir = [''home'', ''u'', ''.trimum'']"
  by (simp_all add: dir_defs path_parts_def)

lemma demo_workspace: "find_workspace (demo_machine l) (demo_args mode None) = work_dir"
proof -
  have "is_dir (demo_machine l) work_dir" "is_workspace (demo_machine l) work_dir"
    by (simp_all add: workspace_ok) (simp add: is_dir_def demo_machine_def)
  moreover have "workspace_candidates (demo_machine l) (demo_args mode None) = [work_dir]"
    by (simp add: workspace_candidates_def demo_args_def List.map_filter_def)
      (simp add: demo_machine_def dir_defs)
  ultimately show ?thesis by (simp add: find_workspace_def)
qed

theorem readonly_confines_witness:
  "\<exists>p ll f. plan_for (demo_machine True) (demo_args MODE_READONLY None) = Inr p \<and> confines demo_kernel p (ll, f) \<and>
     (\<exists>r \<in> set (builtin_writes (demo_machine True) @ [home_dir, ''/home/u/.local/share/trimum'']).
        prefix (path_parts r) [''home'', ''u'', ''.trimum'', ''logs''])"
proof -
  let ?w = "demo_machine True" and ?path = "[''home'', ''u'', ''.trimum'', ''logs'']"
  obtain p where p: "plan_for ?w (demo_args MODE_READONLY None) = Inr p" "sb_mode p = MODE_READONLY"
      "sb_abi p = 4" "(home_dir, write_rights 4) \<in> set (sb_rules p)"
    by (rule demo_readonly)
  obtain ll f where c: "full_confinement p = (ll, f)" by (cases "full_confinement p")
  then have conf: "confines demo_kernel p (ll, f)" using full_confines [of demo_kernel p] by simp
  have bit: "A_MAKE_REG AND write_rights 4 = A_MAKE_REG"
    by (simp add: write_rights_def read_rights_def since_def right_defs)
  have "permits ?w ll ?path A_MAKE_REG"
    by (rule permits_beneath_root [OF conf p(4) _ _ bit])
      (simp_all add: demo_kernel_def EBADFD_def beneath_def demo_parts)
  moreover have "A_MAKE_REG \<in> set CHANGING" "A_MAKE_REG AND handled_mask (sb_abi p) \<noteq> 0"
    by (simp_all add: CHANGING_def p(3) handled_mask_def ABI1_FS_def since_def right_defs)
  ultimately have root: "\<exists>root \<in> set (builtin_writes ?w @ [sw_home ?w, sw_data ?w]). beneath ?w (sw_expand ?w root) ?path"
    by (intro readonly_confines [OF p(1,2) conf])
  have "\<exists>r \<in> set (builtin_writes ?w @ [home_dir, ''/home/u/.local/share/trimum'']). prefix (path_parts r) ?path"
  proof -
    have "sw_home ?w = home_dir" "sw_data ?w = ''/home/u/.local/share/trimum''" by (simp_all add: demo_machine_def)
    then show ?thesis
      using root by (simp only: beneath_def demo_paths)
  qed
  then show ?thesis using p(1) conf by blast
qed

theorem readonly_data_directory_writable_witness:
  "\<exists>p ll f. plan_for (demo_machine True) (demo_args MODE_READONLY None) = Inr p \<and> confines demo_kernel p (ll, f) \<and>
     permits (demo_machine True) ll [''home'', ''u'', ''.trimum'', ''workdir'', ''notes.txt''] A_WRITE_FILE"
proof -
  let ?w = "demo_machine True" and ?a = "demo_args MODE_READONLY None"
  obtain p where p: "plan_for ?w ?a = Inr p" "sb_mode p = MODE_READONLY" "sb_supported p"
    by (rule demo_readonly)
  obtain ll f where c: "full_confinement p = (ll, f)" by (cases "full_confinement p")
  then have conf: "confines demo_kernel p (ll, f)" using full_confines [of demo_kernel p] by simp
  have home: "sw_home ?w = home_dir" "is_dir ?w home_dir" by (simp_all add: demo_machine_def is_dir_def)
  have "permits ?w ll [''home'', ''u'', ''.trimum'', ''workdir'', ''notes.txt''] A_WRITE_FILE"
    by (rule readonly_data_directory_writable [OF p conf])
      (simp_all add: home demo_workspace demo_parts beneath_def, simp_all add: demo_kernel_def EBADFD_def dir_defs)
  then show ?thesis using p(1) conf by blast
qed

end
