(* ===== verification/Difflib.thy ===== *)
theory Difflib
  imports Prelude
begin

text \<open>
  The part of the standard library module \<open>difflib\<close> that the patch primitives use:
  \<open>SequenceMatcher\<close> without junk (\<open>find_longest_match\<close>, \<open>get_matching_blocks\<close>,
  \<open>get_opcodes\<close>, \<open>get_grouped_opcodes\<close>), and the fact the patches rest on: the operations
  tile both sequences, and the ranges between the groups are equal.
\<close>

section \<open>Slices\<close>

definition slice :: "nat \<Rightarrow> nat \<Rightarrow> 'a list \<Rightarrow> 'a list" where
  "slice i j xs = take (j - i) (drop i xs)"

lemma length_slice [simp]: "length (slice i j xs) = min (j - i) (length xs - i)"
  by (simp add: slice_def min.commute)

lemma slice_empty [simp]: "j \<le> i \<Longrightarrow> slice i j xs = []"
  by (simp add: slice_def)

lemma slice_append: "i \<le> j \<Longrightarrow> j \<le> k \<Longrightarrow> slice i j xs @ slice j k xs = slice i k xs"
proof -
  assume "i \<le> j" "j \<le> k"
  then have "k - i = (j - i) + (k - j)" "drop j xs = drop (j - i) (drop i xs)" by simp_all
  then show ?thesis by (simp only: slice_def take_add)
qed

lemma slice_cut:
  "m \<le> j - i \<Longrightarrow> slice i (i + m) xs = take m (slice i j xs)"
  "slice (i + m) j xs = drop m (slice i j xs)"
  by (simp_all add: slice_def min_absorb1 drop_take add.commute)

lemma take_slice: "i \<le> j \<Longrightarrow> take i xs @ slice i j xs = take j xs"
  using slice_append [of 0 i j xs] by (simp add: slice_def)

lemma slice_drop: "i \<le> j \<Longrightarrow> slice i j xs @ drop j xs = drop i xs"
  by (metis append_take_drop_id drop_drop le_add_diff_inverse2 slice_def)

lemma slice_full: "length xs \<le> j \<Longrightarrow> slice i j xs = drop i xs"
  by (simp add: slice_def)

lemma slice_eqI:
  assumes "i + k \<le> length a" and "j + k \<le> length b" and "\<And>t. t < k \<Longrightarrow> a ! (i + t) = b ! (j + t)"
  shows "slice i (i + k) a = slice j (j + k) b"
  using assms by (intro nth_equalityI) (auto simp: slice_def)

section \<open>The longest common block\<close>

text \<open>
  One row of \<open>find_longest_match\<close>: for the positions of the element in the other sequence, the
  length of the common block that ends there, and the best block so far.
\<close>

type_synonym match_block = "nat \<times> nat \<times> nat"

definition positions :: "'a \<Rightarrow> 'a list \<Rightarrow> nat list" where
  "positions x b = filter (\<lambda>j. b ! j = x) [0 ..< length b]"

definition run_before :: "(nat, nat) dict \<Rightarrow> nat \<Rightarrow> nat" where
  "run_before runs j = (if j = 0 then 0 else (case map_of runs (j - 1) of None \<Rightarrow> 0 | Some k \<Rightarrow> k))"

fun scan_row ::
    "nat \<Rightarrow> nat \<Rightarrow> nat \<Rightarrow> (nat, nat) dict \<Rightarrow> nat list \<Rightarrow> (nat, nat) dict \<Rightarrow> match_block \<Rightarrow>
     (nat, nat) dict \<times> match_block" where
  "scan_row i blo bhi runs [] new best = (new, best)"
| "scan_row i blo bhi runs (j # js) new best =
     (if j < blo then scan_row i blo bhi runs js new best
      else if bhi \<le> j then (new, best)
      else
        let k = run_before runs j + 1
        in scan_row i blo bhi runs js (AList.update j k new)
             (if snd (snd best) < k then (i + 1 - k, j + 1 - k, k) else best))"

fun scan_rows ::
    "'a list \<Rightarrow> 'a list \<Rightarrow> nat \<Rightarrow> nat \<Rightarrow> nat list \<Rightarrow> (nat, nat) dict \<Rightarrow> match_block \<Rightarrow> match_block" where
  "scan_rows a b blo bhi [] runs best = best"
| "scan_rows a b blo bhi (i # is) runs best =
     (case scan_row i blo bhi runs (positions (a ! i) b) [] best of
        (runs', best') \<Rightarrow> scan_rows a b blo bhi is runs' best')"

fun extend_back :: "'a list \<Rightarrow> 'a list \<Rightarrow> nat \<Rightarrow> nat \<Rightarrow> match_block \<Rightarrow> match_block" where
  "extend_back a b alo blo (i, j, k) =
     (if alo < i \<and> blo < j \<and> a ! (i - 1) = b ! (j - 1)
      then extend_back a b alo blo (i - 1, j - 1, k + 1) else (i, j, k))"

function extend_forward :: "'a list \<Rightarrow> 'a list \<Rightarrow> nat \<Rightarrow> nat \<Rightarrow> match_block \<Rightarrow> match_block" where
  "extend_forward a b ahi bhi (i, j, k) =
     (if i + k < ahi \<and> j + k < bhi \<and> a ! (i + k) = b ! (j + k)
      then extend_forward a b ahi bhi (i, j, k + 1) else (i, j, k))"
  by pat_completeness auto
termination by (relation "measure (\<lambda>(a, b, ahi, bhi, i, j, k). ahi - (i + k))") auto

declare extend_back.simps [simp del] extend_forward.simps [simp del]

definition find_longest_match :: "'a list \<Rightarrow> 'a list \<Rightarrow> nat \<Rightarrow> nat \<Rightarrow> nat \<Rightarrow> nat \<Rightarrow> match_block" where
  "find_longest_match a b alo ahi blo bhi =
     extend_forward a b ahi bhi
       (extend_back a b alo blo (scan_rows a b blo bhi [alo ..< ahi] [] (alo, blo, 0)))"

text \<open>A common block inside a window of both sequences.\<close>

definition common :: "'a list \<Rightarrow> 'a list \<Rightarrow> nat \<Rightarrow> nat \<Rightarrow> nat \<Rightarrow> nat \<Rightarrow> match_block \<Rightarrow> bool" where
  "common a b alo ahi blo bhi m \<longleftrightarrow>
     (case m of (i, j, k) \<Rightarrow> alo \<le> i \<and> blo \<le> j \<and> i + k \<le> ahi \<and> j + k \<le> bhi \<and>
        (\<forall>t < k. a ! (i + t) = b ! (j + t)))"

definition run_ok :: "'a list \<Rightarrow> 'a list \<Rightarrow> nat \<Rightarrow> nat \<Rightarrow> nat \<Rightarrow> (nat, nat) dict \<Rightarrow> bool" where
  "run_ok a b alo blo i runs \<longleftrightarrow>
     (\<forall>j k. map_of runs j = Some k \<longrightarrow> alo + k \<le> i \<and> blo + k \<le> j + 1 \<and>
        (\<forall>t < k. a ! (i - 1 - t) = b ! (j - t)))"

lemma run_before_ok:
  assumes "run_ok a b alo blo i runs" and "alo \<le> i" and "blo \<le> j" and "a ! i = b ! j"
  shows "alo + (run_before runs j + 1) \<le> i + 1 \<and> blo + (run_before runs j + 1) \<le> j + 1 \<and>
    (\<forall>t < run_before runs j + 1. a ! (i - t) = b ! (j - t))"
proof (cases "j = 0 \<or> map_of runs (j - 1) = None")
  case True
  then show ?thesis using assms by (auto simp: run_before_def)
next
  case False
  then obtain k where k: "map_of runs (j - 1) = Some k" "0 < j" by auto
  then have r: "alo + k \<le> i" "blo + k \<le> j - 1 + 1" "\<forall>t < k. a ! (i - 1 - t) = b ! (j - 1 - t)"
    using assms(1) [unfolded run_ok_def, rule_format, OF k(1)] by auto
  have "a ! (i - t) = b ! (j - t)" if "t < k + 1" for t
    using that r(3) assms(4) by (cases t) auto
  then show ?thesis using k r by (auto simp: run_before_def)
qed

lemma run_common:
  assumes "alo + k \<le> i + 1" and "blo + k \<le> j + 1" and "i < ahi" and "j < bhi"
    and "\<forall>t < k. a ! (i - t) = b ! (j - t)"
  shows "common a b alo ahi blo bhi (i + 1 - k, j + 1 - k, k)"
proof -
  have "a ! (i + 1 - k + t) = b ! (j + 1 - k + t)" if "t < k" for t
  proof -
    have "i - (k - 1 - t) = i + 1 - k + t" "j - (k - 1 - t) = j + 1 - k + t" "k - 1 - t < k"
      using that assms(1,2) by auto
    then show ?thesis using assms(5) by metis
  qed
  then show ?thesis using assms(1-4) by (simp add: common_def) linarith
qed

lemma scan_row_ok:
  assumes "run_ok a b alo blo i runs" and "alo \<le> i" and "i < ahi" and "\<forall>j \<in> set js. b ! j = a ! i"
    and "run_ok a b alo blo (i + 1) new" and "common a b alo ahi blo bhi best"
    and "scan_row i blo bhi runs js new best = (new', best')"
  shows "run_ok a b alo blo (i + 1) new' \<and> common a b alo ahi blo bhi best'"
  using assms(4-)
proof (induction js arbitrary: new best)
  case (Cons j js)
  let ?k = "run_before runs j + 1"
  show ?case
  proof (cases "j < blo \<or> bhi \<le> j")
    case True
    then show ?thesis using Cons by (auto split: if_splits)
  next
    case False
    then have j: "blo \<le> j" "j < bhi" by simp_all
    have k: "alo + ?k \<le> i + 1" "blo + ?k \<le> j + 1" "\<forall>t < ?k. a ! (i - t) = b ! (j - t)"
      using run_before_ok [OF assms(1,2) j(1)] Cons.prems(1) by auto
    have "run_ok a b alo blo (i + 1) (AList.update j ?k new)"
      using Cons.prems(2) k by (auto simp: run_ok_def dict_simps)
    moreover have "common a b alo ahi blo bhi (i + 1 - ?k, j + 1 - ?k, ?k)"
      by (rule run_common [OF k(1,2) assms(3) j(2) k(3)])
    then have "common a b alo ahi blo bhi (if snd (snd best) < ?k then (i + 1 - ?k, j + 1 - ?k, ?k) else best)"
      using Cons.prems(3) by (simp only: split: if_splits) simp
    moreover have "scan_row i blo bhi runs js (AList.update j ?k new)
        (if snd (snd best) < ?k then (i + 1 - ?k, j + 1 - ?k, ?k) else best) = (new', best')"
      using Cons.prems(4) False by (simp only: scan_row.simps Let_def if_False de_Morgan_disj simp_thms)
    moreover have "\<forall>j' \<in> set js. b ! j' = a ! i" using Cons.prems(1) by simp
    ultimately show ?thesis using Cons.IH by blast
  qed
qed simp

lemma scan_rows_ok:
  assumes "run_ok a b alo blo i runs" and "alo \<le> i" and "i \<le> ahi" and "common a b alo ahi blo bhi best"
  shows "common a b alo ahi blo bhi (scan_rows a b blo bhi [i ..< ahi] runs best)"
  using assms
proof (induction "ahi - i" arbitrary: i runs best)
  case (Suc d)
  then have i: "i < ahi" and rows: "[i ..< ahi] = i # [i + 1 ..< ahi]" by (simp_all add: upt_conv_Cons)
  obtain runs' best' where s: "scan_row i blo bhi runs (positions (a ! i) b) [] best = (runs', best')"
    by (cases "scan_row i blo bhi runs (positions (a ! i) b) [] best")
  have "run_ok a b alo blo (i + 1) []" by (simp add: run_ok_def)
  moreover have "\<forall>j \<in> set (positions (a ! i) b). b ! j = a ! i" by (simp add: positions_def)
  ultimately have "run_ok a b alo blo (i + 1) runs'" "common a b alo ahi blo bhi best'"
    using scan_row_ok [OF Suc.prems(1,2) i _ _ Suc.prems(4) s] by blast+
  then have "common a b alo ahi blo bhi (scan_rows a b blo bhi [i + 1 ..< ahi] runs' best')"
    using Suc.hyps(2) Suc.prems(2) i by (intro Suc.hyps(1)) simp_all
  then show ?case by (simp only: rows scan_rows.simps s prod.case)
qed simp

lemma extend_back_ok:
  "common a b alo ahi blo bhi m \<Longrightarrow> common a b alo ahi blo bhi (extend_back a b alo blo m)"
proof (induction a b alo blo m rule: extend_back.induct)
  case (1 a b alo blo i j k)
  show ?case
  proof (cases "alo < i \<and> blo < j \<and> a ! (i - 1) = b ! (j - 1)")
    case True
    have "a ! (i - 1 + t) = b ! (j - 1 + t)" if "t < k + 1" for t
      using that True "1.prems" by (cases t) (auto simp: common_def)
    then have "common a b alo ahi blo bhi (i - 1, j - 1, k + 1)"
      using True "1.prems" by (auto simp: common_def)
    then show ?thesis using "1.IH" True by (subst extend_back.simps) simp
  next
    case False
    then show ?thesis using "1.prems" by (subst extend_back.simps) auto
  qed
qed

lemma extend_forward_ok:
  "common a b alo ahi blo bhi m \<Longrightarrow> common a b alo ahi blo bhi (extend_forward a b ahi bhi m)"
proof (induction a b ahi bhi m rule: extend_forward.induct)
  case (1 a b ahi bhi i j k)
  show ?case
  proof (cases "i + k < ahi \<and> j + k < bhi \<and> a ! (i + k) = b ! (j + k)")
    case True
    have "a ! (i + t) = b ! (j + t)" if "t < k + 1" for t
      using that True "1.prems" by (cases "t = k") (auto simp: common_def)
    then have "common a b alo ahi blo bhi (i, j, k + 1)"
      using True "1.prems" by (auto simp: common_def)
    then show ?thesis using "1.IH" True by (subst extend_forward.simps) simp
  next
    case False
    then show ?thesis using "1.prems" by (subst extend_forward.simps) auto
  qed
qed

lemma find_longest_common:
  assumes "alo \<le> ahi" and "blo \<le> bhi"
  shows "common a b alo ahi blo bhi (find_longest_match a b alo ahi blo bhi)"
  unfolding find_longest_match_def
  by (intro extend_forward_ok extend_back_ok scan_rows_ok) (use assms in \<open>simp_all add: run_ok_def common_def\<close>)

section \<open>Matching blocks\<close>

text \<open>
  \<open>get_matching_blocks\<close> searches the windows left and right of every block it finds and sorts
  the blocks by position; the blocks of the left window come first, those of the right window
  last, so the sorted list is the one built here in place.
\<close>

lemma find_longest_shrinks:
  assumes "find_longest_match a b alo ahi blo bhi = (i, j, k)" and "0 < k" and "alo < ahi" and "blo < bhi"
  shows "i < ahi \<and> alo < i + k"
  using find_longest_common [of alo ahi blo bhi a b] assms by (auto simp: common_def)

function match_blocks :: "'a list \<Rightarrow> 'a list \<Rightarrow> nat \<Rightarrow> nat \<Rightarrow> nat \<Rightarrow> nat \<Rightarrow> match_block list" where
  "match_blocks a b alo ahi blo bhi =
     (if alo < ahi \<and> blo < bhi then
        (case find_longest_match a b alo ahi blo bhi of
           (i, j, k) \<Rightarrow>
             if k = 0 then []
             else (if alo < i \<and> blo < j then match_blocks a b alo i blo j else []) @
                  (i, j, k) #
                  (if i + k < ahi \<and> j + k < bhi then match_blocks a b (i + k) ahi (j + k) bhi else []))
      else [])"
  by pat_completeness auto
termination
  by (relation "measure (\<lambda>(a, b, alo, ahi, blo, bhi). ahi - alo)")
    (auto dest!: find_longest_shrinks [OF sym])

declare match_blocks.simps [simp del]

fun join_blocks :: "match_block \<Rightarrow> match_block list \<Rightarrow> match_block list" where
  "join_blocks (i1, j1, k1) [] = (if k1 = 0 then [] else [(i1, j1, k1)])"
| "join_blocks (i1, j1, k1) ((i2, j2, k2) # bs) =
     (if i1 + k1 = i2 \<and> j1 + k1 = j2 then join_blocks (i1, j1, k1 + k2) bs
      else (if k1 = 0 then [] else [(i1, j1, k1)]) @ join_blocks (i2, j2, k2) bs)"

definition matching_blocks :: "'a list \<Rightarrow> 'a list \<Rightarrow> match_block list" where
  "matching_blocks a b =
     join_blocks (0, 0, 0) (match_blocks a b 0 (length a) 0 (length b)) @ [(length a, length b, 0)]"

text \<open>Blocks in order, between two positions.\<close>

fun chain :: "'a list \<Rightarrow> 'a list \<Rightarrow> nat \<Rightarrow> nat \<Rightarrow> match_block list \<Rightarrow> nat \<Rightarrow> nat \<Rightarrow> bool" where
  "chain a b i j [] i' j' \<longleftrightarrow> i \<le> i' \<and> j \<le> j'"
| "chain a b i j ((x, y, k) # bs) i' j' \<longleftrightarrow>
     i \<le> x \<and> j \<le> y \<and> (\<forall>t < k. a ! (x + t) = b ! (y + t)) \<and> chain a b (x + k) (y + k) bs i' j'"

lemma chain_appendI:
  "chain a b i j xs i' j' \<Longrightarrow> chain a b i' j' ys i'' j'' \<Longrightarrow> chain a b i j (xs @ ys) i'' j''"
proof (induction xs arbitrary: i j)
  case Nil
  then show ?case by (cases ys) (auto intro: order_trans)
qed auto

lemma match_blocks_chain:
  "alo \<le> ahi \<Longrightarrow> blo \<le> bhi \<Longrightarrow> chain a b alo blo (match_blocks a b alo ahi blo bhi) ahi bhi"
proof (induction a b alo ahi blo bhi rule: match_blocks.induct)
  case (1 a b alo ahi blo bhi)
  obtain i j k where f: "find_longest_match a b alo ahi blo bhi = (i, j, k)"
    by (cases "find_longest_match a b alo ahi blo bhi")
  then have c: "common a b alo ahi blo bhi (i, j, k)" using find_longest_common [OF 1(3,4)] by metis
  show ?case
  proof (cases "alo < ahi \<and> blo < bhi \<and> k \<noteq> 0")
    case True
    let ?left = "if alo < i \<and> blo < j then match_blocks a b alo i blo j else []"
    let ?right = "if i + k < ahi \<and> j + k < bhi then match_blocks a b (i + k) ahi (j + k) bhi else []"
    have "chain a b alo blo ?left i j" using 1(1) True c f by (auto simp: common_def)
    moreover have "chain a b (i + k) (j + k) ?right ahi bhi" using 1(2) True c f by (auto simp: common_def)
    moreover have "match_blocks a b alo ahi blo bhi = ?left @ (i, j, k) # ?right"
      using True by (subst match_blocks.simps) (simp add: f)
    moreover have "chain a b i j ((i, j, k) # ?right) ahi bhi"
      using c \<open>chain a b (i + k) (j + k) ?right ahi bhi\<close> by (simp add: common_def)
    ultimately show ?thesis by (simp only: chain_appendI)
  next
    case False
    then have "match_blocks a b alo ahi blo bhi = []" by (subst match_blocks.simps) (auto simp: f)
    then show ?thesis using 1(3,4) by simp
  qed
qed

lemma join_blocks_chain:
  assumes "chain a b i j ((i1, j1, k1) # bs) i' j'"
  shows "chain a b i j (join_blocks (i1, j1, k1) bs) i' j'"
  using assms
proof (induction "(i1, j1, k1)" bs arbitrary: i j i1 j1 k1 rule: join_blocks.induct)
  case (1 i1 j1 k1)
  then show ?case by auto
next
  case (2 i1 j1 k1 i2 j2 k2 bs)
  show ?case
  proof (cases "i1 + k1 = i2 \<and> j1 + k1 = j2")
    case True
    have "a ! (i1 + t) = b ! (j1 + t)" if "t < k1 + k2" for t
    proof (cases "t < k1")
      case False
      then have "t = k1 + (t - k1)" "t - k1 < k2" using that by auto
      then show ?thesis using "2.prems" True by (metis add.assoc chain.simps(2))
    qed (use "2.prems" in auto)
    then have "chain a b i j ((i1, j1, k1 + k2) # bs) i' j'"
      using "2.prems" True by (auto simp: add.assoc)
    then show ?thesis using "2.hyps"(1) True by simp
  next
    case False
    have "chain a b (i1 + k1) (j1 + k1) (join_blocks (i2, j2, k2) bs) i' j'"
      using "2.hyps"(2) [OF False] "2.prems" by simp
    moreover have "chain a b i j (join_blocks (i2, j2, k2) bs) i' j'"
      using "2.hyps"(2) [OF False, of i j] "2.prems" by auto
    ultimately show ?thesis using "2.prems" False by auto
  qed
qed

lemma matching_blocks_chain: "chain a b 0 0 (matching_blocks a b) (length a) (length b)"
proof -
  have "chain a b 0 0 ((0, 0, 0) # match_blocks a b 0 (length a) 0 (length b)) (length a) (length b)"
    using match_blocks_chain [of 0 "length a" 0 "length b" a b] by simp
  then have "chain a b 0 0 (join_blocks (0, 0, 0) (match_blocks a b 0 (length a) 0 (length b))) (length a) (length b)"
    by (rule join_blocks_chain)
  then show ?thesis unfolding matching_blocks_def by (rule chain_appendI) simp
qed

section \<open>Operations\<close>

datatype op_tag = Equal | Replace | Delete | Insert
type_synonym opcode = "op_tag \<times> nat \<times> nat \<times> nat \<times> nat"

fun opcodes_from :: "nat \<Rightarrow> nat \<Rightarrow> match_block list \<Rightarrow> opcode list" where
  "opcodes_from i j [] = []"
| "opcodes_from i j ((ai, bj, k) # bs) =
     (if i < ai \<and> j < bj then [(Replace, i, ai, j, bj)]
      else if i < ai then [(Delete, i, ai, j, bj)]
      else if j < bj then [(Insert, i, ai, j, bj)] else []) @
     (if k \<noteq> 0 then [(Equal, ai, ai + k, bj, bj + k)] else []) @
     opcodes_from (ai + k) (bj + k) bs"

definition opcodes :: "'a list \<Rightarrow> 'a list \<Rightarrow> opcode list" where
  "opcodes a b = opcodes_from 0 0 (matching_blocks a b)"

text \<open>\<open>get_grouped_opcodes(n)\<close>.\<close>

definition trim_first :: "nat \<Rightarrow> opcode list \<Rightarrow> opcode list" where
  "trim_first n codes =
     (case codes of
        (Equal, i1, i2, j1, j2) # cs \<Rightarrow> (Equal, max i1 (i2 - n), i2, max j1 (j2 - n), j2) # cs
      | _ \<Rightarrow> codes)"

definition trim_last :: "nat \<Rightarrow> opcode list \<Rightarrow> opcode list" where
  "trim_last n codes =
     (if codes = [] then []
      else case last codes of
        (Equal, i1, i2, j1, j2) \<Rightarrow> butlast codes @ [(Equal, i1, min i2 (i1 + n), j1, min j2 (j1 + n))]
      | _ \<Rightarrow> codes)"

fun group_ops :: "nat \<Rightarrow> opcode list \<Rightarrow> opcode list \<Rightarrow> opcode list list" where
  "group_ops n g [] = (if g \<noteq> [] \<and> \<not> (length g = 1 \<and> fst (hd g) = Equal) then [g] else [])"
| "group_ops n g ((tag, i1, i2, j1, j2) # cs) =
     (if tag = Equal \<and> n + n < i2 - i1 then
        (g @ [(tag, i1, min i2 (i1 + n), j1, min j2 (j1 + n))]) #
        group_ops n [(tag, max i1 (i2 - n), i2, max j1 (j2 - n), j2)] cs
      else group_ops n (g @ [(tag, i1, i2, j1, j2)]) cs)"

definition grouped_opcodes :: "nat \<Rightarrow> 'a list \<Rightarrow> 'a list \<Rightarrow> opcode list list" where
  "grouped_opcodes n a b =
     (let codes = opcodes a b
      in group_ops n [] (trim_last n (trim_first n (if codes = [] then [(Equal, 0, 1, 0, 1)] else codes))))"

text \<open>The operations tile both sequences.\<close>

fun op_ok :: "'a list \<Rightarrow> 'a list \<Rightarrow> opcode \<Rightarrow> bool" where
  "op_ok a b (tag, i1, i2, j1, j2) \<longleftrightarrow>
     i1 \<le> i2 \<and> j1 \<le> j2 \<and> i2 \<le> length a \<and> j2 \<le> length b \<and>
     (tag = Equal \<longrightarrow> i2 - i1 = j2 - j1 \<and> slice i1 i2 a = slice j1 j2 b) \<and>
     (tag = Delete \<longrightarrow> j1 = j2) \<and> (tag = Insert \<longrightarrow> i1 = i2)"

fun tiles :: "'a list \<Rightarrow> 'a list \<Rightarrow> nat \<Rightarrow> nat \<Rightarrow> opcode list \<Rightarrow> nat \<Rightarrow> nat \<Rightarrow> bool" where
  "tiles a b i j [] i' j' \<longleftrightarrow> i = i' \<and> j = j'"
| "tiles a b i j ((tag, i1, i2, j1, j2) # ops) i' j' \<longleftrightarrow>
     i1 = i \<and> j1 = j \<and> op_ok a b (tag, i1, i2, j1, j2) \<and> tiles a b i2 j2 ops i' j'"

lemma tiles_append:
  "tiles a b i j (xs @ ys) i'' j'' \<longleftrightarrow> (\<exists>i' j'. tiles a b i j xs i' j' \<and> tiles a b i' j' ys i'' j'')"
proof (induction xs arbitrary: i j)
  case (Cons x xs)
  obtain tag i1 i2 j1 j2 where "x = (tag, i1, i2, j1, j2)" by (cases x)
  then show ?case using Cons.IH by (simp del: op_ok.simps)
qed simp

lemma tilesE:
  assumes "tiles a b i j (op # ops) i' j'"
  obtains tag i2 j2 where "op = (tag, i, i2, j, j2)" "op_ok a b (tag, i, i2, j, j2)" "tiles a b i2 j2 ops i' j'"
proof -
  obtain tag i1 i2 j1 j2 where "op = (tag, i1, i2, j1, j2)" by (cases op)
  then show ?thesis using assms that by (auto simp del: op_ok.simps)
qed

lemma chain_end: "chain a b i j bs i' j' \<Longrightarrow> i \<le> i' \<and> j \<le> j'"
  by (induction bs arbitrary: i j) force+

lemma opcodes_from_tiles:
  assumes "chain a b i j (bs @ [(i', j', 0)]) i' j'" and "i' \<le> length a" and "j' \<le> length b"
  shows "tiles a b i j (opcodes_from i j (bs @ [(i', j', 0)])) i' j'"
  using assms
proof (induction bs arbitrary: i j)
  case (Cons m bs)
  obtain x y k where m: "m = (x, y, k)" by (cases m)
  have c: "i \<le> x" "j \<le> y" "\<forall>t < k. a ! (x + t) = b ! (y + t)"
      "chain a b (x + k) (y + k) (bs @ [(i', j', 0)]) i' j'"
    using Cons.prems(1) by (simp_all add: m)
  have e: "x + k \<le> i'" "y + k \<le> j'" using chain_end [OF c(4)] by simp_all
  have eq: "slice x (x + k) a = slice y (y + k) b"
    by (rule slice_eqI) (use c e Cons.prems in auto)
  show ?case using Cons.IH [OF c(4) Cons.prems(2,3)] c(1,2) e eq Cons.prems(2,3) by (auto simp: m)
qed auto

lemma opcodes_tile: "tiles a b 0 0 (opcodes a b) (length a) (length b)"
  using opcodes_from_tiles [of a b 0 0 _ "length a" "length b"] matching_blocks_chain [of a b]
  by (simp add: opcodes_def matching_blocks_def)

section \<open>Groups\<close>

text \<open>
  Groups in order: before, between and after them the sequences are equal.
\<close>

fun groups_ok :: "'a list \<Rightarrow> 'a list \<Rightarrow> nat \<Rightarrow> nat \<Rightarrow> opcode list list \<Rightarrow> bool" where
  "groups_ok a b i j [] \<longleftrightarrow> drop i a = drop j b"
| "groups_ok a b i j (g # gs) \<longleftrightarrow>
     (\<exists>i1 j1 i2 j2. op_ok a b (Equal, i, i1, j, j1) \<and> tiles a b i1 j1 g i2 j2 \<and> g \<noteq> [] \<and>
        groups_ok a b i2 j2 gs)"

lemma equal_split:
  assumes "op_ok a b (Equal, i1, i2, j1, j2)" and "m \<le> i2 - i1"
  shows "op_ok a b (Equal, i1, i1 + m, j1, j1 + m)" "op_ok a b (Equal, i1 + m, i2, j1 + m, j2)"
proof -
  have "m \<le> j2 - j1" using assms by simp
  then have "slice i1 (i1 + m) a = take m (slice i1 i2 a)" "slice j1 (j1 + m) b = take m (slice j1 j2 b)"
    "slice (i1 + m) i2 a = drop m (slice i1 i2 a)" "slice (j1 + m) j2 b = drop m (slice j1 j2 b)"
    using assms(2) by (simp_all add: slice_cut)
  then show "op_ok a b (Equal, i1, i1 + m, j1, j1 + m)" "op_ok a b (Equal, i1 + m, i2, j1 + m, j2)"
    using assms by auto
qed

lemma equal_join:
  assumes "op_ok a b (Equal, i, i1, j, j1)" and "op_ok a b (Equal, i1, i2, j1, j2)"
  shows "op_ok a b (Equal, i, i2, j, j2)"
  using assms slice_append [of i i1 i2 a] slice_append [of j j1 j2 b] by auto

lemma equal_drop:
  assumes "op_ok a b (Equal, i, i1, j, j1)" and "drop i1 a = drop j1 b"
  shows "drop i a = drop j b"
  using assms slice_drop [of i i1 a] slice_drop [of j j1 b] by auto

lemma group_ops_ok:
  assumes "op_ok a b (Equal, i, gi, j, gj)" and "tiles a b gi gj g i1 j1" and "tiles a b i1 j1 cs i2 j2"
    and "drop i2 a = drop j2 b"
  shows "groups_ok a b i j (group_ops n g cs)"
  using assms
proof (induction n g cs arbitrary: i j gi gj i1 j1 rule: group_ops.induct)
  case (1 n g)
  then have d: "drop i1 a = drop j1 b" by simp
  show ?case
  proof (cases "g \<noteq> [] \<and> \<not> (length g = 1 \<and> fst (hd g) = Equal)")
    case True
    then show ?thesis using 1 d by (auto simp del: op_ok.simps)
  next
    case False
    have "drop gi a = drop gj b"
    proof (cases g)
      case Nil
      then show ?thesis using 1(2) d by simp
    next
      case (Cons x xs)
      then have "g = [x]" "fst x = Equal" using False by auto
      then show ?thesis using 1(2) d equal_drop by (cases x) (fastforce simp del: op_ok.simps)
    qed
    then show ?thesis using False equal_drop [OF 1(1)] by (auto simp del: op_ok.simps)
  qed
next
  case (2 n g tag x1 x2 y1 y2 cs)
  have x: "x1 = i1" "y1 = j1" "op_ok a b (tag, x1, x2, y1, y2)" "tiles a b x2 y2 cs i2 j2"
    using "2.prems"(3) by (auto simp del: op_ok.simps)
  show ?case
  proof (cases "tag = Equal \<and> n + n < x2 - x1")
    case True
    then have e: "op_ok a b (Equal, x1, x2, y1, y2)" using x(3) by simp
    have len: "x2 - x1 = y2 - y1" "x1 \<le> x2" "y1 \<le> y2" using e by simp_all
    let ?m = "x2 - x1 - n"
    have cut: "min x2 (x1 + n) = x1 + n" "min y2 (y1 + n) = y1 + n" "max x1 (x2 - n) = x1 + ?m" "max y1 (y2 - n) = y1 + ?m"
      using True len by auto
    have front: "op_ok a b (Equal, x1, x1 + n, y1, y1 + n)" and rest: "op_ok a b (Equal, x1 + n, x2, y1 + n, y2)"
      using equal_split [OF e, of n] True by (simp_all del: op_ok.simps)
    have rear: "op_ok a b (Equal, x1 + ?m, x2, y1 + ?m, y2)"
      using equal_split(2) [OF e, of ?m] by (simp del: op_ok.simps)
    have "x1 + n + (?m - n) = x1 + ?m" "y1 + n + (?m - n) = y1 + ?m" "?m - n \<le> x2 - (x1 + n)" using True by linarith+
    then have gap: "op_ok a b (Equal, x1 + n, x1 + ?m, y1 + n, y1 + ?m)"
      using equal_split(1) [OF rest, of "?m - n"] by (simp only:)
    have "groups_ok a b (x1 + n) (y1 + n) (group_ops n [(tag, x1 + ?m, x2, y1 + ?m, y2)] cs)"
      using "2.IH"(1) [OF True gap _ x(4) "2.prems"(4)] rear True by (simp add: cut del: op_ok.simps)
    moreover have "tiles a b gi gj (g @ [(tag, x1, x1 + n, y1, y1 + n)]) (x1 + n) (y1 + n)"
      using "2.prems"(2) x(1,2) front True by (auto simp: tiles_append simp del: op_ok.simps)
    ultimately show ?thesis using True "2.prems"(1) by (auto simp: cut simp del: op_ok.simps)
  next
    case False
    have "tiles a b gi gj (g @ [(tag, x1, x2, y1, y2)]) x2 y2"
      using "2.prems"(2) x by (auto simp: tiles_append simp del: op_ok.simps)
    then show ?thesis using "2.IH"(2) [OF False "2.prems"(1) _ x(4) "2.prems"(4)] False by auto
  qed
qed

lemma trim_first_tiles:
  assumes "tiles a b 0 0 codes i' j'"
  shows "\<exists>i j. op_ok a b (Equal, 0, i, 0, j) \<and> tiles a b i j (trim_first n codes) i' j'"
proof (cases "\<exists>i1 i2 j1 j2 cs. codes = (Equal, i1, i2, j1, j2) # cs")
  case True
  then obtain i2 j2 cs where c: "codes = (Equal, 0, i2, 0, j2) # cs" using assms by auto
  let ?m = "i2 - n"
  have e: "op_ok a b (Equal, 0, i2, 0, j2)" and t: "tiles a b i2 j2 cs i' j'"
    using assms by (simp_all add: c del: op_ok.simps)
  have "j2 = i2" using e by simp
  then have "op_ok a b (Equal, 0, ?m, 0, ?m)" "op_ok a b (Equal, ?m, i2, ?m, j2)"
    using equal_split [OF e, of ?m] by (simp_all del: op_ok.simps)
  then show ?thesis using t \<open>j2 = i2\<close> by (auto simp: trim_first_def c simp del: op_ok.simps)
next
  case False
  then have "trim_first n codes = codes" by (auto simp: trim_first_def split: list.splits op_tag.splits prod.splits)
  then show ?thesis using assms by (intro exI [of _ 0] conjI) simp_all
qed

lemma trim_last_tiles:
  assumes "tiles a b i j codes i' j'" and "drop i' a = drop j' b"
  shows "\<exists>i'' j''. tiles a b i j (trim_last n codes) i'' j'' \<and> drop i'' a = drop j'' b"
proof (cases "\<exists>cs i1 i2 j1 j2. codes = cs @ [(Equal, i1, i2, j1, j2)]")
  case True
  then obtain cs i1 j1 where c: "codes = cs @ [(Equal, i1, i', j1, j')]"
    and t: "tiles a b i j cs i1 j1" and e: "op_ok a b (Equal, i1, i', j1, j')"
    using assms(1) by (auto simp: tiles_append simp del: op_ok.simps)
  let ?m = "min n (i' - i1)"
  have m: "min i' (i1 + n) = i1 + ?m" "min j' (j1 + n) = j1 + ?m" using e by auto
  have "op_ok a b (Equal, i1, i1 + ?m, j1, j1 + ?m)" "op_ok a b (Equal, i1 + ?m, i', j1 + ?m, j')"
    using equal_split [OF e, of ?m] by (simp_all del: op_ok.simps)
  then have "tiles a b i j (trim_last n codes) (i1 + ?m) (j1 + ?m)" "drop (i1 + ?m) a = drop (j1 + ?m) b"
    using t equal_drop [OF _ assms(2)] by (auto simp: trim_last_def c m tiles_append simp del: op_ok.simps)
  then show ?thesis by blast
next
  case False
  have "trim_last n codes = codes"
  proof (cases codes rule: rev_cases)
    case (snoc cs x)
    obtain tag i1 i2 j1 j2 where "x = (tag, i1, i2, j1, j2)" by (cases x)
    then show ?thesis using snoc False by (cases tag) (auto simp: trim_last_def)
  qed (simp add: trim_last_def)
  then show ?thesis using assms by metis
qed

lemma grouped_opcodes_ok: "groups_ok a b 0 0 (grouped_opcodes n a b)"
proof (cases "opcodes a b = []")
  case True
  then have "a = []" "b = []" using opcodes_tile [of a b] by simp_all
  moreover have "grouped_opcodes n a b = []"
    using True by (simp add: grouped_opcodes_def trim_first_def trim_last_def)
  ultimately show ?thesis by simp
next
  case False
  obtain i j where f: "op_ok a b (Equal, 0, i, 0, j)"
      "tiles a b i j (trim_first n (opcodes a b)) (length a) (length b)"
    using trim_first_tiles [OF opcodes_tile] by blast
  then obtain i' j' where "tiles a b i j (trim_last n (trim_first n (opcodes a b))) i' j'" "drop i' a = drop j' b"
    using trim_last_tiles [OF f(2), of n] by auto
  then have "groups_ok a b 0 0 (group_ops n [] (trim_last n (trim_first n (opcodes a b))))"
    by (intro group_ops_ok [OF f(1)]) simp_all
  then show ?thesis using False by (simp add: grouped_opcodes_def)
qed

declare op_ok.simps [simp del]

end
