(* ===== verification/Patch_Text.thy ===== *)
theory Patch_Text
  imports Difflib
begin

text \<open>
  The text level of \<open>patch_ops.py\<close>: building a unified difference, parsing one, applying its
  hunks, and replacing an anchor.  Messages are constructors of \<open>reject_reason\<close>.
\<close>

datatype reject_reason =
    IsDirectory | NotUtf8 | AnchorCount nat | NoChange | SessionRequired
  | MissingOldHeader | MissingNewHeader | MultiFileDiff | MalformedHunkHeader | MarkerWithoutLine
  | HunkCountMismatch nat nat | MarkerMisplaced | NameMismatch string | HunkOutOfBounds nat nat
  | ContextMismatch nat

section \<open>Building a difference\<close>

definition BACKSLASH :: char where "BACKSLASH = CHR 0x5C"

definition no_newline_marker :: string where
  "no_newline_marker = BACKSLASH # '' No newline at end of file'' @ [LF]"

text \<open>\<open>_emit\<close>: a body line; a line without terminator gets one and the marker after it.\<close>

definition emit :: "char \<Rightarrow> string \<Rightarrow> bool \<Rightarrow> string list" where
  "emit mark line is_last_no_nl =
     (if is_last_no_nl then [mark # line @ [LF], no_newline_marker] else [mark # line])"

definition emit_range :: "char \<Rightarrow> string list \<Rightarrow> bool \<Rightarrow> nat \<Rightarrow> nat \<Rightarrow> string list" where
  "emit_range mark ls no_nl i j =
     concat (map (\<lambda>k. emit mark (ls ! k) (k + 1 = length ls \<and> no_nl)) [i ..< j])"

fun emit_op :: "string list \<Rightarrow> string list \<Rightarrow> bool \<Rightarrow> bool \<Rightarrow> opcode \<Rightarrow> string list" where
  "emit_op old new old_no_nl new_no_nl (tag, i1, i2, j1, j2) =
     (case tag of
        Equal \<Rightarrow> emit_range CHR '' '' old old_no_nl i1 i2
      | Delete \<Rightarrow> emit_range CHR ''-'' old old_no_nl i1 i2
      | Insert \<Rightarrow> emit_range CHR ''+'' new new_no_nl j1 j2
      | Replace \<Rightarrow>
          emit_range CHR ''-'' old old_no_nl i1 i2 @ emit_range CHR ''+'' new new_no_nl j1 j2)"

definition group_range :: "opcode list \<Rightarrow> nat \<times> nat \<times> nat \<times> nat" where
  "group_range g =
     (case (hd g, last g) of
        ((_, i1, _, j1, _), (_, _, i2, _, j2)) \<Rightarrow> (i1, i2, j1, j2))"

definition hunk_header :: "opcode list \<Rightarrow> string" where
  "hunk_header g =
     (case group_range g of
        (i1, i2, j1, j2) \<Rightarrow>
          ''@@ -'' @ nat_str (if i1 < i2 then i1 + 1 else 0) @ '','' @ nat_str (i2 - i1) @
          '' +'' @ nat_str (if j1 < j2 then j1 + 1 else 0) @ '','' @ nat_str (j2 - j1) @ '' @@'' @ [LF])"

definition no_nl_at_end :: "string \<Rightarrow> bool" where
  "no_nl_at_end s \<longleftrightarrow> s \<noteq> [] \<and> last s \<noteq> LF"

definition diff_parts :: "string \<Rightarrow> string \<Rightarrow> string \<Rightarrow> string list" where
  "diff_parts old new name =
     (let old_lines = splitlines_keep old; new_lines = splitlines_keep new
      in [''--- '' @ name @ [LF], ''+++ '' @ name @ [LF]] @
         concat (map (\<lambda>g. hunk_header g #
                        concat (map (emit_op old_lines new_lines (no_nl_at_end old) (no_nl_at_end new)) g))
                     (grouped_opcodes 3 old_lines new_lines)))"

definition diff_text :: "string \<Rightarrow> string \<Rightarrow> string \<Rightarrow> string" where
  "diff_text old new path = concat (diff_parts old new (path_name path))"

text \<open>\<open>_count_diff_lines\<close>: added and removed lines, counted inside the hunks.\<close>

fun count_lines :: "bool \<Rightarrow> nat \<Rightarrow> nat \<Rightarrow> string list \<Rightarrow> nat \<times> nat" where
  "count_lines in_hunk added removed [] = (added, removed)"
| "count_lines in_hunk added removed (line # ls) =
     (if prefix ''@@ '' line then count_lines True added removed ls
      else if prefix [BACKSLASH, CHR '' ''] line then count_lines in_hunk added removed ls
      else if in_hunk \<and> line \<noteq> [] \<and> hd line = CHR ''+'' then count_lines in_hunk (added + 1) removed ls
      else if in_hunk \<and> line \<noteq> [] \<and> hd line = CHR ''-'' then count_lines in_hunk added (removed + 1) ls
      else count_lines in_hunk added removed ls)"

definition count_diff_lines :: "string \<Rightarrow> nat \<times> nat" where
  "count_diff_lines difference = count_lines False 0 0 (splitlines difference)"

section \<open>Parsing a difference\<close>

definition strip_front :: "string \<Rightarrow> string \<Rightarrow> string option" where
  "strip_front p s = (if prefix p s then Some (drop (length p) s) else None)"

text \<open>One range of a hunk header: digits, then maybe a comma and digits.\<close>

definition parse_range :: "string \<Rightarrow> (nat \<times> nat option \<times> string) option" where
  "parse_range s =
     (let ds = takeWhile is_digit s; rest = dropWhile is_digit s
      in if ds = [] then None
         else case rest of
           c # rest' \<Rightarrow>
             (let ds' = takeWhile is_digit rest'
              in if c = CHR '','' \<and> ds' \<noteq> [] then Some (digits_value ds, Some (digits_value ds'), dropWhile is_digit rest')
                 else Some (digits_value ds, None, rest))
         | [] \<Rightarrow> Some (digits_value ds, None, []))"

text \<open>The regular expression of a hunk header, with the start and the length of the old side.\<close>

definition parse_header :: "string \<Rightarrow> (nat \<times> nat) option" where
  "parse_header line =
     Option.bind (strip_front ''@@ -'' line) (\<lambda>s.
     Option.bind (parse_range s) (\<lambda>(start, count, s).
     Option.bind (strip_front '' +'' s) (\<lambda>s.
     Option.bind (parse_range s) (\<lambda>(_, _, s).
     Option.bind (strip_front '' @@'' s) (\<lambda>_.
       Some (start, (case count of None \<Rightarrow> 1 | Some n \<Rightarrow> n)))))))"

type_synonym body_line = "string \<times> bool"

record hunk =
  hk_start :: nat
  hk_body :: "body_line list"

text \<open>
  The lines of one hunk: the body, the number of old side lines seen, and the lines that remain.
\<close>

fun read_body ::
    "bool \<Rightarrow> nat \<Rightarrow> string list \<Rightarrow> body_line list \<Rightarrow> nat \<Rightarrow> reject_reason + (body_line list \<times> nat \<times> string list)" where
  "read_body saw_hunk old_count [] body seen = Inr (body, seen, [])"
| "read_body saw_hunk old_count (bl # ls) body seen =
     (if prefix ''@@ '' bl then Inr (body, seen, bl # ls)
      else if prefix ''--- '' bl \<and> seen = old_count \<and> ls \<noteq> [] \<and> prefix ''+++ '' (hd ls) then Inl MultiFileDiff
      else if prefix ''--- '' bl \<and> body = [] \<and> \<not> saw_hunk then
        read_body saw_hunk old_count ls (body @ [(bl, False)]) (seen + 1)
      else if prefix [BACKSLASH, CHR '' ''] bl then
        (if body = [] then Inl MarkerWithoutLine
         else read_body saw_hunk old_count ls (butlast body @ [(fst (last body), True)]) seen)
      else if hd bl = CHR ''+'' then read_body saw_hunk old_count ls (body @ [(bl, False)]) seen
      else if hd bl = CHR ''-'' \<or> hd bl = CHR '' '' then
        read_body saw_hunk old_count ls (body @ [(bl, False)]) (seen + 1)
      else Inr (body, seen, bl # ls))"

definition is_added :: "body_line \<Rightarrow> bool" where
  "is_added l \<longleftrightarrow> prefix ''+'' (fst l)"

fun markers_ok :: "body_line list \<Rightarrow> bool" where
  "markers_ok [] = True"
| "markers_ok (l # ls) =
     ((snd l \<longrightarrow> list_all (\<lambda>l'. is_added l' \<noteq> is_added l) ls) \<and> markers_ok ls)"

lemma read_body_shrinks:
  "read_body saw n ls body seen = Inr (body', seen', rest) \<Longrightarrow> length rest \<le> length ls"
  by (induction saw n ls body seen rule: read_body.induct) (auto split: if_splits)

function parse_hunks :: "bool \<Rightarrow> string list \<Rightarrow> reject_reason + hunk list" where
  "parse_hunks saw_hunk [] = Inr []"
| "parse_hunks saw_hunk (line # ls) =
     (case parse_header line of
        None \<Rightarrow> Inl MalformedHunkHeader
      | Some (start, old_count) \<Rightarrow>
          (case read_body saw_hunk old_count ls [] 0 of
             Inl e \<Rightarrow> Inl e
           | Inr (body, seen, rest) \<Rightarrow>
               if seen \<noteq> old_count then Inl (HunkCountMismatch old_count seen)
               else if \<not> markers_ok body then Inl MarkerMisplaced
               else try_then (parse_hunks True rest)
                      (\<lambda>hunks. Inr (\<lparr>hk_start = start, hk_body = body\<rparr> # hunks))))"
  by pat_completeness auto
termination
  by (relation "measure (\<lambda>(saw, ls). length ls)") (auto dest!: read_body_shrinks)

fun skip_to_hunk :: "string list \<Rightarrow> reject_reason + string list" where
  "skip_to_hunk [] = Inr []"
| "skip_to_hunk (l # ls) =
     (if prefix ''@@ '' l then Inr (l # ls)
      else if prefix ''--- '' l then Inl MultiFileDiff else skip_to_hunk ls)"

definition parse_diff :: "string \<Rightarrow> reject_reason + hunk list" where
  "parse_diff difference =
     (case splitlines_keep difference of
        [] \<Rightarrow> Inl MissingOldHeader
      | l1 # ls \<Rightarrow>
          if \<not> prefix ''--- '' l1 then Inl MissingOldHeader
          else (case ls of
             [] \<Rightarrow> Inl MissingNewHeader
           | l2 # ls' \<Rightarrow>
               if \<not> prefix ''+++ '' l2 then Inl MissingNewHeader
               else try_then (skip_to_hunk ls') (parse_hunks False)))"

text \<open>\<open>_check_diff_filename\<close>: the names in the headers, unless they are blank.\<close>

definition strip_side :: "string \<Rightarrow> string" where
  "strip_side name =
     (if prefix ''a/'' name \<or> prefix ''b/'' name then drop 2 name else name)"

definition header_name :: "string \<Rightarrow> string" where
  "header_name line = py_strip (hd (split_on CHR 0x09 (drop 4 line)))"

definition check_name :: "string \<Rightarrow> string \<Rightarrow> reject_reason + unit" where
  "check_name target line =
     (let name = header_name line
      in if name = [] \<or> strip_side name = target then Inr () else Inl (NameMismatch (strip_side name)))"

definition check_diff_filename :: "string \<Rightarrow> string \<Rightarrow> reject_reason + unit" where
  "check_diff_filename difference path =
     (case splitlines difference of
        l1 # l2 # _ \<Rightarrow>
          if prefix ''--- '' l1 \<and> prefix ''+++ '' l2
          then try_then (check_name (path_name path) l1) (\<lambda>_. check_name (path_name path) l2)
          else Inr ()
      | _ \<Rightarrow> Inr ())"

section \<open>Applying hunks\<close>

definition strip_newlines :: "string \<Rightarrow> string" where
  "strip_newlines s = rev (dropWhile (\<lambda>c. c = CR \<or> c = LF) (rev s))"

definition line_content :: "body_line \<Rightarrow> string" where
  "line_content l = (if snd l then strip_newlines (tl (fst l)) else tl (fst l))"

fun match_body ::
    "string list \<Rightarrow> nat \<Rightarrow> body_line list \<Rightarrow> string list \<Rightarrow> reject_reason + string list" where
  "match_body old pos [] out = Inr out"
| "match_body old pos (l # ls) out =
     (if is_added l then match_body old pos ls (out @ [line_content l])
      else if length old \<le> pos \<or> old ! pos \<noteq> line_content l then Inl (ContextMismatch (pos + 1))
      else match_body old (pos + 1) ls (if prefix ''-'' (fst l) then out else out @ [line_content l]))"

definition old_len :: "body_line list \<Rightarrow> nat" where
  "old_len body = length (filter (\<lambda>l. \<not> is_added l) body)"

text \<open>Every hunk is checked against the old lines and written over the lines built so far.\<close>

fun apply_hunks :: "string list \<Rightarrow> hunk list \<Rightarrow> string list \<Rightarrow> reject_reason + string list" where
  "apply_hunks old [] new = Inr new"
| "apply_hunks old (h # hs) new =
     (let n = old_len (hk_body h); start = hk_start h - 1
      in if length old + 1 < hk_start h + n then Inl (HunkOutOfBounds (hk_start h) n)
         else try_then (match_body old start (hk_body h) [])
                (\<lambda>out. apply_hunks old hs (take start new @ out @ drop (start + n) new)))"

text \<open>The text part of \<open>apply_difference\<close> and of \<open>replace_anchor\<close>.\<close>

definition apply_text :: "string \<Rightarrow> string \<Rightarrow> string \<Rightarrow> reject_reason + string" where
  "apply_text path old difference =
     (let old_lines = splitlines_keep old
      in try_then (check_diff_filename difference path) (\<lambda>_.
         try_then (parse_diff difference) (\<lambda>hunks.
         try_then (apply_hunks old_lines hunks old_lines) (\<lambda>new_lines.
           if concat new_lines = old then Inl NoChange else Inr (concat new_lines)))))"

text \<open>
  \<open>str.count\<close> and \<open>str.replace\<close>: the pieces between the occurrences, found from the left.
\<close>

function pieces :: "string \<Rightarrow> string \<Rightarrow> string \<Rightarrow> string list" where
  "pieces sep acc s =
     (if s = [] then [rev acc]
      else if sep \<noteq> [] \<and> prefix sep s then rev acc # pieces sep [] (drop (length sep) s)
      else pieces sep (hd s # acc) (tl s))"
  by pat_completeness auto
termination
  by (relation "measure (\<lambda>(sep, acc, s). length s)") (auto simp: length_greater_0_conv [symmetric] simp del: length_greater_0_conv)

declare pieces.simps [simp del]

definition py_count :: "string \<Rightarrow> string \<Rightarrow> nat" where
  "py_count s sep = (if sep = [] then length s + 1 else length (pieces sep [] s) - 1)"

definition py_replace :: "string \<Rightarrow> string \<Rightarrow> string \<Rightarrow> string" where
  "py_replace s sep r =
     (if sep = [] then r @ concat (map (\<lambda>c. c # r) s) else join_with r (pieces sep [] s))"

definition replace_text :: "string \<Rightarrow> string \<Rightarrow> string \<Rightarrow> nat \<Rightarrow> reject_reason + string" where
  "replace_text old anchor replacement count =
     (let n = py_count old anchor; new = py_replace old anchor replacement
      in if n \<noteq> count then Inl (AnchorCount n) else if new = old then Inl NoChange else Inr new)"

end
