(* ===== verification/Patch_Facts.thy ===== *)
theory Patch_Facts
  imports Patch_Text
begin

text \<open>
  Round trip of the text level: a difference that is built, printed, parsed and applied gives the
  new text, provided every hunk but the last keeps the number of lines.
\<close>

section \<open>Lines\<close>

definition plain :: "string \<Rightarrow> bool" where
  "plain m \<longleftrightarrow> (\<forall>c \<in> set m. \<not> is_line_end c)"

definition full_line :: "string \<Rightarrow> bool" where
  "full_line l \<longleftrightarrow>
     l \<noteq> [] \<and> last l = LF \<and>
     (let m = butlast l in plain m \<or> m \<noteq> [] \<and> last m = CR \<and> plain (butlast m))"

text \<open>Every line of the text ends in LF or CRLF, the last one possibly in nothing.\<close>

definition text_ok :: "string \<Rightarrow> bool" where
  "text_ok s \<longleftrightarrow> list_all (\<lambda>l. full_line l \<or> plain l) (splitlines_keep s)"

lemma plain_simps [simp]: "plain []" "plain (c # m) \<longleftrightarrow> \<not> is_line_end c \<and> plain m"
  "plain (m @ m') \<longleftrightarrow> plain m \<and> plain m'"
  by (auto simp: plain_def)

lemma line_ends [simp]: "is_line_end LF" "is_line_end CR"
  by (simp_all add: is_line_end_def)

lemma full_line_cases:
  assumes "full_line l"
  obtains m where "plain m" "l = m @ [LF]" | m where "plain m" "l = m @ [CR, LF]"
proof -
  let ?m = "butlast l"
  from assms have l: "l = ?m @ [LF]" by (metis append_butlast_last_id full_line_def)
  show ?thesis
  proof (cases "plain ?m")
    case True
    then show ?thesis using that(1) l by metis
  next
    case False
    then have "?m = butlast ?m @ [CR]" "plain (butlast ?m)"
      using assms by (auto simp: full_line_def Let_def) (metis append_butlast_last_id)
    then show ?thesis using that(2) [of "butlast ?m"] l by (metis append.assoc append_Cons append_Nil)
  qed
qed

lemma full_lineI [simp]: "plain m \<Longrightarrow> full_line (m @ [LF])"
  by (simp add: full_line_def)

lemma full_line_Cons:
  assumes "full_line l" and "\<not> is_line_end c"
  shows "full_line (c # l)"
  using assms(1)
proof (cases rule: full_line_cases)
  case (1 m)
  then show ?thesis using assms(2) full_lineI [of "c # m"] by simp
next
  case (2 m)
  then show ?thesis using assms(2) by (simp add: full_line_def butlast_append)
qed

lemma splitlines_aux_crlf:
  "plain s \<Longrightarrow> splitlines_keep_aux acc (s @ CR # LF # t) = (rev acc @ s @ [CR, LF]) # splitlines_keep_aux [] t"
proof (induction s arbitrary: acc)
  case (Cons x s)
  moreover from this have "x \<noteq> CR" by auto
  ultimately show ?case by simp
qed simp

lemma splitlines_full: "full_line l \<Longrightarrow> splitlines_keep_aux [] (l @ t) = l # splitlines_keep_aux [] t"
  by (elim full_line_cases) (simp_all add: splitlines_aux_line splitlines_aux_crlf plain_def)

lemma splitlines_concat: "list_all full_line parts \<Longrightarrow> splitlines_keep (concat parts) = parts"
  unfolding splitlines_keep_def by (induction parts) (simp_all add: splitlines_full)

lemma concat_splitlines_aux: "concat (splitlines_keep_aux acc s) = rev acc @ s"
  by (induction acc s rule: splitlines_keep_aux.induct) (auto split: list.splits)

lemma concat_splitlines [simp]: "concat (splitlines_keep s) = s"
  by (simp add: splitlines_keep_def concat_splitlines_aux)

lemma splitlines_aux_ends:
  "list_all (\<lambda>l. l \<noteq> [] \<and> is_line_end (last l)) (butlast (splitlines_keep_aux acc s)) \<and>
   [] \<notin> set (splitlines_keep_aux acc s)"
proof (induction acc s rule: splitlines_keep_aux.induct)
  case (2 acc x xs)
  have line: "list_all (\<lambda>l. l \<noteq> [] \<and> is_line_end (last l)) (butlast (l # ls)) \<and> [] \<notin> set (l # ls)"
    if "l \<noteq> []" "is_line_end (last l)"
      "list_all (\<lambda>l. l \<noteq> [] \<and> is_line_end (last l)) (butlast ls) \<and> [] \<notin> set ls" for l ls
    using that by simp
  show ?case
  proof (cases "x = CR")
    case True
    show ?thesis
    proof (cases xs)
      case (Cons y ys)
      show ?thesis
      proof (cases "y = LF")
        case y: True
        have "splitlines_keep_aux acc (x # xs) = rev (LF # CR # acc) # splitlines_keep_aux [] ys"
          by (simp add: True Cons y)
        then show ?thesis using 2(1) [OF True Cons y] by (simp only:) (rule line, simp_all)
      next
        case y: False
        have "splitlines_keep_aux acc (x # xs) = rev (CR # acc) # splitlines_keep_aux [] (y # ys)"
          by (simp add: True Cons y)
        then show ?thesis using 2(2) [OF True Cons y] by (simp only:) (rule line, simp_all)
      qed
    qed (simp add: True)
  next
    case False
    then show ?thesis using 2(3,4) [OF False] by (cases "is_line_end x") simp_all
  qed
qed simp

lemma full_line_last: "full_line l \<Longrightarrow> l \<noteq> [] \<and> last l = LF"
  by (simp add: full_line_def)

lemma text_ok_lines:
  assumes "text_ok s" and "k < length (splitlines_keep s)"
  shows "if k + 1 = length (splitlines_keep s) \<and> no_nl_at_end s
    then plain (splitlines_keep s ! k) else full_line (splitlines_keep s ! k)"
proof -
  let ?ls = "splitlines_keep s"
  have ok: "full_line (?ls ! k) \<or> plain (?ls ! k)"
    using assms by (simp add: text_ok_def list_all_length)
  show ?thesis
  proof (cases "k + 1 = length ?ls")
    case True
    then have l: "?ls \<noteq> []" "k = length ?ls - 1" using assms(2) by auto
    then have lk: "?ls ! k = last ?ls" by (simp add: last_conv_nth)
    have ne: "last ?ls \<noteq> []"
      using splitlines_aux_ends [of "[]" s] last_in_set [OF l(1)] by (metis splitlines_keep_def)
    have "s = concat (butlast ?ls) @ last ?ls"
      by (metis append_butlast_last_id concat_append concat_splitlines l(1) concat.simps append_Nil2)
    then have "no_nl_at_end s \<longleftrightarrow> last (last ?ls) \<noteq> LF"
      using ne by (metis append_is_Nil_conv last_appendR no_nl_at_end_def)
    moreover have "plain (last ?ls) \<Longrightarrow> last (last ?ls) \<noteq> LF"
      using ne by (metis last_in_set line_ends(1) plain_def)
    ultimately show ?thesis using True ok lk full_line_last by auto
  next
    case False
    then have "butlast ?ls ! k = ?ls ! k" "k < length (butlast ?ls)" using assms(2) by (auto simp: nth_butlast)
    then have "is_line_end (last (?ls ! k))" "?ls ! k \<noteq> []"
      using splitlines_aux_ends [of "[]" s] by (auto simp: splitlines_keep_def list_all_length)
    then have "\<not> plain (?ls ! k)" using plain_def last_in_set by metis
    then show ?thesis using ok False by auto
  qed
qed

section \<open>Numbers\<close>

lemma parse_range_pair:
  assumes "rest = [] \<or> \<not> is_digit (hd rest)"
  shows "parse_range (nat_str m @ CHR '','' # nat_str n @ rest) = Some (m, Some n, rest)"
proof -
  have c: "\<not> is_digit CHR '',''" by (simp add: is_digit_def)
  have m: "takeWhile is_digit (nat_str m @ CHR '','' # nat_str n @ rest) = nat_str m"
      "dropWhile is_digit (nat_str m @ CHR '','' # nat_str n @ rest) = CHR '','' # nat_str n @ rest"
    using c nat_str_digits by (simp_all add: takeWhile_digits)
  have n: "takeWhile is_digit (nat_str n @ rest) = nat_str n" "dropWhile is_digit (nat_str n @ rest) = rest"
    using assms nat_str_digits by (simp_all add: takeWhile_digits)
  show ?thesis
    unfolding parse_range_def Let_def m using nat_str_digits [of m] nat_str_digits [of n]
    by (simp add: n digits_value_nat_str)
qed

lemma strip_front_append [simp]: "strip_front p (p @ s) = Some s"
  by (simp add: strip_front_def)

lemma parse_hunk_header:
  assumes "group_range g = (i1, i2, j1, j2)"
  shows "parse_header (hunk_header g) = Some (if i1 < i2 then i1 + 1 else 0, i2 - i1)"
proof -
  let ?new = "nat_str (if j1 < j2 then j1 + 1 else 0) @ '','' @ nat_str (j2 - j1) @ '' @@'' @ [LF]"
  have h: "hunk_header g = ''@@ -'' @ nat_str (if i1 < i2 then i1 + 1 else 0) @ '','' @ nat_str (i2 - i1) @ '' +'' @ ?new"
    by (simp add: hunk_header_def assms)
  have s: "\<not> is_digit CHR '' ''" by (simp add: is_digit_def)
  show ?thesis
    unfolding parse_header_def h strip_front_append
    by (simp add: parse_range_pair s strip_front_def)
qed

section \<open>The body of a hunk\<close>

text \<open>The parsed lines of a range of one side, and the physical lines they come from.\<close>

definition body_range :: "char \<Rightarrow> string list \<Rightarrow> bool \<Rightarrow> nat \<Rightarrow> nat \<Rightarrow> body_line list" where
  "body_range mark ls no_nl i j =
     map (\<lambda>k. let bare = (k + 1 = length ls \<and> no_nl) in (mark # ls ! k @ (if bare then [LF] else []), bare))
       [i ..< j]"

definition physical :: "body_line \<Rightarrow> string list" where
  "physical l = (if snd l then [fst l, no_newline_marker] else [fst l])"

fun body_op :: "string list \<Rightarrow> string list \<Rightarrow> bool \<Rightarrow> bool \<Rightarrow> opcode \<Rightarrow> body_line list" where
  "body_op old new old_no_nl new_no_nl (tag, i1, i2, j1, j2) =
     (case tag of
        Equal \<Rightarrow> body_range CHR '' '' old old_no_nl i1 i2
      | Delete \<Rightarrow> body_range CHR ''-'' old old_no_nl i1 i2
      | Insert \<Rightarrow> body_range CHR ''+'' new new_no_nl j1 j2
      | Replace \<Rightarrow>
          body_range CHR ''-'' old old_no_nl i1 i2 @ body_range CHR ''+'' new new_no_nl j1 j2)"

lemma emit_physical: "emit_range mark ls no_nl i j = concat (map physical (body_range mark ls no_nl i j))"
  unfolding emit_range_def body_range_def map_map
  by (intro arg_cong [where f = concat] map_cong refl) (simp add: emit_def physical_def Let_def)

lemma emit_op_physical:
  "emit_op old new on nn op = concat (map physical (body_op old new on nn op))"
  by (cases "(old, new, on, nn, op)" rule: emit_op.cases) (auto simp: emit_physical split: op_tag.splits)

lemma emit_ops_physical:
  "concat (map (emit_op old new on nn) g) = concat (map physical (concat (map (body_op old new on nn) g)))"
  by (induction g) (simp_all add: emit_op_physical)

text \<open>Lines as the text level has them: the last one may lack its terminator.\<close>

definition lines_ok :: "string list \<Rightarrow> bool \<Rightarrow> bool" where
  "lines_ok ls no_nl \<longleftrightarrow>
     (\<forall>k < length ls. if k + 1 = length ls \<and> no_nl then plain (ls ! k) else full_line (ls ! k))"

lemma lines_okI: "text_ok s \<Longrightarrow> lines_ok (splitlines_keep s) (no_nl_at_end s)"
  using text_ok_lines by (simp add: lines_ok_def)

text \<open>What the parser and the application need to know of a body line.\<close>

definition body_line_ok :: "body_line \<Rightarrow> bool" where
  "body_line_ok l \<longleftrightarrow>
     full_line (fst l) \<and> hd (fst l) \<in> {CHR '' '', CHR ''-'', CHR ''+''} \<and>
     (is_added l \<longleftrightarrow> hd (fst l) = CHR ''+'')"

lemma is_added_Cons [simp]: "is_added (c # l, b) \<longleftrightarrow> c = CHR ''+''"
  by (auto simp: is_added_def)

lemma body_range_ok:
  assumes "lines_ok ls no_nl" and "j \<le> length ls" and "mark \<in> {CHR '' '', CHR ''-'', CHR ''+''}"
  shows "list_all body_line_ok (body_range mark ls no_nl i j)"
proof -
  have e: "\<not> is_line_end mark" using assms(3) by (auto simp: is_line_end_def)
  have "body_line_ok (mark # ls ! k @ (if bare then [LF] else []), bare)"
    if "k < length ls" "bare = (k + 1 = length ls \<and> no_nl)" for k bare
  proof -
    have "full_line (ls ! k @ (if bare then [LF] else []))"
      using assms(1) that by (auto simp: lines_ok_def)
    then have "full_line (mark # ls ! k @ (if bare then [LF] else []))" using e by (rule full_line_Cons)
    then show ?thesis using assms(3) by (simp add: body_line_ok_def)
  qed
  then show ?thesis using assms(2) by (auto simp: body_range_def list_all_iff Let_def)
qed

lemma body_op_ok:
  assumes "lines_ok old on" and "lines_ok new nn" and "op_ok old new op"
  shows "list_all body_line_ok (body_op old new on nn op)"
  using assms by (cases "(old, new, op)" rule: op_ok.cases) (auto simp: body_range_ok op_ok.simps split: op_tag.splits)

declare body_op.simps [simp del]

lemma body_ops_ok:
  assumes "lines_ok old on" and "lines_ok new nn" and "tiles old new i j g i' j'"
  shows "list_all body_line_ok (concat (map (body_op old new on nn) g))"
  using assms(3)
proof (induction g arbitrary: i j)
  case (Cons op g)
  from Cons.prems show ?case
  proof (rule tilesE)
    fix tag i2 j2
    assume "op = (tag, i, i2, j, j2)" "op_ok old new (tag, i, i2, j, j2)" "tiles old new i2 j2 g i' j'"
    then show ?thesis using Cons.IH body_op_ok [OF assms(1,2)] by simp
  qed
qed simp

section \<open>Parsing a printed difference\<close>

lemma full_marker: "full_line no_newline_marker"
  by (simp add: no_newline_marker_def full_line_def plain_def BACKSLASH_def is_line_end_def)

lemma physical_full: "body_line_ok l \<Longrightarrow> list_all full_line (physical l)"
  by (simp add: physical_def body_line_ok_def full_marker)

lemma physicals_full: "list_all body_line_ok ls \<Longrightarrow> list_all full_line (concat (map physical ls))"
  by (induction ls) (simp_all add: physical_full)

lemma nat_str_plain: "plain (nat_str n)"
proof -
  have "\<not> is_line_end c" if "is_digit c" for c
    using that by (auto simp: is_digit_def is_line_end_def Let_def)
  then show ?thesis using nat_str_digits [of n] by (auto simp: plain_def list_all_iff)
qed

lemma header_full: "full_line (hunk_header g)"
proof -
  obtain i1 i2 j1 j2 where g: "group_range g = (i1, i2, j1, j2)" by (cases "group_range g")
  have "plain (''@@ -'' @ nat_str (if i1 < i2 then i1 + 1 else 0) @ '','' @ nat_str (i2 - i1) @
      '' +'' @ nat_str (if j1 < j2 then j1 + 1 else 0) @ '','' @ nat_str (j2 - j1) @ '' @@'')"
    by (simp add: nat_str_plain) (simp add: is_line_end_def)
  from full_lineI [OF this] show ?thesis by (simp add: hunk_header_def g)
qed

lemma header_prefix [simp]: "prefix ''@@ '' (hunk_header g)"
  by (simp add: hunk_header_def split: prod.splits)

lemma read_body_physical:
  assumes "list_all body_line_ok ls" and "rest = [] \<or> prefix ''@@ '' (hd rest)"
    and "seen + length (filter (\<lambda>l. \<not> is_added l) ls) \<le> n"
  shows "read_body saw n (concat (map physical ls) @ rest) body seen =
    Inr (body @ ls, seen + length (filter (\<lambda>l. \<not> is_added l) ls), rest)"
  using assms(1,3)
proof (induction ls arbitrary: body seen)
  case Nil
  show ?case using assms(2) by (cases rest) simp_all
next
  case (Cons l ls)
  obtain bl bare where l: "l = (bl, bare)" by (cases l)
  obtain c cs where bl: "bl = c # cs" using Cons.prems(1) by (cases bl) (simp_all add: l body_line_ok_def full_line_def)
  let ?seen = "if is_added l then seen else seen + 1"
  have c: "c \<in> {CHR '' '', CHR ''-'', CHR ''+''}" "is_added l \<longleftrightarrow> c = CHR ''+''"
    using Cons.prems(1) by (auto simp: l bl body_line_ok_def)
  have step: "read_body saw n (bl # others) body seen = read_body saw n others (body @ [(bl, False)]) ?seen" for others
  proof -
    have "\<not> (prefix ''--- '' bl \<and> seen = n \<and> others \<noteq> [] \<and> prefix ''+++ '' (hd others))"
      using Cons.prems(2) c by (auto simp: bl split: if_splits)
    then show ?thesis using c by (auto simp: bl BACKSLASH_def)
  qed
  have mark: "read_body saw n (physical l @ others) body seen = read_body saw n others (body @ [l]) ?seen" for others
    using step by (cases bare) (simp_all add: l physical_def no_newline_marker_def BACKSLASH_def)
  have "read_body saw n (concat (map physical ls) @ rest) (body @ [l]) ?seen =
      Inr ((body @ [l]) @ ls, ?seen + length (filter (\<lambda>l. \<not> is_added l) ls), rest)"
    using Cons.prems by (intro Cons.IH) (auto split: if_splits)
  then show ?case by (simp add: mark split: if_splits)
qed

lemma is_added_range [simp]:
  "filter is_added (body_range c ls b i j) = (if c = CHR ''+'' then body_range c ls b i j else [])"
  "filter (\<lambda>l. \<not> is_added l) (body_range c ls b i j) = (if c = CHR ''+'' then [] else body_range c ls b i j)"
  "length (body_range c ls b i j) = j - i"
  by (auto simp: body_range_def filter_empty_conv filter_id_conv Let_def)

text \<open>The old side of a body is its part of the old lines.\<close>

lemma old_len_append [simp]: "old_len (xs @ ys) = old_len xs + old_len ys" "old_len [] = 0"
  by (simp_all add: old_len_def)

lemma old_len_op:
  "op_ok old new (tag, i, i2, j, j2) \<Longrightarrow> old_len (body_op old new on nn (tag, i, i2, j, j2)) = i2 - i \<and> i \<le> i2"
  by (cases tag) (simp_all add: old_len_def body_op.simps op_ok.simps)

lemma old_len_ops:
  "tiles old new i j g i' j' \<Longrightarrow> old_len (concat (map (body_op old new on nn) g)) = i' - i \<and> i \<le> i'"
proof (induction g arbitrary: i j)
  case (Cons op g)
  from Cons.prems show ?case
  proof (rule tilesE)
    fix tag i2 j2
    assume "op = (tag, i, i2, j, j2)" "op_ok old new (tag, i, i2, j, j2)" "tiles old new i2 j2 g i' j'"
    then show ?thesis using Cons.IH [of i2 j2] old_len_op [of old new tag i i2 j j2 on nn] by simp
  qed
qed simp

text \<open>Markers stand on the last line of their side.\<close>

lemma markers_append:
  "markers_ok (xs @ ys) \<longleftrightarrow>
   markers_ok xs \<and> markers_ok ys \<and> (\<forall>x \<in> set xs. snd x \<longrightarrow> (\<forall>y \<in> set ys. is_added y \<noteq> is_added x))"
  by (induction xs) (auto simp: list_all_iff)

lemma markers_range: "j \<le> length ls \<Longrightarrow> markers_ok (body_range c ls b i j)"
proof (induction "j - i" arbitrary: i)
  case (Suc d)
  then have "[i ..< j] = i # [i + 1 ..< j]" "i < j" by (simp_all add: upt_conv_Cons)
  then have "body_range c ls b i j =
      (let bare = (i + 1 = length ls \<and> b) in (c # ls ! i @ (if bare then [LF] else []), bare)) # body_range c ls b (i + 1) j"
    by (simp add: body_range_def)
  moreover have "i + 1 = length ls \<Longrightarrow> body_range c ls b (i + 1) j = []"
    using Suc.prems by (simp add: body_range_def)
  moreover have "markers_ok (body_range c ls b (i + 1) j)" using Suc by simp
  ultimately show ?case by (cases "i + 1 = length ls") (simp_all add: Let_def)
qed (simp add: body_range_def)

lemma range_marked:
  "l \<in> set (body_range c ls b i j) \<Longrightarrow> snd l \<Longrightarrow> j \<le> length ls \<Longrightarrow> j = length ls \<and> (is_added l \<longleftrightarrow> c = CHR ''+'')"
  by (auto simp: body_range_def Let_def)

lemma range_added: "l \<in> set (body_range c ls b i j) \<Longrightarrow> (is_added l \<longleftrightarrow> c = CHR ''+'') \<and> i < j"
  by (auto simp: body_range_def Let_def)

lemma op_markers:
  assumes "op_ok old new (tag, i, i2, j, j2)"
  shows "markers_ok (body_op old new on nn (tag, i, i2, j, j2)) \<and>
    (\<forall>l \<in> set (body_op old new on nn (tag, i, i2, j, j2)). snd l \<longrightarrow>
       (if is_added l then j2 = length new else i2 = length old))"
  using assms
  by (cases tag) (auto simp: body_op.simps op_ok.simps markers_append markers_range dest: range_marked range_added)

lemma op_sides:
  assumes "op_ok old new (tag, i, i2, j, j2)" and "l \<in> set (body_op old new on nn (tag, i, i2, j, j2))"
  shows "if is_added l then j < j2 else i < i2"
  using assms by (cases tag) (auto simp: body_op.simps op_ok.simps dest: range_added)

lemma tiles_bounds: "tiles a b i j g i' j' \<Longrightarrow> i \<le> i' \<and> j \<le> j'"
proof (induction g arbitrary: i j)
  case (Cons op g)
  from Cons.prems show ?case
  proof (rule tilesE)
    fix tag i2 j2
    assume "op_ok a b (tag, i, i2, j, j2)" "tiles a b i2 j2 g i' j'"
    then show ?thesis using Cons.IH by (force simp: op_ok.simps)
  qed
qed simp

lemma tiles_length: "tiles a b i j g i' j' \<Longrightarrow> g \<noteq> [] \<Longrightarrow> i' \<le> length a \<and> j' \<le> length b"
proof (induction g arbitrary: i j)
  case (Cons op g)
  from Cons.prems(1) show ?case
  proof (rule tilesE)
    fix tag i2 j2
    assume "op_ok a b (tag, i, i2, j, j2)" "tiles a b i2 j2 g i' j'"
    then show ?thesis using Cons.IH by (cases g) (auto simp: op_ok.simps)
  qed
qed simp

lemma ops_sides:
  assumes "tiles old new i j g i' j'" and "l \<in> set (concat (map (body_op old new on nn) g))"
  shows "if is_added l then j < length new else i < length old"
  using assms
proof (induction g arbitrary: i j)
  case (Cons op g)
  from Cons.prems(1) show ?case
  proof (rule tilesE)
    fix tag i2 j2
    assume o: "op = (tag, i, i2, j, j2)" "op_ok old new (tag, i, i2, j, j2)" "tiles old new i2 j2 g i' j'"
    then have "i \<le> i2" "j \<le> j2" "i2 \<le> length old" "j2 \<le> length new" by (simp_all add: op_ok.simps)
    then show ?thesis
      using Cons.IH [OF o(3)] Cons.prems(2) op_sides [OF o(2), of l on nn] o(1) by (fastforce split: if_splits)
  qed
qed simp

lemma ops_markers:
  "tiles old new i j g i' j' \<Longrightarrow> markers_ok (concat (map (body_op old new on nn) g))"
proof (induction g arbitrary: i j)
  case (Cons op g)
  from Cons.prems show ?case
  proof (rule tilesE)
    fix tag i2 j2
    assume o: "op = (tag, i, i2, j, j2)" "op_ok old new (tag, i, i2, j, j2)" "tiles old new i2 j2 g i' j'"
    have "is_added y \<noteq> is_added x"
      if "x \<in> set (body_op old new on nn op)" "snd x" "y \<in> set (concat (map (body_op old new on nn) g))" for x y
      using op_markers [OF o(2), of on nn] ops_sides [OF o(3) that(3)] that(1,2) o(1)
      by (fastforce split: if_splits)
    then show ?thesis using op_markers [OF o(2), of on nn] Cons.IH [OF o(3)] o(1)
      by (simp add: markers_append)
  qed
qed simp

section \<open>Applying a parsed difference\<close>

lemma strip_newlines_plain: "plain l \<Longrightarrow> strip_newlines (l @ [LF]) = l"
proof -
  assume "plain l"
  then have "dropWhile (\<lambda>c. c = CR \<or> c = LF) (rev l) = rev l"
    by (intro dropWhile_none) (auto simp: plain_def)
  then show ?thesis by (simp add: strip_newlines_def)
qed

lemma range_contents:
  assumes "lines_ok ls no_nl" and "j \<le> length ls"
  shows "map line_content (body_range c ls no_nl i j) = slice i j ls"
proof (rule nth_equalityI)
  show "length (map line_content (body_range c ls no_nl i j)) = length (slice i j ls)"
    using assms(2) by simp
  fix k assume k: "k < length (map line_content (body_range c ls no_nl i j))"
  let ?k = "i + k"
  have "?k < length ls" using k assms(2) by simp
  then have "if ?k + 1 = length ls \<and> no_nl then plain (ls ! ?k) else full_line (ls ! ?k)"
    using assms(1) unfolding lines_ok_def by blast
  then have "line_content (let bare = (?k + 1 = length ls \<and> no_nl) in (c # ls ! ?k @ (if bare then [LF] else []), bare)) = ls ! ?k"
    by (auto simp: line_content_def Let_def strip_newlines_plain)
  then show "map line_content (body_range c ls no_nl i j) ! k = slice i j ls ! k"
    using k assms(2) by (simp add: body_range_def slice_def)
qed

lemma match_added:
  "list_all is_added ls \<Longrightarrow> match_body old pos (ls @ others) out = match_body old pos others (out @ map line_content ls)"
  by (induction ls arbitrary: out) auto

lemma match_kept:
  assumes "map line_content ls = slice pos j old" and "j \<le> length old" and "pos \<le> j"
    and "list_all (\<lambda>l. \<not> is_added l) ls" and "list_all (\<lambda>l. prefix ''-'' (fst l) = removed) ls"
  shows "match_body old pos (ls @ others) out =
    match_body old j others (if removed then out else out @ map line_content ls)"
  using assms
proof (induction ls arbitrary: pos out)
  case Nil
  then have "min (j - pos) (length old - pos) = 0" by (metis length_slice list.map(1) list.size(3))
  then have "pos = j" using Nil.prems(2,3) by linarith
  then show ?case by simp
next
  case (Cons l ls)
  then have "slice pos j old \<noteq> []" by (metis list.distinct(1) list.map_disc_iff)
  then have "pos < j" by (metis not_less slice_empty)
  then have "slice pos j old = old ! pos # slice (pos + 1) j old"
    using Cons.prems(2) by (simp add: slice_def Cons_nth_drop_Suc [symmetric] take_Cons' Suc_diff_Suc)
  then have "old ! pos = line_content l" "map line_content ls = slice (pos + 1) j old"
    using Cons.prems(1) by simp_all
  then show ?case using Cons \<open>pos < j\<close> by simp
qed

lemma range_marks:
  "list_all (\<lambda>l. is_added l = (c = CHR ''+'')) (body_range c ls b i j)"
  "list_all (\<lambda>l. prefix ''-'' (fst l) = (c = CHR ''-'')) (body_range c ls b i j)"
  by (auto simp: body_range_def list_all_iff Let_def)

lemma match_op:
  assumes "op_ok old new (tag, i, i2, j, j2)" and "lines_ok old on" and "lines_ok new nn"
  shows "match_body old i (body_op old new on nn (tag, i, i2, j, j2) @ others) out =
    match_body old i2 others (out @ slice j j2 new)"
proof -
  have b: "i \<le> i2" "i2 \<le> length old" "j2 \<le> length new" using assms(1) by (simp_all add: op_ok.simps)
  have added: "match_body old k (body_range CHR ''+'' new nn j j2 @ others) out = match_body old k others (out @ slice j j2 new)"
    for k others out
    using match_added [of "body_range CHR ''+'' new nn j j2"] range_marks(1) [of "CHR ''+''" new nn j j2]
      range_contents [OF assms(3) b(3)] by simp
  have kept: "match_body old i (body_range c old on i i2 @ others) out =
      match_body old i2 others (if c = CHR ''-'' then out else out @ slice i i2 old)" if "c \<noteq> CHR ''+''" for c others out
    using match_kept [OF range_contents [OF assms(2) b(2)] b(2,1)] that
      range_marks [of c old on i i2] range_contents [OF assms(2) b(2)] by simp
  show ?thesis
    using assms(1) by (cases tag) (auto simp: body_op.simps op_ok.simps added kept)
qed

lemma match_ops:
  assumes "tiles old new i j g i' j'" and "lines_ok old on" and "lines_ok new nn"
  shows "match_body old i (concat (map (body_op old new on nn) g)) out = Inr (out @ slice j j' new)"
  using assms(1)
proof (induction g arbitrary: i j out)
  case (Cons op g)
  from Cons.prems show ?case
  proof (rule tilesE)
    fix tag i2 j2
    assume o: "op = (tag, i, i2, j, j2)" "op_ok old new (tag, i, i2, j, j2)" "tiles old new i2 j2 g i' j'"
    have "j \<le> j2" "j2 \<le> j'" using o(2) tiles_bounds [OF o(3)] by (simp_all add: op_ok.simps)
    then show ?thesis
      using match_op [OF o(2) assms(2,3)] Cons.IH [OF o(3)] by (simp add: o(1) slice_append)
  qed
qed simp

text \<open>The hunk of a group.\<close>

definition group_hunk :: "string list \<Rightarrow> string list \<Rightarrow> bool \<Rightarrow> bool \<Rightarrow> opcode list \<Rightarrow> hunk" where
  "group_hunk old new on nn g =
     (case group_range g of
        (i1, i2, j1, j2) \<Rightarrow>
          \<lparr>hk_start = (if i1 < i2 then i1 + 1 else 0), hk_body = concat (map (body_op old new on nn) g)\<rparr>)"

definition keeps_length :: "opcode list \<Rightarrow> bool" where
  "keeps_length g \<longleftrightarrow> (case group_range g of (i1, i2, j1, j2) \<Rightarrow> i2 - i1 = j2 - j1)"

definition starts_ok :: "opcode list \<Rightarrow> bool" where
  "starts_ok g \<longleftrightarrow> (case hd g of (tag, i1, i2, j1, j2) \<Rightarrow> i1 < i2 \<or> i1 = 0)"

lemma tiles_last: "tiles a b i j g i' j' \<Longrightarrow> g \<noteq> [] \<Longrightarrow> \<exists>tag i1 j1. last g = (tag, i1, i', j1, j')"
proof (induction g arbitrary: i j)
  case (Cons op g)
  from Cons.prems(1) show ?case
  proof (rule tilesE)
    fix tag i2 j2
    assume "op = (tag, i, i2, j, j2)" "tiles a b i2 j2 g i' j'"
    then show ?thesis using Cons.IH by (cases g) auto
  qed
qed simp

lemma tiles_range: "tiles a b i j g i' j' \<Longrightarrow> g \<noteq> [] \<Longrightarrow> group_range g = (i, i', j, j')"
  using tiles_last [of a b i j g i' j'] by (cases g) (force simp: group_range_def)+

lemma tiles_start:
  assumes "tiles a b i j g i' j'" and "g \<noteq> []" and "starts_ok g"
  shows "i < i' \<or> i = 0"
proof -
  obtain op ops where g: "g = op # ops" using assms(2) by (cases g) auto
  from assms(1) [unfolded g] show ?thesis
  proof (rule tilesE)
    fix tag i2 j2
    assume "op = (tag, i, i2, j, j2)" "tiles a b i2 j2 ops i' j'"
    then show ?thesis using assms(3) tiles_bounds [of a b i2 j2 ops i' j'] by (auto simp: starts_ok_def g)
  qed
qed

text \<open>
  The hunks written one after the other: as long as every hunk so far kept the number of lines,
  the lines built are a new front and an old rest.
\<close>

lemma apply_groups:
  assumes "groups_ok old new i i gs" and "list_all starts_ok gs" and "list_all keeps_length (butlast gs)"
    and "lines_ok old on" and "lines_ok new nn" and "i \<le> length old" and "i \<le> length new"
  shows "apply_hunks old (map (group_hunk old new on nn) gs) (take i new @ drop i old) = Inr new"
  using assms(1-3,6,7)
proof (induction gs arbitrary: i)
  case (Cons g gs)
  obtain i1 j1 i2 j2 where g: "op_ok old new (Equal, i, i1, i, j1)" "tiles old new i1 j1 g i2 j2" "g \<noteq> []"
      "groups_ok old new i2 j2 gs"
    using Cons.prems(1) by auto
  have j1: "j1 = i1" "i \<le> i1" using g(1) by (auto simp: op_ok.simps)
  then have gap: "slice i i1 old = slice i i1 new" using g(1) by (simp add: op_ok.simps)
  have b: "i1 \<le> i2" "j1 \<le> j2" "i2 \<le> length old" "j2 \<le> length new"
    using tiles_bounds [OF g(2)] tiles_length [OF g(2,3)] by simp_all
  have r: "group_range g = (i1, i2, j1, j2)" by (rule tiles_range [OF g(2,3)])
  let ?h = "group_hunk old new on nn g" and ?built = "take i new @ drop i old"
  have h: "hk_body ?h = concat (map (body_op old new on nn) g)" "hk_start ?h - 1 = i1"
      "hk_start ?h + (i2 - i1) \<le> length old + 1"
    using tiles_start [OF g(2,3)] Cons.prems(2) b by (auto simp: group_hunk_def r)
  have n: "old_len (hk_body ?h) = i2 - i1" using old_len_ops [OF g(2)] by (simp add: h(1))
  have front: "take i1 ?built = take i1 new"
  proof -
    have "take i1 ?built = take i new @ slice i i1 old"
      using j1(2) Cons.prems(4,5) by (simp add: slice_def min_absorb2)
    then show ?thesis using gap take_slice [OF j1(2), of new] by simp
  qed
  have rest: "drop i2 ?built = drop i2 old"
    using j1(2) b(1) Cons.prems(4,5) by (simp add: add.commute)
  have out: "match_body old i1 (hk_body ?h) [] = Inr (slice i1 j2 new)"
    using match_ops [OF g(2) assms(4,5), of "[]"] by (simp add: h(1) j1(1))
  have inside: "\<not> length old + 1 < hk_start ?h + (i2 - i1)" and i2: "i1 + (i2 - i1) = i2"
    using h(3) b(1) by simp_all
  have "take i1 new @ slice i1 j2 new = take j2 new" using take_slice b(2) j1(1) by simp
  then have step: "apply_hunks old (map (group_hunk old new on nn) (g # gs)) ?built =
      apply_hunks old (map (group_hunk old new on nn) gs) (take j2 new @ drop i2 old)"
    using inside
    by (simp only: list.map apply_hunks.simps Let_def n h(2) i2 out front rest try_then.simps if_False
        append_assoc [symmetric])
  show ?case
  proof (cases gs)
    case Nil
    then have "drop i2 old = drop j2 new" using g(4) by simp
    then show ?thesis using step Nil by simp
  next
    case (Cons g' gs')
    then have "keeps_length g" using Cons.prems(3) by simp
    then have "i2 = j2" using j1(1) b by (simp add: keeps_length_def r)
    then show ?thesis using step Cons.IH [of i2] Cons g(4) Cons.prems(2,3) b by simp
  qed
qed simp

section \<open>Where groups start\<close>

lemma starts_ok_simps [simp]:
  "starts_ok ((tag, i1, i2, j1, j2) # g) \<longleftrightarrow> i1 < i2 \<or> i1 = 0"
  by (simp add: starts_ok_def)

lemma starts_ok_append: "g \<noteq> [] \<Longrightarrow> starts_ok (g @ h) = starts_ok g"
  by (simp add: starts_ok_def)

lemma group_ops_starts:
  assumes "if g = [] then cs = [] \<or> starts_ok cs else starts_ok g" and "0 < n"
  shows "list_all starts_ok (group_ops n g cs)"
  using assms
proof (induction n g cs rule: group_ops.induct)
  case (2 n g tag i1 i2 j1 j2 cs)
  show ?case
  proof (cases "tag = Equal \<and> n + n < i2 - i1")
    case True
    have "starts_ok [(tag, max i1 (i2 - n), i2, max j1 (j2 - n), j2)]" using True \<open>0 < n\<close> by auto
    moreover have "starts_ok (g @ [(tag, i1, min i2 (i1 + n), j1, min j2 (j1 + n))])"
      using "2.prems" True by (cases "g = []") (auto simp: starts_ok_append)
    ultimately show ?thesis using "2.IH"(1) [OF True] True \<open>0 < n\<close> by simp
  next
    case False
    then show ?thesis
      using "2.IH"(2) [OF False] "2.prems" by (cases "g = []") (auto simp: starts_ok_append)
  qed
qed auto

lemma trim_first_starts:
  assumes "tiles a b 0 0 codes i' j'" and "0 < n"
  shows "trim_first n codes = [] \<or> starts_ok (trim_first n codes)"
proof (cases codes)
  case (Cons op ops)
  from assms(1) [unfolded Cons] show ?thesis
    by (elim tilesE) (use assms(2) in \<open>auto simp: trim_first_def Cons split: op_tag.splits\<close>)
qed (simp add: trim_first_def)

lemma trim_last_starts:
  assumes "codes = [] \<or> starts_ok codes" and "0 < n"
  shows "trim_last n codes = [] \<or> starts_ok (trim_last n codes)"
proof (cases codes rule: rev_cases)
  case (snoc cs x)
  obtain tag i1 i2 j1 j2 where x: "x = (tag, i1, i2, j1, j2)" by (cases x)
  show ?thesis
    using assms by (cases tag; cases "cs = []") (auto simp: trim_last_def snoc x starts_ok_append)
qed (simp add: trim_last_def)

lemma grouped_starts: "list_all starts_ok (grouped_opcodes 3 a b)"
proof (cases "opcodes a b = []")
  case True
  then show ?thesis by (simp add: grouped_opcodes_def trim_first_def trim_last_def)
next
  case False
  have "trim_last 3 (trim_first 3 (opcodes a b)) = [] \<or> starts_ok (trim_last 3 (trim_first 3 (opcodes a b)))"
    by (intro trim_last_starts trim_first_starts [OF opcodes_tile]) simp_all
  then show ?thesis using False by (simp add: grouped_opcodes_def group_ops_starts)
qed

section \<open>The round trip\<close>

definition group_parts :: "string list \<Rightarrow> string list \<Rightarrow> bool \<Rightarrow> bool \<Rightarrow> opcode list \<Rightarrow> string list" where
  "group_parts old new on nn g = hunk_header g # concat (map (emit_op old new on nn) g)"

lemma parse_groups:
  assumes "groups_ok old new i j gs" and "lines_ok old on" and "lines_ok new nn"
  shows "parse_hunks saw (concat (map (group_parts old new on nn) gs)) = Inr (map (group_hunk old new on nn) gs)"
  using assms(1)
proof (induction gs arbitrary: i j saw)
  case (Cons g gs)
  obtain i1 j1 i2 j2 where g: "tiles old new i1 j1 g i2 j2" "g \<noteq> []" "groups_ok old new i2 j2 gs"
    using Cons.prems by auto
  have r: "group_range g = (i1, i2, j1, j2)" by (rule tiles_range [OF g(1,2)])
  let ?body = "concat (map (body_op old new on nn) g)" and ?rest = "concat (map (group_parts old new on nn) gs)"
  have "?rest = [] \<or> prefix ''@@ '' (hd ?rest)" by (cases gs) (simp_all add: group_parts_def)
  then have "read_body saw (i2 - i1) (concat (map physical ?body) @ ?rest) [] 0 = Inr (?body, i2 - i1, ?rest)"
    using read_body_physical [of ?body ?rest 0 "i2 - i1" saw "[]"] body_ops_ok [OF assms(2,3) g(1)] old_len_ops [OF g(1), of on nn]
    by (simp add: old_len_def)
  moreover have "markers_ok ?body" by (rule ops_markers [OF g(1)])
  moreover have "group_parts old new on nn g = hunk_header g # concat (map physical ?body)"
    by (simp only: group_parts_def emit_ops_physical)
  moreover have "group_hunk old new on nn g = \<lparr>hk_start = (if i1 < i2 then i1 + 1 else 0), hk_body = ?body\<rparr>"
    by (simp add: group_hunk_def r)
  ultimately show ?case
    using Cons.IH [OF g(3), of True] by (simp add: parse_hunk_header [OF r])
qed simp

definition name_ok :: "string \<Rightarrow> bool" where
  "name_ok name \<longleftrightarrow> plain name \<and> CHR 0x09 \<notin> set name \<and> py_strip name = name"

lemma path_name_no_slash: "CHR ''/'' \<notin> set (path_name p)"
proof (cases "path_parts p = []")
  case False
  then have "path_name p \<in> set (split_on CHR ''/'' p)"
    using last_in_set [OF False] by (auto simp: path_name_def path_parts_def)
  then show ?thesis by (rule split_on_field)
qed (simp add: path_name_def)

lemma check_own_name:
  assumes "name_ok name" and "CHR ''/'' \<notin> set name"
  shows "check_name name (c # c # c # CHR '' '' # name) = Inr ()"
proof -
  have "header_name (c # c # c # CHR '' '' # name) = name"
    using assms(1) by (simp add: header_name_def name_ok_def split_on_no_sep)
  moreover have "strip_side name = name" using assms(2) by (auto simp: strip_side_def prefix_def)
  ultimately show ?thesis by (simp add: check_name_def Let_def)
qed

lemma diff_parts_groups:
  "diff_parts old new name =
   (''--- '' @ name @ [LF]) # (''+++ '' @ name @ [LF]) #
   concat (map (group_parts (splitlines_keep old) (splitlines_keep new) (no_nl_at_end old) (no_nl_at_end new))
     (grouped_opcodes 3 (splitlines_keep old) (splitlines_keep new)))"
  by (simp add: diff_parts_def group_parts_def [abs_def] Let_def)

lemma groups_full:
  assumes "groups_ok old new i j gs" and "lines_ok old on" and "lines_ok new nn"
  shows "list_all full_line (concat (map (group_parts old new on nn) gs))"
  using assms(1)
proof (induction gs arbitrary: i j)
  case (Cons g gs)
  then obtain i1 j1 i2 j2 where "tiles old new i1 j1 g i2 j2" "groups_ok old new i2 j2 gs" by auto
  then show ?case
    using Cons.IH physicals_full [OF body_ops_ok [OF assms(2,3)]]
    by (simp add: group_parts_def header_full emit_ops_physical)
qed simp

lemma diff_lines:
  assumes "text_ok old" and "text_ok new" and "plain (path_name path)"
  shows "splitlines_keep (diff_text old new path) = diff_parts old new (path_name path)"
proof -
  have "list_all full_line (diff_parts old new (path_name path))"
    using groups_full [OF grouped_opcodes_ok lines_okI lines_okI, OF assms(1,2)]
      full_lineI [of "''--- '' @ path_name path"] full_lineI [of "''+++ '' @ path_name path"] assms(3)
    by (simp add: diff_parts_groups) (simp add: is_line_end_def)
  then show ?thesis by (simp add: diff_text_def splitlines_concat)
qed

text \<open>
  C16: A difference that \<open>diff_text\<close> prints is parsed and applied by \<open>apply_difference\<close> with the
  new text as the result, for texts whose lines end in LF or CRLF (the last one possibly in
  nothing) and a file name without control characters and outer blanks, provided that every
  hunk but the last keeps the number of lines.
\<close>
theorem difference_round_trip:
  assumes "text_ok old" and "text_ok new" and "old \<noteq> new" and "name_ok (path_name path)"
    and "list_all keeps_length (butlast (grouped_opcodes 3 (splitlines_keep old) (splitlines_keep new)))"
  shows "apply_text path old (diff_text old new path) = Inr new"
proof -
  let ?old = "splitlines_keep old" and ?new = "splitlines_keep new" and ?name = "path_name path"
  let ?on = "no_nl_at_end old" and ?nn = "no_nl_at_end new" and ?gs = "grouped_opcodes 3 (splitlines_keep old) (splitlines_keep new)"
  have name: "plain ?name" using assms(4) by (simp add: name_ok_def)
  note lines = diff_lines [OF assms(1,2) name]
  have "chop_line_end (''--- '' @ ?name @ [LF]) = ''--- '' @ ?name" "chop_line_end (''+++ '' @ ?name @ [LF]) = ''+++ '' @ ?name"
    using chop_line_end_simps(2) [of "''--- '' @ ?name"] chop_line_end_simps(2) [of "''+++ '' @ ?name"] name
    by (simp_all add: plain_def is_line_end_def)
  then have check: "check_diff_filename (diff_text old new path) path = Inr ()"
    using check_own_name [OF assms(4) path_name_no_slash]
    by (simp add: check_diff_filename_def splitlines_def lines diff_parts_groups)
  have skip: "skip_to_hunk (concat (map (group_parts ?old ?new ?on ?nn) ?gs)) = Inr (concat (map (group_parts ?old ?new ?on ?nn) ?gs))"
    by (cases ?gs) (simp_all add: group_parts_def)
  have parse: "parse_diff (diff_text old new path) = Inr (map (group_hunk ?old ?new ?on ?nn) ?gs)"
    using parse_groups [OF grouped_opcodes_ok lines_okI lines_okI, OF assms(1,2)]
    by (simp add: parse_diff_def lines diff_parts_groups skip)
  have "apply_hunks ?old (map (group_hunk ?old ?new ?on ?nn) ?gs) ?old = Inr ?new"
    using apply_groups [OF grouped_opcodes_ok grouped_starts assms(5) lines_okI lines_okI, OF assms(1,2)] by simp
  then show ?thesis using assms(3) by (simp add: apply_text_def check parse)
qed

section \<open>Replacing an anchor\<close>

lemma pieces_not_Nil [simp]: "pieces sep acc s \<noteq> []"
  by (induction sep acc s rule: pieces.induct) (subst pieces.simps, simp)

lemma join_pieces: "sep \<noteq> [] \<Longrightarrow> join_with sep (pieces sep acc s) = rev acc @ s"
proof (induction sep acc s rule: pieces.induct)
  case (1 sep acc s)
  show ?case
  proof (cases "s = []")
    case True
    then show ?thesis by (simp add: pieces.simps)
  next
    case False
    show ?thesis
    proof (cases "prefix sep s")
      case True
      obtain p ps where "pieces sep [] (drop (length sep) s) = p # ps"
        using pieces_not_Nil by (cases "pieces sep [] (drop (length sep) s)") auto
      moreover have "sep @ drop (length sep) s = s" using True by (auto simp: prefix_def)
      ultimately show ?thesis using 1(1) [OF False] 1(3) True False by (subst pieces.simps) simp
    next
      case no: False
      then show ?thesis using 1(2) [OF False] 1(3) False by (subst pieces.simps) (simp add: no)
    qed
  qed
qed

text \<open>No piece contains the separator: occurrences are found from the left.\<close>

lemma pieces_free:
  assumes "sep \<noteq> []" and "\<forall>i < length acc. \<not> prefix sep (drop i (rev acc @ s))" and "p \<in> set (pieces sep acc s)"
  shows "\<not> sublist sep p"
  using assms
proof (induction sep acc s rule: pieces.induct)
  case (1 sep acc s)
  have here: "\<not> sublist sep (rev acc)"
  proof
    assume "sublist sep (rev acc)"
    then obtain us vs where u: "rev acc = us @ sep @ vs" by (auto simp: sublist_def)
    then have "length us + length sep + length vs = length acc" by (metis add.assoc length_append length_rev)
    then have "length us < length acc" using "1.prems"(1) by (cases sep) auto
    moreover have "prefix sep (drop (length us) (rev acc @ s))" by (simp add: u)
    ultimately show False using "1.prems"(2) by blast
  qed
  show ?case
  proof (cases "s = []")
    case True
    then show ?thesis using here "1.prems"(3) by (simp add: pieces.simps)
  next
    case False
    show ?thesis
    proof (cases "prefix sep s")
      case True
      then have "p = rev acc \<or> p \<in> set (pieces sep [] (drop (length sep) s))"
        using "1.prems"(1,3) False by (subst (asm) pieces.simps) simp
      then show ?thesis using here "1.IH"(1) [OF False] True "1.prems"(1) by auto
    next
      case no: False
      have "\<not> prefix sep (drop i (rev (hd s # acc) @ tl s))" if "i < length (hd s # acc)" for i
        using that "1.prems"(2) no False by (cases "i = length acc") auto
      moreover have "p \<in> set (pieces sep (hd s # acc) (tl s))"
        using "1.prems"(3) False no by (subst (asm) pieces.simps) simp
      ultimately show ?thesis using "1.IH"(2) [OF False] no "1.prems"(1) by blast
    qed
  qed
qed

text \<open>
  An accepted anchor replacement cuts the old text at exactly the expected number of
  occurrences of the anchor, found from the left, and joins the same pieces with the replacement.
\<close>
theorem anchor_replaced:
  assumes "replace_text old anchor replacement count = Inr new" and "anchor \<noteq> []"
  shows "\<exists>ps. length ps = count + 1 \<and> old = join_with anchor ps \<and> new = join_with replacement ps \<and>
    (\<forall>p \<in> set ps. \<not> sublist anchor p) \<and> new \<noteq> old"
proof -
  have "0 < length (pieces anchor [] old)" by simp
  then have "length (pieces anchor [] old) = count + 1" "new = join_with replacement (pieces anchor [] old)" "new \<noteq> old"
    using assms by (auto simp: replace_text_def py_count_def py_replace_def Let_def split: if_splits)
  moreover have "old = join_with anchor (pieces anchor [] old)" using join_pieces [OF assms(2), of "[]" old] by simp
  moreover have "\<forall>p \<in> set (pieces anchor [] old). \<not> sublist anchor p"
    using pieces_free [OF assms(2), of "[]" old] by simp
  ultimately show ?thesis by blast
qed

end
