(* ===== verification/Patch_Ops.thy ===== *)
theory Patch_Ops
  imports Patch_Facts
begin

text \<open>
  The edit primitives of \<open>patch_ops.py\<close> on files: protected paths, snapshots kept per session,
  \<open>replace_anchor\<close>, \<open>apply_difference\<close> and \<open>rollback\<close>.  There is one map of files: the list of
  edits of a session and its snapshots are files of it, which edits may target like any other.
  Every reading, writing, creation of a directory and removal may fail, a writing also in the
  middle.  Path resolution and the JSON text of the list of edits are parameters.
\<close>

section \<open>State\<close>

text \<open>A file holds text or bytes that do not decode.\<close>

datatype node = Folder | Utf8 string | Undecodable string

type_synonym file_map = "string \<Rightarrow> node option"

record edit_entry =
  ee_n :: nat
  ee_path :: string
  ee_snapshot :: string

text \<open>A member of the list in \<open>session.json\<close>: an entry, or any other JSON value.\<close>

datatype session_row = Row edit_entry | OtherRow string

text \<open>
  \<open>pw_resolve\<close> is \<open>Path.resolve\<close>, \<open>pw_trimum\<close> the resolved directories of the data root,
  \<open>pw_session\<close> the directory of a session, \<open>pw_dump\<close> the text \<open>json.dump\<close> writes of a list
  and \<open>pw_load\<close> what \<open>json.load\<close> reads of a text: \<^const>\<open>None\<close> where it raises, no rows
  where the value is not a list.
\<close>

record patch_world =
  pw_resolve :: "string \<Rightarrow> string"
  pw_trimum :: "string \<Rightarrow> string"
  pw_session :: "string \<Rightarrow> string"
  pw_dump :: "session_row list \<Rightarrow> string"
  pw_load :: "string \<Rightarrow> session_row list option"

datatype protection = GitPath | TrimumDirectory string | SecretFile | EnvFile

text \<open>\<open>OsError\<close> is any \<open>OSError\<close>; \<open>NotJson\<close> and \<open>NotAnEntry\<close> are those of a damaged list of edits.\<close>

datatype patch_error =
    JailViolation protection | FileNotFound string | PatchRejected reject_reason
  | OsError | NotJson | NotAnEntry

record patch_result =
  pr_path :: string
  pr_added :: nat
  pr_removed :: nat
  pr_difference :: string
  pr_snapshot :: "string option"
  pr_status :: string

section \<open>Steps on files that may fail\<close>

fun then_step :: "('e + 'a) \<times> 's \<Rightarrow> ('a \<Rightarrow> 's \<Rightarrow> ('e + 'b) \<times> 's) \<Rightarrow> ('e + 'b) \<times> 's" where
  "then_step (Inl e, s) f = (Inl e, s)"
| "then_step (Inr x, s) f = f x s"

text \<open>
  A file opened for writing is truncated first: the disk may refuse to open it, or fail when a
  part is written, which leaves any text or bytes in the file.
\<close>

datatype write_outcome = Written | Refused | CutText string | CutBytes string

definition write_node ::
    "write_outcome \<Rightarrow> string \<Rightarrow> node \<Rightarrow> file_map \<Rightarrow> (patch_error + unit) \<times> file_map" where
  "write_node out p node fs =
     (if fs p = Some Folder then (Inl OsError, fs)
      else case out of
        Written \<Rightarrow> (Inr (), fs(p := Some node))
      | Refused \<Rightarrow> (Inl OsError, fs)
      | CutText t \<Rightarrow> (Inl OsError, fs(p := Some (Utf8 t)))
      | CutBytes b \<Rightarrow> (Inl OsError, fs(p := Some (Undecodable b))))"

text \<open>\<open>mkdir(parents=True, exist_ok=True)\<close> over the directories from the outermost on.\<close>

fun make_dirs ::
    "(string \<Rightarrow> bool) \<Rightarrow> string list \<Rightarrow> file_map \<Rightarrow> (patch_error + unit) \<times> file_map" where
  "make_dirs allowed [] fs = (Inr (), fs)"
| "make_dirs allowed (d # ds) fs =
     (case fs d of
        Some Folder \<Rightarrow> make_dirs allowed ds fs
      | Some _ \<Rightarrow> (Inl OsError, fs)
      | None \<Rightarrow> if allowed d then make_dirs allowed ds (fs(d := Some Folder)) else (Inl OsError, fs))"

text \<open>
  What the disk does in one edit: whether the target's text, its bytes and \<open>session.json\<close> can
  be read, which directories can be made, and how the three writings end.
\<close>

record edit_io =
  io_read :: bool
  io_copy :: bool
  io_load :: bool
  io_dir :: "string \<Rightarrow> bool"
  io_snapshot :: write_outcome
  io_rows :: write_outcome
  io_target :: write_outcome

section \<open>Protected paths\<close>

definition SECRET_SUFFIXES :: "string list" where
  "SECRET_SUFFIXES = [''.pem'', ''.key'', ''.p12'']"

definition all_parts :: "string \<Rightarrow> string list" where
  "all_parts p = (if path_root p = [] then [] else [path_root p]) @ path_parts p"

definition check_protected :: "patch_world \<Rightarrow> string \<Rightarrow> protection option" where
  "check_protected w p =
     (if list_ex (\<lambda>part. suffix ''.git'' (py_lower part)) (all_parts p) then Some GitPath
      else case find (\<lambda>sub. prefix (map py_lower (all_parts (pw_trimum w sub))) (map py_lower (all_parts p)))
                  [''certs'', ''identity'', ''memory''] of
        Some sub \<Rightarrow> Some (TrimumDirectory sub)
      | None \<Rightarrow>
          if py_lower (path_suffix p) \<in> set SECRET_SUFFIXES then Some SecretFile
          else if py_lower (path_name p) = ''.env'' then Some EnvFile else None)"

definition safe_path :: "patch_world \<Rightarrow> string \<Rightarrow> patch_error + string" where
  "safe_path w p =
     (case check_protected w (pw_resolve w p) of
        None \<Rightarrow> Inr (pw_resolve w p) | Some r \<Rightarrow> Inl (JailViolation r))"

definition is_protected_path :: "patch_world \<Rightarrow> string \<Rightarrow> bool" where
  "is_protected_path w p \<longleftrightarrow> check_protected w (pw_resolve w p) \<noteq> None"

text \<open>\<open>_read\<close>: the resolved path of an existing file.\<close>

definition read_path :: "patch_world \<Rightarrow> file_map \<Rightarrow> string \<Rightarrow> patch_error + (string \<times> node)" where
  "read_path w fs p =
     try_then (safe_path w p) (\<lambda>resolved.
       case fs resolved of
         None \<Rightarrow> Inl (FileNotFound resolved)
       | Some Folder \<Rightarrow> Inl (PatchRejected IsDirectory)
       | Some node \<Rightarrow> Inr (resolved, node))"

section \<open>Snapshots\<close>

text \<open>\<open>sdir / name\<close>; the directory is an absolute path other than the root.\<close>

definition session_file :: "patch_world \<Rightarrow> string \<Rightarrow> string \<Rightarrow> string" where
  "session_file w sid name =
     (if prefix ''/'' name then name else pw_session w sid @ CHR ''/'' # name)"

definition session_dirs :: "patch_world \<Rightarrow> string \<Rightarrow> string list" where
  "session_dirs w sid =
     (let d = pw_session w sid in map (\<lambda>i. take i d) (filter (\<lambda>i. d ! i = CHR ''/'') [1..<length d]) @ [d])"

definition load_rows ::
    "patch_world \<Rightarrow> string \<Rightarrow> bool \<Rightarrow> file_map \<Rightarrow> patch_error + session_row list" where
  "load_rows w sid readable fs =
     (case fs (session_file w sid ''session.json'') of
        None \<Rightarrow> Inr []
      | Some Folder \<Rightarrow> Inl OsError
      | Some (Undecodable b) \<Rightarrow> Inl (if readable then NotJson else OsError)
      | Some (Utf8 t) \<Rightarrow>
          if readable then (case pw_load w t of None \<Rightarrow> Inl NotJson | Some rows \<Rightarrow> Inr rows) else Inl OsError)"

definition save_rows ::
    "patch_world \<Rightarrow> string \<Rightarrow> write_outcome \<Rightarrow> session_row list \<Rightarrow> file_map \<Rightarrow>
     (patch_error + unit) \<times> file_map" where
  "save_rows w sid out rows = write_node out (session_file w sid ''session.json'') (Utf8 (pw_dump w rows))"

text \<open>\<open>f"{n:04d}"\<close>.\<close>

definition four_digits :: "nat \<Rightarrow> string" where
  "four_digits n = replicate (4 - length (nat_str n)) CHR ''0'' @ nat_str n"

definition snapshot_name :: "nat \<Rightarrow> string \<Rightarrow> string" where
  "snapshot_name n name = four_digits n @ ''-'' @ name"

text \<open>The copy and the new row, once the list of edits is known.\<close>

definition add_snapshot ::
    "patch_world \<Rightarrow> string \<Rightarrow> edit_io \<Rightarrow> string \<Rightarrow> node \<Rightarrow> session_row list \<Rightarrow> file_map \<Rightarrow>
     (patch_error + string) \<times> file_map" where
  "add_snapshot w sid io resolved node rows fs =
     (let n = length rows + 1; name = snapshot_name n (path_name resolved)
      in if \<not> io_copy io then (Inl OsError, fs)
         else then_step (write_node (io_snapshot io) (session_file w sid name) node fs) (\<lambda>_ fs.
           then_step (save_rows w sid (io_rows io)
               (rows @ [Row \<lparr>ee_n = n, ee_path = resolved, ee_snapshot = name\<rparr>]) fs) (\<lambda>_ fs.
             (Inr name, fs))))"

definition take_snapshot ::
    "patch_world \<Rightarrow> string \<Rightarrow> string \<Rightarrow> edit_io \<Rightarrow> file_map \<Rightarrow> (patch_error + string) \<times> file_map" where
  "take_snapshot w p sid io fs =
     then_step (read_path w fs p, fs) (\<lambda>(resolved, node) fs.
       then_step (make_dirs (io_dir io) (session_dirs w sid) fs) (\<lambda>_ fs.
         then_step (load_rows w sid (io_load io) fs, fs) (\<lambda>rows fs.
           add_snapshot w sid io resolved node rows fs)))"

section \<open>Edits\<close>

text \<open>The common end of both edits: preview, or snapshot and write.\<close>

definition finish_edit ::
    "patch_world \<Rightarrow> string \<Rightarrow> string \<Rightarrow> string \<Rightarrow> bool \<Rightarrow> string option \<Rightarrow> edit_io \<Rightarrow> file_map \<Rightarrow>
     (patch_error + patch_result) \<times> file_map" where
  "finish_edit w resolved old new dry_run session io fs =
     (let difference = diff_text old new resolved; (added, removed) = count_diff_lines difference;
          result = \<lparr>pr_path = resolved, pr_added = added, pr_removed = removed, pr_difference = difference,
                    pr_snapshot = None, pr_status = ''preview''\<rparr>
      in if dry_run then (Inr result, fs)
         else case session of
           None \<Rightarrow> (Inl (PatchRejected SessionRequired), fs)
         | Some sid \<Rightarrow>
             then_step (take_snapshot w resolved sid io fs) (\<lambda>name fs.
               then_step (write_node (io_target io) resolved (Utf8 new) fs) (\<lambda>_ fs.
                 (Inr (result\<lparr>pr_snapshot := Some name, pr_status := ''applied''\<rparr>), fs))))"

definition edit_text ::
    "(string \<Rightarrow> string \<Rightarrow> reject_reason + string) \<Rightarrow> patch_world \<Rightarrow> string \<Rightarrow> bool \<Rightarrow> string option \<Rightarrow>
     edit_io \<Rightarrow> file_map \<Rightarrow> (patch_error + patch_result) \<times> file_map" where
  "edit_text f w p dry_run session io fs =
     (case read_path w fs p of
        Inl e \<Rightarrow> (Inl e, fs)
      | Inr (resolved, node) \<Rightarrow>
          if \<not> io_read io then (Inl OsError, fs)
          else (case node of
             Utf8 old \<Rightarrow>
               (case f resolved old of
                  Inl r \<Rightarrow> (Inl (PatchRejected r), fs)
                | Inr new \<Rightarrow> finish_edit w resolved old new dry_run session io fs)
           | _ \<Rightarrow> (Inl (PatchRejected NotUtf8), fs)))"

definition replace_anchor ::
    "patch_world \<Rightarrow> string \<Rightarrow> string \<Rightarrow> string \<Rightarrow> nat \<Rightarrow> bool \<Rightarrow> string option \<Rightarrow> edit_io \<Rightarrow> file_map \<Rightarrow>
     (patch_error + patch_result) \<times> file_map" where
  "replace_anchor w p anchor replacement count =
     edit_text (\<lambda>resolved old. replace_text old anchor replacement count) w p"

definition apply_difference ::
    "patch_world \<Rightarrow> string \<Rightarrow> string \<Rightarrow> bool \<Rightarrow> string option \<Rightarrow> edit_io \<Rightarrow> file_map \<Rightarrow>
     (patch_error + patch_result) \<times> file_map" where
  "apply_difference w p difference = edit_text (\<lambda>resolved old. apply_text resolved old difference) w p"

section \<open>Rollback\<close>

text \<open>What the disk does in a rollback, per path.\<close>

record undo_io =
  ui_read :: "string \<Rightarrow> bool"
  ui_write :: "string \<Rightarrow> write_outcome"
  ui_unlink :: "string \<Rightarrow> bool"

definition no_failure :: undo_io where
  "no_failure = \<lparr>ui_read = (\<lambda>p. True), ui_write = (\<lambda>p. Written), ui_unlink = (\<lambda>p. True)\<rparr>"

definition undo_entry ::
    "patch_world \<Rightarrow> string \<Rightarrow> undo_io \<Rightarrow> edit_entry \<Rightarrow> file_map \<Rightarrow> (patch_error + unit) \<times> file_map" where
  "undo_entry w sid ui e fs =
     (let snap = session_file w sid (ee_snapshot e)
      in case fs snap of
        None \<Rightarrow> (Inl (FileNotFound snap), fs)
      | Some node \<Rightarrow>
          if node = Folder \<or> \<not> ui_read ui snap then (Inl OsError, fs)
          else then_step (write_node (ui_write ui (ee_path e)) (ee_path e) node fs) (\<lambda>_ fs.
            if ui_unlink ui snap then (Inr (), fs(snap := None)) else (Inl OsError, fs)))"

text \<open>The entries are undone from the newest on; the first failure stops the walk where it is.\<close>

fun undo_rows ::
    "patch_world \<Rightarrow> string \<Rightarrow> undo_io \<Rightarrow> session_row list \<Rightarrow> string list \<Rightarrow> file_map \<Rightarrow>
     (patch_error + string list) \<times> file_map" where
  "undo_rows w sid ui [] restored fs = (Inr restored, fs)"
| "undo_rows w sid ui (OtherRow v # rows) restored fs = (Inl NotAnEntry, fs)"
| "undo_rows w sid ui (Row e # rows) restored fs =
     then_step (undo_entry w sid ui e fs) (\<lambda>_. undo_rows w sid ui rows (restored @ [ee_path e]))"

definition rollback ::
    "patch_world \<Rightarrow> string \<Rightarrow> undo_io \<Rightarrow> file_map \<Rightarrow> (patch_error + string list) \<times> file_map" where
  "rollback w sid ui fs =
     (let rows_file = session_file w sid ''session.json''
      in if fs rows_file = None then (Inl (FileNotFound rows_file), fs)
         else then_step (load_rows w sid (ui_read ui rows_file) fs, fs) (\<lambda>rows.
           undo_rows w sid ui (rev rows) []))"

text \<open>A run of edits of one session, each with what the disk does in it.\<close>

datatype edit =
    ReplaceAnchor string string string nat bool
  | ApplyDifference string string bool

fun run_edit ::
    "patch_world \<Rightarrow> string \<Rightarrow> edit \<Rightarrow> edit_io \<Rightarrow> file_map \<Rightarrow> (patch_error + patch_result) \<times> file_map" where
  "run_edit w sid (ReplaceAnchor p anchor replacement count dry) io fs =
     replace_anchor w p anchor replacement count dry (Some sid) io fs"
| "run_edit w sid (ApplyDifference p difference dry) io fs = apply_difference w p difference dry (Some sid) io fs"

definition run_edits :: "patch_world \<Rightarrow> string \<Rightarrow> (edit \<times> edit_io) list \<Rightarrow> file_map \<Rightarrow> file_map" where
  "run_edits w sid es fs = fold (\<lambda>(e, io) fs. snd (run_edit w sid e io fs)) es fs"

definition edit_path :: "edit \<Rightarrow> string" where
  "edit_path e = (case e of ReplaceAnchor p _ _ _ _ \<Rightarrow> p | ApplyDifference p _ _ \<Rightarrow> p)"

section \<open>Snapshot names\<close>

lemma dash_no_digit: "\<not> is_digit CHR ''-''"
  by (simp add: is_digit_def)

lemma four_digits_digits: "list_all is_digit (four_digits n)"
proof -
  have "is_digit CHR ''0''" by (simp add: is_digit_def)
  then have "list_all is_digit (replicate k CHR ''0'')" for k by (simp add: list_all_iff)
  then show ?thesis using nat_str_digits [of n] by (simp add: four_digits_def)
qed

lemma digits_value_zeros: "digits_value (replicate k CHR ''0'' @ ds) = digits_value ds"
  by (induction k) (simp_all add: digits_value_def)

lemma snapshot_name_inject:
  assumes "snapshot_name m p = snapshot_name n q"
  shows "m = n"
proof -
  have "takeWhile is_digit (snapshot_name k r) = four_digits k" for k r
    unfolding snapshot_name_def by (rule takeWhile_digits [OF four_digits_digits]) (simp add: dash_no_digit)
  then have "four_digits m = four_digits n" using assms by metis
  then have "digits_value (four_digits m) = digits_value (four_digits n)" by simp
  then show ?thesis by (simp add: four_digits_def digits_value_zeros digits_value_nat_str)
qed

section \<open>The files of a session\<close>

definition session_path :: "patch_world \<Rightarrow> string \<Rightarrow> string \<Rightarrow> bool" where
  "session_path w sid q \<longleftrightarrow> prefix (pw_session w sid @ ''/'') q \<or> q \<in> set (session_dirs w sid)"

lemma four_digits_hd: "\<exists>c cs. four_digits n = c # cs \<and> is_digit c"
proof -
  have "four_digits n \<noteq> []" using nat_str_digits [of n] by (simp add: four_digits_def)
  then show ?thesis using four_digits_digits [of n] by (cases "four_digits n") auto
qed

lemma snapshot_name_plain:
  "\<not> prefix ''/'' (snapshot_name n x)" "snapshot_name n x \<noteq> ''session.json''"
  using four_digits_hd [of n] by (auto simp: snapshot_name_def is_digit_def)

lemma session_file_snapshot:
  "session_file w sid (snapshot_name n x) = pw_session w sid @ CHR ''/'' # snapshot_name n x"
  by (simp add: session_file_def snapshot_name_plain)

lemma session_file_rows:
  "session_file w sid ''session.json'' = pw_session w sid @ CHR ''/'' # ''session.json''"
  by (simp add: session_file_def)

lemmas session_files = session_file_snapshot session_file_rows

lemma session_files_differ:
  "session_file w sid (snapshot_name n x) \<noteq> session_file w sid ''session.json''"
  "session_file w sid ''session.json'' \<noteq> session_file w sid (snapshot_name n x)"
  "session_file w sid (snapshot_name n x) = session_file w sid (snapshot_name m y) \<Longrightarrow> n = m"
  using snapshot_name_plain(2) [of n x] snapshot_name_inject by (auto simp: session_files)

lemma session_path_files:
  "session_path w sid (session_file w sid (snapshot_name n x))"
  "session_path w sid (session_file w sid ''session.json'')"
  by (simp_all add: session_path_def session_files prefix_def)

lemma session_path_dirs: "d \<in> set (session_dirs w sid) \<Longrightarrow> session_path w sid d"
  by (simp add: session_path_def)

lemma session_dirs_length: "d \<in> set (session_dirs w sid) \<Longrightarrow> length d \<le> length (pw_session w sid)"
  by (auto simp: session_dirs_def Let_def)

lemma session_files_no_dirs:
  "session_file w sid (snapshot_name n x) \<notin> set (session_dirs w sid)"
  "session_file w sid ''session.json'' \<notin> set (session_dirs w sid)"
  using session_dirs_length by (force simp: session_files)+

lemmas session_paths = session_files_differ session_path_files session_files_no_dirs session_path_dirs

section \<open>What the steps change\<close>

lemma write_node_other: "write_node out p node fs = (r, fs') \<Longrightarrow> q \<noteq> p \<Longrightarrow> fs' q = fs q"
  by (auto simp: write_node_def split: write_outcome.splits if_splits)

lemma write_node_result:
  assumes "write_node out p node fs = (r, fs')"
  shows "r = Inr () \<and> out = Written \<and> fs' = fs(p := Some node) \<or>
    r = Inl OsError \<and> (fs' p = fs p \<or> out \<notin> {Written, Refused} \<and> fs' p \<noteq> Some Folder)"
  using assms by (auto simp: write_node_def split: write_outcome.splits if_splits)

lemma make_dirs_effect:
  "make_dirs allowed ds fs = (r, fs') \<Longrightarrow>
   (\<forall>q. fs' q = fs q \<or> q \<in> set ds \<and> fs q = None \<and> fs' q = Some Folder) \<and> (r = Inr () \<or> r = Inl OsError)"
proof (induction allowed ds fs rule: make_dirs.induct)
  case (2 allowed d ds fs)
  show ?case
  proof (cases "fs d")
    case None
    show ?thesis
    proof (cases "allowed d")
      case True
      then have "make_dirs allowed ds (fs(d := Some Folder)) = (r, fs')" using "2.prems" None by simp
      from "2.IH"(1) [OF None True this] show ?thesis using None by (auto simp: fun_upd_apply split: if_splits) 
    qed (use "2.prems" None in auto)
  next
    case (Some node)
    show ?thesis
    proof (cases "node = Folder")
      case True
      then have "make_dirs allowed ds fs = (r, fs')" using "2.prems" Some by simp
      from "2.IH"(2) [OF Some True this] Some show ?thesis by auto
    qed (use "2.prems" Some in \<open>cases node; simp\<close>)
  qed
qed simp

lemma then_step_cases:
  assumes "then_step x f = (r, s')"
  obtains (raised) e where "x = (Inl e, s')" "r = Inl e" | (went_on) y s where "x = (Inr y, s)" "f y s = (r, s')"
  using assms by (cases "(x, f)" rule: then_step.cases) auto

lemma read_path_Inr:
  "read_path w fs p = Inr (resolved, node) \<longleftrightarrow>
   resolved = pw_resolve w p \<and> check_protected w resolved = None \<and> fs resolved = Some node \<and> node \<noteq> Folder"
  by (auto simp: read_path_def safe_path_def try_then_Inr split: option.splits node.splits)

lemma load_rows_cong:
  "fs' (session_file w sid ''session.json'') = fs (session_file w sid ''session.json'') \<Longrightarrow>
   load_rows w sid b fs' = load_rows w sid b fs"
  by (simp add: load_rows_def)

lemma load_rows_readable: "load_rows w sid b fs = Inr rows \<Longrightarrow> load_rows w sid True fs = Inr rows"
  by (auto simp: load_rows_def split: option.splits node.splits if_splits)

lemma load_rows_Inl: "load_rows w sid b fs = Inl e \<Longrightarrow> e = OsError \<or> e = NotJson"
  by (auto simp: load_rows_def split: option.splits node.splits if_splits)

definition new_row :: "nat \<Rightarrow> string \<Rightarrow> session_row" where
  "new_row n target = Row \<lparr>ee_n = n, ee_path = target, ee_snapshot = snapshot_name n (path_name target)\<rparr>"

lemma add_snapshot_effect:
  fixes target
  defines "name \<equiv> \<lambda>rows. snapshot_name (length rows + 1) (path_name target)"
  assumes "add_snapshot w sid io target node rows fs = (out, fs')"
  shows "\<forall>q. q \<noteq> session_file w sid (name rows) \<and> q \<noteq> session_file w sid ''session.json'' \<longrightarrow> fs' q = fs q"
    and "out = Inl OsError \<and>
        (io_rows io \<in> {Written, Refused} \<longrightarrow>
          fs' (session_file w sid ''session.json'') = fs (session_file w sid ''session.json'')) \<or>
      out = Inr (name rows) \<and> fs' (session_file w sid (name rows)) = Some node \<and>
      fs' (session_file w sid ''session.json'') = Some (Utf8 (pw_dump w (rows @ [new_row (length rows + 1) target])))"
proof -
  let ?s = "session_file w sid (name rows)" and ?j = "session_file w sid ''session.json''"
  have sj: "?s \<noteq> ?j" using session_files_differ by (auto simp: name_def)
  have e: "(if \<not> io_copy io then (Inl OsError, fs)
       else then_step (write_node (io_snapshot io) ?s node fs) (\<lambda>_ fs.
         then_step (write_node (io_rows io) ?j (Utf8 (pw_dump w (rows @ [new_row (length rows + 1) target]))) fs) (\<lambda>_ fs.
           (Inr (name rows), fs)))) = (out, fs')"
    unfolding name_def new_row_def using assms(2) by (simp only: add_snapshot_def Let_def save_rows_def)
  have "(\<forall>q. q \<noteq> ?s \<and> q \<noteq> ?j \<longrightarrow> fs' q = fs q) \<and>
     (out = Inl OsError \<and> (io_rows io \<in> {Written, Refused} \<longrightarrow> fs' ?j = fs ?j) \<or>
      out = Inr (name rows) \<and> fs' ?s = Some node \<and>
      fs' ?j = Some (Utf8 (pw_dump w (rows @ [new_row (length rows + 1) target]))))"
  proof (cases "io_copy io")
    case True
    with e have "then_step (write_node (io_snapshot io) ?s node fs) (\<lambda>_ fs.
         then_step (write_node (io_rows io) ?j (Utf8 (pw_dump w (rows @ [new_row (length rows + 1) target]))) fs) (\<lambda>_ fs.
           (Inr (name rows), fs))) = (out, fs')" by simp
    then show ?thesis
    proof (cases rule: then_step_cases)
      case (raised err)
      have "fs' q = fs q" if "q \<noteq> ?s" for q by (rule write_node_other [OF raised(1) that])
      then show ?thesis using raised write_node_result [OF raised(1)] sj by auto
    next
      case (went_on u fs1)
      have o1: "fs1 q = fs q" if "q \<noteq> ?s" for q by (rule write_node_other [OF went_on(1) that])
      have s1: "fs1 ?s = Some node" using write_node_result [OF went_on(1)] by auto
      from went_on(2) show ?thesis
      proof (cases rule: then_step_cases)
        case (raised err)
        have "fs' q = fs1 q" if "q \<noteq> ?j" for q by (rule write_node_other [OF raised(1) that])
        then show ?thesis using raised write_node_result [OF raised(1)] o1 sj by auto
      next
        case (went_on v fs2)
        have "fs2 q = fs1 q" if "q \<noteq> ?j" for q by (rule write_node_other [OF went_on(1) that])
        then show ?thesis using went_on write_node_result [OF went_on(1)] o1 s1 sj by auto
      qed
    qed
  qed (use e in auto)
  note both = this
  show "\<forall>q. q \<noteq> ?s \<and> q \<noteq> ?j \<longrightarrow> fs' q = fs q" by (rule conjunct1 [OF both])
  show "out = Inl OsError \<and> (io_rows io \<in> {Written, Refused} \<longrightarrow> fs' ?j = fs ?j) \<or>
      out = Inr (name rows) \<and> fs' ?s = Some node \<and>
      fs' ?j = Some (Utf8 (pw_dump w (rows @ [new_row (length rows + 1) target])))"
    by (rule conjunct2 [OF both])
qed

lemma take_snapshot_effect:
  fixes target
  defines "name \<equiv> \<lambda>rows. snapshot_name (length rows + 1) (path_name target)"
  assumes "take_snapshot w target sid io fs = (out, fs')" and "pw_resolve w target = target"
    and "check_protected w target = None" and "fs target = Some node" and "node \<noteq> Folder"
  obtains (early) e where "out = Inl e" "e = OsError \<or> e = NotJson"
      "\<And>q. q \<notin> set (session_dirs w sid) \<Longrightarrow> fs' q = fs q"
  | (late) rows where "load_rows w sid True fs = Inr rows"
      "\<And>q. q \<notin> set (session_dirs w sid) \<Longrightarrow> q \<noteq> session_file w sid (name rows) \<Longrightarrow>
        q \<noteq> session_file w sid ''session.json'' \<Longrightarrow> fs' q = fs q"
      "out = Inl OsError \<and>
        (io_rows io \<in> {Written, Refused} \<longrightarrow>
          fs' (session_file w sid ''session.json'') = fs (session_file w sid ''session.json'')) \<or>
       out = Inr (name rows) \<and> fs' (session_file w sid (name rows)) = Some node \<and>
       fs' (session_file w sid ''session.json'') = Some (Utf8 (pw_dump w (rows @ [new_row (length rows + 1) target])))"
proof -
  have r: "read_path w fs target = Inr (target, node)" using assms by (simp add: read_path_Inr)
  have "then_step (make_dirs (io_dir io) (session_dirs w sid) fs) (\<lambda>_ fs.
      then_step (load_rows w sid (io_load io) fs, fs) (\<lambda>rows fs. add_snapshot w sid io target node rows fs)) = (out, fs')"
    using assms(2) by (simp add: take_snapshot_def r)
  then show ?thesis
  proof (cases rule: then_step_cases)
    case (raised e)
    then show ?thesis using early make_dirs_effect [OF raised(1)] by auto
  next
    case (went_on u fs1)
    have same: "fs1 q = fs q" if "q \<notin> set (session_dirs w sid)" for q
      using make_dirs_effect [OF went_on(1)] that by blast
    have rows_same: "load_rows w sid b fs1 = load_rows w sid b fs" for b
      by (rule load_rows_cong) (simp add: same session_paths)
    from went_on(2) show ?thesis
    proof (cases rule: then_step_cases)
      case (raised e)
      then show ?thesis using early [of e] load_rows_Inl [of w sid "io_load io" fs1 e] same by auto
    next
      case (went_on rows fs2)
      then have l: "load_rows w sid True fs = Inr rows" using load_rows_readable rows_same by force
      have a: "add_snapshot w sid io target node rows fs1 = (out, fs')" using went_on by simp
      show ?thesis
        using late [OF l] add_snapshot_effect [OF a] same by (simp add: name_def session_paths)
    qed
  qed
qed

text \<open>The session has one more entry for the file, whose snapshot holds its former text.\<close>

definition entry_recorded :: "patch_world \<Rightarrow> string \<Rightarrow> string \<Rightarrow> string \<Rightarrow> file_map \<Rightarrow> file_map \<Rightarrow> bool" where
  "entry_recorded w sid target old fs fs' \<longleftrightarrow>
     (case (load_rows w sid True fs, load_rows w sid True fs') of
        (Inr rows, Inr rows') \<Rightarrow>
          rows' = rows @ [new_row (length rows + 1) target] \<and>
          fs' (session_file w sid (snapshot_name (length rows + 1) (path_name target))) = Some (Utf8 old)
      | _ \<Rightarrow> False)"

definition old_snapshots_kept :: "patch_world \<Rightarrow> string \<Rightarrow> file_map \<Rightarrow> file_map \<Rightarrow> bool" where
  "old_snapshots_kept w sid fs fs' \<longleftrightarrow>
     (\<forall>rows k name. load_rows w sid True fs = Inr rows \<longrightarrow> k \<le> length rows \<longrightarrow>
        fs' (session_file w sid (snapshot_name k name)) = fs (session_file w sid (snapshot_name k name)))"

lemma finish_edit_effect:
  assumes "finish_edit w target old new dry (Some sid) io fs = (res, fs')" and "pw_resolve w target = target"
    and "check_protected w target = None" and "fs target = Some (Utf8 old)" and "\<not> session_path w sid target"
    and "\<And>rows. pw_load w (pw_dump w rows) = Some rows"
  obtains (unchanged) "fs' = fs" "\<exists>r. res = Inr r \<and> pr_status r = ''preview''"
  | (unrecorded) "res = Inl OsError \<or> res = Inl NotJson" "\<And>q. \<not> session_path w sid q \<Longrightarrow> fs' q = fs q"
      "io_rows io \<in> {Written, Refused} \<longrightarrow>
        load_rows w sid True fs' = load_rows w sid True fs \<and>
        fs' (session_file w sid ''session.json'') = fs (session_file w sid ''session.json'')"
      "old_snapshots_kept w sid fs fs'"
  | (recorded) "entry_recorded w sid target old fs fs'" "old_snapshots_kept w sid fs fs'"
      "\<And>q. q \<noteq> target \<Longrightarrow> \<not> session_path w sid q \<Longrightarrow> fs' q = fs q"
      "res = Inl OsError \<and> fs' target \<noteq> Some Folder \<or>
       (\<exists>r. res = Inr r \<and> pr_status r = ''applied'') \<and> fs' target = Some (Utf8 new)"
proof (cases dry)
  case True
  then show ?thesis using assms(1) unchanged by (auto simp: finish_edit_def Let_def split: prod.splits)
next
  case False
  obtain added removed where c: "count_diff_lines (diff_text old new target) = (added, removed)" by (metis surj_pair)
  define r where "r = \<lparr>pr_path = target, pr_added = added, pr_removed = removed,
    pr_difference = diff_text old new target, pr_snapshot = None, pr_status = ''preview''\<rparr>"
  have e: "then_step (take_snapshot w target sid io fs) (\<lambda>name fs.
      then_step (write_node (io_target io) target (Utf8 new) fs) (\<lambda>_ fs.
        (Inr (r\<lparr>pr_snapshot := Some name, pr_status := ''applied''\<rparr>), fs))) = (res, fs')"
    using assms(1) False unfolding r_def by (simp add: finish_edit_def Let_def c)
  obtain out fs1 where s: "take_snapshot w target sid io fs = (out, fs1)" by (metis surj_pair)
  let ?j = "session_file w sid ''session.json''"
  show ?thesis
  proof (cases rule: take_snapshot_effect [OF s assms(2,3,4) node.distinct(2), case_names early late])
    case (early err)
    have "fs' = fs1" "res = Inl err" using e s early(1) by auto
    moreover have "fs1 ?j = fs ?j" by (rule early(3)) (simp add: session_paths)
    moreover have "old_snapshots_kept w sid fs fs1"
      unfolding old_snapshots_kept_def using early(3) session_paths by metis
    ultimately show ?thesis
      using unrecorded early load_rows_cong [of fs1 w sid fs] session_path_dirs by metis
  next
    case (late rows)
    let ?s = "session_file w sid (snapshot_name (length rows + 1) (path_name target))"
    have kept: "fs1 q = fs q" if "\<not> session_path w sid q" for q
      by (rule late(2)) (use that session_paths in metis)+
    have old: "old_snapshots_kept w sid fs fs1"
      unfolding old_snapshots_kept_def
    proof (intro allI impI)
      fix rs k x
      assume "load_rows w sid True fs = Inr rs" "k \<le> length rs"
      then have "k < length rows + 1" using late(1) by simp
      then show "fs1 (session_file w sid (snapshot_name k x)) = fs (session_file w sid (snapshot_name k x))"
        by (intro late(2)) (use session_paths in \<open>auto dest: session_files_differ(3)\<close>)
    qed
    from late(3) show ?thesis
    proof (elim disjE conjE)
      assume l: "out = Inl OsError" "io_rows io \<in> {Written, Refused} \<longrightarrow> fs1 ?j = fs ?j"
      then have "fs' = fs1" "res = Inl OsError" using e s by auto
      then show ?thesis using unrecorded kept old l(2) load_rows_cong [of fs1 w sid fs] by metis
    next
      assume l: "out = Inr (snapshot_name (length rows + 1) (path_name target))" "fs1 ?s = Some (Utf8 old)"
        "fs1 ?j = Some (Utf8 (pw_dump w (rows @ [new_row (length rows + 1) target])))"
      have w: "then_step (write_node (io_target io) target (Utf8 new) fs1) (\<lambda>_ fs.
          (Inr (r\<lparr>pr_snapshot := Some (snapshot_name (length rows + 1) (path_name target)), pr_status := ''applied''\<rparr>), fs)) =
          (res, fs')"
        using e s l(1) by simp
      have other: "fs' q = fs1 q" if "q \<noteq> target" for q
        using w by (cases rule: then_step_cases) (use write_node_other that in \<open>fastforce\<close>)+
      have t: "?s \<noteq> target" "?j \<noteq> target" using assms(5) session_paths by metis+
      have "load_rows w sid True fs' = Inr (rows @ [new_row (length rows + 1) target])"
        using t by (simp add: load_rows_def other l assms(6))
      then have rec: "entry_recorded w sid target old fs fs'"
        using t by (simp add: entry_recorded_def late(1) other l(2) [simplified])
      have "fs' (session_file w sid (snapshot_name k x)) = fs1 (session_file w sid (snapshot_name k x))" for k x
        by (rule other) (use assms(5) session_paths in metis)
      then have old': "old_snapshots_kept w sid fs fs'" using old by (simp add: old_snapshots_kept_def)
      have ft: "fs1 target = Some (Utf8 old)" using kept assms(4,5) by simp
      have "res = Inl OsError \<and> fs' target \<noteq> Some Folder \<or>
          (\<exists>r. res = Inr r \<and> pr_status r = ''applied'') \<and> fs' target = Some (Utf8 new)"
        using w by (cases rule: then_step_cases) (use ft in \<open>auto dest: write_node_result\<close>)
      then show ?thesis using recorded rec old' other kept by metis
    qed
  qed
qed

lemma replace_text_new: "replace_text old anchor r n = Inr new \<Longrightarrow> new \<noteq> old"
  by (auto simp: replace_text_def Let_def split: if_splits)

lemma apply_text_new: "apply_text path old d = Inr new \<Longrightarrow> new \<noteq> old"
  by (auto simp: apply_text_def Let_def try_then_Inr split: if_splits)

lemma edit_cases:
  assumes "run_edit w sid e io fs = (res, fs')"
    and "\<And>p. pw_resolve w (pw_resolve w p) = pw_resolve w p"
    and "\<And>rows. pw_load w (pw_dump w rows) = Some rows"
    and "\<not> session_path w sid (pw_resolve w (edit_path e))"
  obtains (unchanged) "fs' = fs" "\<And>r. res = Inr r \<Longrightarrow> pr_status r = ''preview''"
  | (unrecorded) "res = Inl OsError \<or> res = Inl NotJson" "\<And>q. \<not> session_path w sid q \<Longrightarrow> fs' q = fs q"
      "io_rows io \<in> {Written, Refused} \<longrightarrow>
        load_rows w sid True fs' = load_rows w sid True fs \<and>
        fs' (session_file w sid ''session.json'') = fs (session_file w sid ''session.json'')"
      "old_snapshots_kept w sid fs fs'"
  | (recorded) old new where "check_protected w (pw_resolve w (edit_path e)) = None"
      "fs (pw_resolve w (edit_path e)) = Some (Utf8 old)" "old \<noteq> new"
      "entry_recorded w sid (pw_resolve w (edit_path e)) old fs fs'" "old_snapshots_kept w sid fs fs'"
      "\<And>q. q \<noteq> pw_resolve w (edit_path e) \<Longrightarrow> \<not> session_path w sid q \<Longrightarrow> fs' q = fs q"
      "res = Inl OsError \<and> fs' (pw_resolve w (edit_path e)) \<noteq> Some Folder \<or>
       (\<exists>r. res = Inr r \<and> pr_status r = ''applied'') \<and> fs' (pw_resolve w (edit_path e)) = Some (Utf8 new)"
proof -
  let ?p = "edit_path e" and ?t = "pw_resolve w (edit_path e)"
  obtain f dry where f: "edit_text f w ?p dry (Some sid) io fs = (res, fs')"
    and ne: "\<And>path old new. f path old = Inr new \<Longrightarrow> new \<noteq> old"
  proof (cases e)
    case (ReplaceAnchor p a r n dry)
    show thesis
      by (rule that [of "\<lambda>_ old. replace_text old a r n" dry])
        (use assms(1) replace_text_new in \<open>auto simp: ReplaceAnchor edit_path_def replace_anchor_def\<close>)
  next
    case (ApplyDifference p d dry)
    show thesis
      by (rule that [of "\<lambda>path old. apply_text path old d" dry])
        (use assms(1) apply_text_new in \<open>auto simp: ApplyDifference edit_path_def apply_difference_def\<close>)
  qed
  show ?thesis
  proof (cases "\<exists>old new. read_path w fs ?p = Inr (?t, Utf8 old) \<and> io_read io \<and> f ?t old = Inr new")
    case False
    have "fs' = fs \<and> (\<exists>err. res = Inl err)"
    proof (cases "read_path w fs ?p")
      case (Inr rn)
      obtain t node where rn: "rn = (t, node)" by (cases rn)
      have t: "t = ?t" using Inr by (simp add: rn read_path_Inr)
      show ?thesis using f False Inr
        by (cases node) (auto simp: edit_text_def rn t split: if_splits sum.splits)
    qed (use f in \<open>auto simp: edit_text_def\<close>)
    then show ?thesis using unchanged by auto
  next
    case True
    then obtain old new where o: "read_path w fs ?p = Inr (?t, Utf8 old)" "io_read io" "f ?t old = Inr new" by blast
    then have r: "check_protected w ?t = None" "fs ?t = Some (Utf8 old)" by (simp_all add: read_path_Inr)
    have e: "finish_edit w ?t old new dry (Some sid) io fs = (res, fs')" using f o by (simp add: edit_text_def)
    have neq: "old \<noteq> new" using ne [OF o(3)] by simp
    show ?thesis
    proof (cases rule: finish_edit_effect [OF e assms(2) r assms(4,3), case_names unchanged unrecorded recorded])
      case unchanged
      then show ?thesis using that(1) by auto
    next
      case unrecorded
      then show ?thesis by (rule that(2))
    next
      case recorded
      show ?thesis by (rule that(3) [OF r neq recorded])
    qed
  qed
qed

section \<open>What an edit changes\<close>

text \<open>
  C18: Whatever fails while an edit runs, it changes no file but its target and files and
  directories of its session.  The target changes only when its path is not protected and the
  session already has a new entry for it whose snapshot is the target's former text.  An edit
  that reports \<open>applied\<close> has replaced that text by a different one.  An edit that previews, or
  is rejected for any reason other than the disk or a damaged list of edits, changes nothing
  at all.  The target must not be a file of the session itself.
\<close>
theorem edit_atomic_and_unprotected:
  fixes w :: patch_world and e :: edit and target :: string
  defines "target \<equiv> pw_resolve w (edit_path e)"
  assumes "run_edit w sid e io fs = (res, fs')"
    and "\<And>p. pw_resolve w (pw_resolve w p) = pw_resolve w p"
    and "\<And>rows. pw_load w (pw_dump w rows) = Some rows"
    and "\<not> session_path w sid target"
  shows "(\<forall>q. q \<noteq> target \<longrightarrow> \<not> session_path w sid q \<longrightarrow> fs' q = fs q) \<and>
    (fs' target \<noteq> fs target \<longrightarrow>
      check_protected w target = None \<and>
      (\<exists>old. fs target = Some (Utf8 old) \<and> entry_recorded w sid target old fs fs')) \<and>
    (res = Inl OsError \<or> res = Inl NotJson \<or>
     (\<exists>r old new. res = Inr r \<and> pr_status r = ''applied'' \<and> fs target = Some (Utf8 old) \<and>
        fs' target = Some (Utf8 new) \<and> old \<noteq> new \<and> entry_recorded w sid target old fs fs') \<or>
     fs' = fs \<and> (\<forall>r. res = Inr r \<longrightarrow> pr_status r = ''preview''))"
proof (cases rule: edit_cases [OF assms(2,3,4) assms(5)[unfolded target_def], case_names unchanged unrecorded recorded])
  case unchanged
  then show ?thesis by auto
next
  case unrecorded
  then show ?thesis using assms(5) by (auto simp: target_def)
next
  case (recorded old new)
  then show ?thesis using assms(5) by (auto simp: target_def)
qed

section \<open>Rollback restores the files\<close>

fun undo_files ::
    "(string \<Rightarrow> node option) \<Rightarrow> edit_entry list \<Rightarrow> file_map \<Rightarrow> string \<Rightarrow> node option" where
  "undo_files snaps [] files = files"
| "undo_files snaps (e # es) files = undo_files snaps es (files(ee_path e := snaps (ee_snapshot e)))"

lemma undo_files_cong:
  "(\<And>e. e \<in> set es \<Longrightarrow> snaps (ee_snapshot e) = snaps' (ee_snapshot e)) \<Longrightarrow> files q = files' q \<Longrightarrow>
   undo_files snaps es files q = undo_files snaps' es files' q"
proof (induction es arbitrary: files files')
  case (Cons e es)
  have "undo_files snaps es (files(ee_path e := snaps (ee_snapshot e))) q =
      undo_files snaps' es (files'(ee_path e := snaps' (ee_snapshot e))) q"
    by (rule Cons.IH) (use Cons.prems in auto)
  then show ?case by simp
qed simp

text \<open>The entries of a session: their snapshots are texts, their targets lie outside the session.\<close>

definition entries_ok :: "patch_world \<Rightarrow> string \<Rightarrow> edit_entry list \<Rightarrow> file_map \<Rightarrow> bool" where
  "entries_ok w sid es fs \<longleftrightarrow>
     (\<forall>e \<in> set es. (\<exists>k x. ee_snapshot e = snapshot_name k x) \<and>
        (\<exists>t. fs (session_file w sid (ee_snapshot e)) = Some (Utf8 t)) \<and>
        \<not> session_path w sid (ee_path e) \<and> fs (ee_path e) \<noteq> Some Folder)"

lemma undo_entry_step:
  assumes "entries_ok w sid (e # es) fs"
  shows "undo_entry w sid no_failure e fs =
    (Inr (), fs(ee_path e := fs (session_file w sid (ee_snapshot e)), session_file w sid (ee_snapshot e) := None))"
proof -
  obtain t where "fs (session_file w sid (ee_snapshot e)) = Some (Utf8 t)" "fs (ee_path e) \<noteq> Some Folder"
    using assms by (auto simp: entries_ok_def)
  then show ?thesis by (simp add: undo_entry_def no_failure_def write_node_def Let_def)
qed

lemma entries_ok_undone:
  assumes "entries_ok w sid (e # es) fs" and "distinct (map ee_snapshot (e # es))"
  shows "entries_ok w sid es
    (fs(ee_path e := fs (session_file w sid (ee_snapshot e)), session_file w sid (ee_snapshot e) := None))"
    (is "entries_ok w sid es ?fs")
  unfolding entries_ok_def
proof (intro ballI conjI)
  fix d
  assume d: "d \<in> set es"
  then obtain j y t where dk: "ee_snapshot d = snapshot_name j y"
      "fs (session_file w sid (ee_snapshot d)) = Some (Utf8 t)"
      "\<not> session_path w sid (ee_path d)" "fs (ee_path d) \<noteq> Some Folder"
    using assms(1) by (auto simp: entries_ok_def)
  obtain k x where e: "ee_snapshot e = snapshot_name k x" "\<not> session_path w sid (ee_path e)"
    using assms(1) by (auto simp: entries_ok_def)
  have "ee_snapshot d \<noteq> ee_snapshot e" using assms(2) d by (auto simp: image_iff)
  then have ne: "session_file w sid (ee_snapshot d) \<noteq> session_file w sid (ee_snapshot e)"
    by (simp add: dk(1) e(1) session_files)
  have out: "session_file w sid (ee_snapshot d) \<noteq> ee_path e"
    using e(2) session_path_files(1) [of w sid j y] by (auto simp: dk(1))
  show "\<exists>k x. ee_snapshot d = snapshot_name k x" using dk(1) by blast
  show "\<exists>t. ?fs (session_file w sid (ee_snapshot d)) = Some (Utf8 t)" using dk(2) ne out by auto
  show "\<not> session_path w sid (ee_path d)" by (rule dk(3))
  show "?fs (ee_path d) \<noteq> Some Folder" using dk(4) assms(1) by (auto simp: entries_ok_def)
qed

lemma undo_rows_restores:
  assumes "entries_ok w sid es fs" and "distinct (map ee_snapshot es)"
  shows "\<exists>fs'. undo_rows w sid no_failure (map Row es) restored fs = (Inr (restored @ map ee_path es), fs') \<and>
    (\<forall>q. \<not> session_path w sid q \<longrightarrow> fs' q = undo_files (\<lambda>name. fs (session_file w sid name)) es fs q)"
  using assms
proof (induction es arbitrary: restored fs)
  case (Cons e es)
  let ?s = "session_file w sid (ee_snapshot e)"
  let ?fs = "fs(ee_path e := fs ?s, ?s := None)"
  have s: "session_path w sid ?s" "\<not> session_path w sid (ee_path e)"
    using Cons.prems(1) session_path_files by (auto simp: entries_ok_def)
  have snap: "?fs (session_file w sid (ee_snapshot e')) = fs (session_file w sid (ee_snapshot e'))"
    if e': "e' \<in> set es" for e'
  proof -
    obtain k x k' x' where n: "ee_snapshot e = snapshot_name k x" "ee_snapshot e' = snapshot_name k' x'"
      using Cons.prems(1) e' by (auto simp: entries_ok_def)
    have "ee_snapshot e' \<noteq> ee_snapshot e" using Cons.prems(2) e' by (auto simp: image_iff)
    then show ?thesis
      using s session_path_files(1) [of w sid k' x'] by (auto simp: n session_files)
  qed
  have "entries_ok w sid es ?fs" by (rule entries_ok_undone [OF Cons.prems])
  moreover have "distinct (map ee_snapshot es)" using Cons.prems(2) by simp
  ultimately have "\<exists>fs'. undo_rows w sid no_failure (map Row es) (restored @ [ee_path e]) ?fs =
        (Inr ((restored @ [ee_path e]) @ map ee_path es), fs') \<and>
      (\<forall>q. \<not> session_path w sid q \<longrightarrow> fs' q = undo_files (\<lambda>name. ?fs (session_file w sid name)) es ?fs q)"
    by (rule Cons.IH)
  then obtain fs' where
    u: "undo_rows w sid no_failure (map Row es) (restored @ [ee_path e]) ?fs =
        (Inr ((restored @ [ee_path e]) @ map ee_path es), fs')"
      "\<forall>q. \<not> session_path w sid q \<longrightarrow>
        fs' q = undo_files (\<lambda>name. ?fs (session_file w sid name)) es ?fs q" by blast
  have "undo_files (\<lambda>name. ?fs (session_file w sid name)) es ?fs q =
      undo_files (\<lambda>name. fs (session_file w sid name)) (e # es) fs q" if "\<not> session_path w sid q" for q
    unfolding undo_files.simps by (rule undo_files_cong) (use snap s that in auto)
  then show ?case using u undo_entry_step [OF Cons.prems(1)] by simp
qed simp

text \<open>What the edits of a session keep: undoing its entries gives the files it began with.\<close>

definition session_inv :: "patch_world \<Rightarrow> string \<Rightarrow> file_map \<Rightarrow> file_map \<Rightarrow> bool" where
  "session_inv w sid start fs \<longleftrightarrow>
     (\<exists>es. load_rows w sid True fs = Inr (map Row es) \<and>
        (\<forall>k < length es. \<exists>x. ee_snapshot (es ! k) = snapshot_name (k + 1) x) \<and> entries_ok w sid es fs \<and>
        (\<forall>q. \<not> session_path w sid q \<longrightarrow>
          undo_files (\<lambda>name. fs (session_file w sid name)) (rev es) fs q = start q))"

lemma kept_snapshot:
  assumes "old_snapshots_kept w sid fs fs'" and "load_rows w sid True fs = Inr (map Row es)"
    and "\<forall>k < length es. \<exists>x. ee_snapshot (es ! k) = snapshot_name (k + 1) x" and "e \<in> set es"
  shows "fs' (session_file w sid (ee_snapshot e)) = fs (session_file w sid (ee_snapshot e))"
proof -
  obtain k where k: "k < length es" "es ! k = e" using assms(4) by (auto simp: in_set_conv_nth)
  then obtain x where x: "ee_snapshot e = snapshot_name (k + 1) x" using assms(3) by auto
  show ?thesis
    using assms(1)[unfolded old_snapshots_kept_def, rule_format, OF assms(2), of "k + 1" x] k by (simp add: x)
qed

lemma session_inv_step:
  assumes inv: "session_inv w sid start fs" and run: "run_edit w sid e io fs = (res, fs')"
    and "\<And>p. pw_resolve w (pw_resolve w p) = pw_resolve w p"
    and "\<And>rows. pw_load w (pw_dump w rows) = Some rows"
    and out: "\<not> session_path w sid (pw_resolve w (edit_path e))" and io: "io_rows io \<in> {Written, Refused}"
  shows "session_inv w sid start fs'"
proof -
  obtain es where es: "load_rows w sid True fs = Inr (map Row es)"
      "\<forall>k < length es. \<exists>x. ee_snapshot (es ! k) = snapshot_name (k + 1) x" "entries_ok w sid es fs"
      "\<And>q. \<not> session_path w sid q \<Longrightarrow> undo_files (\<lambda>name. fs (session_file w sid name)) (rev es) fs q = start q"
    using inv by (auto simp: session_inv_def)
  show ?thesis
  proof (cases rule: edit_cases [OF run assms(3,4) out, case_names unchanged unrecorded recorded])
    case unchanged
    then show ?thesis using inv by simp
  next
    case unrecorded
    have snap: "fs' (session_file w sid (ee_snapshot e)) = fs (session_file w sid (ee_snapshot e))" if "e \<in> set es" for e
      by (rule kept_snapshot [OF unrecorded(4) es(1,2) that])
    have "undo_files (\<lambda>name. fs' (session_file w sid name)) (rev es) fs' q = start q" if "\<not> session_path w sid q" for q
      using undo_files_cong [of "rev es" "\<lambda>name. fs' (session_file w sid name)"
          "\<lambda>name. fs (session_file w sid name)" fs' q fs] snap unrecorded(2) es(4) that by simp
    moreover have "entries_ok w sid es fs'" using es(3) snap unrecorded(2) by (simp add: entries_ok_def)
    ultimately show ?thesis using unrecorded(3) io es(1,2) by (auto simp: session_inv_def)
  next
    case (recorded old new)
    let ?t = "pw_resolve w (edit_path e)"
    let ?n = "\<lparr>ee_n = length es + 1, ee_path = ?t, ee_snapshot = snapshot_name (length es + 1) (path_name ?t)\<rparr>"
    have snap: "fs' (session_file w sid (ee_snapshot e)) = fs (session_file w sid (ee_snapshot e))" if "e \<in> set es" for e
      by (rule kept_snapshot [OF recorded(5) es(1,2) that])
    have rows: "load_rows w sid True fs' = Inr (map Row (es @ [?n]))"
        and new: "fs' (session_file w sid (ee_snapshot ?n)) = Some (Utf8 old)"
      using recorded(4) by (auto simp: entry_recorded_def es(1) new_row_def split: sum.splits)
    have names: "\<forall>k < length (es @ [?n]). \<exists>x. ee_snapshot ((es @ [?n]) ! k) = snapshot_name (k + 1) x"
      using es(2) by (auto simp: nth_append less_Suc_eq)
    have t: "fs' ?t \<noteq> Some Folder" using recorded(7) by auto
    have "entries_ok w sid (es @ [?n]) fs'"
      unfolding entries_ok_def
    proof
      fix d
      assume "d \<in> set (es @ [?n])"
      then show "(\<exists>k x. ee_snapshot d = snapshot_name k x) \<and>
          (\<exists>t. fs' (session_file w sid (ee_snapshot d)) = Some (Utf8 t)) \<and>
          \<not> session_path w sid (ee_path d) \<and> fs' (ee_path d) \<noteq> Some Folder"
      proof (cases "d = ?n")
        case False
        then have d: "d \<in> set es" using \<open>d \<in> set (es @ [?n])\<close> by simp
        then have "fs' (ee_path d) \<noteq> Some Folder"
          using es(3) t recorded(6) [of "ee_path d"] by (cases "ee_path d = ?t") (auto simp: entries_ok_def)
        then show ?thesis using es(3) snap d by (simp add: entries_ok_def)
      qed (use new out t in auto)
    qed
    moreover have "undo_files (\<lambda>name. fs' (session_file w sid name)) (rev (es @ [?n])) fs' q = start q"
      if q: "\<not> session_path w sid q" for q
    proof -
      have "(fs'(?t := Some (Utf8 old))) q = fs q" using recorded(2,6) q by simp
      then show ?thesis
        using undo_files_cong [of "rev es" "\<lambda>name. fs' (session_file w sid name)"
            "\<lambda>name. fs (session_file w sid name)" "fs'(?t := Some (Utf8 old))" q fs] snap es(4) q new
        by simp
    qed
    ultimately show ?thesis using rows names unfolding session_inv_def by blast
  qed
qed

lemma session_inv_rollback:
  assumes "session_inv w sid start fs" and "fs (session_file w sid ''session.json'') \<noteq> None"
  shows "\<exists>restored fs'. rollback w sid no_failure fs = (Inr restored, fs') \<and>
    (\<forall>q. \<not> session_path w sid q \<longrightarrow> fs' q = start q)"
proof -
  obtain es where es: "load_rows w sid True fs = Inr (map Row es)"
      "\<forall>k < length es. \<exists>x. ee_snapshot (es ! k) = snapshot_name (k + 1) x" "entries_ok w sid es fs"
      "\<And>q. \<not> session_path w sid q \<Longrightarrow> undo_files (\<lambda>name. fs (session_file w sid name)) (rev es) fs q = start q"
    using assms(1) by (auto simp: session_inv_def)
  have "distinct (map ee_snapshot es)"
    unfolding distinct_conv_nth
  proof (intro allI impI, rule notI)
    fix i k
    assume ik: "i < length (map ee_snapshot es)" "k < length (map ee_snapshot es)" "i \<noteq> k"
      "map ee_snapshot es ! i = map ee_snapshot es ! k"
    then obtain p q where "snapshot_name (i + 1) p = snapshot_name (k + 1) q"
      using es(2) by (auto simp: nth_map) metis
    then show False using snapshot_name_inject ik(3) by fastforce
  qed
  then have d: "distinct (map ee_snapshot (rev es))" by (simp add: rev_map [symmetric])
  have ok: "entries_ok w sid (rev es) fs" using es(3) by (simp add: entries_ok_def)
  obtain fs' where u: "undo_rows w sid no_failure (map Row (rev es)) [] fs = (Inr ([] @ map ee_path (rev es)), fs')"
      "\<forall>q. \<not> session_path w sid q \<longrightarrow> fs' q = undo_files (\<lambda>name. fs (session_file w sid name)) (rev es) fs q"
    using undo_rows_restores [OF ok d, of "[]"] by blast
  have "ui_read no_failure (session_file w sid ''session.json'')" by (simp add: no_failure_def)
  then have "rollback w sid no_failure fs = (Inr (map ee_path (rev es)), fs')"
    using u(1) assms(2) es(1) by (simp add: rollback_def Let_def rev_map [symmetric])
  then show ?thesis using u(2) es(4) by auto
qed

text \<open>
  What the runs of edits below assume: the targets lie outside the session's directory, and no
  writing of the list of edits is broken off in the middle.  Everything else may fail.
\<close>

definition plain_edits :: "patch_world \<Rightarrow> string \<Rightarrow> (edit \<times> edit_io) list \<Rightarrow> bool" where
  "plain_edits w sid es \<longleftrightarrow>
     list_all (\<lambda>(e, io). \<not> session_path w sid (pw_resolve w (edit_path e)) \<and> io_rows io \<in> {Written, Refused}) es"

lemma session_inv_run:
  assumes "session_inv w sid start fs" and "plain_edits w sid es"
    and "\<And>p. pw_resolve w (pw_resolve w p) = pw_resolve w p"
    and "\<And>rows. pw_load w (pw_dump w rows) = Some rows"
  shows "session_inv w sid start (run_edits w sid es fs)"
  using assms(1,2)
proof (induction es arbitrary: fs)
  case (Cons x es)
  obtain e io where x: "x = (e, io)" by (cases x)
  obtain res fs' where r: "run_edit w sid e io fs = (res, fs')" by (metis surj_pair)
  have "session_inv w sid start fs'"
    using Cons.prems by (intro session_inv_step [OF _ r assms(3,4)]) (simp_all add: plain_edits_def x)
  then have "session_inv w sid start (run_edits w sid es fs')"
    using Cons.prems(2) by (intro Cons.IH) (simp_all add: plain_edits_def)
  then show ?case by (simp add: run_edits_def x r)
qed (simp add: run_edits_def)

lemma session_inv_start:
  "fs (session_file w sid ''session.json'') = None \<Longrightarrow> session_inv w sid fs fs"
  unfolding session_inv_def by (rule exI [of _ "[]"]) (simp add: load_rows_def entries_ok_def)

text \<open>
  C17: In a session that starts without a list of edits, whatever edits are run, whether they
  succeed, preview, are rejected or break off because a file cannot be read or written, a
  \<open>rollback\<close> for which the disk does what it is asked succeeds and gives every file outside
  the session's directory the content it had when the session began; if no edit got as far as
  the list of edits, there is no session to roll back and those files are as they were.  The
  targets must lie outside the session's directory, and the list of edits must not be broken
  off while it is written.
\<close>
theorem rollback_restores:
  assumes "fs (session_file w sid ''session.json'') = None" and "plain_edits w sid es"
    and "\<And>p. pw_resolve w (pw_resolve w p) = pw_resolve w p"
    and "\<And>rows. pw_load w (pw_dump w rows) = Some rows"
  shows "(run_edits w sid es fs (session_file w sid ''session.json'') = None \<and>
      (\<forall>q. \<not> session_path w sid q \<longrightarrow> run_edits w sid es fs q = fs q)) \<or>
    (\<exists>restored fs'. rollback w sid no_failure (run_edits w sid es fs) = (Inr restored, fs') \<and>
      (\<forall>q. \<not> session_path w sid q \<longrightarrow> fs' q = fs q))"
proof -
  have inv: "session_inv w sid fs (run_edits w sid es fs)"
    by (rule session_inv_run [OF session_inv_start [where fs = fs, OF assms(1)] assms(2,3,4)])
  show ?thesis
  proof (cases "run_edits w sid es fs (session_file w sid ''session.json'') = None")
    case True
    then show ?thesis using inv by (auto simp: session_inv_def load_rows_def)
  qed (use session_inv_rollback [OF inv] in blast)
qed

section \<open>When a rollback stops\<close>

text \<open>
  The entry of an edit is written before its target is, so an edit that fails because its
  target cannot be written leaves an entry whose target cannot be written either.  A rollback
  begins with it and raises: no earlier edit of the session is undone.
\<close>
theorem refused_target_stops_rollback:
  assumes "load_rows w sid True fs = Inr (rows @ [Row e])"
    and "ui_write ui (ee_path e) = Refused" and "ui_read ui = (\<lambda>p. True)"
    and "fs (session_file w sid (ee_snapshot e)) = Some (Utf8 t)"
  shows "rollback w sid ui fs = (Inl OsError, fs)"
proof -
  have "fs (session_file w sid ''session.json'') \<noteq> None"
    using assms(1) by (auto simp: load_rows_def split: option.splits)
  then show ?thesis
    using assms by (simp add: rollback_def Let_def undo_entry_def write_node_def)
qed

text \<open>
  A list of edits that was broken off while it was written is no JSON: the session takes no
  further edit and cannot be rolled back.
\<close>
theorem damaged_list_ends_session:
  assumes "fs (session_file w sid ''session.json'') = Some (Utf8 t)" and "pw_load w t = None"
    and "\<And>q. ui_read ui q"
  shows "rollback w sid ui fs = (Inl NotJson, fs)"
    and "fst (take_snapshot w p sid io fs) \<noteq> Inr name"
proof -
  show "rollback w sid ui fs = (Inl NotJson, fs)"
    using assms by (simp add: rollback_def Let_def load_rows_def)
  show "fst (take_snapshot w p sid io fs) \<noteq> Inr name"
  proof
  assume name: "fst (take_snapshot w p sid io fs) = Inr name"
  obtain out fs' where s: "take_snapshot w p sid io fs = (out, fs')" by (metis surj_pair)
  have o: "out = Inr name" using name s by simp
  from s [unfolded take_snapshot_def] show False
  proof (cases rule: then_step_cases)
    case (went_on y s1)
    from went_on(2) [unfolded case_prod_unfold] show ?thesis
    proof (cases rule: then_step_cases)
      case r: (went_on u s2)
      have "s2 (session_file w sid ''session.json'') = Some (Utf8 t)"
        using make_dirs_effect [OF r(1)] went_on(1) assms(1) by (metis Pair_inject option.distinct(1))
      then have "load_rows w sid (io_load io) s2 = Inl NotJson \<or> load_rows w sid (io_load io) s2 = Inl OsError"
        using assms(2) by (simp add: load_rows_def)
      then show ?thesis using r(2) o by auto
    qed (use o in simp)
  qed (use o in simp)
  qed
qed

lemma undo_rows_removes:
  assumes "entries_ok w sid l fs" and "distinct (map ee_snapshot l)"
  shows "\<exists>restored fs'. undo_rows w sid no_failure (map Row l) out fs = (Inr restored, fs') \<and>
    fs' (session_file w sid ''session.json'') = fs (session_file w sid ''session.json'') \<and>
    (\<forall>k x. fs (session_file w sid (snapshot_name k x)) = None \<longrightarrow>
      fs' (session_file w sid (snapshot_name k x)) = None) \<and>
    (\<forall>e \<in> set l. fs' (session_file w sid (ee_snapshot e)) = None)"
  using assms
proof (induction l arbitrary: out fs)
  case (Cons e l)
  let ?s = "session_file w sid (ee_snapshot e)" and ?j = "session_file w sid ''session.json''"
  let ?fs = "fs(ee_path e := fs ?s, ?s := None)"
  obtain k x where e: "ee_snapshot e = snapshot_name k x" "\<not> session_path w sid (ee_path e)"
    using Cons.prems(1) by (auto simp: entries_ok_def)
  have "distinct (map ee_snapshot l)" using Cons.prems(2) by simp
  with entries_ok_undone [OF Cons.prems] have "\<exists>restored fs'.
      undo_rows w sid no_failure (map Row l) (out @ [ee_path e]) ?fs = (Inr restored, fs') \<and>
      fs' ?j = ?fs ?j \<and>
      (\<forall>k x. ?fs (session_file w sid (snapshot_name k x)) = None \<longrightarrow>
        fs' (session_file w sid (snapshot_name k x)) = None) \<and>
      (\<forall>e \<in> set l. fs' (session_file w sid (ee_snapshot e)) = None)"
    by (rule Cons.IH)
  then obtain restored fs' where u:
    "undo_rows w sid no_failure (map Row l) (out @ [ee_path e]) ?fs = (Inr restored, fs')" "fs' ?j = ?fs ?j"
    "\<And>k x. ?fs (session_file w sid (snapshot_name k x)) = None \<Longrightarrow> fs' (session_file w sid (snapshot_name k x)) = None"
    "\<forall>e \<in> set l. fs' (session_file w sid (ee_snapshot e)) = None" by blast
  have "?j \<noteq> ee_path e" using e(2) session_path_files(2) [of w sid] by auto
  then have j: "?fs ?j = fs ?j" by (simp add: e(1) session_paths)
  have s: "fs' (session_file w sid (snapshot_name k' x')) = None"
    if "fs (session_file w sid (snapshot_name k' x')) = None" for k' x'
    by (rule u(3)) (use that e(2) session_path_files(1) [of w sid k' x'] in auto)
  have "fs' ?s = None" using u(3) [of k x] by (simp add: e(1))
  moreover have "undo_rows w sid no_failure (map Row (e # l)) out fs = (Inr restored, fs')"
    using u(1) undo_entry_step [OF Cons.prems(1)] by simp
  ultimately show ?case using u(2,4) j s by auto
qed simp

text \<open>
  A session can be rolled back once: the entries stay in \<open>session.json\<close> while their snapshots
  are deleted, so every later rollback of the session raises before it restores anything
  recorded by then.
\<close>
theorem rollback_only_once:
  assumes "load_rows w sid True fs = Inr (map Row es)" and "es \<noteq> []" and "entries_ok w sid es fs"
    and "distinct (map ee_snapshot es)"
  shows "\<exists>restored fs' name. rollback w sid no_failure fs = (Inr restored, fs') \<and>
    rollback w sid no_failure fs' = (Inl (FileNotFound name), fs')"
proof -
  let ?j = "session_file w sid ''session.json''"
  have "entries_ok w sid (rev es) fs" "distinct (map ee_snapshot (rev es))"
    using assms(3,4) by (simp_all add: entries_ok_def rev_map [symmetric])
  from undo_rows_removes [OF this, of "[]"] obtain restored fs' where u:
    "undo_rows w sid no_failure (map Row (rev es)) [] fs = (Inr restored, fs')" "fs' ?j = fs ?j"
    "\<forall>e \<in> set es. fs' (session_file w sid (ee_snapshot e)) = None" by auto
  have load: "load_rows w sid True fs' = Inr (map Row es)" using assms(1) load_rows_cong [where fs = fs and fs' = fs', OF u(2)] by simp
  have j: "fs ?j \<noteq> None" "fs' ?j \<noteq> None" using assms(1,2) u(2) by (auto simp: load_rows_def split: option.splits)
  have r: "ui_read no_failure ?j" by (simp add: no_failure_def)
  obtain e l where l: "rev es = e # l" using assms(2) by (cases "rev es") auto
  then have "e \<in> set es" by (metis list.set_intros(1) set_rev)
  then have "rollback w sid no_failure fs' = (Inl (FileNotFound (session_file w sid (ee_snapshot e))), fs')"
    using u(3) j load r l by (auto simp: rollback_def Let_def rev_map [symmetric] undo_entry_def)
  moreover have "rollback w sid no_failure fs = (Inr restored, fs')"
    using u(1) j assms(1) r by (simp add: rollback_def Let_def rev_map [symmetric])
  ultimately show ?thesis by blast
qed

end
