(* ===== verification/Patch_Examples.thy ===== *)
theory Patch_Examples
  imports Patch_Ops
begin

text \<open>The properties of the patch primitives on small files, and a difference that is applied wrongly.\<close>

definition lines_of :: "string list \<Rightarrow> string" where
  "lines_of ls = concat (map (\<lambda>l. l @ [LF]) ls)"

theorem difference_round_trip_witness:
  "apply_text ''/w/f'' (lines_of [''a'', ''b'']) (diff_text (lines_of [''a'', ''b'']) (lines_of [''a''] @ ''c'') ''/w/f'') =
   Inr (lines_of [''a''] @ ''c'')"
proof (rule difference_round_trip)
  show "text_ok (lines_of [''a'', ''b''])" "text_ok (lines_of [''a''] @ ''c'')" "name_ok (path_name ''/w/f'')"
    "lines_of [''a'', ''b''] \<noteq> lines_of [''a''] @ ''c''"
    by code_simp+
  show "list_all keeps_length (butlast (grouped_opcodes 3 (splitlines_keep (lines_of [''a'', ''b'']))
      (splitlines_keep (lines_of [''a''] @ ''c''))))"
    by code_simp
qed

section \<open>Hunks after one that changes the number of lines\<close>

definition long_old :: "string list" where
  "long_old = [''a'', ''b'', ''c'', ''d'', ''e'', ''f'', ''g'', ''h'', ''i'']"

definition long_new :: "string list" where
  "long_new = [''a'', ''x'', ''b'', ''c'', ''d'', ''e'', ''f'', ''g'', ''h'', ''j'']"

definition long_difference :: "string list" where
  "long_difference =
     [''--- f'', ''+++ f'', ''@@ -1,4 +1,5 @@'', '' a'', ''+x'', '' b'', '' c'', '' d'',
      ''@@ -6,4 +7,4 @@'', '' f'', '' g'', '' h'', ''-i'', ''+j'']"

lemma long_difference: "diff_text (lines_of long_old) (lines_of long_new) ''/w/f'' = lines_of long_difference"
  by code_simp

text \<open>
  A difference of two hunks, the first of which inserts a line, is accepted and applied to
  the wrong lines: the second hunk is written at the line numbers of the old file into the list
  that already holds the inserted line.  The line before the second hunk is lost and the line the
  hunk deletes stays, in a file that \<open>apply_difference\<close> reports as applied.
\<close>
theorem later_hunk_misplaced:
  "apply_text ''/w/f'' (lines_of long_old) (diff_text (lines_of long_old) (lines_of long_new) ''/w/f'') =
     Inr (lines_of [''a'', ''x'', ''b'', ''c'', ''d'', ''f'', ''g'', ''h'', ''j'', ''i'']) \<and>
   lines_of [''a'', ''x'', ''b'', ''c'', ''d'', ''f'', ''g'', ''h'', ''j'', ''i''] \<noteq> lines_of long_new"
  unfolding long_difference by code_simp

section \<open>Files\<close>

theorem anchor_replaced_witness:
  "\<exists>ps. length ps = 2 \<and> ''ab'' = join_with ''a'' ps \<and> ''cb'' = join_with ''c'' ps"
proof -
  have "replace_text ''ab'' ''a'' ''c'' 1 = Inr ''cb''" by code_simp
  from anchor_replaced [OF this] obtain ps where
    "length ps = 1 + 1" "''ab'' = join_with ''a'' ps" "''cb'' = join_with ''c'' ps" by auto
  then show ?thesis by (intro exI [of _ ps]) simp
qed

text \<open>
  A list of edits written as text: every string with its length in front of it, in unary.
\<close>

definition put_string :: "string \<Rightarrow> string" where
  "put_string s = replicate (length s) CHR ''1'' @ CHR ''0'' # s"

definition get_string :: "string \<Rightarrow> string \<times> string" where
  "get_string t =
     (let n = length (takeWhile (\<lambda>c. c = CHR ''1'') t); r = drop (n + 1) t in (take n r, drop n r))"

lemma get_put_string: "get_string (put_string s @ t) = (s, t)"
proof -
  have "takeWhile (\<lambda>c. c = CHR ''1'') (replicate n CHR ''1'' @ CHR ''0'' # r) = replicate n CHR ''1''" for n r
    by (induction n) simp_all
  then show ?thesis by (simp add: get_string_def put_string_def Let_def)
qed

fun put_row :: "session_row \<Rightarrow> string" where
  "put_row (Row e) =
     CHR ''e'' # put_string (replicate (ee_n e) CHR ''n'') @ put_string (ee_path e) @ put_string (ee_snapshot e)"
| "put_row (OtherRow v) = CHR ''o'' # put_string v"

fun get_rows :: "nat \<Rightarrow> string \<Rightarrow> session_row list option" where
  "get_rows 0 t = Some []"
| "get_rows (Suc k) (c # t) =
     (if c = CHR ''e''
      then (let (n, t1) = get_string t; (p, t2) = get_string t1; (s, t3) = get_string t2
            in map_option ((#) (Row \<lparr>ee_n = length n, ee_path = p, ee_snapshot = s\<rparr>)) (get_rows k t3))
      else if c = CHR ''o'' then (let (v, t1) = get_string t in map_option ((#) (OtherRow v)) (get_rows k t1))
      else None)"
| "get_rows (Suc k) [] = None"

definition demo_dump :: "session_row list \<Rightarrow> string" where
  "demo_dump rows = put_string (replicate (length rows) CHR ''r'') @ concat (map put_row rows)"

definition demo_load :: "string \<Rightarrow> session_row list option" where
  "demo_load t = (let (n, r) = get_string t in get_rows (length n) r)"

lemma get_put_row: "get_rows (Suc k) (put_row row @ t) = map_option ((#) row) (get_rows k t)"
proof (cases row)
  case (Row e)
  then show ?thesis by (cases e) (simp add: get_put_string)
qed (simp add: get_put_string)

lemma demo_load_dump: "demo_load (demo_dump rows) = Some rows"
proof -
  have "get_rows (length rows) (concat (map put_row rows)) = Some rows"
    by (induction rows) (simp_all add: get_put_row del: get_rows.simps(2) put_row.simps)
  then show ?thesis by (simp add: demo_load_def demo_dump_def get_put_string)
qed

definition patch_demo_world :: patch_world where
  "patch_demo_world =
     \<lparr>pw_resolve = (\<lambda>p. p), pw_trimum = (\<lambda>sub. ''/t/'' @ sub), pw_session = (\<lambda>sid. ''/t/sessions/'' @ sid),
      pw_dump = demo_dump, pw_load = demo_load\<rparr>"

definition patch_demo_files :: file_map where
  "patch_demo_files = [''/w/f'' \<mapsto> Utf8 ''ab'', ''/w/g'' \<mapsto> Utf8 ''ab'', ''/t'' \<mapsto> Folder]"

definition demo_edit :: edit where
  "demo_edit = ReplaceAnchor ''/w/f'' ''a'' ''c'' 1 False"

text \<open>The second edit fails when a part of the target is written.\<close>

definition second_edit :: edit where
  "second_edit = ReplaceAnchor ''/w/g'' ''b'' ''d'' 1 False"

definition fine_io :: edit_io where
  "fine_io = \<lparr>io_read = True, io_copy = True, io_load = True, io_dir = (\<lambda>d. True), io_snapshot = Written,
     io_rows = Written, io_target = Written\<rparr>"

lemma patch_demo_laws:
  "pw_resolve patch_demo_world (pw_resolve patch_demo_world p) = pw_resolve patch_demo_world p"
  "pw_load patch_demo_world (pw_dump patch_demo_world rows) = Some rows"
  by (simp_all add: patch_demo_world_def demo_load_dump)

definition demo_edits :: "(edit \<times> edit_io) list" where
  "demo_edits = [(demo_edit, fine_io), (second_edit, fine_io\<lparr>io_target := CutText ''a''\<rparr>)]"

lemma demo_edits_plain: "plain_edits patch_demo_world ''s'' demo_edits"
  by code_simp

lemma demo_edits_run:
  "map (run_edits patch_demo_world ''s'' demo_edits patch_demo_files)
     [''/w/f'', ''/w/g'', ''/t/sessions/s'', ''/t/sessions/s/0001-f'', ''/t/sessions/s/0002-g''] =
   [Some (Utf8 ''cb''), Some (Utf8 ''a''), Some Folder, Some (Utf8 ''ab''), Some (Utf8 ''ab'')]"
  by code_simp

definition cut_io :: edit_io where
  "cut_io = fine_io\<lparr>io_target := CutText ''a''\<rparr>"

definition cut_files :: file_map where
  "cut_files = snd (run_edit patch_demo_world ''s'' second_edit cut_io patch_demo_files)"

lemma cut_edit_runs:
  "fst (run_edit patch_demo_world ''s'' second_edit cut_io patch_demo_files) = Inl OsError"
  "cut_files ''/w/g'' = Some (Utf8 ''a'')" "patch_demo_files ''/w/g'' = Some (Utf8 ''ab'')"
  by code_simp+

theorem edit_atomic_and_unprotected_witness:
  "entry_recorded patch_demo_world ''s'' ''/w/g'' ''ab'' patch_demo_files cut_files \<and>
   cut_files ''/w/f'' = patch_demo_files ''/w/f''"
proof -
  obtain res where run: "run_edit patch_demo_world ''s'' second_edit cut_io patch_demo_files = (res, cut_files)"
    unfolding cut_files_def by (metis prod.collapse)
  have t: "pw_resolve patch_demo_world (edit_path second_edit) = ''/w/g''"
    "\<not> session_path patch_demo_world ''s'' (pw_resolve patch_demo_world (edit_path second_edit))"
    "\<not> session_path patch_demo_world ''s'' ''/w/f''"
    by code_simp+
  from edit_atomic_and_unprotected [OF run patch_demo_laws t(2)] show ?thesis
    using t(3) by (simp add: t(1) cut_edit_runs)
qed

lemma demo_session_exists:
  "run_edits patch_demo_world ''s'' demo_edits patch_demo_files (session_file patch_demo_world ''s'' ''session.json'') \<noteq> None"
  by code_simp

theorem rollback_restores_witness:
  "\<exists>restored fs'. rollback patch_demo_world ''s'' no_failure
       (run_edits patch_demo_world ''s'' demo_edits patch_demo_files) = (Inr restored, fs') \<and>
     fs' ''/w/f'' = Some (Utf8 ''ab'') \<and> fs' ''/w/g'' = Some (Utf8 ''ab'')"
proof -
  have start: "patch_demo_files (session_file patch_demo_world ''s'' ''session.json'') = None" by code_simp
  have f: "\<not> session_path patch_demo_world ''s'' ''/w/f''" "\<not> session_path patch_demo_world ''s'' ''/w/g''"
    "patch_demo_files ''/w/f'' = Some (Utf8 ''ab'')" "patch_demo_files ''/w/g'' = Some (Utf8 ''ab'')"
    by code_simp+
  from rollback_restores [where fs = patch_demo_files, OF start demo_edits_plain patch_demo_laws] show ?thesis
    using demo_session_exists f by metis
qed

definition demo_entries :: "edit_entry list" where
  "demo_entries =
     [\<lparr>ee_n = 1, ee_path = ''/w/f'', ee_snapshot = ''0001-f''\<rparr>, \<lparr>ee_n = 2, ee_path = ''/w/g'', ee_snapshot = ''0002-g''\<rparr>]"

lemma demo_entries_loaded:
  "load_rows patch_demo_world ''s'' True (run_edits patch_demo_world ''s'' demo_edits patch_demo_files) =
   Inr (map Row demo_entries)"
  by code_simp

text \<open>After the second edit broke off, its target cannot be written: the first edit is not undone.\<close>

theorem refused_target_stops_rollback_witness:
  "\<exists>ui. rollback patch_demo_world ''s'' ui (run_edits patch_demo_world ''s'' demo_edits patch_demo_files) =
     (Inl OsError, run_edits patch_demo_world ''s'' demo_edits patch_demo_files) \<and>
   run_edits patch_demo_world ''s'' demo_edits patch_demo_files ''/w/f'' = Some (Utf8 ''cb'')"
proof -
  let ?fs = "run_edits patch_demo_world ''s'' demo_edits patch_demo_files"
  let ?e = "\<lparr>ee_n = 2, ee_path = ''/w/g'', ee_snapshot = ''0002-g''\<rparr>"
  let ?ui = "no_failure\<lparr>ui_write := (\<lambda>p. if p = ''/w/g'' then Refused else Written)\<rparr>"
  have l: "load_rows patch_demo_world ''s'' True ?fs = Inr ([Row (demo_entries ! 0)] @ [Row ?e])"
    using demo_entries_loaded by (simp add: demo_entries_def)
  have s: "?fs (session_file patch_demo_world ''s'' (ee_snapshot ?e)) = Some (Utf8 ''ab'')" by code_simp
  have "rollback patch_demo_world ''s'' ?ui ?fs = (Inl OsError, ?fs)"
    by (rule refused_target_stops_rollback [OF l _ _ s]) (simp_all add: no_failure_def)
  then show ?thesis using demo_edits_run by auto
qed

theorem rollback_only_once_witness:
  "\<exists>restored fs' name. rollback patch_demo_world ''s'' no_failure
       (run_edits patch_demo_world ''s'' demo_edits patch_demo_files) = (Inr restored, fs') \<and>
     rollback patch_demo_world ''s'' no_failure fs' = (Inl (FileNotFound name), fs')"
proof -
  let ?fs = "run_edits patch_demo_world ''s'' demo_edits patch_demo_files"
  have inv: "session_inv patch_demo_world ''s'' patch_demo_files ?fs"
    by (rule session_inv_run [OF session_inv_start demo_edits_plain patch_demo_laws]) code_simp
  then obtain es where es: "load_rows patch_demo_world ''s'' True ?fs = Inr (map Row es)"
      "entries_ok patch_demo_world ''s'' es ?fs" by (auto simp: session_inv_def)
  have "map Row es = map Row demo_entries" using es(1) demo_entries_loaded by simp
  then have "es = demo_entries" by (auto dest: map_inj_on [rotated] simp: inj_on_def)
  moreover have "demo_entries \<noteq> []" "distinct (map ee_snapshot demo_entries)" by code_simp+
  ultimately show ?thesis using rollback_only_once es by blast
qed

end
