(* ===== verification/Spec2Isabelle.thy ===== *)
theory Spec2Isabelle
  imports Llm_Policy Event_Bus Delegation Approvals Workflow_Sequential Workflow_Runtime_Props Tarl Audit_Log Gateway_Examples Sandbox_Examples Patch_Examples
begin

text \<open>Root of the development.\<close>

end
